(* ===== verification/Prelude.thy ===== *)
theory Prelude
  imports Main "HOL-Library.Sublist" "HOL-Library.List_Lexorder" "HOL-Library.Char_ord"
begin

text \<open>
  Shared vocabulary of the development.

  Go strings are byte sequences; they are modelled as \<^typ>\<open>string\<close> (lists of
  8-bit characters), and Go's string comparison is the lexicographic order of
  \<^theory_text>\<open>HOL-Library.List_Lexorder\<close> over the byte order of
  \<^theory_text>\<open>HOL-Library.Char_ord\<close>.  This theory holds the functions of Go's
  \<^verbatim>\<open>strings\<close> package the sources call, the generic lemmas about sorted key lists
  and prefixes that the storage and matching components share, and the collections
  (\<open>go_strings\<close>, \<open>store_specs\<close>) their proofs draw on.

  Case folding (\<open>ToLower\<close>, \<open>ToUpper\<close>, \<open>EqualFold\<close>) and \<open>TrimSpace\<close> are modelled on
  ASCII; bytes above 127 fold to themselves and are never white space.
\<close>

named_theorems go_strings \<open>unfolding rules for the string functions of the Go library\<close>
named_theorems store_specs \<open>what each storage operation returns and how it changes the store\<close>

section \<open>Go's strings package\<close>

definition HasPrefix :: "string \<Rightarrow> string \<Rightarrow> bool" where
  "HasPrefix s p \<longleftrightarrow> take (length p) s = p"

definition HasSuffix :: "string \<Rightarrow> string \<Rightarrow> bool" where
  "HasSuffix s p \<longleftrightarrow> length p \<le> length s \<and> drop (length s - length p) s = p"

definition TrimSuffix :: "string \<Rightarrow> string \<Rightarrow> string" where
  "TrimSuffix s p = (if HasSuffix s p then take (length s - length p) s else s)"

text \<open>\<open>strings.Index\<close>: the offset of the first occurrence, \<open>None\<close> for Go's \<open>-1\<close>.\<close>

fun str_index :: "string \<Rightarrow> string \<Rightarrow> nat option" where
  "str_index s sub =
     (if HasPrefix s sub then Some 0
      else (case s of [] \<Rightarrow> None | _ # t \<Rightarrow> map_option Suc (str_index t sub)))"

declare str_index.simps [simp del]

definition Contains :: "string \<Rightarrow> string \<Rightarrow> bool" where
  "Contains s sub \<longleftrightarrow> str_index s sub \<noteq> None"

definition ContainsAny :: "string \<Rightarrow> string \<Rightarrow> bool" where
  "ContainsAny s cs \<longleftrightarrow> list_ex (\<lambda>c. c \<in> set cs) s"

text \<open>\<open>strings.Cut\<close> at a single-byte separator: before, after, found.\<close>

fun Cut :: "string \<Rightarrow> char \<Rightarrow> string \<times> string \<times> bool" where
  "Cut [] c = ([], [], False)"
| "Cut (x # xs) c =
     (if x = c then ([], xs, True)
      else (let (b, a, f) = Cut xs c in (x # b, a, f)))"

definition lowerASCII :: "char \<Rightarrow> char" where
  "lowerASCII b = (if CHR ''A'' \<le> b \<and> b \<le> CHR ''Z'' then char_of (of_char b + 32 :: nat) else b)"

definition upperASCII :: "char \<Rightarrow> char" where
  "upperASCII b = (if CHR ''a'' \<le> b \<and> b \<le> CHR ''z'' then char_of (of_char b - 32 :: nat) else b)"

definition ToLower :: "string \<Rightarrow> string" where
  "ToLower s = map lowerASCII s"

definition ToUpper :: "string \<Rightarrow> string" where
  "ToUpper s = map upperASCII s"

definition EqualFold :: "string \<Rightarrow> string \<Rightarrow> bool" where
  "EqualFold s t \<longleftrightarrow> ToLower s = ToLower t"

definition is_space :: "char \<Rightarrow> bool" where
  "is_space c \<longleftrightarrow> c \<in> {CHR '' '', CHR 0x09, CHR 0x0A, CHR 0x0B, CHR 0x0C, CHR 0x0D}"

definition TrimSpace :: "string \<Rightarrow> string" where
  "TrimSpace s = rev (dropWhile is_space (rev (dropWhile is_space s)))"

text \<open>
  \<open>fmt\<close>'s \<^verbatim>\<open>%q\<close> (\<open>strconv.Quote\<close>) on ASCII; bytes above 127 are copied, as
  for the printable characters of a valid UTF-8 string.
\<close>

definition hex_digit :: "nat \<Rightarrow> char" where
  "hex_digit n = ''0123456789abcdef'' ! n"

definition quote_byte :: "char \<Rightarrow> string" where
  "quote_byte c =
     (if c = CHR 0x22 then [CHR 0x5C, CHR 0x22]
      else if c = CHR 0x5C then [CHR 0x5C, CHR 0x5C]
      else if c = CHR 0x07 then CHR 0x5C # ''a''
      else if c = CHR 0x08 then CHR 0x5C # ''b''
      else if c = CHR 0x0C then CHR 0x5C # ''f''
      else if c = CHR 0x0A then CHR 0x5C # ''n''
      else if c = CHR 0x0D then CHR 0x5C # ''r''
      else if c = CHR 0x09 then CHR 0x5C # ''t''
      else if c = CHR 0x0B then CHR 0x5C # ''v''
      else if c < CHR '' '' \<or> c = CHR 0x7F
      then CHR 0x5C # ''x'' @ [hex_digit (of_char c div 16), hex_digit (of_char c mod 16)]
      else [c])"

definition go_quote :: "string \<Rightarrow> string" where
  "go_quote s = CHR 0x22 # concat (map quote_byte s) @ [CHR 0x22]"

text \<open>\<open>fmt\<close>'s \<^verbatim>\<open>%d\<close>.\<close>

fun show_nat :: "nat \<Rightarrow> string" where
  "show_nat n = (if n < 10 then [char_of (48 + n)] else show_nat (n div 10) @ [char_of (48 + n mod 10)])"

declare show_nat.simps [simp del]

definition show_int :: "int \<Rightarrow> string" where
  "show_int i = (if i < 0 then CHR ''-'' # show_nat (nat (- i)) else show_nat (nat i))"

text \<open>The same digits from binary integers, for evaluation.\<close>

function show_digits :: "int \<Rightarrow> string" where
  "show_digits i = (if i < 10 then [char_of (48 + nat i)] else show_digits (i div 10) @ [char_of (48 + nat (i mod 10))])"
  by pat_completeness auto
termination
  by (relation "measure nat") auto

declare show_digits.simps [simp del]

lemma show_digits_nat: "0 \<le> i \<Longrightarrow> show_digits i = show_nat (nat i)"
proof (induction i rule: show_digits.induct)
  case (1 i)
  have "nat (i div 10) = nat i div 10" "nat (i mod 10) = nat i mod 10"
    "0 \<le> i div 10"
    using 1(2) by (simp_all add: nat_div_distrib nat_mod_distrib)
  with 1 show ?case
    by (subst show_digits.simps, subst show_nat.simps) (auto simp: not_less)
qed

lemma show_int_code [code]:
  "show_int i = (if i < 0 then CHR ''-'' # show_digits (- i) else show_digits i)"
  by (simp add: show_int_def show_digits_nat)

text \<open>The value of an integer expression in 64-bit two's complement.\<close>

definition wrap64 :: "int \<Rightarrow> int" where
  "wrap64 x = (x + 9223372036854775808) mod 18446744073709551616 - 9223372036854775808"

text \<open>\<^verbatim>\<open>strconv.Atoi\<close>: an optional sign and decimal digits, within 64 bits.\<close>

definition digit_value :: "char \<Rightarrow> int option" where
  "digit_value c = (let n = of_char c :: nat in if 48 \<le> n \<and> n \<le> 57 then Some (int n - 48) else None)"

fun digits_value :: "int \<Rightarrow> string \<Rightarrow> int option" where
  "digits_value acc [] = Some acc"
| "digits_value acc (c # cs) =
     (case digit_value c of None \<Rightarrow> None | Some d \<Rightarrow> digits_value (acc * 10 + d) cs)"

definition Atoi :: "string \<Rightarrow> int option" where
  "Atoi s =
     (let (neg, ds) = (case s of
            c # cs \<Rightarrow> if c = CHR ''-'' then (True, cs) else if c = CHR ''+'' then (False, cs) else (False, s)
          | [] \<Rightarrow> (False, []))
      in if ds = [] then None
         else (case digits_value 0 ds of
            None \<Rightarrow> None
          | Some n \<Rightarrow>
              let v = (if neg then - n else n) in
              if - 9223372036854775808 \<le> v \<and> v \<le> 9223372036854775807 then Some v else None))"

lemma wrap64_id: "- 9223372036854775808 \<le> x \<Longrightarrow> x \<le> 9223372036854775807 \<Longrightarrow> wrap64 x = x"
  by (simp add: wrap64_def)

lemma of_char_lowerASCII:
  "(of_char (lowerASCII b) :: nat) =
     (if 65 \<le> (of_char b :: nat) \<and> (of_char b :: nat) \<le> 90 then of_char b + 32 else of_char b)"
  by (simp add: lowerASCII_def less_eq_char_def)

lemma of_char_nat_inject: "(of_char a :: nat) = of_char b \<longleftrightarrow> a = b"
  by simp

lemma HasPrefix_iff_prefix: "HasPrefix s p \<longleftrightarrow> prefix p s"
  by (metis HasPrefix_def append_take_drop_id prefix_def append_eq_conv_conj)

lemma HasPrefix_Nil [simp]: "HasPrefix s []"
  by (simp add: HasPrefix_def)

lemma HasPrefix_append [simp]: "HasPrefix (p @ s) p"
  by (simp add: HasPrefix_def)

lemma HasSuffix_append [simp]: "HasSuffix (s @ p) p"
  by (simp add: HasSuffix_def)

lemma EqualFold_refl [simp]: "EqualFold s s"
  by (simp add: EqualFold_def)

lemma EqualFold_sym: "EqualFold s t \<longleftrightarrow> EqualFold t s"
  by (auto simp: EqualFold_def)

lemma Cut_spec:
  "Cut s c = (b, a, f) \<Longrightarrow>
     c \<notin> set b \<and> (f \<longrightarrow> s = b @ c # a) \<and> (\<not> f \<longrightarrow> s = b \<and> a = [])"
  by (induction s c arbitrary: b a f rule: Cut.induct) (auto split: if_splits prod.splits)

lemma Cut_length: "Cut s c = (b, a, True) \<Longrightarrow> length a < length s"
  using Cut_spec by fastforce

lemma str_index_Some:
  "str_index s sub = Some i \<Longrightarrow> HasPrefix (drop i s) sub \<and> i + length sub \<le> length s"
proof (induction s sub arbitrary: i rule: str_index.induct)
  case (1 s sub)
  show ?case
  proof (cases "HasPrefix s sub")
    case True
    with "1.prems" have "i = 0" by (simp add: str_index.simps)
    with True show ?thesis
      by (simp add: HasPrefix_def) (metis length_take min.cobounded1)
  next
    case False
    then obtain x t j where s: "s = x # t" "str_index t sub = Some j" "i = Suc j"
      using "1.prems" by (auto simp: str_index.simps [of s] split: list.splits)
    from "1.IH" [OF False s(1,2)] show ?thesis using s by simp
  qed
qed

section \<open>Byte order and prefixes\<close>

text \<open>
  The keys that share a prefix \<open>p\<close> are exactly a segment of the key order that starts
  at \<open>p\<close>: the fact that lets a range walk over an ordered map answer a prefix query.
\<close>

lemma prefix_le_string: "prefix p (k :: string) \<Longrightarrow> p \<le> k"
proof (induction p arbitrary: k)
  case (Cons a p)
  then show ?case by (cases k) auto
qed simp

lemma not_prefix_less_mono:
  fixes p k k' :: string
  assumes "p \<le> k" "k \<le> k'" "\<not> prefix p k"
  shows "\<not> prefix p k'"
  using assms
proof (induction p arbitrary: k k')
  case (Cons a p)
  obtain x xs where k: "k = x # xs" using Cons.prems(1) by (cases k) auto
  obtain y ys where k': "k' = y # ys" using Cons.prems(2) k by (cases k') auto
  show ?case
    using Cons.prems Cons.IH [of xs ys] unfolding k k' by auto
qed simp

lemma takeWhile_sorted_eq_filter:
  assumes "sorted_wrt R xs" "\<And>x y. R x y \<Longrightarrow> \<not> P x \<Longrightarrow> \<not> P y"
  shows "takeWhile P xs = filter P xs"
  using assms
proof (induction xs)
  case (Cons x xs)
  show ?case
  proof (cases "P x")
    case False
    with Cons.prems have "filter P xs = []" by (auto simp: filter_empty_conv)
    with False show ?thesis by simp
  qed (use Cons in auto)
qed simp

text \<open>Two strictly sorted lists with the same elements are equal.\<close>

lemma strict_sorted_unique:
  fixes xs ys :: "'a::linorder list"
  assumes "sorted_wrt (<) xs" "sorted_wrt (<) ys" "set xs = set ys"
  shows "xs = ys"
  using assms strict_sorted_equal by blast

lemma strict_sorted_pairs_unique:
  fixes xs ys :: "('k::linorder \<times> 'v) list"
  assumes "sorted_wrt (<) (map fst xs)" "sorted_wrt (<) (map fst ys)" "set xs = set ys"
  shows "xs = ys"
proof -
  have "map fst xs = map fst ys"
    using assms by (intro strict_sorted_unique) auto
  moreover have "distinct (map fst ys)" using assms(2) strict_sorted_iff by blast
  then have "inj_on fst (set xs \<union> set ys)" using assms(3) by (simp add: distinct_map)
  ultimately show ?thesis by (rule map_inj_on)
qed

end
