(* ===== verification/Go_Json.thy ===== *)
theory Go_Json
  imports Prelude
begin

text \<open>
  The part of Go's \<^verbatim>\<open>encoding/json\<close> the sources use: the byte-level reader behind
  \<^verbatim>\<open>json.Unmarshal\<close> (strings with their escapes, surrogate pairs and repair of invalid
  UTF-8, numbers as literals, the nesting limit) and the string writer behind
  \<^verbatim>\<open>json.Marshal\<close> (HTML-safe escapes, repair of invalid UTF-8).

  A parsed array or object keeps, beside each element, the exact bytes it was read from:
  that is what a \<^verbatim>\<open>json.RawMessage\<close> receives.
\<close>

section \<open>UTF-8\<close>

definition byte_in :: "nat \<Rightarrow> nat \<Rightarrow> char \<Rightarrow> bool" where
  "byte_in lo hi c \<longleftrightarrow> lo \<le> of_char c \<and> of_char c \<le> hi"

text \<open>
  The width of the well-formed UTF-8 sequence at the front of a byte string
  (\<^verbatim>\<open>utf8.DecodeRune\<close>), 0 when there is none.
\<close>

definition utf8_width :: "string \<Rightarrow> nat" where
  "utf8_width s =
     (case s of [] \<Rightarrow> 0
      | c # t \<Rightarrow>
          let n = of_char c :: nat in
          if n < 128 then 1
          else if n < 194 then 0
          else if n < 224 then (case t of c1 # _ \<Rightarrow> if byte_in 128 191 c1 then 2 else 0 | _ \<Rightarrow> 0)
          else if n < 240 then
            (case t of c1 # c2 # _ \<Rightarrow>
               if byte_in (if n = 224 then 160 else 128) (if n = 237 then 159 else 191) c1 \<and> byte_in 128 191 c2
               then 3 else 0
             | _ \<Rightarrow> 0)
          else if n < 245 then
            (case t of c1 # c2 # c3 # _ \<Rightarrow>
               if byte_in (if n = 240 then 144 else 128) (if n = 244 then 143 else 191) c1
                  \<and> byte_in 128 191 c2 \<and> byte_in 128 191 c3
               then 4 else 0
             | _ \<Rightarrow> 0)
          else 0)"

text \<open>\<^verbatim>\<open>utf8.EncodeRune\<close> for a code point that is no surrogate.\<close>

definition enc_rune :: "nat \<Rightarrow> string" where
  "enc_rune r =
     (if r < 128 then [char_of r]
      else if r < 2048 then [char_of (192 + r div 64), char_of (128 + r mod 64)]
      else if r < 65536 then [char_of (224 + r div 4096), char_of (128 + r div 64 mod 64), char_of (128 + r mod 64)]
      else [char_of (240 + r div 262144), char_of (128 + r div 4096 mod 64),
            char_of (128 + r div 64 mod 64), char_of (128 + r mod 64)])"

definition replacement :: string where
  "replacement = [CHR 0xEF, CHR 0xBF, CHR 0xBD]"

text \<open>Every byte that is not part of a well-formed sequence becomes U+FFFD.\<close>

fun to_valid :: "string \<Rightarrow> string" where
  "to_valid [] = []"
| "to_valid (c # s) =
     (let w = utf8_width (c # s) in
      if w = 0 then replacement @ to_valid s else c # take (w - 1) s @ to_valid (drop (w - 1) s))"

fun valid_utf8 :: "string \<Rightarrow> bool" where
  "valid_utf8 [] = True"
| "valid_utf8 (c # s) =
     (let w = utf8_width (c # s) in w \<noteq> 0 \<and> valid_utf8 (drop (w - 1) s))"

section \<open>Reading\<close>

datatype json =
    JNull
  | JBool bool
  | JNum string
  | JStr string
  | JArr "(string \<times> json) list"
  | JObj "(string \<times> string \<times> json) list"

definition is_ws :: "char \<Rightarrow> bool" where
  "is_ws c \<longleftrightarrow> c = CHR '' '' \<or> c = CHR 0x09 \<or> c = CHR 0x0A \<or> c = CHR 0x0D"

definition skip_ws :: "string \<Rightarrow> string" where
  "skip_ws s = dropWhile is_ws s"

definition is_digit :: "char \<Rightarrow> bool" where
  "is_digit c \<longleftrightarrow> byte_in 48 57 c"

definition hex_value :: "char \<Rightarrow> nat option" where
  "hex_value c =
     (if byte_in 48 57 c then Some (of_char c - 48)
      else if byte_in 97 102 c then Some (of_char c - 87)
      else if byte_in 65 70 c then Some (of_char c - 55)
      else None)"

definition is_hex :: "char \<Rightarrow> bool" where
  "is_hex c \<longleftrightarrow> hex_value c \<noteq> None"

definition simple_escape :: "char \<Rightarrow> char option" where
  "simple_escape e =
     (if e = CHR 0x22 \<or> e = CHR 0x5C \<or> e = CHR ''/'' then Some e
      else if e = CHR ''b'' then Some (CHR 0x08)
      else if e = CHR ''f'' then Some (CHR 0x0C)
      else if e = CHR ''n'' then Some (CHR 0x0A)
      else if e = CHR ''r'' then Some (CHR 0x0D)
      else if e = CHR ''t'' then Some (CHR 0x09)
      else None)"

text \<open>
  The scanner inside a string literal, after the opening quote: the bytes up to the
  closing quote, still escaped, and what follows it.
\<close>

fun scan_str :: "string \<Rightarrow> (string \<times> string) option" where
  "scan_str [] = None"
| "scan_str (c # s) =
     (if c = CHR 0x22 then Some ([], s)
      else if c = CHR 0x5C then
        (case s of
           e # s' \<Rightarrow>
             if simple_escape e \<noteq> None then map_option (apfst (\<lambda>b. c # e # b)) (scan_str s')
             else if e = CHR ''u'' then
               (case s' of
                  h1 # h2 # h3 # h4 # s'' \<Rightarrow>
                    if is_hex h1 \<and> is_hex h2 \<and> is_hex h3 \<and> is_hex h4
                    then map_option (apfst (\<lambda>b. c # e # h1 # h2 # h3 # h4 # b)) (scan_str s'')
                    else None
                | _ \<Rightarrow> None)
             else None
         | [] \<Rightarrow> None)
      else if of_char c < (32 :: nat) then None
      else map_option (apfst (\<lambda>b. c # b)) (scan_str s))"

text \<open>\<open>getu4\<close>: the code unit of a \<^verbatim>\<open>\uXXXX\<close> escape at the front.\<close>

definition getu4 :: "string \<Rightarrow> nat option" where
  "getu4 s =
     (case s of
        c # u # h1 # h2 # h3 # h4 # _ \<Rightarrow>
          if c = CHR 0x5C \<and> u = CHR ''u'' then
            (case (hex_value h1, hex_value h2, hex_value h3, hex_value h4) of
               (Some a, Some b, Some d, Some e) \<Rightarrow> Some (((a * 16 + b) * 16 + d) * 16 + e)
             | _ \<Rightarrow> None)
          else None
      | _ \<Rightarrow> None)"

text \<open>
  \<open>unquote\<close>: escapes are resolved, a surrogate pair becomes one code point, a surrogate
  without a partner and every invalid byte become U+FFFD.
\<close>

definition surrogate_pair :: "nat \<Rightarrow> nat option \<Rightarrow> nat option" where
  "surrogate_pair rr rr1 =
     (case rr1 of
        None \<Rightarrow> None
      | Some r1 \<Rightarrow>
          if 55296 \<le> rr \<and> rr < 56320 \<and> 56320 \<le> r1 \<and> r1 < 57344
          then Some ((rr - 55296) * 1024 + (r1 - 56320) + 65536) else None)"

fun unquote :: "string \<Rightarrow> string" where
  "unquote [] = []"
| "unquote (c # s) =
     (if c = CHR 0x5C then
        (case getu4 (c # s) of
           Some rr \<Rightarrow>
             (if 55296 \<le> rr \<and> rr < 57344 then
                (case surrogate_pair rr (getu4 (drop 5 s)) of
                   Some d \<Rightarrow> enc_rune d @ unquote (drop 11 s)
                 | None \<Rightarrow> replacement @ unquote (drop 5 s))
              else enc_rune rr @ unquote (drop 5 s))
         | None \<Rightarrow>
             (case s of
                [] \<Rightarrow> []
              | e # s' \<Rightarrow> (case simple_escape e of Some x \<Rightarrow> x # unquote s' | None \<Rightarrow> unquote s')))
      else let w = utf8_width (c # s) in
           if w = 0 then replacement @ unquote s
           else c # take (w - 1) s @ unquote (drop (w - 1) s))"

text \<open>A number literal: an optional minus, an integer part, a fraction, an exponent.\<close>

definition digits1 :: "string \<Rightarrow> (string \<times> string) option" where
  "digits1 s = (let d = takeWhile is_digit s in if d = [] then None else Some (d, dropWhile is_digit s))"

definition num_int :: "string \<Rightarrow> (string \<times> string) option" where
  "num_int s = (case s of c # t \<Rightarrow> if c = CHR ''0'' then Some ([c], t) else digits1 s | [] \<Rightarrow> None)"

definition num_frac :: "string \<Rightarrow> (string \<times> string) option" where
  "num_frac s =
     (case s of c # t \<Rightarrow> if c = CHR ''.'' then map_option (apfst ((#) c)) (digits1 t) else Some ([], s)
      | [] \<Rightarrow> Some ([], []))"

definition num_exp :: "string \<Rightarrow> (string \<times> string) option" where
  "num_exp s =
     (case s of
        c # t \<Rightarrow>
          if c = CHR ''e'' \<or> c = CHR ''E'' then
            (case t of
               g # t' \<Rightarrow> if g = CHR ''+'' \<or> g = CHR ''-'' then map_option (apfst (\<lambda>d. c # g # d)) (digits1 t')
                        else map_option (apfst ((#) c)) (digits1 t)
             | [] \<Rightarrow> None)
          else Some ([], s)
      | [] \<Rightarrow> Some ([], []))"

definition scan_number :: "string \<Rightarrow> (string \<times> string) option" where
  "scan_number s =
     (let (m, s1) = (case s of c # t \<Rightarrow> if c = CHR ''-'' then ([c], t) else ([], s) | [] \<Rightarrow> ([], [])) in
      case num_int s1 of None \<Rightarrow> None | Some (i, s2) \<Rightarrow>
      (case num_frac s2 of None \<Rightarrow> None | Some (f, s3) \<Rightarrow>
      (case num_exp s3 of None \<Rightarrow> None | Some (e, s4) \<Rightarrow> Some (m @ i @ f @ e, s4))))"

definition maxNestingDepth :: int where
  "maxNestingDepth = 10000"

lemma length_skip_ws [simp]: "length (skip_ws s) \<le> length s"
  by (simp add: skip_ws_def length_dropWhile_le)

text \<open>
  The three mutually recursive readers expect no white space in front; \<open>d\<close> is the
  number of arrays and objects that are open.  The two tests on lengths only serve the
  termination proof: \<open>parse_shorter\<close> below shows that they never fail.
\<close>

function (sequential) parse_value :: "int \<Rightarrow> string \<Rightarrow> (json \<times> string) option"
  and parse_elems :: "int \<Rightarrow> string \<Rightarrow> ((string \<times> json) list \<times> string) option"
  and parse_members :: "int \<Rightarrow> string \<Rightarrow> ((string \<times> string \<times> json) list \<times> string) option"
where
  "parse_value d [] = None"
| "parse_value d (c # t) =
     (if c = CHR 0x22 then (case scan_str t of None \<Rightarrow> None | Some (b, r) \<Rightarrow> Some (JStr (unquote b), r))
      else if c = CHR ''{'' then
        (if maxNestingDepth \<le> d then None
         else if HasPrefix (skip_ws t) ''}'' then Some (JObj [], drop 1 (skip_ws t))
         else map_option (apfst JObj) (parse_members (d + 1) (skip_ws t)))
      else if c = CHR ''['' then
        (if maxNestingDepth \<le> d then None
         else if HasPrefix (skip_ws t) '']'' then Some (JArr [], drop 1 (skip_ws t))
         else map_option (apfst JArr) (parse_elems (d + 1) (skip_ws t)))
      else if HasPrefix (c # t) ''true'' then Some (JBool True, drop 3 t)
      else if HasPrefix (c # t) ''false'' then Some (JBool False, drop 4 t)
      else if HasPrefix (c # t) ''null'' then Some (JNull, drop 3 t)
      else (case scan_number (c # t) of None \<Rightarrow> None | Some (l, r) \<Rightarrow> Some (JNum l, r)))"
| "parse_elems d s =
     (case parse_value d s of
        None \<Rightarrow> None
      | Some (v, r) \<Rightarrow>
          (case skip_ws r of
             [] \<Rightarrow> None
           | c # q \<Rightarrow>
               if c = CHR '']'' then Some ([(take (length s - length r) s, v)], q)
               else if c = CHR '','' then
                 (if length (skip_ws q) < length s then
                    map_option (apfst ((#) (take (length s - length r) s, v))) (parse_elems d (skip_ws q))
                  else None)
               else None))"
| "parse_members d [] = None"
| "parse_members d (c # t) =
     (if c \<noteq> CHR 0x22 then None
      else (case scan_str t of
         None \<Rightarrow> None
       | Some (b, r0) \<Rightarrow>
           (case skip_ws r0 of
              [] \<Rightarrow> None
            | c1 # q1 \<Rightarrow>
                if c1 \<noteq> CHR '':'' \<or> length (c # t) \<le> length (skip_ws q1) then None
                else
                  (case parse_value d (skip_ws q1) of
                     None \<Rightarrow> None
                   | Some (v, r) \<Rightarrow>
                       (case skip_ws r of
                          [] \<Rightarrow> None
                        | c2 # q2 \<Rightarrow>
                            if c2 = CHR ''}''
                            then Some ([(unquote b, take (length (skip_ws q1) - length r) (skip_ws q1), v)], q2)
                            else if c2 = CHR '','' then
                              (if length (skip_ws q2) < length (c # t) then
                                 map_option (apfst ((#) (unquote b, take (length (skip_ws q1) - length r) (skip_ws q1), v)))
                                   (parse_members d (skip_ws q2))
                               else None)
                            else None)))))"
  by pat_completeness auto
termination
  by (relation "measure (\<lambda>x. case x of Inl (d, s) \<Rightarrow> 2 * length s
        | Inr (Inl (d, s)) \<Rightarrow> 2 * length s + 1 | Inr (Inr (d, s)) \<Rightarrow> 2 * length s + 1)")
    (auto simp: less_Suc_eq_le intro: le_trans [OF length_skip_ws])

declare parse_elems.simps [simp del]

definition json_parse :: "string \<Rightarrow> json option" where
  "json_parse s =
     (case parse_value 0 (skip_ws s) of
        None \<Rightarrow> None
      | Some (v, r) \<Rightarrow> if skip_ws r = [] then Some v else None)"

section \<open>Writing strings\<close>

fun enc_body :: "string \<Rightarrow> string" where
  "enc_body [] = []"
| "enc_body (c # s) =
     (let n = of_char c :: nat in
      if n < 128 then
        (if c = CHR 0x22 \<or> c = CHR 0x5C then [CHR 0x5C, c]
         else if n = 8 then CHR 0x5C # ''b''
         else if n = 12 then CHR 0x5C # ''f''
         else if n = 10 then CHR 0x5C # ''n''
         else if n = 13 then CHR 0x5C # ''r''
         else if n = 9 then CHR 0x5C # ''t''
         else if n < 32 \<or> c = CHR ''<'' \<or> c = CHR ''>'' \<or> c = CHR ''&''
         then CHR 0x5C # ''u00'' @ [hex_digit (n div 16), hex_digit (n mod 16)]
         else [c]) @ enc_body s
      else
        let w = utf8_width (c # s) in
        if w = 0 then CHR 0x5C # ''ufffd'' @ enc_body s
        else if take 3 (c # s) = [CHR 0xE2, CHR 0x80, CHR 0xA8] then CHR 0x5C # ''u2028'' @ enc_body (drop 2 s)
        else if take 3 (c # s) = [CHR 0xE2, CHR 0x80, CHR 0xA9] then CHR 0x5C # ''u2029'' @ enc_body (drop 2 s)
        else c # take (w - 1) s @ enc_body (drop (w - 1) s))"

definition json_quote :: "string \<Rightarrow> string" where
  "json_quote s = CHR 0x22 # enc_body s @ [CHR 0x22]"

section \<open>Round trip of strings\<close>

lemma utf8_width_le: "utf8_width s \<le> length s"
  by (auto simp: utf8_width_def Let_def split: list.splits)

text \<open>The four shapes of a well-formed sequence.\<close>

lemma utf8_width_cases:
  assumes "utf8_width (c # s) = Suc w"
  obtains (one) "w = 0" "of_char c < (128 :: nat)"
  | (two) c1 t where "w = 1" "s = c1 # t" "byte_in 194 223 c" "byte_in 128 191 c1"
  | (three) c1 c2 t where "w = 2" "s = c1 # c2 # t" "byte_in 224 239 c" "byte_in 128 191 c2"
      "byte_in (if of_char c = (224 :: nat) then 160 else 128) (if of_char c = (237 :: nat) then 159 else 191) c1"
  | (four) c1 c2 c3 t where "w = 3" "s = c1 # c2 # c3 # t" "byte_in 240 244 c" "byte_in 128 191 c2" "byte_in 128 191 c3"
      "byte_in (if of_char c = (240 :: nat) then 144 else 128) (if of_char c = (244 :: nat) then 143 else 191) c1"
proof -
  consider "of_char c < (128 :: nat)" | "128 \<le> (of_char c :: nat)" "of_char c < (194 :: nat)"
    | "194 \<le> (of_char c :: nat)" "of_char c < (224 :: nat)" | "224 \<le> (of_char c :: nat)" "of_char c < (240 :: nat)"
    | "240 \<le> (of_char c :: nat)" "of_char c < (245 :: nat)" | "245 \<le> (of_char c :: nat)" by linarith
  then show thesis
  proof cases
    case 1
    then show ?thesis using assms one by (simp add: utf8_width_def)
  next
    case 3
    then show ?thesis using assms two
      by (cases s) (simp_all add: utf8_width_def byte_in_def Let_def split: if_split_asm)
  next
    case 4
    then show ?thesis using assms three
      by (cases s; cases "tl s") (simp_all add: utf8_width_def byte_in_def Let_def split: if_split_asm)
  next
    case 5
    then show ?thesis using assms four
      by (cases s; cases "tl s"; cases "tl (tl s)")
        (simp_all add: utf8_width_def byte_in_def Let_def split: if_split_asm)
  qed (use assms in \<open>simp_all add: utf8_width_def\<close>)
qed

lemma utf8_width_cons_append:
  assumes "utf8_width (c # s) = Suc w"
  shows "utf8_width (c # take w s @ x) = Suc w"
  using assms
  by (rule utf8_width_cases) (simp_all add: utf8_width_def byte_in_def Let_def)

lemma hex_value_hex_digit: "n < 16 \<Longrightarrow> hex_value (hex_digit n) = Some n"
proof -
  assume "n < 16"
  then have "n \<in> set [0..<16]" by simp
  moreover have "\<forall>n \<in> set [0..<16]. hex_value (hex_digit n) = Some n" by code_simp
  ultimately show ?thesis by blast
qed

lemma enc_rune_small: "n < 128 \<Longrightarrow> enc_rune n = [char_of n]"
  by (simp add: enc_rune_def)

text \<open>Induction over the characters of a byte string, the way both directions consume it.\<close>

lemma utf8_continuation:
  assumes "utf8_width (c # s) = Suc w" "x \<in> set (take w s)"
  shows "128 \<le> (of_char x :: nat)"
  using assms(1)
  by (rule utf8_width_cases) (use assms(2) in \<open>auto simp: byte_in_def split: if_split_asm\<close>)

lemma utf8_width_ascii: "of_char c < (128 :: nat) \<Longrightarrow> utf8_width (c # s) = Suc 0"
  by (simp add: utf8_width_def)

lemma scan_str_plain:
  assumes "\<forall>x \<in> set xs. 128 \<le> (of_char x :: nat)"
  shows "scan_str (xs @ s) = map_option (apfst ((@) xs)) (scan_str s)"
  using assms
proof (induction xs)
  case Nil
  show ?case by (cases "scan_str s") auto
next
  case (Cons a xs)
  then have "a \<noteq> CHR 0x22" "a \<noteq> CHR 0x5C" "\<not> of_char a < (32::nat)" by auto
  with Cons show ?case by (cases "scan_str s") auto
qed

lemma scan_str_enc_body: "scan_str (enc_body s @ CHR 0x22 # r) = Some (enc_body s, r)"
proof (induction s rule: enc_body.induct)
  case (2 c s)
  let ?n = "of_char c :: nat"
  show ?case
  proof (cases "?n < 128")
    case True
    note IH = "2.IH"(1) [OF refl True]
    have hd: "is_hex (hex_digit (?n div 16))" "is_hex (hex_digit (?n mod 16))"
      using True by (simp_all add: is_hex_def hex_value_hex_digit)
    have h0: "is_hex CHR ''0''" by code_simp
    show ?thesis
      using True IH hd h0 by (auto simp: Let_def simple_escape_def)
  next
    case False
    show ?thesis
    proof (cases "utf8_width (c # s)")
      case 0
      have "is_hex CHR ''f'' \<and> is_hex CHR ''d''" by code_simp
      with False 0 "2.IH"(2) [OF refl False refl 0] show ?thesis
        by (simp add: Let_def simple_escape_def)
    next
      case (Suc w)
      have hx: "is_hex CHR ''2''" "is_hex CHR ''0''" "is_hex CHR ''8''" "is_hex CHR ''9''" by code_simp+
      show ?thesis
      proof (cases "take 3 (c # s) = [CHR 0xE2, CHR 0x80, CHR 0xA8] \<or> take 3 (c # s) = [CHR 0xE2, CHR 0x80, CHR 0xA9]")
        case True
        then show ?thesis
          using False Suc hx "2.IH"(3) [OF refl False refl] "2.IH"(4) [OF refl False refl]
          by (auto simp: Let_def simple_escape_def)
      next
        case F2: False
        have plain: "\<forall>x \<in> set (c # take w s). 128 \<le> (of_char x :: nat)"
          using False utf8_continuation [OF Suc] by auto
        have "enc_body (c # s) = (c # take w s) @ enc_body (drop w s)"
          using False Suc F2 by (auto simp: Let_def)
        moreover have "scan_str (enc_body (drop w s) @ CHR 0x22 # r) = Some (enc_body (drop w s), r)"
          using "2.IH"(5) [OF refl False refl] Suc F2 by simp
        ultimately show ?thesis
          using scan_str_plain [OF plain, of "enc_body (drop w s) @ CHR 0x22 # r"] by simp
      qed
    qed
  qed
qed simp

lemma getu4_u00:
  assumes "n < 256"
  shows "getu4 (CHR 0x5C # CHR ''u'' # CHR ''0'' # CHR ''0'' # hex_digit (n div 16) # hex_digit (n mod 16) # r) = Some n"
proof -
  have "hex_value CHR ''0'' = Some 0" by code_simp
  then show ?thesis using assms by (simp add: getu4_def hex_value_hex_digit)
qed

lemma getu4_simple: "e \<noteq> CHR ''u'' \<Longrightarrow> getu4 (c # e # r) = None"
  by (auto simp: getu4_def split: list.split)

lemma getu4_fixed:
  "getu4 (CHR 0x5C # ''ufffd'' @ r) = Some 65533"
  "getu4 (CHR 0x5C # ''u2028'' @ r) = Some 8232"
  "getu4 (CHR 0x5C # ''u2029'' @ r) = Some 8233"
proof -
  have "hex_value CHR ''f'' = Some 15" "hex_value CHR ''d'' = Some 13" "hex_value CHR ''0'' = Some 0"
    "hex_value CHR ''2'' = Some 2" "hex_value CHR ''8'' = Some 8" "hex_value CHR ''9'' = Some 9" by code_simp+
  then show "getu4 (CHR 0x5C # ''ufffd'' @ r) = Some 65533"
    "getu4 (CHR 0x5C # ''u2028'' @ r) = Some 8232" "getu4 (CHR 0x5C # ''u2029'' @ r) = Some 8233"
    by (simp_all add: getu4_def)
qed

lemma unquote_fixed:
  "unquote (CHR 0x5C # ''ufffd'' @ r) = replacement @ unquote r"
  "unquote (CHR 0x5C # ''u2028'' @ r) = [CHR 0xE2, CHR 0x80, CHR 0xA8] @ unquote r"
  "unquote (CHR 0x5C # ''u2029'' @ r) = [CHR 0xE2, CHR 0x80, CHR 0xA9] @ unquote r"
proof -
  have "enc_rune 65533 = replacement" "enc_rune 8232 = [CHR 0xE2, CHR 0x80, CHR 0xA8]"
    "enc_rune 8233 = [CHR 0xE2, CHR 0x80, CHR 0xA9]" by (simp_all add: enc_rune_def replacement_def char_of_def bit_0)
  with getu4_fixed [of r]
  show "unquote (CHR 0x5C # ''ufffd'' @ r) = replacement @ unquote r"
    "unquote (CHR 0x5C # ''u2028'' @ r) = [CHR 0xE2, CHR 0x80, CHR 0xA8] @ unquote r"
    "unquote (CHR 0x5C # ''u2029'' @ r) = [CHR 0xE2, CHR 0x80, CHR 0xA9] @ unquote r"
    by simp_all
qed

lemma unquote_escape:
  "simple_escape e = Some x \<Longrightarrow> unquote (CHR 0x5C # e # r) = x # unquote r"
proof -
  assume "simple_escape e = Some x"
  moreover from this have "e \<noteq> CHR ''u''" by (auto simp: simple_escape_def)
  ultimately show ?thesis by (simp add: getu4_simple)
qed

lemma unquote_u00:
  assumes "n < 128"
  shows "unquote (CHR 0x5C # ''u00'' @ [hex_digit (n div 16), hex_digit (n mod 16)] @ r) = char_of n # unquote r"
  using assms getu4_u00 [of n r] by (simp add: enc_rune_small)

lemma unquote_plain_char:
  assumes "utf8_width (c # s) = Suc w" "c \<noteq> CHR 0x5C"
  shows "unquote (c # take w s @ r) = c # take w s @ unquote r"
proof -
  have "length (take w s) = w" using utf8_width_le [of "c # s"] assms(1) by simp
  then show ?thesis using utf8_width_cons_append [OF assms(1), of r] assms(2) by simp
qed

lemma unquote_enc_control:
  assumes "of_char c = (n :: nat)" "simple_escape e = Some (char_of n)" 
    "of_char c = n \<Longrightarrow> enc_body (c # s) = CHR 0x5C # e # enc_body s"
  shows "unquote (enc_body (c # s)) = c # unquote (enc_body s)"
proof -
  have "char_of n = c" using assms(1) by (metis char_of_char)
  then show ?thesis using assms unquote_escape [OF assms(2), of "enc_body s"] by (simp del: enc_body.simps)
qed

lemma unquote_enc_ascii:
  assumes "of_char c < (128 :: nat)"
  shows "unquote (enc_body (c # s)) = c # unquote (enc_body s)"
proof -
  let ?n = "of_char c :: nat"
  consider (q) "c = CHR 0x22 \<or> c = CHR 0x5C" | (b) "?n = 8" | (f) "?n = 12" | (n) "?n = 10" | (r) "?n = 13" | (t) "?n = 9"
    | (u) "c \<noteq> CHR 0x22 \<and> c \<noteq> CHR 0x5C \<and> ?n \<notin> {8, 12, 10, 13, 9}
        \<and> (?n < 32 \<or> c = CHR ''<'' \<or> c = CHR ''>'' \<or> c = CHR ''&'')"
    | (p) "c \<noteq> CHR 0x22 \<and> c \<noteq> CHR 0x5C \<and> ?n \<notin> {8, 12, 10, 13, 9}
        \<and> \<not> (?n < 32 \<or> c = CHR ''<'' \<or> c = CHR ''>'' \<or> c = CHR ''&'')" by blast
  then show ?thesis
  proof cases
    case q
    then have e: "simple_escape c = Some c" by (auto simp: simple_escape_def)
    from q have "enc_body (c # s) = CHR 0x5C # c # enc_body s" by auto
    then show ?thesis by (simp only: unquote_escape [OF e])
  next
    case u
    then have "enc_body (c # s) = CHR 0x5C # ''u00'' @ [hex_digit (?n div 16), hex_digit (?n mod 16)] @ enc_body s"
      using assms by (simp add: Let_def)
    then show ?thesis using unquote_u00 [OF assms, of "enc_body s"] by simp
  next
    case p
    then have "enc_body (c # s) = c # enc_body s" using assms by (simp add: Let_def)
    then show ?thesis
      using unquote_plain_char [OF utf8_width_ascii [OF assms], of s "enc_body s"] p by simp
  next
    case b
    then show ?thesis by (rule unquote_enc_control [where e = "CHR ''b''"]) (code_simp, auto)
  next
    case f
    then show ?thesis by (rule unquote_enc_control [where e = "CHR ''f''"]) (code_simp, auto)
  next
    case n
    then show ?thesis by (rule unquote_enc_control [where e = "CHR ''n''"]) (code_simp, auto)
  next
    case r
    then show ?thesis by (rule unquote_enc_control [where e = "CHR ''r''"]) (code_simp, auto)
  next
    case t
    then show ?thesis by (rule unquote_enc_control [where e = "CHR ''t''"]) (code_simp, auto)
  qed
qed

lemma unquote_enc_body: "unquote (enc_body s) = to_valid s"
proof (induction s rule: to_valid.induct)
  case (2 c s)
  show ?case
  proof (cases "of_char c < (128 :: nat)")
    case True
    then show ?thesis
      using "2.IH"(2) unquote_enc_ascii [OF True, of s] by (simp add: utf8_width_ascii del: enc_body.simps)
  next
    case False
    show ?thesis
    proof (cases "utf8_width (c # s)")
      case 0
      with False have "enc_body (c # s) = CHR 0x5C # ''ufffd'' @ enc_body s" by (simp add: Let_def)
      then show ?thesis
        using 0 "2.IH"(1) [OF refl 0] unquote_fixed(1) [of "enc_body s"] by (simp del: enc_body.simps unquote.simps)
    next
      case (Suc w)
      then have IH: "unquote (enc_body (drop w s)) = to_valid (drop w s)" using "2.IH"(2) by simp
      have v: "to_valid (c # s) = c # take w s @ to_valid (drop w s)" using Suc by simp
      consider (ls) "take 3 (c # s) = [CHR 0xE2, CHR 0x80, CHR 0xA8]" | (ps) "take 3 (c # s) = [CHR 0xE2, CHR 0x80, CHR 0xA9]"
        | (o) "take 3 (c # s) \<noteq> [CHR 0xE2, CHR 0x80, CHR 0xA8]" "take 3 (c # s) \<noteq> [CHR 0xE2, CHR 0x80, CHR 0xA9]" by blast
      then show ?thesis
      proof cases
        case ls
        then have c: "c = CHR 0xE2" "take 2 s = [CHR 0x80, CHR 0xA8]" by auto
        from Suc have "w = 2" by (rule utf8_width_cases) (auto simp: byte_in_def c(1))
        moreover have "enc_body (c # s) = CHR 0x5C # ''u2028'' @ enc_body (drop 2 s)"
          using False Suc ls by (simp add: Let_def)
        ultimately show ?thesis
          using v IH c unquote_fixed(2) [of "enc_body (drop 2 s)"] by simp
      next
        case ps
        then have c: "c = CHR 0xE2" "take 2 s = [CHR 0x80, CHR 0xA9]" by auto
        from Suc have "w = 2" by (rule utf8_width_cases) (auto simp: byte_in_def c(1))
        moreover have "enc_body (c # s) = CHR 0x5C # ''u2029'' @ enc_body (drop 2 s)"
          using False Suc ps by (simp add: Let_def)
        ultimately show ?thesis
          using v IH c unquote_fixed(3) [of "enc_body (drop 2 s)"] by simp
      next
        case o
        have "enc_body (c # s) = c # take w s @ enc_body (drop w s)"
          using False Suc o by (simp add: Let_def)
        moreover have "c \<noteq> CHR 0x5C" using False by auto
        ultimately show ?thesis using v IH unquote_plain_char [OF Suc] by simp
      qed
    qed
  qed
qed simp

lemma to_valid_id: "valid_utf8 s \<Longrightarrow> to_valid s = s"
proof (induction s rule: valid_utf8.induct)
  case (2 c s)
  then show ?case by (auto simp: Let_def)
qed simp

lemma valid_to_valid: "valid_utf8 (to_valid s)"
proof (induction s rule: to_valid.induct)
  case (2 c s)
  show ?case
  proof (cases "utf8_width (c # s)")
    case 0
    have "valid_utf8 (replacement @ t) = valid_utf8 t" for t
      by (simp add: replacement_def utf8_width_def byte_in_def)
    with 0 2 show ?thesis by simp
  next
    case (Suc w)
    then have "utf8_width (c # take w s @ to_valid (drop w s)) = Suc w" by (rule utf8_width_cons_append)
    moreover have "length (take w s) = w" using utf8_width_le [of "c # s"] Suc by simp
    ultimately show ?thesis using Suc 2 by (simp add: Let_def)
  qed
qed simp

lemma parse_json_quote: "parse_value d (json_quote s @ r) = Some (JStr (to_valid s), r)"
  by (simp add: json_quote_def scan_str_enc_body unquote_enc_body)

section \<open>The reader consumes its input and never looks past a closed value\<close>

lemma scan_str_ConsE:
  assumes "scan_str (c # s) = Some (b, r)"
  obtains (quote) "c = CHR 0x22" "b = []" "r = s"
  | (escape) e s' b' where "c = CHR 0x5C" "s = e # s'" "simple_escape e \<noteq> None" "scan_str s' = Some (b', r)"
      "b = c # e # b'"
  | (unicode) h1 h2 h3 h4 s' b' where "c = CHR 0x5C" "s = CHR ''u'' # h1 # h2 # h3 # h4 # s'"
      "is_hex h1 \<and> is_hex h2 \<and> is_hex h3 \<and> is_hex h4" "scan_str s' = Some (b', r)"
      "b = c # CHR ''u'' # h1 # h2 # h3 # h4 # b'"
  | (plain) b' where "c \<noteq> CHR 0x22" "c \<noteq> CHR 0x5C" "\<not> of_char c < (32 :: nat)" "scan_str s = Some (b', r)" "b = c # b'"
proof (cases "c = CHR 0x5C")
  case True
  then obtain e s' where s: "s = e # s'" using assms by (cases s) auto
  show ?thesis
  proof (cases "simple_escape e = None")
    case F: False
    with assms True s show ?thesis using escape [of e s'] by auto
  next
    case T: True
    then have u: "e = CHR ''u''" using assms True s by (auto split: if_splits)
    have "\<exists>h1 h2 h3 h4 s''. s' = h1 # h2 # h3 # h4 # s''"
      using assms True s T u by (auto split: list.splits)
    then obtain h1 h2 h3 h4 s'' where "s' = h1 # h2 # h3 # h4 # s''" by blast
    with assms True s T u show ?thesis using unicode [of h1 h2 h3 h4 s''] by (auto split: if_splits)
  qed
next
  case False
  with assms quote plain show ?thesis by (auto split: if_splits)
qed

lemma simple_escape_u [simp]: "simple_escape CHR ''u'' = None"
  by (simp add: simple_escape_def)

lemma scan_str_shorter: "scan_str s = Some (b, r) \<Longrightarrow> length r < length s"
proof (induction s arbitrary: b r rule: length_induct)
  case (1 s)
  note IH = "1.IH" [rule_format]
  obtain c t where s: "s = c # t" using "1.prems" by (cases s) auto
  from "1.prems" [unfolded s] show ?case
  proof (cases rule: scan_str_ConsE)
    case (escape e s' b')
    with IH [of s' b' r] s show ?thesis by simp
  next
    case (unicode h1 h2 h3 h4 s' b')
    with IH [of s' b' r] s show ?thesis by simp
  next
    case (plain b')
    with IH [of t b' r] s show ?thesis by simp
  qed (simp add: s)
qed

lemma scan_str_extend: "scan_str s = Some (b, r) \<Longrightarrow> scan_str (s @ x) = Some (b, r @ x)"
proof (induction s arbitrary: b r rule: length_induct)
  case (1 s)
  note IH = "1.IH" [rule_format]
  obtain c t where s: "s = c # t" using "1.prems" by (cases s) auto
  from "1.prems" [unfolded s] show ?case
  proof (cases rule: scan_str_ConsE)
    case (escape e s' b')
    with IH [of s' b' r] s show ?thesis by auto
  next
    case (unicode h1 h2 h3 h4 s' b')
    with IH [of s' b' r] s show ?thesis by simp
  next
    case (plain b')
    with IH [of t b' r] s show ?thesis by simp
  qed (simp add: s)
qed

lemma digits1_shorter: "digits1 s = Some (d, r) \<Longrightarrow> length r < length s"
  by (cases s) (auto simp: digits1_def Let_def length_dropWhile_le less_Suc_eq_le split: if_splits)

lemma digits1_extend: "digits1 s = Some (d, r) \<Longrightarrow> r \<noteq> [] \<Longrightarrow> digits1 (s @ x) = Some (d, r @ x)"
proof -
  assume a: "digits1 s = Some (d, r)" "r \<noteq> []"
  then have "\<exists>c \<in> set s. \<not> is_digit c" by (auto simp: digits1_def Let_def dropWhile_eq_Nil_conv split: if_splits)
  then show ?thesis using a by (auto simp: digits1_def Let_def takeWhile_append1 split: if_splits)
qed

lemma num_int_shorter: "num_int s = Some (i, r) \<Longrightarrow> length r < length s"
  by (auto simp: num_int_def dest: digits1_shorter split: list.splits if_splits)

lemma num_frac_shorter: "num_frac s = Some (i, r) \<Longrightarrow> length r \<le> length s"
  by (fastforce simp: num_frac_def dest: digits1_shorter split: list.splits if_splits)

lemma num_exp_shorter: "num_exp s = Some (i, r) \<Longrightarrow> length r \<le> length s"
  by (fastforce simp: num_exp_def dest: digits1_shorter split: list.splits if_splits)

lemma num_int_extend: "num_int s = Some (i, r) \<Longrightarrow> r \<noteq> [] \<Longrightarrow> num_int (s @ x) = Some (i, r @ x)"
  using digits1_extend [of s i r x] by (auto simp: num_int_def split: list.splits if_splits)

lemma num_frac_extend: "num_frac s = Some (i, r) \<Longrightarrow> r \<noteq> [] \<Longrightarrow> num_frac (s @ x) = Some (i, r @ x)"
  by (auto simp: num_frac_def digits1_extend split: list.splits if_splits)

lemma num_exp_extend: "num_exp s = Some (i, r) \<Longrightarrow> r \<noteq> [] \<Longrightarrow> num_exp (s @ x) = Some (i, r @ x)"
  by (auto simp: num_exp_def digits1_extend digits1_extend [of "_ # _", simplified] split: list.splits if_splits)

lemma num_frac_nonempty: "num_frac s = Some (i, r) \<Longrightarrow> r \<noteq> [] \<Longrightarrow> s \<noteq> []"
  by (auto simp: num_frac_def)

lemma num_exp_nonempty: "num_exp s = Some (i, r) \<Longrightarrow> r \<noteq> [] \<Longrightarrow> s \<noteq> []"
  by (auto simp: num_exp_def)

lemma scan_number_parts:
  assumes "scan_number s = Some (l, r)"
  obtains m s1 i s2 f s3 e where
    "(m, s1) = (case s of c # t \<Rightarrow> if c = CHR ''-'' then ([c], t) else ([], s) | [] \<Rightarrow> ([], []))"
    "num_int s1 = Some (i, s2)" "num_frac s2 = Some (f, s3)" "num_exp s3 = Some (e, r)" "l = m @ i @ f @ e"
  using assms unfolding scan_number_def by (auto simp: Let_def split: prod.splits option.splits)

lemma scan_number_shorter: "scan_number s = Some (l, r) \<Longrightarrow> length r < length s"
proof (erule scan_number_parts)
  fix m s1 i s2 f s3 e
  assume "(m, s1) = (case s of c # t \<Rightarrow> if c = CHR ''-'' then ([c], t) else ([], s) | [] \<Rightarrow> ([], []))"
    and *: "num_int s1 = Some (i, s2)" "num_frac s2 = Some (f, s3)" "num_exp s3 = Some (e, r)"
  then have "length s1 \<le> length s" by (auto split: list.splits if_splits)
  with * show ?thesis using num_int_shorter num_frac_shorter num_exp_shorter by fastforce
qed

lemma scan_number_extend:
  "scan_number s = Some (l, r) \<Longrightarrow> r \<noteq> [] \<Longrightarrow> scan_number (s @ x) = Some (l, r @ x)"
proof (erule scan_number_parts)
  fix m s1 i s2 f s3 e
  assume r: "r \<noteq> []" and m: "(m, s1) = (case s of c # t \<Rightarrow> if c = CHR ''-'' then ([c], t) else ([], s) | [] \<Rightarrow> ([], []))"
    and *: "num_int s1 = Some (i, s2)" "num_frac s2 = Some (f, s3)" "num_exp s3 = Some (e, r)" and l: "l = m @ i @ f @ e"
  have ne: "s3 \<noteq> []" "s2 \<noteq> []" using * r num_exp_nonempty num_frac_nonempty by blast+
  have "s \<noteq> []" using m *(1) by (auto simp: num_int_def)
  then have "(m, s1 @ x) = (case s @ x of c # t \<Rightarrow> if c = CHR ''-'' then ([c], t) else ([], s @ x) | [] \<Rightarrow> ([], []))"
    using m by (cases s) (auto split: if_splits)
  moreover have "num_int (s1 @ x) = Some (i, s2 @ x)" "num_frac (s2 @ x) = Some (f, s3 @ x)"
    "num_exp (s3 @ x) = Some (e, r @ x)"
    using * r ne num_int_extend num_frac_extend num_exp_extend by blast+
  ultimately show ?thesis
    unfolding scan_number_def l by (simp add: Let_def flip: \<open>(m, s1 @ x) = _\<close>)
qed

lemma scan_number_start: "scan_number (c # t) = Some (l, r) \<Longrightarrow> c = CHR ''-'' \<or> is_digit c"
  by (auto simp: scan_number_def num_int_def digits1_def is_digit_def byte_in_def Let_def split: if_splits option.splits)

lemma parse_shorter:
  "parse_value d s = Some (v, r) \<Longrightarrow> length r < length s"
  "parse_elems d s = Some (vs, r) \<Longrightarrow> length r < length s"
  "parse_members d s = Some (ms, r) \<Longrightarrow> length r < length s"
proof (induction d s and d s and d s arbitrary: v r and vs r and ms r
    rule: parse_value_parse_elems_parse_members.induct)
  case (2 d c t)
  have w: "length (skip_ws t) \<le> length t" by simp
  from 2 show ?case
    by (auto simp: less_Suc_eq_le split: if_splits option.splits
        dest!: scan_str_shorter scan_number_shorter intro: le_trans [OF _ w] less_imp_le)
next
  case (3 d s)
  obtain v q where v: "parse_value d s = Some (v, q)" using "3.prems" by (auto simp: parse_elems.simps split: option.splits)
  have q: "length q < length s" by (rule "3.IH"(1) [OF v])
  obtain c p where p: "skip_ws q = c # p" using "3.prems" v by (auto simp: parse_elems.simps split: list.splits)
  have "length (c # p) \<le> length q" using length_skip_ws [of q] p by simp
  with "3.prems" v p q "3.IH"(2) [OF v _ p] show ?case
    by (fastforce simp: parse_elems.simps [of d s] split: if_splits)
next
  case (5 d c t)
  obtain b r0 where b: "scan_str t = Some (b, r0)" using "5.prems" by (auto split: if_splits option.splits)
  then obtain c1 q1 where q1: "skip_ws r0 = c1 # q1" using "5.prems" by (auto split: if_splits list.splits)
  obtain v q where v: "parse_value d (skip_ws q1) = Some (v, q)" and c1: "c = CHR 0x22" "\<not> (c1 \<noteq> CHR '':'' \<or> length (c # t) \<le> length (skip_ws q1))"
    using "5.prems" b q1 by (auto split: if_splits option.splits)
  have q: "length q < length (skip_ws q1)" by (rule "5.IH"(1)) (use b q1 v c1 in auto)
  obtain c2 q2 where q2: "skip_ws q = c2 # q2" using "5.prems" b q1 v c1 by (auto split: list.splits)
  have "length (c2 # q2) \<le> length q" using length_skip_ws [of q] q2 by simp
  moreover have "length (skip_ws q1) < length (c # t)" using c1 by auto
  ultimately have "length q2 < length (c # t)" "length (skip_ws q2) < length (c # t)"
    using q le_less_trans [OF length_skip_ws [of q2], of "length (c # t)"] by simp_all
  moreover have "length r < length (c # t)" if "parse_members d (skip_ws q2) = Some (ms', r)" "c2 = CHR '',''" for ms'
  proof -
    have "length r < length (skip_ws q2)" by (rule "5.IH"(2)) (use b q1 v c1 q2 that calculation in auto)
    then show ?thesis using calculation(2) by simp
  qed
  ultimately show ?case using "5.prems" b q1 v c1 q2 by (auto split: if_splits)
qed simp_all

lemma skip_ws_append: "skip_ws s \<noteq> [] \<Longrightarrow> skip_ws (s @ x) = skip_ws s @ x"
  by (metis skip_ws_def dropWhile_append dropWhile_eq_Nil_conv)

lemma HasPrefix_extend: "HasPrefix s p \<Longrightarrow> HasPrefix (s @ x) p"
  by (simp add: HasPrefix_iff_prefix)

lemma take_extend:
  "length r \<le> length s \<Longrightarrow> take (length (s @ x) - length (r @ x)) (s @ x) = take (length s - length r) s"
  by simp

text \<open>
  What a reader has accepted stays accepted, with the same value, when more bytes follow;
  only a number at the very end of the input can still grow.
\<close>

lemma parse_extend:
  "parse_value d s = Some (v, r) \<Longrightarrow> r \<noteq> [] \<or> \<not> (hd s = CHR ''-'' \<or> is_digit (hd s))
     \<Longrightarrow> parse_value d (s @ x) = Some (v, r @ x)"
  "parse_elems d s = Some (vs, r) \<Longrightarrow> parse_elems d (s @ x) = Some (vs, r @ x)"
  "parse_members d s = Some (ms, r) \<Longrightarrow> parse_members d (s @ x) = Some (ms, r @ x)"
proof (induction d s and d s and d s arbitrary: v r and vs r and ms r
    rule: parse_value_parse_elems_parse_members.induct)
  case (2 d c t)
  consider (str) "c = CHR 0x22" | (obj) "c = CHR ''{''" | (arr) "c = CHR ''[''"
    | (t) "c \<notin> {CHR 0x22, CHR ''{'', CHR ''[''}" "HasPrefix (c # t) ''true''"
    | (f) "c \<notin> {CHR 0x22, CHR ''{'', CHR ''[''}" "HasPrefix (c # t) ''false''"
    | (n) "c \<notin> {CHR 0x22, CHR ''{'', CHR ''[''}" "HasPrefix (c # t) ''null''"
    | (num) "c \<notin> {CHR 0x22, CHR ''{'', CHR ''[''}" "\<not> HasPrefix (c # t) ''true''" "\<not> HasPrefix (c # t) ''false''"
        "\<not> HasPrefix (c # t) ''null''" by blast
  then show ?case
  proof cases
    case str
    with "2.prems" show ?thesis by (auto split: option.splits simp: scan_str_extend)
  next
    case obj
    then have ne: "skip_ws t \<noteq> []" using "2.prems" by (auto simp: HasPrefix_def split: if_splits)
    show ?thesis
    proof (cases "HasPrefix (skip_ws t) ''}''")
      case True
      with obj ne "2.prems" show ?thesis
        by (auto simp: skip_ws_append HasPrefix_extend neq_Nil_conv split: if_splits)
    next
      case False
      then have "\<not> HasPrefix (skip_ws t @ x) ''}''" using ne by (auto simp: neq_Nil_conv HasPrefix_def)
      with obj ne False "2.prems" "2.IH"(1) show ?thesis by (auto simp: skip_ws_append split: if_splits)
    qed
  next
    case arr
    then have ne: "skip_ws t \<noteq> []" using "2.prems" by (auto simp: HasPrefix_def parse_elems.simps split: if_splits)
    show ?thesis
    proof (cases "HasPrefix (skip_ws t) '']''")
      case True
      with arr ne "2.prems" show ?thesis
        by (auto simp: skip_ws_append HasPrefix_extend neq_Nil_conv split: if_splits)
    next
      case False
      then have "\<not> HasPrefix (skip_ws t @ x) '']''" using ne by (auto simp: neq_Nil_conv HasPrefix_def)
      with arr ne False "2.prems" "2.IH"(2) show ?thesis by (auto simp: skip_ws_append split: if_splits)
    qed
  next
    case num
    then have sn: "scan_number (c # t) = Some (case v of JNum l \<Rightarrow> l, r)" "v = JNum (case v of JNum l \<Rightarrow> l)"
      using "2.prems" by (auto split: option.splits)
    have st: "c = CHR ''-'' \<or> is_digit c" using scan_number_start [OF sn(1)] .
    then have "r \<noteq> []" using "2.prems" by simp
    moreover have "c \<notin> {CHR ''t'', CHR ''f'', CHR ''n''}" using st by (auto simp: is_digit_def byte_in_def)
    then have "\<not> HasPrefix ((c # t) @ x) ''true''" "\<not> HasPrefix ((c # t) @ x) ''false''"
      "\<not> HasPrefix ((c # t) @ x) ''null''" by (auto simp: HasPrefix_def)
    ultimately show ?thesis using num scan_number_extend [OF sn(1), of x] sn(2) by simp
  qed (use "2.prems" in \<open>auto simp: HasPrefix_def\<close>)
next
  case (3 d s)
  obtain v q where v: "parse_value d s = Some (v, q)" using "3.prems" by (auto simp: parse_elems.simps split: option.splits)
  then obtain c p where p: "skip_ws q = c # p" using "3.prems" by (auto simp: parse_elems.simps split: list.splits)
  have "q \<noteq> []" using p by (auto simp: skip_ws_def)
  then have v': "parse_value d (s @ x) = Some (v, q @ x)" using "3.IH"(1) [OF v] by simp
  have p': "skip_ws (q @ x) = c # p @ x" using p by (simp add: skip_ws_append)
  have len: "length q < length s" using parse_shorter(1) [OF v] .
  have p_ne: "skip_ws p \<noteq> []" if "parse_elems d (skip_ws p) = Some u" for u
    using that by (auto simp: parse_elems.simps [of d "[]"])
  have "length (skip_ws p @ x) < length (s @ x)" if "c = CHR '',''"
    using len length_skip_ws [of q] p le_less_trans [OF length_skip_ws [of p], of "length s"] by simp
  with "3.prems" v v' p p' len p_ne "3.IH"(2) [OF v _ p] show ?case
    by (auto simp: parse_elems.simps [of d s] parse_elems.simps [of d "s @ x"] skip_ws_append split: if_splits)
next
  case (5 d c t)
  obtain b r0 where b: "scan_str t = Some (b, r0)" and c: "c = CHR 0x22" using "5.prems" by (auto split: if_splits option.splits)
  then obtain c1 q1 where q1: "skip_ws r0 = c1 # q1" using "5.prems" by (auto split: if_splits list.splits)
  obtain v q where v: "parse_value d (skip_ws q1) = Some (v, q)" and c1: "c1 = CHR '':''" "length (skip_ws q1) < length (c # t)"
    using "5.prems" b c q1 by (auto split: if_splits option.splits)
  obtain c2 q2 where q2: "skip_ws q = c2 # q2" using "5.prems" b q1 v c c1 by (auto split: list.splits)
  have q: "q \<noteq> []" using q2 by (auto simp: skip_ws_def)
  have q1_ne: "skip_ws q1 \<noteq> []" using v by auto
  have v': "parse_value d (skip_ws q1 @ x) = Some (v, q @ x)" by (rule "5.IH"(1)) (use b q1 v c c1 q in auto)
  have b': "scan_str (t @ x) = Some (b, r0 @ x)" "skip_ws (r0 @ x) = c1 # q1 @ x" "skip_ws (q1 @ x) = skip_ws q1 @ x"
    "skip_ws (q @ x) = c2 # q2 @ x"
    using scan_str_extend [OF b] q1 q1_ne q2 by (simp_all add: skip_ws_append)
  have len: "length q < length (skip_ws q1)" using parse_shorter(1) [OF v] .
  have q2_ne: "skip_ws q2 \<noteq> []" if "parse_members d (skip_ws q2) = Some u" for u using that by auto
  have lt: "length (skip_ws q2) < length (c # t)"
    using len c1(2) length_skip_ws [of q] q2 le_less_trans [OF length_skip_ws [of q2], of "length (c # t)"] by simp
  have rec: "parse_members d (skip_ws q2 @ x) = Some (ms', r' @ x)"
    if "c2 = CHR '',''" "parse_members d (skip_ws q2) = Some (ms', r')" for ms' r'
    by (rule "5.IH"(2)) (use b q1 v c c1 q2 lt that in auto)
  from "5.prems" b b' c c1 q1 v v' q2 len q2_ne rec lt show ?case
    by (auto simp: skip_ws_append split: if_splits)
qed simp_all

text \<open>
  No proper prefix of a JSON object is a JSON text: what a write torn in the middle
  leaves behind cannot be mistaken for an entry.
\<close>

lemma json_parse_strict_prefix:
  assumes "parse_value 0 (CHR ''{'' # s) = Some (v, [])" "strict_prefix p (CHR ''{'' # s)"
  shows "json_parse p = None"
proof (cases p)
  case (Cons c t)
  obtain x where x: "CHR ''{'' # s = p @ x" "x \<noteq> []" using assms(2) by (auto simp: strict_prefix_def prefix_def)
  with Cons have p: "p = CHR ''{'' # t" by simp
  have "is_ws CHR ''{'' = False" by code_simp
  then have ws: "skip_ws p = p" by (simp add: skip_ws_def p)
  have nd: "\<not> is_digit CHR ''{''" by code_simp
  show ?thesis
  proof (rule ccontr)
    assume "json_parse p \<noteq> None"
    then obtain u r where u: "parse_value 0 p = Some (u, r)" by (auto simp: json_parse_def ws split: option.splits)
    then have "parse_value 0 (p @ x) = Some (u, r @ x)" by (rule parse_extend(1)) (use p nd in simp)
    with assms(1) x show False by simp
  qed
qed (simp add: json_parse_def skip_ws_def)

text \<open>An encoded string has no control characters, hence no newline.\<close>

lemma enc_body_printable: "x \<in> set (enc_body s) \<Longrightarrow> 32 \<le> (of_char x :: nat)"
proof (induction s rule: enc_body.induct)
  case (2 c s)
  let ?n = "of_char c :: nat"
  show ?case
  proof (cases "?n < 128")
    case True
    have hexd: "32 \<le> (of_char (hex_digit k) :: nat)" if "k < 16" for k
    proof -
      have "\<forall>k \<in> set [0..<16]. 32 \<le> (of_char (hex_digit k) :: nat)" by code_simp
      with that show ?thesis by simp
    qed
    show ?thesis
      using "2.prems" "2.IH"(1) [OF refl True] True hexd [of "?n div 16"] hexd [of "?n mod 16"]
      by (auto simp: Let_def split: if_splits)
  next
    case False
    show ?thesis
    proof (cases "utf8_width (c # s)")
      case 0
      then show ?thesis using "2.prems" False "2.IH"(2) [OF refl False refl 0] by (auto simp: Let_def)
    next
      case (Suc w)
      show ?thesis
        using "2.prems" False Suc utf8_continuation [OF Suc, of x]
          "2.IH"(3) [OF refl False refl] "2.IH"(4) [OF refl False refl] "2.IH"(5) [OF refl False refl]
        by (auto simp: Let_def split: if_split_asm)
    qed
  qed
qed simp

lemma json_quote_no_newline: "CHR 0x0A \<notin> set (json_quote s)"
  using enc_body_printable [of "CHR 0x0A" s] by (auto simp: json_quote_def)

end
