(* ===== verification/Go_Codec.thy ===== *)
theory Go_Codec
  imports Go_Json
begin

text \<open>
  Encodings of Go's standard library that the services put between their records and the
  store: decimal integers (\<^verbatim>\<open>strconv\<close>), standard base64 (\<^verbatim>\<open>encoding/base64\<close>), JSON
  objects written by \<^verbatim>\<open>json.Marshal\<close>, and maps with string keys.  Each encoder comes
  with the lemma that its decoder gives the value back.

  A Go map with string keys is a list of pairs with strictly increasing keys
  (\<open>gomap\<close>), so that equal maps are equal lists.
\<close>

section \<open>Maps with string keys\<close>

type_synonym 'v gomap = "(string \<times> 'v) list"

fun map_put :: "string \<Rightarrow> 'v \<Rightarrow> 'v gomap \<Rightarrow> 'v gomap" where
  "map_put k v [] = [(k, v)]"
| "map_put k v ((k', v') # m) =
     (if k < k' then (k, v) # (k', v') # m
      else if k = k' then (k, v) # m
      else (k', v') # map_put k v m)"

definition map_del :: "string \<Rightarrow> 'v gomap \<Rightarrow> 'v gomap" where
  "map_del k m = filter (\<lambda>(k', _). k' \<noteq> k) m"

text \<open>\<^verbatim>\<open>for k, v := range src { dst[k] = v }\<close>.\<close>

definition map_copy :: "'v gomap \<Rightarrow> 'v gomap \<Rightarrow> 'v gomap" where
  "map_copy src dst = fold (\<lambda>(k, v) m. map_put k v m) src dst"

text \<open>Reading a missing key of a \<^verbatim>\<open>map[string]string\<close> gives the empty string.\<close>

definition map_str :: "string gomap \<Rightarrow> string \<Rightarrow> string" where
  "map_str m k = (case map_of m k of None \<Rightarrow> [] | Some v \<Rightarrow> v)"

definition wf_map :: "'v gomap \<Rightarrow> bool" where
  "wf_map m \<longleftrightarrow> sorted_wrt (<) (map fst m)"

lemma map_of_put [simp]: "map_of (map_put k v m) = (map_of m)(k \<mapsto> v)"
  by (induction m) (auto simp: fun_eq_iff)

lemma map_of_del [simp]: "map_of (map_del k m) = (map_of m)(k := None)"
  by (induction m) (auto simp: map_del_def fun_eq_iff)

lemma fst_set_map_put: "fst ` set (map_put k v m) = insert k (fst ` set m)"
proof (induction m)
  case (Cons p m)
  then show ?case by (cases p) (simp add: insert_commute)
qed simp

lemma wf_map_Nil [simp]: "wf_map []"
  by (simp add: wf_map_def)

lemma wf_map_put [simp]: "wf_map m \<Longrightarrow> wf_map (map_put k v m)"
proof (induction m)
  case (Cons p m)
  then show ?case using fst_set_map_put [of k v m] by (cases p) (fastforce simp: wf_map_def)
qed (simp add: wf_map_def)

lemma wf_map_del [simp]: "wf_map m \<Longrightarrow> wf_map (map_del k m)"
  by (induction m) (auto simp: wf_map_def map_del_def)

lemma wf_map_distinct: "wf_map m \<Longrightarrow> distinct (map fst m)"
  by (simp add: wf_map_def strict_sorted_iff)

lemma wf_map_ext: "wf_map m \<Longrightarrow> wf_map m' \<Longrightarrow> map_of m = map_of m' \<Longrightarrow> m = m'"
  unfolding wf_map_def using strict_sorted_pairs_unique [of m m'] set_map_of_compr [of m] set_map_of_compr [of m']
  by (metis strict_sorted_iff)

section \<open>Splitting strings\<close>

text \<open>\<^verbatim>\<open>strings.SplitN\<close> at a single byte, for a positive count.\<close>

fun SplitN :: "string \<Rightarrow> char \<Rightarrow> nat \<Rightarrow> string list" where
  "SplitN s c 0 = []"
| "SplitN s c (Suc 0) = [s]"
| "SplitN s c (Suc (Suc n)) =
     (case Cut s c of (before, after, found) \<Rightarrow> if found then before # SplitN after c (Suc n) else [s])"

text \<open>The last part of \<^verbatim>\<open>strings.Split\<close> at a single byte.\<close>

definition after_last :: "char \<Rightarrow> string \<Rightarrow> string" where
  "after_last c s = rev (takeWhile (\<lambda>x. x \<noteq> c) (rev s))"

definition TrimRight :: "string \<Rightarrow> char \<Rightarrow> string" where
  "TrimRight s c = rev (dropWhile (\<lambda>x. x = c) (rev s))"

definition path_Base :: "string \<Rightarrow> string" where
  "path_Base p =
     (if p = [] then ''.''
      else let t = TrimRight p CHR ''/'' in if t = [] then ''/'' else after_last CHR ''/'' t)"

lemma Cut_append: "c \<notin> set s \<Longrightarrow> Cut (s @ c # t) c = (s, t, True)"
  by (induction s) auto

lemma Cut_absent: "c \<notin> set s \<Longrightarrow> Cut s c = (s, [], False)"
  by (induction s) auto

section \<open>Decimal integers\<close>

text \<open>\<^verbatim>\<open>strconv.FormatInt\<close> and \<^verbatim>\<open>strconv.Itoa\<close> are \<open>show_int\<close>, \<^verbatim>\<open>ParseInt\<close> in base 10 is \<open>Atoi\<close>.\<close>

lemma digits_value_append: "digits_value acc (s @ t) =
    (case digits_value acc s of None \<Rightarrow> None | Some n \<Rightarrow> digits_value n t)"
  by (induction acc s rule: digits_value.induct) (auto split: option.splits)

lemma digit_value_char: "d < 10 \<Longrightarrow> digit_value (char_of (48 + d)) = Some (int d)"
  by (simp add: digit_value_def)

lemma digits_value_show_nat: "digits_value 0 (show_nat n) = Some (int n)"
proof (induction n rule: show_nat.induct)
  case (1 n)
  show ?case
  proof (cases "n < 10")
    case True
    then show ?thesis by (simp add: show_nat.simps [of n] digit_value_char)
  next
    case False
    have "int (n div 10) * 10 + int (n mod 10) = int n"
      by (metis div_mult_mod_eq of_nat_add of_nat_mult of_nat_numeral)
    with False 1 digit_value_char [of "n mod 10"] show ?thesis
      by (simp add: show_nat.simps [of n] digits_value_append)
  qed
qed

lemma show_nat_digits: "c \<in> set (show_nat n) \<Longrightarrow> 48 \<le> (of_char c :: nat) \<and> (of_char c :: nat) \<le> 57"
proof (induction n rule: show_nat.induct)
  case (1 n)
  then show ?case by (cases "n < 10") (auto simp: show_nat.simps [of n])
qed

lemma show_nat_Cons: "\<exists>c t. show_nat n = c # t"
  by (metis Nil_is_append_conv list.exhaust not_Cons_self2 show_nat.simps)

lemma Atoi_show_int:
  assumes "- 9223372036854775808 \<le> i" "i \<le> 9223372036854775807"
  shows "Atoi (show_int i) = Some i"
proof (cases "i < 0")
  case True
  then show ?thesis
    using assms show_nat_Cons [of "nat (- i)"] digits_value_show_nat [of "nat (- i)"]
    by (auto simp: Atoi_def show_int_def Let_def)
next
  case False
  obtain c t where ct: "show_nat (nat i) = c # t" using show_nat_Cons by blast
  then have "c \<noteq> CHR ''-''" "c \<noteq> CHR ''+''" using show_nat_digits [of c "nat i"] by auto
  then show ?thesis
    using False assms ct digits_value_show_nat [of "nat i"] by (simp add: Atoi_def show_int_def Let_def)
qed

section \<open>Base64\<close>

text \<open>
  \<^verbatim>\<open>base64.StdEncoding\<close>.  The decoder ignores line breaks, accepts padding only at the
  end and does not look at the unused bits of the last character.
\<close>

definition b64_char :: "nat \<Rightarrow> char" where
  "b64_char n =
     char_of (if n < 26 then n + 65 else if n < 52 then n + 71 else if n < 62 then n - 4
              else if n = 62 then 43 else 47)"

definition b64_value :: "char \<Rightarrow> nat option" where
  "b64_value c =
     (let n = of_char c :: nat in
      if 65 \<le> n \<and> n \<le> 90 then Some (n - 65)
      else if 97 \<le> n \<and> n \<le> 122 then Some (n - 71)
      else if 48 \<le> n \<and> n \<le> 57 then Some (n + 4)
      else if n = 43 then Some 62 else if n = 47 then Some 63 else None)"

fun b64_encode :: "string \<Rightarrow> string" where
  "b64_encode [] = []"
| "b64_encode [a] = (let x = of_char a in [b64_char (x div 4), b64_char (x mod 4 * 16), CHR ''='', CHR ''=''])"
| "b64_encode [a, b] = (let x = of_char a; y = of_char b in
     [b64_char (x div 4), b64_char (x mod 4 * 16 + y div 16), b64_char (y mod 16 * 4), CHR ''=''])"
| "b64_encode (a # b # c # r) = (let x = of_char a; y = of_char b; z = of_char c in
     [b64_char (x div 4), b64_char (x mod 4 * 16 + y div 16), b64_char (y mod 16 * 4 + z div 64), b64_char (z mod 64)]
     @ b64_encode r)"

fun b64_quads :: "string \<Rightarrow> string option" where
  "b64_quads [] = Some []"
| "b64_quads (a # b # c # d # r) =
     (case (b64_value a, b64_value b) of
        (Some w, Some x) \<Rightarrow>
          if c = CHR ''='' then (if d = CHR ''='' \<and> r = [] then Some [char_of (w * 4 + x div 16)] else None)
          else (case b64_value c of
             None \<Rightarrow> None
           | Some y \<Rightarrow>
               if d = CHR ''='' then
                 (if r = [] then Some [char_of (w * 4 + x div 16), char_of (x mod 16 * 16 + y div 4)] else None)
               else (case b64_value d of
                  None \<Rightarrow> None
                | Some z \<Rightarrow> map_option (\<lambda>t. char_of (w * 4 + x div 16) # char_of (x mod 16 * 16 + y div 4)
                    # char_of (y mod 4 * 64 + z) # t) (b64_quads r)))
      | _ \<Rightarrow> None)"
| "b64_quads _ = None"

definition b64_decode :: "string \<Rightarrow> string option" where
  "b64_decode s = b64_quads (filter (\<lambda>c. c \<noteq> CHR 0x0A \<and> c \<noteq> CHR 0x0D) s)"

lemma of_char_b64: "n < 64 \<Longrightarrow> (of_char (b64_char n) :: nat) =
    (if n < 26 then n + 65 else if n < 52 then n + 71 else if n < 62 then n - 4 else if n = 62 then 43 else 47)"
  by (simp add: b64_char_def)

lemma b64_value_char:
  assumes "n < 64"
  shows "b64_value (b64_char n) = Some n" "b64_char n \<noteq> CHR ''=''" "b64_char n \<noteq> CHR 0x0A" "b64_char n \<noteq> CHR 0x0D"
proof -
  show "b64_value (b64_char n) = Some n" using assms by (simp add: b64_value_def of_char_b64 [OF assms] Let_def) linarith
  have "(of_char (b64_char n) :: nat) \<noteq> 61 \<and> (of_char (b64_char n) :: nat) \<noteq> 10 \<and> (of_char (b64_char n) :: nat) \<noteq> 13"
    unfolding of_char_b64 [OF assms] by auto
  then show "b64_char n \<noteq> CHR ''=''" "b64_char n \<noteq> CHR 0x0A" "b64_char n \<noteq> CHR 0x0D" by auto
qed

lemma of_char_less_256: "(of_char c :: nat) < 256"
  by (cases c) (simp add: of_char_def)

lemma byte_div: "(x :: nat) < 256 \<Longrightarrow> x div 4 < 64" "x < 256 \<Longrightarrow> x div 16 < 16" "x < 256 \<Longrightarrow> x div 64 < 4"
  by (rule less_mult_imp_div_less, simp)+

lemma b64_bounds:
  fixes x y z :: nat
  shows "y < 256 \<Longrightarrow> x mod 4 * 16 + y div 16 < 64" "z < 256 \<Longrightarrow> y mod 16 * 4 + z div 64 < 64"
    "z mod 64 < 64" "x mod 4 * 16 < 64" "y mod 16 * 4 < 64"
  using byte_div(2) [of y] byte_div(3) [of z] mod_less_divisor [of 4 x] mod_less_divisor [of 16 y] by linarith+

lemma b64_first: "x div 4 * 4 + (x mod 4 * 16 + y div 16) div 16 = x" if "y < 256" for x y :: nat
  using byte_div(2) [OF that] by simp

lemma b64_second: "(x mod 4 * 16 + y div 16) mod 16 * 16 + (y mod 16 * 4 + z div 64) div 4 = y"
  if "y < 256" "z < 256" for x y z :: nat
  using byte_div(2) [OF that(1)] byte_div(3) [OF that(2)] by simp

lemma b64_third: "(y mod 16 * 4 + z div 64) mod 4 * 64 + z mod 64 = z" if "z < 256" for y z :: nat
  using byte_div(3) [OF that] by simp

lemmas b64_rules = b64_value_char byte_div(1) b64_bounds of_char_less_256

lemma b64_encode_chars: "list_all (\<lambda>c. c \<noteq> CHR 0x0A \<and> c \<noteq> CHR 0x0D) (b64_encode s)"
  by (induction s rule: b64_encode.induct) (simp_all add: Let_def b64_rules)

lemma b64_quads_encode: "b64_quads (b64_encode s) = Some s"
proof (induction s rule: b64_encode.induct)
  case (2 a)
  show ?case by (simp add: Let_def b64_rules)
next
  case (3 a b)
  show ?case
    using b64_first [of "of_char b" "of_char a"] byte_div(2) [of "of_char b"] by (simp add: Let_def b64_rules)
next
  case (4 a b c r)
  then show ?case
    using byte_div(2) [of "of_char b"] byte_div(3) [of "of_char c"] by (simp add: Let_def b64_rules)
qed simp

lemma b64_roundtrip: "b64_decode (b64_encode s) = Some s"
proof -
  have "filter (\<lambda>c. c \<noteq> CHR 0x0A \<and> c \<noteq> CHR 0x0D) (b64_encode s) = b64_encode s"
    using b64_encode_chars [of s] by (simp add: filter_id_conv list_all_iff)
  then show ?thesis by (simp add: b64_decode_def b64_quads_encode)
qed

section \<open>Writing JSON\<close>

text \<open>What the services marshal: strings, integers, arrays and objects.\<close>

datatype jval = VStr string | VInt int | VArr "jval list" | VObj "(string \<times> jval) list"

fun join_with :: "string \<Rightarrow> string list \<Rightarrow> string" where
  "join_with sep [] = []"
| "join_with sep [x] = x"
| "join_with sep (x # y # r) = x @ sep @ join_with sep (y # r)"

fun show_jval :: "jval \<Rightarrow> string" where
  "show_jval (VStr s) = json_quote s"
| "show_jval (VInt i) = show_int i"
| "show_jval (VArr vs) = CHR ''['' # join_with '','' (map show_jval vs) @ '']''"
| "show_jval (VObj ms) = CHR ''{'' # join_with '','' (map (\<lambda>(k, v). json_quote k @ CHR '':'' # show_jval v) ms) @ ''}''"

text \<open>What the reader makes of it.\<close>

fun read_jval :: "jval \<Rightarrow> json" where
  "read_jval (VStr s) = JStr (to_valid s)"
| "read_jval (VInt i) = JNum (show_int i)"
| "read_jval (VArr vs) = JArr (map (\<lambda>v. (show_jval v, read_jval v)) vs)"
| "read_jval (VObj ms) = JObj (map (\<lambda>(k, v). (to_valid k, show_jval v, read_jval v)) ms)"

fun fits :: "int \<Rightarrow> jval \<Rightarrow> bool" where
  "fits d (VStr s) = True"
| "fits d (VInt i) = True"
| "fits d (VArr vs) = (d < maxNestingDepth \<and> list_all (fits (d + 1)) vs)"
| "fits d (VObj ms) = (d < maxNestingDepth \<and> list_all (\<lambda>(k, v). fits (d + 1) v) ms)"

definition num_end :: "string \<Rightarrow> bool" where
  "num_end r \<longleftrightarrow> (case r of [] \<Rightarrow> True | c # _ \<Rightarrow> \<not> is_digit c \<and> c \<notin> {CHR ''.'', CHR ''e'', CHR ''E''})"

lemma num_end_simps [simp]: "num_end []" "num_end (CHR '','' # r)" "num_end (CHR ''}'' # r)" "num_end (CHR '']'' # r)"
  by (simp_all add: num_end_def is_digit_def byte_in_def)

lemma show_nat_lead: "show_nat n = c # t \<Longrightarrow> c = CHR ''0'' \<Longrightarrow> t = []"
proof (induction n arbitrary: c t rule: show_nat.induct)
  case (1 n)
  show ?case
  proof (cases "n < 10")
    case True
    then show ?thesis using "1.prems" by (simp add: show_nat.simps [of n])
  next
    case False
    obtain c' t' where ct: "show_nat (n div 10) = c' # t'" using show_nat_Cons by blast
    then have "c' = c" "t = t' @ [char_of (48 + n mod 10)]" using "1.prems"(1) False by (auto simp: show_nat.simps [of n])
    with "1.IH" [OF False ct] "1.prems"(2) have "t' = []" by simp
    then have "show_nat (n div 10) = ''0''" using ct \<open>c' = c\<close> "1.prems"(2) by simp
    then have "int (n div 10) = 0" using digits_value_show_nat [of "n div 10"] by (simp add: digit_value_def)
    with False show ?thesis by simp
  qed
qed

lemma is_digit_show_nat: "c \<in> set (show_nat n) \<Longrightarrow> is_digit c"
  using show_nat_digits by (simp add: is_digit_def byte_in_def)

lemma digits1_show_nat: "num_end r \<Longrightarrow> digits1 (show_nat n @ r) = Some (show_nat n, r)"
proof -
  assume r: "num_end r"
  have t: "takeWhile is_digit r = []" "dropWhile is_digit r = r" using r by (auto simp: num_end_def split: list.splits)
  have d: "\<forall>c \<in> set (show_nat n). is_digit c" using is_digit_show_nat by blast
  have "takeWhile is_digit (show_nat n @ r) = show_nat n" "dropWhile is_digit (show_nat n @ r) = r"
    using d t by (simp_all add: takeWhile_append2 dropWhile_append2)
  then show ?thesis using show_nat_Cons [of n] by (auto simp: digits1_def Let_def)
qed

lemma num_int_show_nat: "num_end r \<Longrightarrow> num_int (show_nat n @ r) = Some (show_nat n, r)"
proof -
  assume r: "num_end r"
  obtain c t where ct: "show_nat n = c # t" using show_nat_Cons by blast
  show ?thesis
    using digits1_show_nat [OF r, of n] show_nat_lead [OF ct] ct by (auto simp: num_int_def)
qed

lemma scan_number_show_int: "num_end r \<Longrightarrow> scan_number (show_int i @ r) = Some (show_int i, r)"
proof -
  assume r: "num_end r"
  have f: "num_frac r = Some ([], r)" "num_exp r = Some ([], r)"
    using r by (auto simp: num_end_def num_frac_def num_exp_def split: list.splits)
  obtain c t where ct: "show_nat (nat i) = c # t" using show_nat_Cons by blast
  then have "c \<noteq> CHR ''-''" using show_nat_digits [of c "nat i"] by auto
  then show ?thesis
    using f num_int_show_nat [OF r, of "nat i"] num_int_show_nat [OF r, of "nat (- i)"] ct
    by (simp add: scan_number_def show_int_def)
qed

text \<open>A written value starts with no white space and no closing bracket.\<close>

lemma show_int_start: "\<exists>c t. show_int i = c # t \<and> (c = CHR ''-'' \<or> is_digit c)"
proof (cases "i < 0")
  case False
  obtain c t where "show_nat (nat i) = c # t" using show_nat_Cons by blast
  then show ?thesis using False is_digit_show_nat [of c "nat i"] by (simp add: show_int_def)
qed (simp add: show_int_def)

lemma show_jval_start: "\<exists>c t. show_jval v = c # t \<and> \<not> is_ws c \<and> c \<noteq> CHR ''}'' \<and> c \<noteq> CHR '']''"
proof (cases v)
  case (VInt i)
  obtain c t where "show_int i = c # t" "c = CHR ''-'' \<or> is_digit c" using show_int_start by blast
  then show ?thesis using VInt by (auto simp: is_ws_def is_digit_def byte_in_def)
qed (simp_all add: json_quote_def is_ws_def)

lemma skip_ws_show [simp]: "skip_ws (show_jval v @ r) = show_jval v @ r"
  using show_jval_start [of v] by (auto simp: skip_ws_def)

lemma parse_show_int: "num_end r \<Longrightarrow> parse_value d (show_int i @ r) = Some (JNum (show_int i), r)"
proof -
  assume r: "num_end r"
  obtain c t where ct: "show_int i = c # t" "c = CHR ''-'' \<or> is_digit c" using show_int_start by blast
  then have "c \<noteq> CHR 0x22" "c \<noteq> CHR ''{''" "c \<noteq> CHR ''[''" "c \<noteq> CHR ''t''" "c \<noteq> CHR ''f''" "c \<noteq> CHR ''n''"
    by (auto simp: is_digit_def byte_in_def)
  with scan_number_show_int [OF r, of i] ct(1) show ?thesis by (simp add: HasPrefix_def)
qed

lemma parse_elems_show:
  assumes "\<And>v r'. v \<in> set vs \<Longrightarrow> num_end r' \<Longrightarrow> parse_value d (show_jval v @ r') = Some (read_jval v, r')" "vs \<noteq> []"
  shows "parse_elems d (join_with '','' (map show_jval vs) @ CHR '']'' # r)
         = Some (map (\<lambda>v. (show_jval v, read_jval v)) vs, r)"
  using assms
proof (induction vs)
  case (Cons v vs)
  have pv: "parse_value d (show_jval v @ r') = Some (read_jval v, r')" if "num_end r'" for r'
    using Cons.prems(1) that by simp
  show ?case
  proof (cases vs)
    case Nil
    then show ?thesis
      using pv [of "CHR '']'' # r"] by (simp add: parse_elems.simps skip_ws_def is_ws_def)
  next
    case (Cons w ws)
    let ?rest = "join_with '','' (map show_jval vs) @ CHR '']'' # r"
    have ih: "parse_elems d ?rest = Some (map (\<lambda>v. (show_jval v, read_jval v)) vs, r)"
      using Cons.IH Cons.prems Cons by simp
    have "skip_ws ?rest = ?rest"
      using Cons skip_ws_show [of w] by (cases ws) simp_all
    with ih pv [of "CHR '','' # ?rest"] Cons show ?thesis
      by (simp add: parse_elems.simps [of d "show_jval v @ _"] skip_ws_def [of "CHR '','' # _"] is_ws_def)
  qed
qed simp

lemma parse_members_show:
  assumes "\<And>k v r'. (k, v) \<in> set ms \<Longrightarrow> num_end r' \<Longrightarrow> parse_value d (show_jval v @ r') = Some (read_jval v, r')" "ms \<noteq> []"
  shows "parse_members d (join_with '','' (map (\<lambda>(k, v). json_quote k @ CHR '':'' # show_jval v) ms) @ CHR ''}'' # r)
         = Some (map (\<lambda>(k, v). (to_valid k, show_jval v, read_jval v)) ms, r)"
  using assms
proof (induction ms)
  case (Cons m ms)
  obtain k v where m: "m = (k, v)" by (cases m)
  have pv: "parse_value d (show_jval v @ r') = Some (read_jval v, r')" if "num_end r'" for r'
    using Cons.prems(1) [of k v] that m by simp
  have colon: "skip_ws (CHR '':'' # s) = CHR '':'' # s" "skip_ws (CHR '','' # s) = CHR '','' # s"
    "skip_ws (CHR ''}'' # s) = CHR ''}'' # s" for s by (simp_all add: skip_ws_def is_ws_def)
  show ?case
  proof (cases ms)
    case Nil
    then show ?thesis
      using pv [of "CHR ''}'' # r"] m by (simp add: json_quote_def scan_str_enc_body unquote_enc_body colon)
  next
    case (Cons w ws)
    let ?rest = "join_with '','' (map (\<lambda>(k, v). json_quote k @ CHR '':'' # show_jval v) ms) @ CHR ''}'' # r"
    have ih: "parse_members d ?rest = Some (map (\<lambda>(k, v). (to_valid k, show_jval v, read_jval v)) ms, r)"
    proof (rule Cons.IH)
      show "parse_value d (show_jval v' @ r') = Some (read_jval v', r')" if "(k', v') \<in> set ms" "num_end r'" for k' v' r'
        using Cons.prems(1) [of k' v'] that by simp
    qed (simp add: Cons)
    have "skip_ws ?rest = ?rest"
      using Cons by (cases ws) (simp_all add: json_quote_def skip_ws_def is_ws_def split: prod.splits)
    with ih pv [of "CHR '','' # ?rest"] Cons m show ?thesis
      by (simp add: json_quote_def scan_str_enc_body unquote_enc_body colon)
  qed
qed simp

lemma parse_show:
  "fits d v \<Longrightarrow> num_end r \<Longrightarrow> parse_value d (show_jval v @ r) = Some (read_jval v, r)"
proof (induction v arbitrary: d r rule: show_jval.induct)
  case (3 vs)
  show ?case
  proof (cases vs)
    case Nil
    then show ?thesis using "3.prems" by (simp add: skip_ws_def is_ws_def HasPrefix_def)
  next
    case (Cons v ws)
    let ?s = "join_with '','' (map show_jval vs)"
    have el: "parse_elems (d + 1) (?s @ CHR '']'' # r) = Some (map (\<lambda>v. (show_jval v, read_jval v)) vs, r)"
      using "3.IH" "3.prems"(1) Cons by (intro parse_elems_show) (auto simp: list_all_iff)
    obtain c t where ct: "?s @ CHR '']'' # r = c # t" "\<not> is_ws c" "c \<noteq> CHR '']''"
      using show_jval_start [of v] Cons by (cases ws) auto
    then have "skip_ws (?s @ CHR '']'' # r) = ?s @ CHR '']'' # r" "\<not> HasPrefix (?s @ CHR '']'' # r) '']''"
      by (simp_all add: skip_ws_def HasPrefix_def)
    with el "3.prems" show ?thesis by simp
  qed
next
  case (4 ms)
  show ?case
  proof (cases ms)
    case Nil
    then show ?thesis using "4.prems" by (simp add: skip_ws_def is_ws_def HasPrefix_def)
  next
    case (Cons m ws)
    let ?s = "join_with '','' (map (\<lambda>(k, v). json_quote k @ CHR '':'' # show_jval v) ms)"
    have el: "parse_members (d + 1) (?s @ CHR ''}'' # r)
        = Some (map (\<lambda>(k, v). (to_valid k, show_jval v, read_jval v)) ms, r)"
      using "4.IH" "4.prems"(1) Cons by (intro parse_members_show) (fastforce simp: list_all_iff)+
    obtain t where ct: "?s @ CHR ''}'' # r = CHR 0x22 # t"
      using Cons by (cases m; cases ws) (auto simp: json_quote_def)
    then have "skip_ws (?s @ CHR ''}'' # r) = ?s @ CHR ''}'' # r" "\<not> HasPrefix (?s @ CHR ''}'' # r) ''}''"
      by (simp_all add: skip_ws_def HasPrefix_def is_ws_def)
    with el "4.prems" show ?thesis by simp
  qed
qed (simp_all add: parse_json_quote parse_show_int)

lemma json_parse_show: "fits 0 v \<Longrightarrow> json_parse (show_jval v) = Some (read_jval v)"
  using parse_show [of 0 v "[]"] skip_ws_show [of v "[]"] by (simp add: json_parse_def skip_ws_def [of "[]"])

end
