(* ===== verification/Ddb_Number.thy ===== *)
theory Ddb_Number
  imports Go_Json Complex_Main
begin

text \<open>
  The order-preserving encoding of DynamoDB numbers used for keys,
  \<^verbatim>\<open>internal/services/dynamodb/numeric_encoding.go\<close> and \<^verbatim>\<open>key_order.go\<close>.  The specification is
  the rational number a decimal literal denotes; the theorem is that byte order of the
  encodings is the order of the numbers, equality included.
\<close>

section \<open>Decimal literals\<close>

text \<open>
  The regular expression \<^verbatim>\<open>^([+-]?)(\d+)(?:\.(\d+))?(?:[eE]([+-]?\d+))?$\<close>: at every point the
  next byte decides how it continues, so reading maximal runs of digits is what the
  backtracking matcher finds.
\<close>

record number_parts =
  np_sign :: string
  np_int :: string
  np_frac :: string
  np_exp :: string

definition take_sign :: "string \<Rightarrow> string \<times> string" where
  "take_sign s = (case s of c # t \<Rightarrow> if c = CHR ''+'' \<or> c = CHR ''-'' then ([c], t) else ([], s) | [] \<Rightarrow> ([], []))"

definition take_digits :: "string \<Rightarrow> (string \<times> string) option" where
  "take_digits s = (if takeWhile is_digit s = [] then None else Some (takeWhile is_digit s, dropWhile is_digit s))"

definition match_exponent :: "string \<Rightarrow> string option" where
  "match_exponent s =
     (case s of
        [] \<Rightarrow> Some []
      | c # t \<Rightarrow>
          if c = CHR ''e'' \<or> c = CHR ''E'' then
            (let (sg, u) = take_sign t in
             case take_digits u of Some (ds, []) \<Rightarrow> Some (sg @ ds) | _ \<Rightarrow> None)
          else None)"

definition match_fraction :: "string \<Rightarrow> (string \<times> string) option" where
  "match_fraction s =
     (case s of
        c # t \<Rightarrow> if c = CHR ''.'' then take_digits t else Some ([], s)
      | [] \<Rightarrow> Some ([], []))"

definition numberPattern :: "string \<Rightarrow> number_parts option" where
  "numberPattern s =
     (let (sg, s1) = take_sign s in
      case take_digits s1 of
        None \<Rightarrow> None
      | Some (ip, s2) \<Rightarrow>
          (case match_fraction s2 of
             None \<Rightarrow> None
           | Some (fp, s3) \<Rightarrow>
               (case match_exponent s3 of
                  None \<Rightarrow> None
                | Some ep \<Rightarrow> Some \<lparr>np_sign = sg, np_int = ip, np_frac = fp, np_exp = ep\<rparr>)))"

section \<open>The encoder\<close>

definition numExpWidth :: nat where "numExpWidth = 4"
definition numExpBias :: int where "numExpBias = 1000"
definition numMantissaWidth :: nat where "numMantissaWidth = 40"

datatype number_error = NotANumber | InvalidExponent | TooManyDigits | ExponentRange

text \<open>The digit loop of \<open>parseSmallSignedInt\<close>, with its early return.\<close>

fun small_digits :: "int \<Rightarrow> string \<Rightarrow> int option" where
  "small_digits n [] = Some n"
| "small_digits n (c # s) =
     (if \<not> is_digit c then None
      else let n' = n * 10 + (of_char c - 48) in if 1000000 < n' then None else small_digits n' s)"

definition parseSmallSignedInt :: "string \<Rightarrow> int option" where
  "parseSmallSignedInt s =
     (let (neg, ds) =
        (if HasPrefix s ''+'' then (False, drop 1 s) else if HasPrefix s ''-'' then (True, drop 1 s) else (False, s))
      in if ds = [] then None
         else map_option (\<lambda>n. if neg then - n else n) (small_digits 0 ds))"

definition complement_digit :: "char \<Rightarrow> char" where
  "complement_digit c = char_of (48 + (57 - of_char c) :: nat)"

definition complementDigits :: "string \<Rightarrow> string" where
  "complementDigits s = map complement_digit s"

definition pow10 :: "nat \<Rightarrow> int" where
  "pow10 n = 10 ^ n"

text \<open>\<^verbatim>\<open>%0*d\<close> of a number that is not negative.\<close>

definition pad_int :: "nat \<Rightarrow> int \<Rightarrow> string" where
  "pad_int w i = (let s = show_int i in replicate (w - length s) CHR ''0'' @ s)"

definition zeroEncoding :: string where
  "zeroEncoding = CHR ''1'' # replicate numExpWidth CHR ''0'' @ replicate numMantissaWidth CHR ''0''"

definition trim_right_zeros :: "string \<Rightarrow> string" where
  "trim_right_zeros s = rev (dropWhile (\<lambda>c. c = CHR ''0'') (rev s))"

definition encode_digits :: "bool \<Rightarrow> string \<Rightarrow> int \<Rightarrow> number_error + string" where
  "encode_digits negative digits0 e0 =
     (let digits = trim_right_zeros digits0;
          e10 = e0 + (int (length digits0) - int (length digits));
          biased = e10 + int (length digits) - 1 + numExpBias
      in if numMantissaWidth < length digits then Inl TooManyDigits
         else if biased < 0 \<or> pow10 numExpWidth \<le> biased then Inl ExponentRange
         else (let expField = pad_int numExpWidth biased;
                   mantField = digits @ replicate (numMantissaWidth - length digits) CHR ''0''
               in if negative then Inr (CHR ''0'' # complementDigits expField @ complementDigits mantField)
                  else Inr (CHR ''2'' # expField @ mantField)))"

definition encodeOrderableNumber :: "string \<Rightarrow> number_error + string" where
  "encodeOrderableNumber s =
     (case numberPattern (TrimSpace s) of
        None \<Rightarrow> Inl NotANumber
      | Some m \<Rightarrow>
          (case (if np_exp m = [] then Some 0 else parseSmallSignedInt (np_exp m)) of
             None \<Rightarrow> Inl InvalidExponent
           | Some e \<Rightarrow>
               (let digits = dropWhile (\<lambda>c. c = CHR ''0'') (np_int m @ np_frac m) in
                if digits = [] then Inr zeroEncoding
                else encode_digits (np_sign m = ''-'') digits (e - int (length (np_frac m))))))"

text \<open>\<^verbatim>\<open>strings.Compare\<close>\<close>

definition str_compare :: "string \<Rightarrow> string \<Rightarrow> int" where
  "str_compare a b = (if a = b then 0 else if a < b then - 1 else 1)"

definition compareKeyAttr :: "string \<Rightarrow> string \<Rightarrow> string \<Rightarrow> int" where
  "compareKeyAttr typ a b =
     (if typ = ''N'' then
        (case (encodeOrderableNumber a, encodeOrderableNumber b) of
           (Inr ea, Inr eb) \<Rightarrow> str_compare ea eb
         | _ \<Rightarrow> str_compare a b)
      else str_compare a b)"

definition encodeStorageKeyComponent :: "string \<Rightarrow> string \<Rightarrow> string" where
  "encodeStorageKeyComponent typ raw =
     (if typ \<noteq> ''N'' then raw
      else case encodeOrderableNumber raw of Inl _ \<Rightarrow> raw | Inr e \<Rightarrow> e)"

section \<open>What a literal denotes\<close>

definition digit_of :: "char \<Rightarrow> nat" where
  "digit_of c = of_char c - 48"

definition dval :: "string \<Rightarrow> nat" where
  "dval s = foldl (\<lambda>n c. 10 * n + digit_of c) 0 s"

definition signed_dval :: "string \<Rightarrow> int" where
  "signed_dval s = (case take_sign s of (sg, ds) \<Rightarrow> if sg = ''-'' then - int (dval ds) else int (dval ds))"

definition number_value :: "string \<Rightarrow> rat option" where
  "number_value s =
     map_option (\<lambda>m. (if np_sign m = ''-'' then - 1 else 1)
         * (of_nat (dval (np_int m)) + of_nat (dval (np_frac m)) / 10 ^ length (np_frac m))
         * 10 powi signed_dval (np_exp m))
       (numberPattern (TrimSpace s))"

section \<open>Fixed-width digit strings\<close>

abbreviation digits :: "string \<Rightarrow> bool" where
  "digits s \<equiv> list_all is_digit s"

lemma is_digit_bounds: "is_digit c \<longleftrightarrow> 48 \<le> (of_char c :: nat) \<and> (of_char c :: nat) \<le> 57"
  by (simp add: is_digit_def byte_in_def)

lemma digit_of_less: "is_digit c \<Longrightarrow> digit_of c < 10"
  unfolding is_digit_bounds digit_of_def by linarith

lemma digit_of_mono: "is_digit c \<Longrightarrow> is_digit d \<Longrightarrow> c < d \<longleftrightarrow> digit_of c < digit_of d"
  unfolding is_digit_bounds digit_of_def less_char_def by linarith

lemma digit_of_inj:
  assumes "is_digit c" "is_digit d" "digit_of c = digit_of d"
  shows "c = d"
proof -
  have "(of_char c :: nat) = of_char d"
    using assms unfolding is_digit_bounds digit_of_def by linarith
  then show ?thesis by (simp only: of_char_nat_inject)
qed

lemma dval_foldl: "foldl (\<lambda>n c. 10 * n + digit_of c) a s = a * 10 ^ length s + dval s"
proof (induction s arbitrary: a rule: rev_induct)
  case (snoc c s)
  have "dval (s @ [c]) = 10 * dval s + digit_of c" by (simp add: dval_def)
  then show ?case using snoc.IH [of a] by (simp add: distrib_left)
qed (simp add: dval_def)

lemma dval_Nil [simp]: "dval [] = 0"
  by (simp add: dval_def)

lemma dval_Cons: "dval (c # s) = digit_of c * 10 ^ length s + dval s"
  using dval_foldl [of "digit_of c" s] by (simp add: dval_def)

lemma dval_append: "dval (s @ t) = dval s * 10 ^ length t + dval t"
  using dval_foldl [of "dval s" t] by (simp add: dval_def)

lemma dval_bound: "digits s \<Longrightarrow> dval s < 10 ^ length s"
proof (induction s)
  case (Cons c s)
  then have "digit_of c + 1 \<le> 10" "dval s < 10 ^ length s" using digit_of_less [of c] by simp_all
  then have "dval (c # s) < (digit_of c + 1) * 10 ^ length s" by (simp add: dval_Cons)
  also have "\<dots> \<le> 10 * 10 ^ length s" using \<open>digit_of c + 1 \<le> 10\<close> by (rule mult_le_mono1)
  finally show ?case by simp
qed simp

lemma dval_order:
  "digits s \<Longrightarrow> digits t \<Longrightarrow> length s = length t \<Longrightarrow> (s < t \<longleftrightarrow> dval s < dval t) \<and> (s = t \<longleftrightarrow> dval s = dval t)"
proof (induction s arbitrary: t)
  case (Cons c s)
  then obtain d t' where t: "t = d # t'" "digits t'" "is_digit d" "length s = length t'" by (cases t) auto
  have c: "is_digit c" "digits s" using Cons.prems by simp_all
  let ?w = "10 ^ length t' :: nat"
  have b: "dval s < ?w" "dval t' < ?w" using dval_bound [OF c(2)] dval_bound [OF t(2)] t(4) by simp_all
  have ih: "(s < t' \<longleftrightarrow> dval s < dval t') \<and> (s = t' \<longleftrightarrow> dval s = dval t')" using Cons.IH [OF c(2) t(2,4)] .
  have v: "dval (c # s) = digit_of c * ?w + dval s" "dval t = digit_of d * ?w + dval t'" by (simp_all add: dval_Cons t)
  consider "digit_of c < digit_of d" | "digit_of d < digit_of c" | "digit_of c = digit_of d" by linarith
  then show ?case
  proof cases
    case 1
    then have "(digit_of c + 1) * ?w \<le> digit_of d * ?w" by (intro mult_le_mono1) simp
    then have "dval (c # s) < dval t" using b v by simp
    moreover have "c < d" using 1 digit_of_mono [OF c(1) t(3)] by simp
    ultimately show ?thesis using t by auto
  next
    case 2
    then have "(digit_of d + 1) * ?w \<le> digit_of c * ?w" by (intro mult_le_mono1) simp
    then have "dval t < dval (c # s)" using b v by simp
    moreover have "d < c" using 2 digit_of_mono [OF t(3) c(1)] by simp
    ultimately show ?thesis using t by (auto dest: order.asym)
  next
    case 3
    then have "c = d" by (rule digit_of_inj [OF c(1) t(3)])
    with 3 ih v t show ?thesis by simp
  qed
qed simp

lemma complement_digit:
  assumes "is_digit c"
  shows "is_digit (complement_digit c)" "digit_of (complement_digit c) = 9 - digit_of c"
proof -
  have c: "48 \<le> (of_char c :: nat)" "(of_char c :: nat) \<le> 57" using assms by (simp_all add: is_digit_bounds)
  then have "of_char (complement_digit c) = (105 - of_char c :: nat)" by (simp add: complement_digit_def)
  with c show "is_digit (complement_digit c)" "digit_of (complement_digit c) = 9 - digit_of c"
    unfolding is_digit_bounds digit_of_def by linarith+
qed

lemma complement_dval:
  "digits s \<Longrightarrow> digits (complementDigits s) \<and> length (complementDigits s) = length s
     \<and> dval (complementDigits s) + dval s = 10 ^ length s - 1"
proof (induction s)
  case (Cons c s)
  let ?w = "10 ^ length s :: nat"
  have c: "is_digit (complement_digit c)" "digit_of (complement_digit c) = 9 - digit_of c" "digit_of c \<le> 9"
    using Cons.prems complement_digit [of c] digit_of_less [of c] by simp_all
  have ih: "digits (complementDigits s)" "length (complementDigits s) = length s" "dval (complementDigits s) + dval s = ?w - 1"
    using Cons by simp_all
  have "(9 - digit_of c) * ?w + digit_of c * ?w = 9 * ?w" using c(3) by (simp add: add_mult_distrib [symmetric])
  moreover have "1 \<le> ?w" by simp
  ultimately have "dval (complementDigits (c # s)) + dval (c # s) = 10 * ?w - 1"
    using ih c(2) by (simp add: complementDigits_def dval_Cons)
  with c(1) ih show ?case by (simp add: complementDigits_def)
qed (simp add: complementDigits_def)

section \<open>Scientific notation\<close>

text \<open>
  Two numbers with mantissas of the same width compare like their exponents followed by
  their mantissas.
\<close>

lemma sci_less:
  assumes "M1 < 10 ^ Suc w" "10 ^ w \<le> M2" "B1 < (B2 :: nat)"
  shows "B1 * 10 ^ Suc w + M1 < B2 * 10 ^ Suc w + M2"
    and "of_nat M1 * 10 powi (int B1 - c) < (of_nat M2 * 10 powi (int B2 - c) :: rat)"
proof -
  have "(B1 + 1) * 10 ^ Suc w \<le> B2 * 10 ^ Suc w" using assms(3) by (intro mult_le_mono1) simp
  then show "B1 * 10 ^ Suc w + M1 < B2 * 10 ^ Suc w + M2" using assms(1) by simp
  have p: "(0 :: rat) < 10 powi (int B1 - c)" by simp
  have "(of_nat M1 :: rat) < of_nat (10 ^ Suc w)" "(of_nat (10 ^ w) :: rat) \<le> of_nat M2"
    using assms(1,2) by (simp_all only: of_nat_less_iff of_nat_le_iff)
  then have m: "(of_nat M1 :: rat) < 10 ^ Suc w" "(10 ^ w :: rat) \<le> of_nat M2" by simp_all
  have "of_nat M1 * 10 powi (int B1 - c) < (10 ^ Suc w * 10 powi (int B1 - c) :: rat)"
    by (rule mult_strict_right_mono [OF m(1) p])
  also have "\<dots> = 10 ^ w * 10 powi (int B1 + 1 - c)"
    using power_int_add_1' [of "10 :: rat" "int B1 - c"] by (simp add: algebra_simps)
  also have "\<dots> \<le> of_nat M2 * 10 powi (int B2 - c)"
  proof (rule mult_mono)
    show "(10 ^ w :: rat) \<le> of_nat M2" by (rule m(2))
    show "(10 powi (int B1 + 1 - c) :: rat) \<le> 10 powi (int B2 - c)" using assms(3) by (intro power_int_increasing) simp_all
  qed simp_all
  finally show "of_nat M1 * 10 powi (int B1 - c) < (of_nat M2 * 10 powi (int B2 - c) :: rat)" .
qed

lemma sci_order:
  fixes B1 B2 M1 M2 w :: nat and c :: int
  defines "v1 \<equiv> of_nat M1 * 10 powi (int B1 - c) :: rat" and "v2 \<equiv> of_nat M2 * 10 powi (int B2 - c)"
  assumes "10 ^ w \<le> M1" "M1 < 10 ^ Suc w" "10 ^ w \<le> M2" "M2 < 10 ^ Suc w"
  shows "(B1 * 10 ^ Suc w + M1 < B2 * 10 ^ Suc w + M2 \<longleftrightarrow> v1 < v2)
    \<and> (B1 * 10 ^ Suc w + M1 = B2 * 10 ^ Suc w + M2 \<longleftrightarrow> v1 = v2)"
proof (cases B1 B2 rule: linorder_cases)
  case less
  with sci_less(1) [OF assms(4,5) less] sci_less(2) [OF assms(4,5) less, of c] show ?thesis unfolding v1_def v2_def by auto
next
  case greater
  with sci_less(1) [OF assms(6,3) greater] sci_less(2) [OF assms(6,3) greater, of c] show ?thesis unfolding v1_def v2_def by auto
next
  case equal
  have p: "(0 :: rat) < 10 powi (int B2 - c)" by simp
  have "of_nat M1 * 10 powi (int B2 - c) < of_nat M2 * (10 powi (int B2 - c) :: rat) \<longleftrightarrow> M1 < M2"
    using mult_less_cancel_right_pos [OF p] by simp
  then show ?thesis using p unfolding v1_def v2_def equal by simp
qed

section \<open>The parts of a literal\<close>

lemma take_digits_Some: "take_digits s = Some (d, r) \<Longrightarrow> digits d \<and> d \<noteq> [] \<and> s = d @ r"
  by (auto simp: take_digits_def list_all_iff dest: set_takeWhileD split: if_split_asm)

lemma take_sign_cases: "take_sign s = (sg, r) \<Longrightarrow> s = sg @ r \<and> sg \<in> {[], ''+'', ''-''}"
  by (auto simp: take_sign_def split: list.splits if_split_asm)

lemma numberPattern_parts:
  assumes "numberPattern s = Some m"
  shows "digits (np_int m)" "digits (np_frac m)"
    "np_exp m = [] \<or> (\<exists>sg ds. np_exp m = sg @ ds \<and> sg \<in> {[], ''+'', ''-''} \<and> digits ds \<and> ds \<noteq> [])"
proof -
  obtain sg s1 ip s2 fp s3 ep where p: "take_sign s = (sg, s1)" "take_digits s1 = Some (ip, s2)" "match_fraction s2 = Some (fp, s3)"
      "match_exponent s3 = Some ep" "m = \<lparr>np_sign = sg, np_int = ip, np_frac = fp, np_exp = ep\<rparr>"
    using assms by (auto simp: numberPattern_def split: prod.splits option.splits)
  show "digits (np_int m)" using take_digits_Some [OF p(2)] p(5) by simp
  show "digits (np_frac m)"
    using p(3,5) take_digits_Some by (auto simp: match_fraction_def split: list.splits if_split_asm)
  show "np_exp m = [] \<or> (\<exists>sg ds. np_exp m = sg @ ds \<and> sg \<in> {[], ''+'', ''-''} \<and> digits ds \<and> ds \<noteq> [])"
  proof (cases s3)
    case (Cons c t)
    obtain sg' u where u: "take_sign t = (sg', u)" by fastforce
    with p(4) Cons obtain ds where d: "take_digits u = Some (ds, [])" "ep = sg' @ ds"
      by (auto simp: match_exponent_def split: if_split_asm option.splits list.splits prod.splits)
    with take_digits_Some [OF d(1)] take_sign_cases [OF u] p(5) show ?thesis by auto
  qed (use p(4,5) in \<open>simp add: match_exponent_def\<close>)
qed

lemma small_digits_value: "small_digits n s = Some m \<Longrightarrow> m = n * 10 ^ length s + int (dval s)"
proof (induction s arbitrary: n)
  case (Cons c s)
  have d: "is_digit c" and r: "small_digits (n * 10 + (of_char c - 48)) s = Some m"
    using Cons.prems by (auto simp: Let_def split: if_split_asm)
  have v: "of_char c - 48 = int (digit_of c)" using d by (simp add: digit_of_def is_digit_bounds of_nat_diff of_nat_of_char)
  show ?case using Cons.IH [OF r] unfolding v by (simp add: dval_Cons algebra_simps)
qed simp

lemma parse_exponent_value:
  assumes "parseSmallSignedInt ep = Some e" "ep = sg @ ds" "sg \<in> {[], ''+'', ''-''}" "digits ds" "ds \<noteq> []"
  shows "e = signed_dval ep"
proof -
  obtain d ds' where ds: "ds = d # ds'" using assms(5) by (cases ds) auto
  then have d: "d \<noteq> CHR ''+''" "d \<noteq> CHR ''-''" using assms(4) by (auto simp: is_digit_bounds)
  have v: "small_digits 0 ds = Some n \<Longrightarrow> n = int (dval ds)" for n using small_digits_value [of 0 ds n] by simp
  consider "sg = []" | "sg = ''+''" | "sg = ''-''" using assms(3) by blast
  then show ?thesis
    by cases (use assms(1,2) ds d v in \<open>auto simp: parseSmallSignedInt_def signed_dval_def take_sign_def HasPrefix_def\<close>)
qed

section \<open>Normalised digits\<close>

lemma dval_leading: "dval (dropWhile (\<lambda>c. c = CHR ''0'') s) = dval s"
proof (induction s)
  case (Cons c s)
  have "digit_of CHR ''0'' = 0" by (simp add: digit_of_def)
  with Cons show ?case by (simp add: dval_Cons)
qed simp

lemma dval_zeros [simp]: "dval (replicate k CHR ''0'') = 0"
  by (induction k) (simp_all add: dval_Cons digit_of_def)

lemma digits_zeros [simp]: "digits (replicate k CHR ''0'')"
  by (induction k) (simp_all add: is_digit_bounds)

lemma trim_right_zeros_spec:
  "s = trim_right_zeros s @ replicate (length s - length (trim_right_zeros s)) CHR ''0''
   \<and> length (trim_right_zeros s) \<le> length s"
proof (induction s rule: rev_induct)
  case (snoc c s)
  show ?case
  proof (cases "c = CHR ''0''")
    case True
    then have t: "trim_right_zeros (s @ [c]) = trim_right_zeros s" by (simp add: trim_right_zeros_def)
    have l: "length (s @ [c]) - length (trim_right_zeros s) = Suc (length s - length (trim_right_zeros s))"
      using snoc.IH by (simp add: Suc_diff_le)
    have "s @ [c] = trim_right_zeros s @ replicate (length s - length (trim_right_zeros s)) CHR ''0'' @ [CHR ''0'']"
      using snoc.IH True by (metis append.assoc)
    then show ?thesis using snoc.IH unfolding t l by (simp add: replicate_append_same)
  qed (simp add: trim_right_zeros_def)
qed (simp add: trim_right_zeros_def)

lemma show_nat_fixed: "digits (show_nat n) \<and> dval (show_nat n) = n"
proof (induction n rule: show_nat.induct)
  case (1 n)
  have c: "is_digit (char_of (48 + d))" "digit_of (char_of (48 + d)) = d" if "d < 10" for d :: nat
    using that by (simp_all add: is_digit_bounds digit_of_def)
  show ?case
    using 1 c [of n] c [of "n mod 10"] by (subst (1 2) show_nat.simps) (simp add: dval_append dval_Cons)
qed

lemma show_nat_length: "n < 10 ^ w \<Longrightarrow> 0 < w \<Longrightarrow> length (show_nat n) \<le> w"
proof (induction n arbitrary: w rule: show_nat.induct)
  case (1 n)
  show ?case
  proof (cases "n < 10")
    case False
    then obtain w' where w: "w = Suc w'" "0 < w'" using 1(2,3) by (cases w; cases "w - 1") auto
    then have "n div 10 < 10 ^ w'" using 1(2) by (simp add: less_mult_imp_div_less mult.commute)
    with 1(1) [OF False] w False show ?thesis by (subst show_nat.simps) simp
  qed (use 1(3) in \<open>subst show_nat.simps, simp\<close>)
qed

lemma pad_int_spec:
  assumes "0 \<le> i" "i < 10 ^ w" "0 < w"
  shows "digits (pad_int w i)" "length (pad_int w i) = w" "dval (pad_int w i) = nat i"
proof -
  have s: "show_int i = show_nat (nat i)" using assms(1) by (simp add: show_int_def)
  have "int (nat i) < int (10 ^ w)" using assms(1,2) by simp
  then have "length (show_nat (nat i)) \<le> w" using show_nat_length assms(3) by (simp only: of_nat_less_iff)
  then show "digits (pad_int w i)" "length (pad_int w i) = w" "dval (pad_int w i) = nat i"
    using show_nat_fixed [of "nat i"] by (simp_all add: pad_int_def Let_def s dval_append)
qed

section \<open>What an encoding stands for\<close>

text \<open>
  The fields of an encoding are one digit string: the biased exponent followed by the
  mantissa.  \<open>sci body v\<close> is the magnitude it stands for, \<open>encodes code x\<close> adds the sign.
\<close>

definition sci :: "string \<Rightarrow> rat \<Rightarrow> bool" where
  "sci body v \<longleftrightarrow> digits body \<and> length body = numExpWidth + numMantissaWidth
     \<and> (\<exists>B M. dval body = B * 10 ^ numMantissaWidth + M
            \<and> 10 ^ (numMantissaWidth - 1) \<le> M \<and> M < 10 ^ numMantissaWidth
            \<and> v = of_nat M * 10 powi (int B - (numExpBias + int numMantissaWidth - 1)))"

inductive encodes :: "string \<Rightarrow> rat \<Rightarrow> bool" where
  zero: "encodes zeroEncoding 0"
| positive: "sci body v \<Longrightarrow> encodes (CHR ''2'' # body) v"
| negative: "sci body v \<Longrightarrow> encodes (CHR ''0'' # complementDigits body) (- v)"

lemma mantissa_Suc: obtains w where "numMantissaWidth = Suc w" "numMantissaWidth - 1 = w"
  by (simp add: numMantissaWidth_def)

lemma sci_pos: "sci body v \<Longrightarrow> 0 < v"
  unfolding sci_def
proof (elim conjE exE)
  fix B M
  assume "10 ^ (numMantissaWidth - 1) \<le> M" and v: "v = of_nat M * 10 powi (int B - (numExpBias + int numMantissaWidth - 1))"
  moreover have "(1 :: nat) \<le> 10 ^ (numMantissaWidth - 1)" by simp
  ultimately have "0 < M" by linarith
  then show "0 < v" unfolding v by (intro mult_pos_pos) simp_all
qed

lemma sci_compare:
  assumes "sci b v" "sci c u"
  shows "(b < c \<longleftrightarrow> v < u) \<and> (b = c \<longleftrightarrow> v = u)"
proof -
  obtain w where w: "numMantissaWidth = Suc w" "numMantissaWidth - 1 = w" by (rule mantissa_Suc)
  let ?k = "numExpBias + int (Suc w) - 1"
  obtain B M where 1: "dval b = B * 10 ^ Suc w + M" "10 ^ w \<le> M" "M < 10 ^ Suc w" "v = of_nat M * 10 powi (int B - ?k)"
    using assms(1) unfolding sci_def w(1) diff_Suc_1 by blast
  obtain C N where 2: "dval c = C * 10 ^ Suc w + N" "10 ^ w \<le> N" "N < 10 ^ Suc w" "u = of_nat N * 10 powi (int C - ?k)"
    using assms(2) unfolding sci_def w(1) diff_Suc_1 by blast
  have "(b < c \<longleftrightarrow> dval b < dval c) \<and> (b = c \<longleftrightarrow> dval b = dval c)"
    using assms by (intro dval_order) (simp_all add: sci_def)
  then show ?thesis using sci_order [OF 1(2,3) 2(2,3), where ?B1.0 = B and ?B2.0 = C and c = ?k] unfolding 1(1,4) 2(1,4) by simp
qed

lemma complement_compare:
  assumes "sci b v" "sci c u"
  shows "(complementDigits b < complementDigits c \<longleftrightarrow> u < v) \<and> (complementDigits b = complementDigits c \<longleftrightarrow> v = u)"
proof -
  let ?n = "numExpWidth + numMantissaWidth"
  have d: "digits b" "digits c" "length b = ?n" "length c = ?n" using assms by (simp_all add: sci_def)
  have b: "digits (complementDigits b)" "length (complementDigits b) = ?n" "dval (complementDigits b) + dval b = 10 ^ ?n - 1"
    and c: "digits (complementDigits c)" "length (complementDigits c) = ?n" "dval (complementDigits c) + dval c = 10 ^ ?n - 1"
    using complement_dval [OF d(1)] complement_dval [OF d(2)] d(3,4) by metis+
  have "(complementDigits b < complementDigits c \<longleftrightarrow> dval (complementDigits b) < dval (complementDigits c))
      \<and> (complementDigits b = complementDigits c \<longleftrightarrow> dval (complementDigits b) = dval (complementDigits c))"
    using b c by (intro dval_order) simp_all
  moreover have "(c < b \<longleftrightarrow> dval c < dval b) \<and> (c = b \<longleftrightarrow> dval c = dval b)" using d by (intro dval_order) simp_all
  moreover have "dval (complementDigits b) < dval (complementDigits c) \<longleftrightarrow> dval c < dval b"
    "dval (complementDigits b) = dval (complementDigits c) \<longleftrightarrow> dval c = dval b"
    using b(3) c(3) by linarith+
  ultimately show ?thesis using sci_compare [OF assms(2,1)] by auto
qed

text \<open>Byte order of the encodings is the order of the numbers.\<close>

lemma encodes_compare:
  assumes "encodes e x" "encodes f y"
  shows "(e < f \<longleftrightarrow> x < y) \<and> (e = f \<longleftrightarrow> x = y)"
proof -
  show ?thesis
    using assms(1)
  proof cases
    case zero
    from assms(2) show ?thesis by cases (use zero in \<open>auto dest: sci_pos simp: zeroEncoding_def\<close>)
  next
    case (positive b)
    note p = positive
    from assms(2) show ?thesis
    proof cases
      case (positive c)
      with p sci_compare [OF p(2) positive(2)] show ?thesis by simp
    qed (use p sci_pos [of b x] in \<open>auto dest: sci_pos simp: zeroEncoding_def\<close>)
  next
    case (negative b v)
    note n = negative
    from assms(2) show ?thesis
    proof cases
      case (negative c u)
      with n complement_compare [OF n(3) negative(3)] show ?thesis by simp
    qed (use n sci_pos [of b v] in \<open>auto dest: sci_pos simp: zeroEncoding_def\<close>)
  qed
qed

lemma is_digit_signs [simp]: "is_digit CHR ''0''" "is_digit CHR ''1''" "is_digit CHR ''2''"
  by (simp_all add: is_digit_bounds)

lemma length_encodes: "encodes e x \<Longrightarrow> digits e \<and> length e = 1 + numExpWidth + numMantissaWidth"
proof (induction rule: encodes.induct)
  case (negative b v)
  then show ?case using complement_dval [of b] by (simp add: sci_def)
qed (simp_all add: zeroEncoding_def sci_def)

section \<open>The encoder meets its specification\<close>

lemma dval_leading_bound: "digits s \<Longrightarrow> s \<noteq> [] \<Longrightarrow> hd s \<noteq> CHR ''0'' \<Longrightarrow> 10 ^ (length s - 1) \<le> dval s"
proof (cases s)
  case (Cons c t)
  assume a: "digits s" "hd s \<noteq> CHR ''0''"
  have "digit_of c \<noteq> 0"
    using digit_of_inj [of c "CHR ''0''"] a Cons by (auto simp: is_digit_bounds digit_of_def)
  then have "10 ^ length t \<le> digit_of c * 10 ^ length t" by (cases "digit_of c") simp_all
  moreover have "dval s = digit_of c * 10 ^ length t + dval t" by (simp add: Cons dval_Cons)
  ultimately have "10 ^ length t \<le> dval s" by linarith
  then show ?thesis by (simp add: Cons)
qed simp

lemma encode_digits_sci:
  assumes "digits ds" "ds \<noteq> []" "hd ds \<noteq> CHR ''0''" and enc: "encode_digits neg ds e = Inr code"
  obtains body where "sci body (of_nat (dval ds) * 10 powi e)"
    "code = (if neg then CHR ''0'' # complementDigits body else CHR ''2'' # body)"
proof -
  define t where "t = trim_right_zeros ds"
  define k where "k = length ds - length t"
  define L where "L = length t"
  define W where "W = numMantissaWidth"
  have t: "ds = t @ replicate k CHR ''0''" "length ds = k + L"
    using trim_right_zeros_spec [of ds] by (simp_all add: t_def k_def L_def)
  have t': "t \<noteq> []" "digits t" "hd t \<noteq> CHR ''0''" using assms(1-3) t by (cases t; cases k; auto)+
  define b where "b = e + int k + int L - 1 + numExpBias"
  have b: "int (length ds) - int (length t) = int k" "e + (int (length ds) - int (length t)) + int (length t) - 1 + numExpBias = b"
    using t(2) by (simp_all add: L_def b_def)
  have c: "L \<le> W" "0 \<le> b" "b < pow10 numExpWidth"
    and code: "code = (let f = pad_int numExpWidth b; m = t @ replicate (W - L) CHR ''0'' in
        if neg then CHR ''0'' # complementDigits f @ complementDigits m else CHR ''2'' # f @ m)"
    using enc unfolding encode_digits_def Let_def t_def [symmetric] b(2) by (auto simp: L_def W_def split: if_split_asm)
  define m where "m = t @ replicate (W - L) CHR ''0''"
  have m: "digits m" "length m = W" "dval m = dval t * 10 ^ (W - L)" "10 ^ (W - 1) \<le> dval m" "dval m < 10 ^ W"
    using t' c(1) dval_leading_bound [of m] dval_bound [of m] by (simp_all add: m_def L_def dval_append)
  have f: "digits (pad_int numExpWidth b)" "length (pad_int numExpWidth b) = numExpWidth" "dval (pad_int numExpWidth b) = nat b"
    using pad_int_spec [of b numExpWidth] c(2,3) by (simp_all add: pow10_def numExpWidth_def)
  have "of_nat (dval ds) * 10 powi e = of_nat (dval m) * (10 powi (int (nat b) - (numExpBias + int W - 1)) :: rat)"
  proof -
    have x: "int (nat b) - (numExpBias + int W - 1) + int (W - L) = int k + e" using c by (simp add: b_def of_nat_diff)
    have "(10 :: rat) ^ (W - L) * 10 powi (int (nat b) - (numExpBias + int W - 1)) = 10 powi (int k + e)"
      using power_int_add [of "10 :: rat" "int (nat b) - (numExpBias + int W - 1)" "int (W - L)"] unfolding x
      by (simp add: mult.commute)
    also have "\<dots> = 10 ^ k * 10 powi e" by (simp add: power_int_add)
    finally show ?thesis by (simp add: t(1) m(3) dval_append mult.assoc)
  qed
  then have "sci (pad_int numExpWidth b @ m) (of_nat (dval ds) * 10 powi e)"
    unfolding sci_def W_def [symmetric]
    using f m by (intro conjI exI [of _ "nat b"] exI [of _ "dval m"]) (simp_all add: dval_append)
  moreover have "code = (if neg then CHR ''0'' # complementDigits (pad_int numExpWidth b @ m) else CHR ''2'' # pad_int numExpWidth b @ m)"
    using code by (simp add: m_def Let_def complementDigits_def)
  ultimately show thesis by (rule that)
qed

abbreviation significand :: "number_parts \<Rightarrow> string" where
  "significand m \<equiv> dropWhile (\<lambda>c. c = CHR ''0'') (np_int m @ np_frac m)"

abbreviation scale :: "number_parts \<Rightarrow> int" where
  "scale m \<equiv> signed_dval (np_exp m) - int (length (np_frac m))"

lemma number_value_digits:
  assumes m: "numberPattern (TrimSpace s) = Some m"
  shows "digits (significand m)" "significand m \<noteq> [] \<Longrightarrow> hd (significand m) \<noteq> CHR ''0''"
    "number_value s = Some ((if np_sign m = ''-'' then - 1 else 1) * (of_nat (dval (significand m)) * 10 powi scale m))"
proof -
  note parts = numberPattern_parts [OF m]
  let ?f = "length (np_frac m)" and ?e = "signed_dval (np_exp m)"
  show "digits (significand m)"
    unfolding list_all_iff
  proof
    fix c assume "c \<in> set (significand m)"
    then have "c \<in> set (np_int m @ np_frac m)" by (rule set_dropWhileD)
    then show "is_digit c" using parts(1,2) by (auto simp: list_all_iff)
  qed
  show "hd (significand m) \<noteq> CHR ''0''" if "significand m \<noteq> []" by (rule hd_dropWhile [OF that])
  have d: "dval (significand m) = dval (np_int m) * 10 ^ ?f + dval (np_frac m)"
    unfolding dval_leading dval_append ..
  have r: "p \<noteq> 0 \<Longrightarrow> (a * p + b) * (q / p) = (a + b / p) * q" for a b p q :: rat by (simp add: field_simps)
  have "(10 :: rat) powi (?e - int ?f) = 10 powi ?e / 10 ^ ?f" by (simp add: power_int_diff)
  then have "of_nat (dval (significand m)) * 10 powi (?e - int ?f)
      = (of_nat (dval (np_int m)) + of_nat (dval (np_frac m)) / 10 ^ ?f) * (10 powi ?e :: rat)"
    using r [of "10 ^ ?f" "of_nat (dval (np_int m))"] by (simp add: d)
  then show "number_value s = Some ((if np_sign m = ''-'' then - 1 else 1) * (of_nat (dval (significand m)) * 10 powi scale m))"
    using m by (simp add: number_value_def)
qed

lemma exponent_value:
  assumes "numberPattern (TrimSpace s) = Some m"
    and "(if np_exp m = [] then Some 0 else parseSmallSignedInt (np_exp m)) = Some e"
  shows "e = signed_dval (np_exp m)"
proof (cases "np_exp m = []")
  case True
  with assms(2) show ?thesis by (simp add: signed_dval_def take_sign_def)
next
  case False
  with numberPattern_parts(3) [OF assms(1)] obtain sg ds
    where "np_exp m = sg @ ds" "sg \<in> {[], ''+'', ''-''}" "digits ds" "ds \<noteq> []" by blast
  with parse_exponent_value [of "np_exp m" e sg ds] assms(2) False show ?thesis by simp
qed

lemma encode_sound:
  assumes "encodeOrderableNumber s = Inr code"
  obtains x where "number_value s = Some x" "encodes code x"
proof -
  obtain m e where m: "numberPattern (TrimSpace s) = Some m"
      and e: "(if np_exp m = [] then Some 0 else parseSmallSignedInt (np_exp m)) = Some e"
      and enc: "(if significand m = [] then Inr zeroEncoding
                else encode_digits (np_sign m = ''-'') (significand m) (e - int (length (np_frac m)))) = Inr code"
    using assms by (auto simp: encodeOrderableNumber_def Let_def split: option.splits)
  have e': "e = signed_dval (np_exp m)" by (rule exponent_value [OF m e])
  note v = number_value_digits [OF m]
  define neg where "neg = (np_sign m = ''-'')"
  show thesis
  proof (cases "significand m = []")
    case True
    with enc v(3) that show ?thesis by (simp add: encodes.zero)
  next
    case False
    have "encode_digits neg (significand m) (scale m) = Inr code"
      using enc unfolding if_not_P [OF False] neg_def e' .
    then obtain b where "sci b (of_nat (dval (significand m)) * 10 powi scale m)"
        "code = (if neg then CHR ''0'' # complementDigits b else CHR ''2'' # b)"
      using encode_digits_sci v(1) v(2) [OF False] False by metis
    with v(3) that show ?thesis unfolding neg_def [symmetric] by (cases neg) (simp_all add: encodes.intros)
  qed
qed

lemma encodes_value:
  assumes "encodeOrderableNumber s = Inr code" "number_value s = Some x"
  shows "encodes code x"
  using encode_sound [OF assms(1)] assms(2) by (metis option.inject)

section \<open>Which numbers are accepted\<close>

lemma small_digits_complete:
  "digits s \<Longrightarrow> n * 10 ^ length s + int (dval s) \<le> 1000000 \<Longrightarrow> 0 \<le> n \<Longrightarrow> small_digits n s \<noteq> None"
proof (induction s arbitrary: n)
  case (Cons c s)
  have d: "is_digit c" "digits s" using Cons.prems(1) by simp_all
  then have v: "of_char c - 48 = int (digit_of c)" by (simp add: digit_of_def is_digit_bounds of_nat_diff of_nat_of_char)
  let ?n = "n * 10 + int (digit_of c)"
  have le: "?n * 10 ^ length s + int (dval s) \<le> 1000000"
    using Cons.prems(2) by (simp add: dval_Cons algebra_simps)
  have n: "0 \<le> ?n" using Cons.prems(3) by simp
  define P where "P = ?n * 10 ^ length s"
  have "?n * 1 \<le> P" unfolding P_def using n by (intro mult_left_mono) simp_all
  moreover have "P + int (dval s) \<le> 1000000" using le by (simp add: P_def)
  moreover have "0 \<le> int (dval s)" by simp
  ultimately have "?n \<le> 1000000" by (simp only: mult_1_right)
  then show ?case using d Cons.IH [OF d(2) le n] by (simp add: v)
qed simp

lemma parse_exponent_complete:
  assumes "ep = sg @ ds" "sg \<in> {[], ''+'', ''-''}" "digits ds" "ds \<noteq> []" "\<bar>signed_dval ep\<bar> \<le> 1000000"
  shows "parseSmallSignedInt ep = Some (signed_dval ep)"
proof -
  obtain d ds' where ds: "ds = d # ds'" using assms(4) by (cases ds) auto
  then have d: "d \<noteq> CHR ''+''" "d \<noteq> CHR ''-''" using assms(3) by (auto simp: is_digit_bounds)
  have "int (dval ds) \<le> 1000000"
    using assms(1,2,5) ds d by (auto simp: signed_dval_def take_sign_def)
  then have "small_digits 0 ds \<noteq> None" using small_digits_complete [OF assms(3), of 0] by simp
  then have "parseSmallSignedInt ep \<noteq> None"
    using assms(1,2) ds d by (auto simp: parseSmallSignedInt_def HasPrefix_def simp del: small_digits.simps)
  then show ?thesis using parse_exponent_value [OF _ assms(1-4)] by fastforce
qed

lemma trim_right_zeros_last: "trim_right_zeros s \<noteq> [] \<Longrightarrow> last (trim_right_zeros s) \<noteq> CHR ''0''"
  using hd_dropWhile [of "\<lambda>c. c = CHR ''0''" "rev s"] by (simp add: trim_right_zeros_def last_rev)

lemma dval_not_divisible:
  assumes "digits s" "s \<noteq> []" "last s \<noteq> CHR ''0''"
  shows "\<not> 10 dvd dval s"
proof -
  obtain t c where s: "s = t @ [c]" using assms(2) by (cases s rule: rev_cases) auto
  then have c: "is_digit c" "c \<noteq> CHR ''0''" using assms by simp_all
  have "digit_of c \<noteq> 0" using digit_of_inj [of c "CHR ''0''"] c by (auto simp: digit_of_def)
  moreover have "dval s mod 10 = digit_of c" using digit_of_less [OF c(1)] by (simp add: s dval_append dval_Cons)
  ultimately show ?thesis by (simp add: dvd_eq_mod_eq_0)
qed

text \<open>Numbers with at most \<open>w\<close> significant digits.\<close>

definition significant :: "nat \<Rightarrow> rat \<Rightarrow> bool" where
  "significant w x \<longleftrightarrow> (\<exists>(M :: nat) k. M < 10 ^ w \<and> \<bar>x\<bar> = of_nat M * 10 powi k)"

lemma significant_digits:
  assumes "\<not> 10 dvd N" "of_nat N * 10 powi j = (of_nat M * 10 powi k :: rat)" "M < 10 ^ w"
  shows "N < 10 ^ w"
proof (cases "j < k")
  case True
  then obtain n where n: "k = j + int (Suc n)" by (metis zless_iff_Suc_zadd add.commute)
  have "10 powi k = 10 powi j * (10 :: rat) ^ Suc n" 
    using power_int_add [of "10 :: rat" j "int (Suc n)"] unfolding n by (simp only: power_int_of_nat) simp
  with assms(2) have "of_nat N = (of_nat (M * 10 ^ Suc n) :: rat)" by simp
  then have "N = M * 10 ^ Suc n" by (simp only: of_nat_eq_iff)
  with assms(1) show ?thesis by simp
next
  case False
  then obtain n where n: "j = k + int n" by (metis zle_iff_zadd not_le)
  have "10 powi j = 10 powi k * (10 :: rat) ^ n" unfolding n by (simp add: power_int_add)
  with assms(2) have "of_nat M = (of_nat (N * 10 ^ n) :: rat)" by simp
  then have "M = N * 10 ^ n" by (simp only: of_nat_eq_iff)
  moreover have "N * 1 \<le> N * 10 ^ n" by (intro mult_le_mono2) simp
  ultimately show ?thesis using assms(3) by linarith
qed

lemma powi_less_imp: "10 powi m < (10 :: rat) powi n \<Longrightarrow> m < n"
  using power_int_increasing [of n m "10 :: rat"] by (cases "n \<le> m") auto

lemma sci_range:
  assumes "10 ^ w \<le> M" "M < 10 ^ Suc w"
  shows "10 powi (j + int w) \<le> of_nat M * (10 powi j :: rat)" "of_nat M * (10 powi j :: rat) < 10 powi (j + int w + 1)"
proof -
  have p: "(0 :: rat) < 10 powi j" by simp
  have "(of_nat M :: rat) < of_nat (10 ^ Suc w)" "(of_nat (10 ^ w) :: rat) \<le> of_nat M"
    using assms by (simp_all only: of_nat_less_iff of_nat_le_iff)
  then have m: "(of_nat M :: rat) < 10 ^ Suc w" "(10 ^ w :: rat) \<le> of_nat M" by simp_all
  have e: "10 powi (j + int n) = 10 ^ n * (10 powi j :: rat)" for n by (simp add: power_int_add)
  show "10 powi (j + int w) \<le> of_nat M * (10 powi j :: rat)"
    unfolding e using m(2) p by (intro mult_right_mono) simp_all
  have "of_nat M * (10 powi j :: rat) < 10 ^ Suc w * 10 powi j" by (rule mult_strict_right_mono [OF m(1) p])
  also have "\<dots> = 10 powi (j + int (Suc w))" unfolding e ..
  finally show "of_nat M * (10 powi j :: rat) < 10 powi (j + int w + 1)" by (simp add: ac_simps)
qed

text \<open>The encoder refuses only what its two checks refuse.\<close>

lemma encode_digits_accepts:
  assumes ds: "digits ds" "ds \<noteq> []" "hd ds \<noteq> CHR ''0''" and x: "x = of_nat (dval ds) * 10 powi e"
    and sig: "significant numMantissaWidth x"
    and range: "10 powi (- numExpBias) \<le> x" "x < 10 powi (int (10 ^ numExpWidth) - numExpBias)"
  shows "\<exists>code. encode_digits neg ds e = Inr code"
proof -
  define t where "t = trim_right_zeros ds"
  define k where "k = length ds - length t"
  obtain L where t: "ds = t @ replicate k CHR ''0''" "length ds = k + Suc L" "length t = Suc L"
    using trim_right_zeros_spec [of ds] ds(2,3) unfolding t_def k_def
    by (cases "trim_right_zeros ds"; cases "length ds") auto
  have t': "t \<noteq> []" "digits t" "hd t \<noteq> CHR ''0''" using ds t by (cases t; auto)+
  have v: "x = of_nat (dval t) * 10 powi (e + int k)"
    unfolding x by (subst (1) t(1)) (simp add: dval_append power_int_add mult_ac)
  have pos: "0 < x" using range(1) by (meson less_le_trans zero_less_power_int zero_less_numeral)
  obtain M i where M: "M < 10 ^ numMantissaWidth" "x = of_nat M * 10 powi i"
    using sig pos unfolding significant_def by auto
  have "dval t < 10 ^ numMantissaWidth"
    by (rule significant_digits [OF _ _ M(1), of "dval t" "e + int k" i])
      (use M(2) v dval_not_divisible [OF t'(2,1)] trim_right_zeros_last [of ds] t'(1) in \<open>simp_all add: t_def\<close>)
  moreover have b: "10 ^ L \<le> dval t" "dval t < 10 ^ Suc L"
    using dval_leading_bound [OF t'(2,1,3)] dval_bound [OF t'(2)] by (simp_all add: t(3))
  ultimately have "(10 :: nat) ^ L < 10 ^ numMantissaWidth" by linarith
  then have "Suc L \<le> numMantissaWidth" by (simp add: power_strict_increasing_iff)
  have r: "10 powi (e + int k + int L) \<le> x" "x < 10 powi (e + int k + int L + 1)"
    using sci_range [OF b] unfolding v by simp_all
  have "(10 :: rat) powi (- numExpBias) < 10 powi (e + int k + int L + 1)" using range(1) r(2) by linarith
  then have lo: "- numExpBias < e + int k + int L + 1" by (rule powi_less_imp)
  have "(10 :: rat) powi (e + int k + int L) < 10 powi (int (10 ^ numExpWidth) - numExpBias)" using range(2) r(1) by linarith
  then have hi: "e + int k + int L < int (10 ^ numExpWidth) - numExpBias" by (rule powi_less_imp)
  let ?b = "e + (int (length ds) - int (length t)) + int (length t) - 1 + numExpBias"
  have "?b = e + int k + int L + numExpBias" using t(2,3) by simp
  then have "\<not> (?b < 0 \<or> pow10 numExpWidth \<le> ?b)" "\<not> numMantissaWidth < length t"
    using lo hi \<open>Suc L \<le> numMantissaWidth\<close> t(3) by (simp_all add: pow10_def)
  then show ?thesis unfolding encode_digits_def Let_def t_def [symmetric] by (simp only: if_False) (cases neg; simp)
qed

text \<open>
  The numbers with an encoding: zero, and those with at most forty significant digits
  whose leading digit has an exponent between -1000 and 8999.
\<close>

definition encodable :: "rat \<Rightarrow> bool" where
  "encodable x \<longleftrightarrow> x = 0 \<or> significant numMantissaWidth x
     \<and> 10 powi (- numExpBias) \<le> \<bar>x\<bar> \<and> \<bar>x\<bar> < 10 powi (int (10 ^ numExpWidth) - numExpBias)"

lemma sci_encodable: "sci body v \<Longrightarrow> encodable v"
  unfolding sci_def
proof (elim conjE exE)
  fix B M
  assume body: "digits body" "length body = numExpWidth + numMantissaWidth" "dval body = B * 10 ^ numMantissaWidth + M"
    and M: "10 ^ (numMantissaWidth - 1) \<le> M" "M < 10 ^ numMantissaWidth"
    and v: "v = of_nat M * 10 powi (int B - (numExpBias + int numMantissaWidth - 1))"
  obtain w where w: "numMantissaWidth = Suc w" "numMantissaWidth - 1 = w" by (rule mantissa_Suc)
  let ?j = "int B - (numExpBias + int numMantissaWidth - 1)"
  have "B * 10 ^ numMantissaWidth \<le> dval body" using body(3) by simp
  also have "\<dots> < 10 ^ numExpWidth * 10 ^ numMantissaWidth" using dval_bound [OF body(1)] body(2) by (simp add: power_add)
  finally have B: "B < 10 ^ numExpWidth" by simp
  have r: "10 powi (?j + int w) \<le> v" "v < 10 powi (?j + int w + 1)"
    using sci_range [of w M ?j] M unfolding v w(2) w(1) by simp_all
  have pos: "0 \<le> v" unfolding v by simp
  have "10 powi (- numExpBias) \<le> v"
    by (rule order_trans [OF _ r(1)], rule power_int_increasing) (simp_all add: w(1))
  moreover have "v < 10 powi (int (10 ^ numExpWidth) - numExpBias)"
  proof (rule less_le_trans [OF r(2)], rule power_int_increasing)
    have "int B + 1 \<le> int (10 ^ numExpWidth)" using B by linarith
    then show "?j + int w + 1 \<le> int (10 ^ numExpWidth) - numExpBias" by (simp add: w(1))
  qed simp
  moreover have "significant numMantissaWidth v" using M(2) pos unfolding significant_def by (auto simp: v)
  ultimately show "encodable v" using pos by (simp add: encodable_def)
qed

lemma encodable_minus [simp]: "encodable (- x) = encodable x"
  by (simp add: encodable_def significant_def)

lemma encodes_encodable: "encodes e x \<Longrightarrow> encodable x"
  by (induction rule: encodes.induct) (simp_all add: sci_encodable encodable_def [of 0])

lemma exponent_parsed:
  assumes "numberPattern (TrimSpace s) = Some m" "\<bar>signed_dval (np_exp m)\<bar> \<le> 1000000"
  shows "(if np_exp m = [] then Some 0 else parseSmallSignedInt (np_exp m)) = Some (signed_dval (np_exp m))"
proof (cases "np_exp m = []")
  case False
  with numberPattern_parts(3) [OF assms(1)] obtain sg ds
    where "np_exp m = sg @ ds" "sg \<in> {[], ''+'', ''-''}" "digits ds" "ds \<noteq> []" by blast
  from parse_exponent_complete [OF this assms(2)] False show ?thesis by simp
qed (simp add: signed_dval_def take_sign_def)

lemma encode_complete:
  assumes m: "numberPattern (TrimSpace s) = Some m"
    and e: "(if np_exp m = [] then Some 0 else parseSmallSignedInt (np_exp m)) = Some (signed_dval (np_exp m))"
    and x: "number_value s = Some x" "encodable x"
  shows "\<exists>code. encodeOrderableNumber s = Inr code"
proof -
  note v = number_value_digits [OF m]
  have "\<exists>code. encode_digits (np_sign m = ''-'') (significand m) (scale m) = Inr code" if ne: "significand m \<noteq> []"
  proof -
    define y where "y = (of_nat (dval (significand m)) * 10 powi scale m :: rat)"
    have xy: "x = y \<or> x = - y" using v(3) x(1) unfolding y_def by (auto split: if_split_asm)
    have "1 \<le> (10 :: nat) ^ (length (significand m) - 1)" by simp
    then have "0 < dval (significand m)"
      using dval_leading_bound [OF v(1) ne v(2) [OF ne]] by linarith
    then have "0 < y" by (simp add: y_def)
    moreover have "encodable y" using xy x(2) by auto
    ultimately have "significant numMantissaWidth y" "10 powi (- numExpBias) \<le> y"
      "y < 10 powi (int (10 ^ numExpWidth) - numExpBias)" by (simp_all add: encodable_def)
    then show ?thesis by (rule encode_digits_accepts [OF v(1) ne v(2) [OF ne] y_def])
  qed
  then show ?thesis using m e by (simp add: encodeOrderableNumber_def Let_def)
qed

lemma encode_digits_errors:
  "encode_digits neg ds e \<noteq> Inl NotANumber" "encode_digits neg ds e \<noteq> Inl InvalidExponent"
  by (simp_all add: encode_digits_def Let_def)

section \<open>Properties\<close>

text \<open>
  C17. Order and canonical form of DynamoDB number keys.  For two literals that the encoder
  accepts, the byte order of their encodings is the order of the rational numbers they
  denote, the encodings are equal exactly when the numbers are (\<open>1e2\<close>, \<open>100\<close> and
  \<open>100.00\<close> collide, \<open>-0\<close> is \<open>0\<close>), and the key comparison of a number attribute is the
  numeric comparison.
\<close>

theorem number_keys_ordered:
  assumes "encodeOrderableNumber s = Inr e" "encodeOrderableNumber t = Inr f"
    "number_value s = Some x" "number_value t = Some y"
  shows "(e < f \<longleftrightarrow> x < y) \<and> (e = f \<longleftrightarrow> x = y)
    \<and> compareKeyAttr ''N'' s t = (if x < y then - 1 else if x = y then 0 else 1)
    \<and> (encodeStorageKeyComponent ''N'' s = encodeStorageKeyComponent ''N'' t \<longleftrightarrow> x = y)"
  using encodes_compare [OF encodes_value [OF assms(1,3)] encodes_value [OF assms(2,4)]] assms(1,2)
  by (auto simp: compareKeyAttr_def str_compare_def encodeStorageKeyComponent_def)

text \<open>
  C18. Which numbers have a key.  The encoder answers every string by its value: with a key
  of 45 digits when the string is a number that is zero or has at most forty significant
  digits and a leading digit between \<open>10 powi -1000\<close> and \<open>10 powi 8999\<close>; with the error for
  a malformed string only when it is not a decimal literal; with the error for a bad
  exponent only when the written exponent exceeds a million in magnitude; and with the two
  range errors only when the number is outside these bounds.  So as long as the written
  exponent is within a million, acceptance depends on the number, not on how it is written.
\<close>

theorem number_key_acceptance:
  "case encodeOrderableNumber s of
     Inr e \<Rightarrow> (\<exists>x. number_value s = Some x \<and> encodable x) \<and> length e = 45 \<and> list_all is_digit e
   | Inl NotANumber \<Rightarrow> number_value s = None
   | Inl InvalidExponent \<Rightarrow>
       (\<exists>m. numberPattern (TrimSpace s) = Some m \<and> 1000000 < \<bar>signed_dval (np_exp m)\<bar>)
   | Inl _ \<Rightarrow> (\<exists>x. number_value s = Some x \<and> \<not> encodable x)"
proof (cases "encodeOrderableNumber s")
  case (Inr e)
  obtain x where x: "number_value s = Some x" "encodes e x" using encode_sound [OF Inr] .
  then show ?thesis
    using Inr encodes_encodable [OF x(2)] length_encodes [OF x(2)] by (simp add: numExpWidth_def numMantissaWidth_def)
next
  case (Inl err)
  show ?thesis
  proof (cases "numberPattern (TrimSpace s)")
    case None
    then show ?thesis by (simp add: encodeOrderableNumber_def number_value_def)
  next
    case (Some m)
    let ?e = "if np_exp m = [] then Some 0 else parseSmallSignedInt (np_exp m)"
    show ?thesis
    proof (cases ?e)
      case None
      then have "1000000 < \<bar>signed_dval (np_exp m)\<bar>" using exponent_parsed [OF Some] by force
      moreover have "err = InvalidExponent" using Inl Some None by (simp add: encodeOrderableNumber_def)
      ultimately show ?thesis using Inl Some by simp
    next
      case (Some e)
      note m = \<open>numberPattern (TrimSpace s) = Some m\<close>
      obtain x where x: "number_value s = Some x" using m by (simp add: number_value_def)
      have "\<not> encodable x"
        using encode_complete [OF m _ x] Inl Some exponent_value [OF m Some] by force
      moreover have "err \<in> {TooManyDigits, ExponentRange}"
        using Inl m Some encode_digits_errors
        by (cases err) (auto simp: encodeOrderableNumber_def Let_def split: if_split_asm)
      ultimately show ?thesis using Inl x by auto
    qed
  qed
qed

text \<open>Forty-one digits are too many, and an exponent may leave the range.\<close>

lemma number_key_acceptance_examples:
  "encodeOrderableNumber ''-2.50e1'' = Inr ''089987499999999999999999999999999999999999999''
   \<and> encodeOrderableNumber (replicate 41 CHR ''7'') = Inl TooManyDigits
   \<and> encodeOrderableNumber ''7e9000'' = Inl ExponentRange
   \<and> encodeOrderableNumber ''0e1000001'' = Inl InvalidExponent"
  by code_simp

text \<open>
  The fallback to a plain comparison is not harmless: with a value that has no encoding,
  the comparison of a number attribute is no order at all, it has a cycle.
\<close>

lemma compareKeyAttr_cycle:
  "compareKeyAttr ''N'' ''9'' ''10'' = - 1 \<and> compareKeyAttr ''N'' ''10'' ''1x'' = - 1
   \<and> compareKeyAttr ''N'' ''1x'' ''9'' = - 1"
  by code_simp

lemma number_keys_ordered_witness:
  "''089987499999999999999999999999999999999999999'' < ''210021000000000000000000000000000000000000000''
   \<and> compareKeyAttr ''N'' ''-2.50e1'' ''1e2'' = - 1"
proof -
  have "number_value ''-2.50e1'' = Some (- 25)" "number_value ''1e2'' = Some 100" by code_simp+
  moreover have "encodeOrderableNumber ''-2.50e1'' = Inr ''089987499999999999999999999999999999999999999''"
    "encodeOrderableNumber ''1e2'' = Inr ''210021000000000000000000000000000000000000000''" by code_simp+
  ultimately show ?thesis using number_keys_ordered [of "''-2.50e1''" _ "''1e2''"] by simp
qed

end
