(* ===== verification/Ddb_Table.thy ===== *)
theory Ddb_Table
  imports Go_Codec Ddb_Number
begin

text \<open>
  DynamoDB tables and items (\<^verbatim>\<open>internal/services/dynamodb/store.go\<close>), the check of an
  item or key against the key schema (\<^verbatim>\<open>key_schema.go\<close>), and what a write to a table
  means for its global secondary indexes (\<^verbatim>\<open>index_maintenance.go\<close>).

  Items and attribute values are Go maps; iteration takes their keys in order.  A value
  as the request decoders produce it has exactly one type tag, and then the order of
  iteration does not matter.  A nil item is \<open>None\<close>.
\<close>

section \<open>Values, items and tables\<close>

datatype any =
    AStr string
  | ABytes string
  | ABool bool
  | ANull
  | ANumber string
  | AList "any list"
  | AMap "(string \<times> any) list"

type_synonym attrValue = "any gomap"
type_synonym Item = "attrValue gomap"

record KeySchemaElement =
  kse_AttributeName :: string
  kse_KeyType :: string

record AttributeDef =
  ad_AttributeName :: string
  ad_AttributeType :: string

record Projection =
  pj_ProjectionType :: string
  pj_NonKeyAttributes :: "string list"

record SecondaryIndex =
  si_IndexName :: string
  si_KeySchema :: "KeySchemaElement list"
  si_Projection :: Projection

text \<open>The fields of a table that the item operations look at.\<close>

record Table =
  t_TableName :: string
  t_KeySchema :: "KeySchemaElement list"
  t_AttributeDefinitions :: "AttributeDef list"
  t_streamEnabled :: bool
  t_TTLAttribute :: string
  t_GlobalSecondaryIndexes :: "SecondaryIndex list"
  t_LocalSecondaryIndexes :: "SecondaryIndex list"

datatype ddb_error =
    ValidationException string
  | ResourceNotFoundException string
  | ResourceInUseException string
  | MissingParameter string
  | ConditionalCheckFailedException string
  | TransactionCanceledException "string list"

fun first_of_type :: "string \<Rightarrow> KeySchemaElement list \<Rightarrow> string" where
  "first_of_type typ [] = []"
| "first_of_type typ (k # ks) = (if kse_KeyType k = typ then kse_AttributeName k else first_of_type typ ks)"

definition hashKeyName :: "Table \<Rightarrow> string" where
  "hashKeyName t = first_of_type ''HASH'' (t_KeySchema t)"

definition sortKeyName :: "Table \<Rightarrow> string" where
  "sortKeyName t = first_of_type ''RANGE'' (t_KeySchema t)"

definition indexHashKeyName :: "SecondaryIndex \<Rightarrow> string" where
  "indexHashKeyName idx = first_of_type ''HASH'' (si_KeySchema idx)"

definition indexSortKeyName :: "SecondaryIndex \<Rightarrow> string" where
  "indexSortKeyName idx = first_of_type ''RANGE'' (si_KeySchema idx)"

fun find_named :: "string \<Rightarrow> SecondaryIndex list \<Rightarrow> SecondaryIndex option" where
  "find_named name [] = None"
| "find_named name (i # is) = (if si_IndexName i = name then Some i else find_named name is)"

definition findIndex :: "Table \<Rightarrow> string \<Rightarrow> SecondaryIndex option" where
  "findIndex t name =
     (case find_named name (t_GlobalSecondaryIndexes t) of
        Some i \<Rightarrow> Some i
      | None \<Rightarrow> find_named name (t_LocalSecondaryIndexes t))"

definition isGSI :: "Table \<Rightarrow> string \<Rightarrow> bool" where
  "isGSI t name \<longleftrightarrow> find_named name (t_GlobalSecondaryIndexes t) \<noteq> None"

fun declaredKeyAttrType :: "AttributeDef list \<Rightarrow> string \<Rightarrow> string option" where
  "declaredKeyAttrType [] name = None"
| "declaredKeyAttrType (d # ds) name =
     (if name = [] then None
      else if ad_AttributeName d = name then Some (ad_AttributeType d)
      else declaredKeyAttrType ds name)"

definition keyAttrType :: "Table \<Rightarrow> string \<Rightarrow> string" where
  "keyAttrType t name =
     (case declaredKeyAttrType (t_AttributeDefinitions t) name of Some typ \<Rightarrow> typ | None \<Rightarrow> ''S'')"

section \<open>Scalars\<close>

definition scalarString :: "any \<Rightarrow> string option" where
  "scalarString raw = (case raw of AStr s \<Rightarrow> Some s | ABytes b \<Rightarrow> Some (b64_encode b) | _ \<Rightarrow> None)"

fun first_scalar :: "any list \<Rightarrow> string" where
  "first_scalar [] = []"
| "first_scalar (v # vs) = (case scalarString v of Some s \<Rightarrow> s | None \<Rightarrow> first_scalar vs)"

definition extractKeyValue :: "attrValue \<Rightarrow> string" where
  "extractKeyValue attr = first_scalar (map snd attr)"

definition extractScalar :: "attrValue \<Rightarrow> string" where
  "extractScalar v = first_scalar (map snd v)"

definition attrType :: "attrValue \<Rightarrow> string" where
  "attrType v = (case v of [] \<Rightarrow> [] | (k, _) # _ \<Rightarrow> k)"

text \<open>\<^verbatim>\<open>fmt.Sprintf("%v")\<close> of a decoded value; a JSON number is kept as fmt prints it.\<close>

fun fmt_v :: "any \<Rightarrow> string" where
  "fmt_v (AStr s) = s"
| "fmt_v (ABytes b) = ''['' @ join_with '' '' (map (\<lambda>c. show_nat (of_char c)) b) @ '']''"
| "fmt_v (ABool b) = (if b then ''true'' else ''false'')"
| "fmt_v ANull = ''<nil>''"
| "fmt_v (ANumber n) = n"
| "fmt_v (AList vs) = ''['' @ join_with '' '' (map fmt_v vs) @ '']''"
| "fmt_v (AMap m) = ''map['' @ join_with '' '' (map (\<lambda>(k, v). k @ '':'' @ fmt_v v) m) @ '']''"

definition attrValueEqual :: "attrValue \<Rightarrow> attrValue \<Rightarrow> bool" where
  "attrValueEqual a b \<longleftrightarrow> length a = length b
     \<and> list_all (\<lambda>(k, av). case map_of b k of None \<Rightarrow> False | Some bv \<Rightarrow> fmt_v av = fmt_v bv) a"

text \<open>Reading an absent attribute gives the nil map.\<close>

definition item_attr :: "Item \<Rightarrow> string \<Rightarrow> attrValue" where
  "item_attr item name = (case map_of item name of Some v \<Rightarrow> v | None \<Rightarrow> [])"

section \<open>The key schema\<close>

datatype keyOperand = operandItem | operandKey

definition invalidParameterPrefix :: string where
  "invalidParameterPrefix = ''One or more parameter values were invalid: ''"

definition errKeyElementMismatch :: ddb_error where
  "errKeyElementMismatch = ValidationException ''The provided key element does not match the schema''"

definition keyTypeMismatch :: "Table \<Rightarrow> string \<Rightarrow> attrValue \<Rightarrow> string \<times> string \<times> bool" where
  "keyTypeMismatch t attrName v =
     (case declaredKeyAttrType (t_AttributeDefinitions t) attrName of
        None \<Rightarrow> ([], [], False)
      | Some declared \<Rightarrow>
          if length v \<noteq> 1 then (declared, [], False)
          else (declared, attrType v, attrType v \<noteq> declared))"

definition isEmptyScalar :: "attrValue \<Rightarrow> bool" where
  "isEmptyScalar v \<longleftrightarrow> length v = 1 \<and> (attrType v = ''S'' \<or> attrType v = ''B'') \<and> extractScalar v = []"

definition key_names :: "Table \<Rightarrow> string list" where
  "key_names t = filter (\<lambda>n. n \<noteq> []) [hashKeyName t, sortKeyName t]"

fun check_presence :: "Item \<Rightarrow> keyOperand \<Rightarrow> string list \<Rightarrow> ddb_error option" where
  "check_presence item operand [] = None"
| "check_presence item operand (name # names) =
     (if map_of item name \<noteq> None then check_presence item operand names
      else if operand = operandKey then Some errKeyElementMismatch
      else Some (ValidationException (invalidParameterPrefix @ ''Missing the key '' @ name @ '' in the item'')))"

fun check_types :: "Table \<Rightarrow> Item \<Rightarrow> keyOperand \<Rightarrow> string list \<Rightarrow> ddb_error option" where
  "check_types t item operand [] = None"
| "check_types t item operand (name # names) =
     (case keyTypeMismatch t name (item_attr item name) of (declared, actual, mismatched) \<Rightarrow>
        if \<not> mismatched then check_types t item operand names
        else if operand = operandKey then Some errKeyElementMismatch
        else Some (ValidationException (invalidParameterPrefix @ ''Type mismatch for key '' @ name
               @ '' expected: '' @ declared @ '' actual: '' @ actual)))"

fun check_empty :: "Item \<Rightarrow> string list \<Rightarrow> ddb_error option" where
  "check_empty item [] = None"
| "check_empty item (name # names) =
     (if isEmptyScalar (item_attr item name)
      then Some (ValidationException (''One or more parameter values are not valid. ''
             @ ''The AttributeValue for a key attribute cannot contain an empty string value. Key: '' @ name))
      else check_empty item names)"

definition validateKeySchema :: "Table \<Rightarrow> Item \<Rightarrow> keyOperand \<Rightarrow> ddb_error option" where
  "validateKeySchema t keyOrItem operand =
     (let names = key_names t in
      if names = [] then None
      else if operand = operandKey \<and> length keyOrItem \<noteq> length names then Some errKeyElementMismatch
      else case check_presence keyOrItem operand names of
        Some e \<Rightarrow> Some e
      | None \<Rightarrow>
          (case check_types t keyOrItem operand names of
             Some e \<Rightarrow> Some e
           | None \<Rightarrow> check_empty keyOrItem names))"

section \<open>Storage keys\<close>

definition resolveKeys :: "Table \<Rightarrow> Item \<Rightarrow> ddb_error + string \<times> string" where
  "resolveKeys t keyOrItem =
     (let hashName = hashKeyName t; sortName = sortKeyName t in
      if hashName = [] then Inl (ValidationException ''Table has no hash key defined.'')
      else case map_of keyOrItem hashName of
        None \<Rightarrow> Inl (ValidationException
            (''The provided key element does not match the schema: missing hash key '' @ go_quote hashName))
      | Some hashAttr \<Rightarrow>
          Inr (extractKeyValue hashAttr,
               if sortName \<noteq> [] then (case map_of keyOrItem sortName of None \<Rightarrow> [] | Some a \<Rightarrow> extractKeyValue a)
               else []))"

definition resolveStorageKeys :: "Table \<Rightarrow> Item \<Rightarrow> ddb_error + string \<times> string" where
  "resolveStorageKeys t keyOrItem =
     (case resolveKeys t keyOrItem of
        Inl e \<Rightarrow> Inl e
      | Inr (h, s) \<Rightarrow>
          Inr (encodeStorageKeyComponent (keyAttrType t (hashKeyName t)) h,
               if sortKeyName t \<noteq> [] then encodeStorageKeyComponent (keyAttrType t (sortKeyName t)) s else s))"

definition itemCompositeKey :: "string \<Rightarrow> string \<Rightarrow> string" where
  "itemCompositeKey hashKey sortKey = hashKey @ [CHR 0x00] @ sortKey"

definition splitItemCompositeKey :: "string \<Rightarrow> string \<times> string" where
  "splitItemCompositeKey composite =
     (case str_index composite [CHR 0x00] of
        None \<Rightarrow> (composite, [])
      | Some i \<Rightarrow> (take i composite, drop (i + 1) composite))"

definition indexCompositeKey :: "string \<Rightarrow> string \<Rightarrow> string \<Rightarrow> string \<Rightarrow> string" where
  "indexCompositeKey indexHash indexSort baseHash baseSort =
     indexHash @ [CHR 0x00] @ indexSort @ [CHR 0x00] @ baseHash @ [CHR 0x00] @ baseSort"

definition itemIdentity :: "Table \<Rightarrow> Item \<Rightarrow> ddb_error + string" where
  "itemIdentity t keyOrItem =
     (case resolveStorageKeys t keyOrItem of Inl e \<Rightarrow> Inl e | Inr (h, s) \<Rightarrow> Inr (h @ [CHR 0x00] @ s))"

definition cloneItem :: "Item \<Rightarrow> Item" where
  "cloneItem src = map_copy src []"

section \<open>Index maintenance\<close>

definition indexKeyComponents :: "Table \<Rightarrow> SecondaryIndex \<Rightarrow> Item option \<Rightarrow> (string \<times> string) option" where
  "indexKeyComponents t idx itm =
     (case itm of
        None \<Rightarrow> None
      | Some item \<Rightarrow>
          (let hashName = indexHashKeyName idx; sortName = indexSortKeyName idx in
           if hashName = [] then None
           else case map_of item hashName of
             None \<Rightarrow> None
           | Some hashAttr \<Rightarrow>
               (let hash = encodeStorageKeyComponent (keyAttrType t hashName) (extractKeyValue hashAttr) in
                if sortName = [] then Some (hash, [])
                else case map_of item sortName of
                  None \<Rightarrow> None
                | Some sortAttr \<Rightarrow>
                    Some (hash, encodeStorageKeyComponent (keyAttrType t sortName) (extractKeyValue sortAttr)))))"

text \<open>\<^verbatim>\<open>if v, ok := item[name]; ok { out[name] = v }\<close>\<close>

definition keep_attr :: "Item \<Rightarrow> string \<Rightarrow> Item \<Rightarrow> Item" where
  "keep_attr item name out = (case map_of item name of Some v \<Rightarrow> map_put name v out | None \<Rightarrow> out)"

definition keep_named :: "Item \<Rightarrow> string \<Rightarrow> Item \<Rightarrow> Item" where
  "keep_named item name out = (if name = [] then out else keep_attr item name out)"

definition indexKeysOnlyProjection :: "Table \<Rightarrow> SecondaryIndex \<Rightarrow> Item \<Rightarrow> Item" where
  "indexKeysOnlyProjection t idx item =
     keep_named item (indexSortKeyName idx)
       (keep_named item (indexHashKeyName idx)
         (keep_named item (sortKeyName t)
           (keep_named item (hashKeyName t) [])))"

definition projectForIndex :: "Table \<Rightarrow> SecondaryIndex \<Rightarrow> Item option \<Rightarrow> Item" where
  "projectForIndex t idx itm =
     (case itm of
        None \<Rightarrow> []
      | Some item \<Rightarrow>
          if pj_ProjectionType (si_Projection idx) = ''ALL'' then cloneItem item
          else if pj_ProjectionType (si_Projection idx) = ''INCLUDE''
          then fold (keep_attr item) (pj_NonKeyAttributes (si_Projection idx)) (indexKeysOnlyProjection t idx item)
          else indexKeysOnlyProjection t idx item)"

text \<open>The item of a mutation is there for an upsert only.\<close>

datatype indexMutation =
    indexMutationUpsert string string string string string Item
  | indexMutationDelete string string string string string

definition diff_one ::
  "Table \<Rightarrow> Item option \<Rightarrow> Item option \<Rightarrow> string \<Rightarrow> string \<Rightarrow> SecondaryIndex \<Rightarrow> indexMutation list"
where
  "diff_one t oldItem newItem baseHash baseSort idx =
     (case (indexKeyComponents t idx oldItem, indexKeyComponents t idx newItem) of
        (None, None) \<Rightarrow> []
      | (Some (oldHash, oldSort), None) \<Rightarrow>
          [indexMutationDelete (si_IndexName idx) oldHash oldSort baseHash baseSort]
      | (None, Some (newHash, newSort)) \<Rightarrow>
          [indexMutationUpsert (si_IndexName idx) newHash newSort baseHash baseSort (projectForIndex t idx newItem)]
      | (Some (oldHash, oldSort), Some (newHash, newSort)) \<Rightarrow>
          (if oldHash \<noteq> newHash \<or> oldSort \<noteq> newSort
           then [indexMutationDelete (si_IndexName idx) oldHash oldSort baseHash baseSort] else [])
          @ [indexMutationUpsert (si_IndexName idx) newHash newSort baseHash baseSort (projectForIndex t idx newItem)])"

definition diffIndexMutations :: "Table \<Rightarrow> Item option \<Rightarrow> Item option \<Rightarrow> indexMutation list" where
  "diffIndexMutations t oldItem newItem =
     (if t_GlobalSecondaryIndexes t = [] then []
      else case (case newItem of None \<Rightarrow> oldItem | Some i \<Rightarrow> Some i) of
        None \<Rightarrow> []
      | Some baseItem \<Rightarrow>
          (case resolveStorageKeys t baseItem of
             Inl _ \<Rightarrow> []
           | Inr (baseHash, baseSort) \<Rightarrow>
               concat (map (diff_one t oldItem newItem baseHash baseSort) (t_GlobalSecondaryIndexes t))))"

end
