(* ===== verification/Store_Iface.thy ===== *)
theory Store_Iface
  imports Prelude
begin

text \<open>
  The storage interface of \<^verbatim>\<open>internal/state/store.go\<close>: the operations of Go's
  \<^verbatim>\<open>Store\<close> interface as a record over an arbitrary store state, the contract
  its documentation promises as the locale \<open>kv_store\<close>, and what every client may
  conclude from that contract alone, proved once inside the locale: reading back a
  write, independence of namespaces, and that walking \<^verbatim>\<open>ScanPage\<close> page by page
  enumerates exactly what one \<^verbatim>\<open>Scan\<close> returns.
\<close>

section \<open>The interface\<close>

type_synonym KV = "string \<times> string"

datatype store_error = ErrClosedPipe | IOError string

type_synonym 'a result = "store_error + 'a"

text \<open>
  One field per method.  Every method returns its results or an error, and the store
  afterwards.  \<^verbatim>\<open>DeletePrefix\<close> belongs to the optional extension
  \<^verbatim>\<open>PrefixDeleter\<close>, so it may be absent.
\<close>

record 's store_ops =
  st_Get :: "'s \<Rightarrow> string \<Rightarrow> string \<Rightarrow> (string \<times> bool) result \<times> 's"
  st_Set :: "'s \<Rightarrow> string \<Rightarrow> string \<Rightarrow> string \<Rightarrow> unit result \<times> 's"
  st_Delete :: "'s \<Rightarrow> string \<Rightarrow> string \<Rightarrow> unit result \<times> 's"
  st_DeletePrefix :: "('s \<Rightarrow> string \<Rightarrow> string \<Rightarrow> unit result \<times> 's) option"
  st_List :: "'s \<Rightarrow> string \<Rightarrow> string \<Rightarrow> string list result \<times> 's"
  st_ListNamespaces :: "'s \<Rightarrow> string list result \<times> 's"
  st_Scan :: "'s \<Rightarrow> string \<Rightarrow> string \<Rightarrow> KV list result \<times> 's"
  st_ScanPage :: "'s \<Rightarrow> string \<Rightarrow> string \<Rightarrow> string \<Rightarrow> int \<Rightarrow> (KV list \<times> string) result \<times> 's"
  st_Close :: "'s \<Rightarrow> unit result \<times> 's"

section \<open>The abstract specification\<close>

text \<open>The contents of a store: for each namespace, a finite map from keys to values.\<close>

type_synonym contents = "string \<Rightarrow> (string \<rightharpoonup> string)"

definition get_spec :: "contents \<Rightarrow> string \<Rightarrow> string \<Rightarrow> string \<times> bool" where
  "get_spec c ns k = (case c ns k of None \<Rightarrow> ([], False) | Some v \<Rightarrow> (v, True))"

definition set_spec :: "contents \<Rightarrow> string \<Rightarrow> string \<Rightarrow> string \<Rightarrow> contents" where
  "set_spec c ns k v = c(ns := (c ns)(k \<mapsto> v))"

definition delete_spec :: "contents \<Rightarrow> string \<Rightarrow> string \<Rightarrow> contents" where
  "delete_spec c ns k = c(ns := (c ns)(k := None))"

definition delete_prefix_spec :: "contents \<Rightarrow> string \<Rightarrow> string \<Rightarrow> contents" where
  "delete_prefix_spec c ns p = c(ns := (\<lambda>k. if HasPrefix k p then None else c ns k))"

text \<open>
  \<open>scan_spec m p xs\<close>: \<open>xs\<close> lists the pairs of \<open>m\<close> whose keys start with \<open>p\<close>, each
  once, in key order.
\<close>

definition scan_spec :: "(string \<rightharpoonup> string) \<Rightarrow> string \<Rightarrow> KV list \<Rightarrow> bool" where
  "scan_spec m p xs \<longleftrightarrow>
     sorted_wrt (<) (map fst xs) \<and> set xs = {(k, v). HasPrefix k p \<and> m k = Some v}"

text \<open>
  The page of a scan that \<^verbatim>\<open>ScanPage\<close> promises: the pairs strictly after
  \<open>startAfter\<close>, at most \<open>limit\<close> of them when \<open>limit\<close> is positive, and the key to
  resume after, empty when nothing is left.
\<close>

definition after_key :: "string \<Rightarrow> KV list \<Rightarrow> KV list" where
  "after_key sa xs = (if sa = [] then xs else filter (\<lambda>(k, _). sa < k) xs)"

definition page_spec :: "KV list \<Rightarrow> string \<Rightarrow> int \<Rightarrow> KV list \<times> string" where
  "page_spec xs sa limit =
     (let ys = after_key sa xs in
      if 0 < limit \<and> nat limit < length ys
      then (take (nat limit) ys, fst (ys ! (nat limit - 1)))
      else (ys, []))"

lemma scan_spec_unique: "scan_spec m p xs \<Longrightarrow> scan_spec m p ys \<Longrightarrow> xs = ys"
  unfolding scan_spec_def by (metis strict_sorted_pairs_unique)

lemma get_set_spec [simp]:
  "get_spec (set_spec c ns k v) ns' k' = (if ns' = ns \<and> k' = k then (v, True) else get_spec c ns' k')"
  by (simp add: get_spec_def set_spec_def)

lemma get_delete_spec [simp]:
  "get_spec (delete_spec c ns k) ns' k' =
     (if ns' = ns \<and> k' = k then ([], False) else get_spec c ns' k')"
  by (simp add: get_spec_def delete_spec_def)

section \<open>The contract\<close>

locale kv_store =
  fixes ops :: "'s store_ops"
    and view :: "'s \<Rightarrow> contents"
    and invar :: "'s \<Rightarrow> bool"
  assumes get_law: "invar s \<Longrightarrow>
      fst (st_Get ops s ns k) = Inr (get_spec (view s) ns k)
      \<and> view (snd (st_Get ops s ns k)) = view s \<and> invar (snd (st_Get ops s ns k))"
    and set_law: "invar s \<Longrightarrow>
      fst (st_Set ops s ns k v) = Inr ()
      \<and> view (snd (st_Set ops s ns k v)) = set_spec (view s) ns k v
      \<and> invar (snd (st_Set ops s ns k v))"
    and delete_law: "invar s \<Longrightarrow>
      fst (st_Delete ops s ns k) = Inr ()
      \<and> view (snd (st_Delete ops s ns k)) = delete_spec (view s) ns k
      \<and> invar (snd (st_Delete ops s ns k))"
    and list_law: "invar s \<Longrightarrow>
      (\<exists>xs. scan_spec (view s ns) p xs \<and> fst (st_List ops s ns p) = Inr (map fst xs))
      \<and> view (snd (st_List ops s ns p)) = view s \<and> invar (snd (st_List ops s ns p))"
    and namespaces_law: "invar s \<Longrightarrow>
      (\<exists>nss. fst (st_ListNamespaces ops s) = Inr nss \<and> sorted_wrt (<) nss
           \<and> set nss = {ns. view s ns \<noteq> Map.empty})
      \<and> view (snd (st_ListNamespaces ops s)) = view s \<and> invar (snd (st_ListNamespaces ops s))"
    and scan_law: "invar s \<Longrightarrow>
      (\<exists>xs. scan_spec (view s ns) p xs \<and> fst (st_Scan ops s ns p) = Inr xs)
      \<and> view (snd (st_Scan ops s ns p)) = view s \<and> invar (snd (st_Scan ops s ns p))"
    and page_law: "invar s \<Longrightarrow> scan_spec (view s ns) p xs \<Longrightarrow>
      fst (st_ScanPage ops s ns p sa lim) = Inr (page_spec xs sa lim)
      \<and> view (snd (st_ScanPage ops s ns p sa lim)) = view s
      \<and> invar (snd (st_ScanPage ops s ns p sa lim))"
begin

lemma get_after_set:
  assumes "invar s"
  shows "fst (st_Get ops (snd (st_Set ops s ns k v)) ns' k')
         = (if ns' = ns \<and> k' = k then Inr (v, True) else fst (st_Get ops s ns' k'))"
  using assms get_law [of s ns' k'] set_law [of s ns k v]
    get_law [of "snd (st_Set ops s ns k v)" ns' k']
  by (auto simp: get_spec_def set_spec_def)

lemma get_after_delete:
  assumes "invar s"
  shows "fst (st_Get ops (snd (st_Delete ops s ns k)) ns' k')
         = (if ns' = ns \<and> k' = k then Inr ([], False) else fst (st_Get ops s ns' k'))"
  using assms get_law [of s ns' k'] delete_law [of s ns k]
    get_law [of "snd (st_Delete ops s ns k)" ns' k']
  by (auto simp: get_spec_def delete_spec_def)

text \<open>A listing names exactly the keys of the scan, in the same order.\<close>

lemma list_is_scan_keys:
  assumes "invar s" "fst (st_Scan ops s ns p) = Inr xs"
  shows "fst (st_List ops s ns p) = Inr (map fst xs)"
  using assms list_law [of s ns p] scan_law [of s ns p] scan_spec_unique by fastforce

end

section \<open>Walking a namespace page by page\<close>

text \<open>
  The loop of a paging client: ask for a page, append it, resume after the key it
  returned, stop when that key is empty or an error comes back.  The fuel bounds the
  number of pages; the walk over \<open>n\<close> pairs ends within \<open>n + 1\<close> pages.
\<close>

fun page_walk ::
  "'s store_ops \<Rightarrow> nat \<Rightarrow> 's \<Rightarrow> string \<Rightarrow> string \<Rightarrow> string \<Rightarrow> int \<Rightarrow> KV list result option"
where
  "page_walk ops 0 s ns p sa lim = None"
| "page_walk ops (Suc n) s ns p sa lim =
     (case st_ScanPage ops s ns p sa lim of
        (Inl e, s') \<Rightarrow> Some (Inl e)
      | (Inr (pg, nxt), s') \<Rightarrow>
          (if nxt = [] then Some (Inr pg)
           else (case page_walk ops n s' ns p nxt lim of
                   None \<Rightarrow> None
                 | Some (Inl e) \<Rightarrow> Some (Inl e)
                 | Some (Inr rest) \<Rightarrow> Some (Inr (pg @ rest)))))"

lemma after_key_nth:
  assumes "sorted_wrt (<) (map fst xs)" "i < length xs" "fst (xs ! i) \<noteq> []"
  shows "after_key (fst (xs ! i)) xs = drop (Suc i) xs"
proof -
  have split: "xs = take (Suc i) xs @ drop (Suc i) xs" by simp
  have nth_less: "fst (xs ! a) < fst (xs ! b)" if "a < b" "b < length xs" for a b
    using assms(1) that by (simp add: sorted_wrt_iff_nth_less)
  have "filter (\<lambda>(k, _). fst (xs ! i) < k) (take (Suc i) xs) = []"
    using nth_less assms(2)
    by (auto simp: filter_empty_conv in_set_conv_nth less_Suc_eq not_less_iff_gr_or_eq
        split: prod.splits) (metis fst_conv order.asym)+
  moreover have "filter (\<lambda>(k, _). fst (xs ! i) < k) (drop (Suc i) xs) = drop (Suc i) xs"
    using nth_less by (auto simp: filter_id_conv in_set_conv_nth split: prod.splits)
      (metis fst_conv add_Suc less_add_Suc1 less_diff_conv add.commute)
  ultimately show ?thesis
    using assms(3) by (subst (2) split) (simp add: after_key_def del: append_take_drop_id)
qed

lemma after_key_suffix:
  assumes "sorted_wrt (<) (map fst xs)" "after_key sa xs = drop n xs" "j < length xs - n"
    "fst (drop n xs ! j) \<noteq> []"
  shows "after_key (fst (drop n xs ! j)) xs = drop (Suc (n + j)) xs"
  using after_key_nth [OF assms(1), of "n + j"] assms(3,4) by simp

context kv_store
begin

lemma page_walk_drop:
  assumes "scan_spec (view s ns) p xs" "invar s" "0 < lim"
    and "\<forall>(k, v) \<in> set xs. k \<noteq> []"
    and "after_key sa xs = drop n xs" "length xs - n < fuel"
  shows "page_walk ops fuel s ns p sa lim = Some (Inr (drop n xs))"
  using assms(1,2,5,6)
proof (induction fuel arbitrary: s sa n)
  case (Suc fuel)
  let ?r = "st_ScanPage ops s ns p sa lim"
  have sorted: "sorted_wrt (<) (map fst xs)" using Suc.prems(1) by (simp add: scan_spec_def)
  have page: "fst ?r = Inr (page_spec xs sa lim)" "view (snd ?r) = view s" "invar (snd ?r)"
    using page_law [OF Suc.prems(2,1)] by auto
  show ?case
  proof (cases "nat lim < length xs - n")
    case False
    then have "page_spec xs sa lim = (drop n xs, [])"
      using Suc.prems(3) by (simp add: page_spec_def)
    with page(1) show ?thesis by (cases ?r) (auto split: sum.splits)
  next
    case True
    let ?j = "nat lim - 1"
    let ?next = "fst (drop n xs ! ?j)"
    have j: "?j < length xs - n" "Suc (n + ?j) = n + nat lim" using True assms(3) by auto
    have "drop n xs ! ?j \<in> set xs" using j(1) by (simp add: nth_mem less_diff_conv)
    with assms(4) have ne: "?next \<noteq> []" by (metis (mono_tags, lifting) case_prodE fst_conv)
    have "page_spec xs sa lim = (take (nat lim) (drop n xs), ?next)"
      using True Suc.prems(3) assms(3) by (simp add: page_spec_def)
    moreover have "page_walk ops fuel (snd ?r) ns p ?next lim = Some (Inr (drop (n + nat lim) xs))"
    proof (rule Suc.IH)
      show "scan_spec (view (snd ?r) ns) p xs" using Suc.prems(1) page(2) by simp
      show "after_key ?next xs = drop (n + nat lim) xs"
        using after_key_suffix [OF sorted Suc.prems(3) j(1) ne] by (simp only: j(2))
      show "length xs - (n + nat lim) < fuel" using Suc.prems(4) True assms(3) by linarith
    qed (rule page(3))
    ultimately show ?thesis
      using page(1) ne
      by (cases ?r) (auto split: sum.splits simp: append_take_drop_id add.commute [of n]
          drop_drop [symmetric] simp del: drop_drop)
  qed
qed simp

lemma page_walk_eq_scan:
  assumes "invar s" "0 < lim" "fst (st_Scan ops s ns p) = Inr xs"
    and "\<forall>(k, v) \<in> set xs. k \<noteq> []"
  shows "page_walk ops (Suc (length xs)) s ns p [] lim = Some (Inr xs)"
proof -
  have "scan_spec (view s ns) p xs"
    using scan_law [OF assms(1), of ns p] assms(3) by auto
  from page_walk_drop [OF this assms(1,2,4), of "[]" 0 "Suc (length xs)"] show ?thesis
    by (simp add: after_key_def del: page_walk.simps)
qed

end

end
