(* ===== verification/Memory_Store.thy ===== *)
theory Memory_Store
  imports Store_Iface "HOL-Library.AList"
begin

text \<open>
  The in-memory backend, \<^verbatim>\<open>internal/state/memory.go\<close>.

  The ordered map of each namespace is the third-party package
  \<^verbatim>\<open>github.com/tidwall/btree\<close>.  It is a parameter of the model: a record of
  the operations the store calls, with the documented behaviour of an ordered map as
  the laws of the locale \<open>ordered_map\<close>.  The store's operations are defined for any
  such record; \<open>mem_ops\<close> packages them as an implementation of the interface, and the
  sublocale at the end shows that over every lawful ordered map they keep the whole
  contract \<open>kv_store\<close>.
\<close>

section \<open>The ordered map\<close>

text \<open>
  \<open>bt_ascend t pivot\<close> is the sequence of pairs \<^verbatim>\<open>Ascend\<close> would visit if its
  callback never stopped; \<open>ascend_iter\<close> runs the callback over it until it returns
  false, threading the variables the closure captures.
\<close>

record 't btree_ops =
  bt_empty :: 't
  bt_get :: "'t \<Rightarrow> string \<Rightarrow> string option"
  bt_set :: "'t \<Rightarrow> string \<Rightarrow> string \<Rightarrow> 't"
  bt_delete :: "'t \<Rightarrow> string \<Rightarrow> 't"
  bt_ascend :: "'t \<Rightarrow> string \<Rightarrow> KV list"
  bt_scan :: "'t \<Rightarrow> KV list"
  bt_len :: "'t \<Rightarrow> int"

fun ascend_iter :: "(KV \<Rightarrow> 'a \<Rightarrow> 'a \<times> bool) \<Rightarrow> KV list \<Rightarrow> 'a \<Rightarrow> 'a" where
  "ascend_iter f [] acc = acc"
| "ascend_iter f (x # xs) acc = (let (acc', more) = f x acc in if more then ascend_iter f xs acc' else acc')"

locale ordered_map =
  fixes bt :: "'t btree_ops"
  assumes get_empty: "bt_get bt (bt_empty bt) k = None"
    and get_set: "bt_get bt (bt_set bt t k v) = (bt_get bt t)(k \<mapsto> v)"
    and get_delete: "bt_get bt (bt_delete bt t k) = (bt_get bt t)(k := None)"
    and scan_sorted: "sorted_wrt (<) (map fst (bt_scan bt t))"
    and scan_set: "set (bt_scan bt t) = {(k, v). bt_get bt t k = Some v}"
    and ascend_eq: "bt_ascend bt t p = filter (\<lambda>(k, _). p \<le> k) (bt_scan bt t)"
    and len_eq: "bt_len bt t = int (length (bt_scan bt t))"

section \<open>The store\<close>

text \<open>
  The namespace map is an association list with distinct keys, whose order stands for
  Go's unspecified iteration order.  The two activity counters are kept; the mutex is
  not part of the sequential model, every operation below being one critical section.
\<close>

record 't memory_store =
  ms_data :: "(string \<times> 't) list"
  ms_reads :: int
  ms_writes :: int

definition bump_reads :: "'t memory_store \<Rightarrow> 't memory_store" where
  "bump_reads s = s\<lparr>ms_reads := ms_reads s + 1\<rparr>"

definition bump_writes :: "'t memory_store \<Rightarrow> 't memory_store" where
  "bump_writes s = s\<lparr>ms_writes := ms_writes s + 1\<rparr>"

definition NewMemoryStore :: "'t memory_store" where
  "NewMemoryStore = \<lparr>ms_data = [], ms_reads = 0, ms_writes = 0\<rparr>"

definition mem_Get ::
  "'t btree_ops \<Rightarrow> 't memory_store \<Rightarrow> string \<Rightarrow> string \<Rightarrow> (string \<times> bool) result \<times> 't memory_store"
where
  "mem_Get bt s namespace key =
     (case map_of (ms_data s) namespace of
        None \<Rightarrow> (Inr ([], False), bump_reads s)
      | Some tree \<Rightarrow>
          (case bt_get bt tree key of
             None \<Rightarrow> (Inr ([], False), bump_reads s)
           | Some v \<Rightarrow> (Inr (v, True), bump_reads s)))"

definition mem_Set ::
  "'t btree_ops \<Rightarrow> 't memory_store \<Rightarrow> string \<Rightarrow> string \<Rightarrow> string \<Rightarrow> unit result \<times> 't memory_store"
where
  "mem_Set bt s namespace key value =
     (let tree = (case map_of (ms_data s) namespace of None \<Rightarrow> bt_empty bt | Some t \<Rightarrow> t)
      in (Inr (), (bump_writes s)\<lparr>ms_data := AList.update namespace (bt_set bt tree key value) (ms_data s)\<rparr>))"

definition mem_Delete ::
  "'t btree_ops \<Rightarrow> 't memory_store \<Rightarrow> string \<Rightarrow> string \<Rightarrow> unit result \<times> 't memory_store"
where
  "mem_Delete bt s namespace key =
     (case map_of (ms_data s) namespace of
        None \<Rightarrow> (Inr (), bump_writes s)
      | Some tree \<Rightarrow>
          (Inr (), (bump_writes s)\<lparr>ms_data := AList.update namespace (bt_delete bt tree key) (ms_data s)\<rparr>))"

definition collect_keys :: "'t btree_ops \<Rightarrow> 't \<Rightarrow> string \<Rightarrow> string list" where
  "collect_keys bt tree p =
     ascend_iter (\<lambda>(key, _) keys. if \<not> HasPrefix key p then (keys, False) else (keys @ [key], True))
       (bt_ascend bt tree p) []"

definition mem_DeletePrefix ::
  "'t btree_ops \<Rightarrow> 't memory_store \<Rightarrow> string \<Rightarrow> string \<Rightarrow> unit result \<times> 't memory_store"
where
  "mem_DeletePrefix bt s namespace p =
     (case map_of (ms_data s) namespace of
        None \<Rightarrow> (Inr (), bump_writes s)
      | Some tree \<Rightarrow>
          (let keys = collect_keys bt tree p;
               tree' = fold (\<lambda>key t. bt_delete bt t key) keys tree
           in (Inr (), (bump_writes s)\<lparr>ms_data := AList.update namespace tree' (ms_data s)\<rparr>)))"

definition mem_List ::
  "'t btree_ops \<Rightarrow> 't memory_store \<Rightarrow> string \<Rightarrow> string \<Rightarrow> string list result \<times> 't memory_store"
where
  "mem_List bt s namespace p =
     (case map_of (ms_data s) namespace of
        None \<Rightarrow> (Inr [], bump_reads s)
      | Some tree \<Rightarrow> (Inr (collect_keys bt tree p), bump_reads s))"

definition mem_ListNamespaces ::
  "'t btree_ops \<Rightarrow> 't memory_store \<Rightarrow> string list result \<times> 't memory_store"
where
  "mem_ListNamespaces bt s =
     (let namespaces = map fst (filter (\<lambda>(_, tree). 0 < bt_len bt tree) (ms_data s))
      in (Inr (sort namespaces), bump_reads s))"

definition mem_Scan ::
  "'t btree_ops \<Rightarrow> 't memory_store \<Rightarrow> string \<Rightarrow> string \<Rightarrow> KV list result \<times> 't memory_store"
where
  "mem_Scan bt s namespace p =
     (case map_of (ms_data s) namespace of
        None \<Rightarrow> (Inr [], bump_reads s)
      | Some tree \<Rightarrow>
          (Inr (ascend_iter (\<lambda>(key, value) pairs.
                  if \<not> HasPrefix key p then (pairs, False) else (pairs @ [(key, value)], True))
                (bt_ascend bt tree p) []), bump_reads s))"

text \<open>The closure of \<^verbatim>\<open>ScanPage\<close> captures the page and the resume key.\<close>

definition scan_page_step ::
  "string \<Rightarrow> string \<Rightarrow> int \<Rightarrow> KV \<Rightarrow> KV list \<times> string \<Rightarrow> (KV list \<times> string) \<times> bool"
where
  "scan_page_step p startAfter limit kv acc =
     (let (pairs, nextKey) = acc; (key, value) = kv in
      if \<not> HasPrefix key p then (acc, False)
      else if startAfter \<noteq> [] \<and> key \<le> startAfter then (acc, True)
      else if 0 < limit \<and> int (length pairs) = limit then ((pairs, fst (last pairs)), False)
      else ((pairs @ [(key, value)], nextKey), True))"

definition mem_ScanPage ::
  "'t btree_ops \<Rightarrow> 't memory_store \<Rightarrow> string \<Rightarrow> string \<Rightarrow> string \<Rightarrow> int
    \<Rightarrow> (KV list \<times> string) result \<times> 't memory_store"
where
  "mem_ScanPage bt s namespace p startAfter limit =
     (case map_of (ms_data s) namespace of
        None \<Rightarrow> (Inr ([], []), bump_reads s)
      | Some tree \<Rightarrow>
          (let pivot = (if startAfter \<noteq> [] \<and> p < startAfter then startAfter else p)
           in (Inr (ascend_iter (scan_page_step p startAfter limit) (bt_ascend bt tree pivot) ([], [])),
               bump_reads s)))"

definition mem_Close :: "'t memory_store \<Rightarrow> unit result \<times> 't memory_store" where
  "mem_Close s = (Inr (), s)"

definition mem_DebugMetrics :: "'t memory_store \<Rightarrow> string \<times> int \<times> int" where
  "mem_DebugMetrics s = (''memory'', ms_reads s, ms_writes s)"

definition mem_Reset :: "'t memory_store \<Rightarrow> 't memory_store" where
  "mem_Reset s = s\<lparr>ms_data := []\<rparr>"

definition mem_Len :: "'t btree_ops \<Rightarrow> 't memory_store \<Rightarrow> int" where
  "mem_Len bt s = fold (\<lambda>(_, tree) total. total + bt_len bt tree) (ms_data s) 0"

definition mem_ops :: "'t btree_ops \<Rightarrow> 't memory_store store_ops" where
  "mem_ops bt = \<lparr>st_Get = mem_Get bt, st_Set = mem_Set bt, st_Delete = mem_Delete bt,
     st_DeletePrefix = Some (mem_DeletePrefix bt), st_List = mem_List bt,
     st_ListNamespaces = mem_ListNamespaces bt, st_Scan = mem_Scan bt,
     st_ScanPage = mem_ScanPage bt, st_Close = mem_Close\<rparr>"

section \<open>Composite keys\<close>

definition storeKey :: "string \<Rightarrow> string \<Rightarrow> string" where
  "storeKey namespace key = namespace @ [CHR 0x00] @ key"

definition splitStoreKey :: "string \<Rightarrow> string \<times> string" where
  "splitStoreKey composite =
     (case str_index composite [CHR 0x00] of
        None \<Rightarrow> (composite, [])
      | Some i \<Rightarrow> (take i composite, drop (i + 1) composite))"

section \<open>The iteration callbacks\<close>

lemma ascend_iter_collect:
  "ascend_iter (\<lambda>kv acc. if \<not> P kv then (acc, False) else (acc @ [g kv], True)) xs acc
   = acc @ map g (takeWhile P xs)"
  by (induction xs arbitrary: acc) auto

lemma collect_keys_eq:
  "collect_keys bt tree p = map fst (takeWhile (\<lambda>(k, _). HasPrefix k p) (bt_ascend bt tree p))"
  unfolding collect_keys_def
  using ascend_iter_collect [of "\<lambda>(k, _). HasPrefix k p" fst "bt_ascend bt tree p" "[]"]
  by (simp add: case_prod_unfold)

lemma scan_page_iter:
  assumes "0 < limit \<Longrightarrow> int (length pairs) \<le> limit"
  shows "ascend_iter (scan_page_step p sa limit) xs (pairs, []) =
     (let ys = pairs @ filter (\<lambda>(k, _). sa = [] \<or> sa < k) (takeWhile (\<lambda>(k, _). HasPrefix k p) xs) in
      if 0 < limit \<and> nat limit < length ys
      then (take (nat limit) ys, fst (ys ! (nat limit - 1))) else (ys, []))"
  using assms
proof (induction xs arbitrary: pairs)
  case Nil
  then show ?case by (auto simp: Let_def)
next
  case (Cons kv xs)
  obtain k v where kv: "kv = (k, v)" by (cases kv)
  show ?case
  proof (cases "HasPrefix k p \<and> (sa = [] \<or> sa < k) \<and> 0 < limit \<and> int (length pairs) = limit")
    case True
    then have "pairs \<noteq> []" "nat limit = length pairs" by auto
    with True show ?thesis
      by (auto simp: kv scan_page_step_def Let_def last_conv_nth nth_append)
  next
    case False
    then show ?thesis
      using Cons.prems Cons.IH [of "pairs @ [kv]"] Cons.IH [of pairs]
      by (auto simp: kv scan_page_step_def Let_def not_less)
  qed
qed

section \<open>The contract over every lawful ordered map\<close>

definition mem_view :: "'t btree_ops \<Rightarrow> 't memory_store \<Rightarrow> contents" where
  "mem_view bt s ns = (case map_of (ms_data s) ns of None \<Rightarrow> Map.empty | Some tree \<Rightarrow> bt_get bt tree)"

definition mem_invar :: "'t memory_store \<Rightarrow> bool" where
  "mem_invar s \<longleftrightarrow> distinct (map fst (ms_data s))"

lemma bump_simps [simp]:
  "ms_data (bump_reads s) = ms_data s" "ms_data (bump_writes s) = ms_data s"
  "mem_view bt (bump_reads s) = mem_view bt s" "mem_view bt (bump_writes s) = mem_view bt s"
  "mem_invar (bump_reads s) = mem_invar s" "mem_invar (bump_writes s) = mem_invar s"
  by (simp_all add: bump_reads_def bump_writes_def mem_view_def mem_invar_def fun_eq_iff)

lemma mem_view_update [simp]:
  "mem_view bt (s\<lparr>ms_data := AList.update ns tree (ms_data s')\<rparr>)
   = (mem_view bt s')(ns := bt_get bt tree)"
  by (auto simp: mem_view_def fun_eq_iff update_conv')

lemma mem_invar_update [simp]:
  "mem_invar s \<Longrightarrow> mem_invar (s'\<lparr>ms_data := AList.update ns tree (ms_data s)\<rparr>)"
  by (simp add: mem_invar_def distinct_update)

context ordered_map
begin

text \<open>
  Walking up from a pivot between the prefix and its keys and stopping at the first key
  without the prefix visits every key that has it.
\<close>

lemma takeWhile_ascend:
  assumes "p \<le> pivot"
  shows "takeWhile (\<lambda>(k, _). HasPrefix k p) (bt_ascend bt t pivot)
         = filter (\<lambda>(k, _). pivot \<le> k \<and> HasPrefix k p) (bt_scan bt t)"
proof -
  let ?xs = "filter (\<lambda>(k, _). pivot \<le> k) (bt_scan bt t)"
  have "sorted_wrt (\<lambda>a b. fst a < fst b) ?xs"
    using scan_sorted [of t] by (simp add: sorted_wrt_map sorted_wrt_filter)
  then have "sorted_wrt (\<lambda>a b. p \<le> fst a \<and> fst a < fst b) ?xs"
    by (rule sorted_wrt_mono_rel [rotated]) (use assms in auto)
  then have "takeWhile (\<lambda>(k, _). HasPrefix k p) ?xs = filter (\<lambda>(k, _). HasPrefix k p) ?xs"
    by (rule takeWhile_sorted_eq_filter)
      (auto simp: HasPrefix_iff_prefix dest: not_prefix_less_mono less_imp_le)
  then show ?thesis by (simp add: ascend_eq case_prod_unfold conj_commute)
qed

lemma takeWhile_ascend_prefix:
  "takeWhile (\<lambda>(k, _). HasPrefix k p) (bt_ascend bt t p) = filter (\<lambda>(k, _). HasPrefix k p) (bt_scan bt t)"
  by (subst takeWhile_ascend)
    (auto simp: HasPrefix_iff_prefix prefix_le_string case_prod_unfold intro: filter_cong)

lemma scan_spec_tree: "scan_spec (bt_get bt t) p (filter (\<lambda>(k, _). HasPrefix k p) (bt_scan bt t))"
  using scan_sorted [of t] scan_set [of t]
  by (auto simp: scan_spec_def sorted_wrt_map sorted_wrt_filter)

lemma get_fold_delete:
  "bt_get bt (fold (\<lambda>k t. bt_delete bt t k) ks t) = (\<lambda>k. if k \<in> set ks then None else bt_get bt t k)"
  by (induction ks arbitrary: t) (auto simp: get_delete fun_eq_iff)

lemma mem_Get_spec [store_specs]:
  "mem_Get bt s ns k = (Inr (get_spec (mem_view bt s) ns k), bump_reads s)"
  by (auto simp: mem_Get_def get_spec_def mem_view_def split: option.splits)

lemma mem_Set_spec [store_specs]:
  assumes "mem_invar s"
  shows "fst (mem_Set bt s ns k v) = Inr ()"
    "mem_view bt (snd (mem_Set bt s ns k v)) = set_spec (mem_view bt s) ns k v"
    "mem_invar (snd (mem_Set bt s ns k v))"
  using assms
  by (auto simp: mem_Set_def Let_def set_spec_def get_set mem_view_def [of bt s ns] get_empty
      fun_eq_iff split: option.splits)

lemma mem_Delete_spec [store_specs]:
  assumes "mem_invar s"
  shows "fst (mem_Delete bt s ns k) = Inr ()"
    "mem_view bt (snd (mem_Delete bt s ns k)) = delete_spec (mem_view bt s) ns k"
    "mem_invar (snd (mem_Delete bt s ns k))"
  using assms
  by (auto simp: mem_Delete_def delete_spec_def get_delete mem_view_def [of bt s ns]
      fun_eq_iff split: option.splits)

lemma set_collect_keys: "set (collect_keys bt t p) = {k. HasPrefix k p \<and> bt_get bt t k \<noteq> None}"
  using scan_set [of t] by (force simp: collect_keys_eq takeWhile_ascend_prefix)

lemma mem_DeletePrefix_spec [store_specs]:
  assumes "mem_invar s"
  shows "fst (mem_DeletePrefix bt s ns p) = Inr ()"
    "mem_view bt (snd (mem_DeletePrefix bt s ns p)) = delete_prefix_spec (mem_view bt s) ns p"
    "mem_invar (snd (mem_DeletePrefix bt s ns p))"
  using assms
  by (auto simp: mem_DeletePrefix_def delete_prefix_spec_def get_fold_delete Let_def
      set_collect_keys mem_view_def [of bt s ns] fun_eq_iff split: option.splits)

lemma mem_Scan_spec [store_specs]:
  "mem_Scan bt s ns p =
     (Inr (case map_of (ms_data s) ns of None \<Rightarrow> [] | Some t \<Rightarrow> filter (\<lambda>(k, _). HasPrefix k p) (bt_scan bt t)),
      bump_reads s)"
  using ascend_iter_collect [of "\<lambda>(k, _). HasPrefix k p" "\<lambda>kv. (fst kv, snd kv)" "bt_ascend bt _ p" "[]"]
  by (auto simp: mem_Scan_def takeWhile_ascend_prefix [unfolded case_prod_unfold]
      case_prod_unfold split: option.splits)

lemma mem_List_spec [store_specs]:
  "mem_List bt s ns p = (Inr (map fst (projr (fst (mem_Scan bt s ns p)))), bump_reads s)"
  by (auto simp: mem_List_def mem_Scan_spec collect_keys_eq takeWhile_ascend_prefix split: option.splits)

lemma mem_Scan_scan_spec: "scan_spec (mem_view bt s ns) p (projr (fst (mem_Scan bt s ns p)))"
  using scan_spec_tree by (auto simp: mem_Scan_spec mem_view_def scan_spec_def split: option.splits)

lemma mem_ScanPage_spec [store_specs]:
  "mem_ScanPage bt s ns p sa lim = (Inr (page_spec (projr (fst (mem_Scan bt s ns p))) sa lim), bump_reads s)"
proof (cases "map_of (ms_data s) ns")
  case None
  then show ?thesis by (simp add: mem_ScanPage_def mem_Scan_def page_spec_def after_key_def)
next
  case (Some t)
  let ?pivot = "if sa \<noteq> [] \<and> p < sa then sa else p"
  have "filter (\<lambda>(k, _). sa = [] \<or> sa < k) (takeWhile (\<lambda>(k, _). HasPrefix k p) (bt_ascend bt t ?pivot))
        = after_key sa (filter (\<lambda>(k, _). HasPrefix k p) (bt_scan bt t))"
    by (subst takeWhile_ascend)
      (auto simp: after_key_def case_prod_unfold HasPrefix_iff_prefix intro!: filter_cong
        dest: prefix_le_string)
  with Some show ?thesis
    by (simp add: mem_ScanPage_def mem_Scan_spec scan_page_iter page_spec_def Let_def)
qed

lemma mem_view_nonempty:
  "mem_view bt s ns \<noteq> Map.empty \<longleftrightarrow> (\<exists>t. map_of (ms_data s) ns = Some t \<and> bt_get bt t \<noteq> Map.empty)"
  by (auto simp: mem_view_def split: option.splits)

lemma mem_ListNamespaces_spec [store_specs]:
  assumes "mem_invar s"
  shows "\<exists>nss. mem_ListNamespaces bt s = (Inr nss, bump_reads s) \<and> sorted_wrt (<) nss
           \<and> set nss = {ns. mem_view bt s ns \<noteq> Map.empty}"
proof -
  let ?nss = "map fst (filter (\<lambda>(_, tree). 0 < bt_len bt tree) (ms_data s))"
  have len_pos: "0 < bt_len bt t \<longleftrightarrow> bt_get bt t \<noteq> Map.empty" for t
    using scan_set [of t] by (fastforce simp: len_eq fun_eq_iff)
  have d: "distinct (map fst (ms_data s))" using assms by (simp add: mem_invar_def)
  then have "distinct ?nss" by (simp add: distinct_map_filter)
  moreover have "set ?nss = {ns. mem_view bt s ns \<noteq> Map.empty}"
    unfolding mem_view_nonempty by (force simp: len_pos map_of_eq_Some_iff [OF d])
  ultimately show ?thesis
    by (simp add: mem_ListNamespaces_def Let_def strict_sorted_iff)
qed

lemma mem_kv_store: "kv_store (mem_ops bt) (mem_view bt) mem_invar"
proof
  fix s :: "'t memory_store" and ns p sa lim xs
  assume "mem_invar s" "scan_spec (mem_view bt s ns) p xs"
  moreover from this have "xs = projr (fst (mem_Scan bt s ns p))"
    using mem_Scan_scan_spec scan_spec_unique by blast
  ultimately show "fst (st_ScanPage (mem_ops bt) s ns p sa lim) = Inr (page_spec xs sa lim)
      \<and> mem_view bt (snd (st_ScanPage (mem_ops bt) s ns p sa lim)) = mem_view bt s
      \<and> mem_invar (snd (st_ScanPage (mem_ops bt) s ns p sa lim))"
    by (simp add: mem_ops_def mem_ScanPage_spec)
next
  fix s :: "'t memory_store" and ns p
  assume "mem_invar s"
  moreover have "scan_spec (mem_view bt s ns) p (projr (fst (mem_Scan bt s ns p)))"
    by (rule mem_Scan_scan_spec)
  ultimately show "(\<exists>xs. scan_spec (mem_view bt s ns) p xs \<and> fst (st_Scan (mem_ops bt) s ns p) = Inr xs)
      \<and> mem_view bt (snd (st_Scan (mem_ops bt) s ns p)) = mem_view bt s
      \<and> mem_invar (snd (st_Scan (mem_ops bt) s ns p))"
    and "(\<exists>xs. scan_spec (mem_view bt s ns) p xs \<and> fst (st_List (mem_ops bt) s ns p) = Inr (map fst xs))
      \<and> mem_view bt (snd (st_List (mem_ops bt) s ns p)) = mem_view bt s
      \<and> mem_invar (snd (st_List (mem_ops bt) s ns p))"
    by (auto simp: mem_ops_def mem_List_spec mem_Scan_spec)
next
  fix s :: "'t memory_store"
  assume inv: "mem_invar s"
  from mem_ListNamespaces_spec [OF inv] inv
  show "(\<exists>nss. fst (st_ListNamespaces (mem_ops bt) s) = Inr nss \<and> sorted_wrt (<) nss
        \<and> set nss = {ns. mem_view bt s ns \<noteq> Map.empty})
      \<and> mem_view bt (snd (st_ListNamespaces (mem_ops bt) s)) = mem_view bt s
      \<and> mem_invar (snd (st_ListNamespaces (mem_ops bt) s))"
    by (auto simp: mem_ops_def)
qed (auto simp: mem_ops_def mem_Get_spec mem_Set_spec mem_Delete_spec)

end

sublocale ordered_map \<subseteq> mem: kv_store "mem_ops bt" "mem_view bt" mem_invar
  by (rule mem_kv_store)

section \<open>An executable ordered map\<close>

text \<open>
  Association lists, newest binding first, are a lawful ordered map: every list is a
  valid representation, and the ordered reading sorts the distinct keys.
\<close>

definition alist_scan :: "KV list \<Rightarrow> KV list" where
  "alist_scan t = map (\<lambda>k. (k, the (map_of t k))) (sort (remdups (map fst t)))"

definition alist_bt :: "KV list btree_ops" where
  "alist_bt = \<lparr>bt_empty = [], bt_get = map_of, bt_set = (\<lambda>t k v. (k, v) # t),
     bt_delete = (\<lambda>t k. filter (\<lambda>(k', _). k' \<noteq> k) t),
     bt_ascend = (\<lambda>t p. filter (\<lambda>(k, _). p \<le> k) (alist_scan t)),
     bt_scan = alist_scan, bt_len = (\<lambda>t. int (length (alist_scan t)))\<rparr>"

lemma map_of_filter_neq:
  "map_of (filter (\<lambda>(k', _). k' \<noteq> k) t) = (map_of t)(k := None)"
  by (induction t) (auto simp: fun_eq_iff)

lemma alist_scan_sorted: "sorted_wrt (<) (map fst (alist_scan t))"
  by (simp add: alist_scan_def o_def strict_sorted_iff)

lemma alist_scan_set: "set (alist_scan t) = {(k, v). map_of t k = Some v}"
  by (auto simp: alist_scan_def image_iff) (metis domI dom_map_of_conv_image_fst domD option.sel
      map_of_SomeD fst_conv image_eqI)+

interpretation alist: ordered_map alist_bt
  by unfold_locales
    (auto simp: alist_bt_def map_of_filter_neq alist_scan_sorted alist_scan_set)

section \<open>Properties\<close>

lemma storeKey_index: "CHR 0x00 \<notin> set ns \<Longrightarrow> str_index (ns @ [CHR 0x00] @ k) [CHR 0x00] = Some (length ns)"
  by (induction ns) (auto simp: str_index.simps HasPrefix_def)

text \<open>
  C11. Over every lawful ordered map the memory store implements the documented contract of
  the \<^verbatim>\<open>Store\<close> interface: every operation returns what the abstract contents say,
  writes change exactly the addressed key, reads change nothing, listings and scans are
  complete and in key order, and \<^verbatim>\<open>ScanPage\<close> returns exactly the promised page
  and resume key.
\<close>

theorem memory_store_contract:
  assumes "ordered_map bt"
  shows "kv_store (mem_ops bt) (mem_view bt) mem_invar"
  using assms by (rule ordered_map.mem_kv_store)

theorem memory_store_contract_witness:
  "kv_store (mem_ops alist_bt) (mem_view alist_bt) mem_invar \<and> mem_invar (NewMemoryStore :: KV list memory_store)"
  using memory_store_contract [OF alist.ordered_map_axioms]
  by (simp add: mem_invar_def NewMemoryStore_def)


definition sample_store :: "KV list memory_store" where
  "sample_store = \<lparr>ms_data = [(''s3'', [(''b/2'', ''y''), (''a'', ''x''), (''b/1'', ''z'')])],
     ms_reads = 0, ms_writes = 3\<rparr>"


text \<open>
  The composite key of the write-behind bookkeeping is unambiguous: splitting it gives
  back the namespace and the key, for every key and every namespace without a NUL byte.
\<close>

theorem splitStoreKey_storeKey:
  assumes "CHR 0x00 \<notin> set namespace"
  shows "splitStoreKey (storeKey namespace key) = (namespace, key)"
  using storeKey_index [OF assms, of key] by (simp add: splitStoreKey_def storeKey_def)

theorem splitStoreKey_storeKey_witness:
  "splitStoreKey (storeKey ''sqs:queues'' [CHR ''q'', CHR 0x00]) = (''sqs:queues'', [CHR ''q'', CHR 0x00])"
  by (rule splitStoreKey_storeKey) simp

text \<open>
  Deleting a prefix removes exactly the keys of that namespace that start with it; every
  other key of that and of every other namespace keeps its value.
\<close>

theorem mem_DeletePrefix_exact:
  assumes "ordered_map bt" "mem_invar s"
  shows "fst (mem_Get bt (snd (mem_DeletePrefix bt s ns p)) ns' k)
         = (if ns' = ns \<and> HasPrefix k p then Inr ([], False) else fst (mem_Get bt s ns' k))"
  by (simp add: ordered_map.mem_Get_spec [OF assms(1)] get_spec_def delete_prefix_spec_def
      ordered_map.mem_DeletePrefix_spec [OF assms])

theorem mem_DeletePrefix_exact_witness:
  "fst (mem_Get alist_bt (snd (mem_DeletePrefix alist_bt sample_store ''s3'' ''b/'')) ''s3'' ''b/1'') = Inr ([], False)
   \<and> fst (mem_Get alist_bt (snd (mem_DeletePrefix alist_bt sample_store ''s3'' ''b/'')) ''s3'' ''a'') = Inr (''x'', True)"
proof -
  have inv: "mem_invar sample_store" by (simp add: mem_invar_def sample_store_def)
  have "fst (mem_Get alist_bt sample_store ''s3'' ''a'') = Inr (''x'', True)" by code_simp
  then show ?thesis
    using mem_DeletePrefix_exact [OF alist.ordered_map_axioms inv] by (simp add: HasPrefix_def)
qed

end
