(* ===== verification/Ddb_Items.thy ===== *)
theory Ddb_Items
  imports Ddb_Table Memory_Store
begin

text \<open>
  The in-process item backend of DynamoDB, \<^verbatim>\<open>memItemBackend\<close> of
  \<^verbatim>\<open>internal/services/dynamodb/item_store.go\<close>: one ordered tree of items per table and one
  per table and index.  The trees are again \<^verbatim>\<open>github.com/tidwall/btree\<close>, now holding
  items: a parameter with the laws of an ordered map (\<open>item_tree\<close>).  The backend's methods
  never return an error, so they return their result alone.
\<close>

section \<open>The ordered map of items\<close>

type_synonym row = "string \<times> Item"

record 't tree_ops =
  tr_empty :: 't
  tr_Get :: "'t \<Rightarrow> string \<Rightarrow> Item option"
  tr_Set :: "'t \<Rightarrow> string \<Rightarrow> Item \<Rightarrow> 't"
  tr_Delete :: "'t \<Rightarrow> string \<Rightarrow> 't"
  tr_Ascend :: "'t \<Rightarrow> string \<Rightarrow> row list"
  tr_Scan :: "'t \<Rightarrow> row list"
  tr_Len :: "'t \<Rightarrow> int"

text \<open>Running a callback over the rows until it returns false.\<close>

fun iterate :: "(row \<Rightarrow> 'a \<Rightarrow> 'a \<times> bool) \<Rightarrow> row list \<Rightarrow> 'a \<Rightarrow> 'a" where
  "iterate f [] acc = acc"
| "iterate f (x # xs) acc = (case f x acc of (acc', go) \<Rightarrow> if go then iterate f xs acc' else acc')"

locale item_tree =
  fixes tr :: "'t tree_ops"
  assumes get_empty: "tr_Get tr (tr_empty tr) k = None"
    and get_set: "tr_Get tr (tr_Set tr t k v) = (tr_Get tr t)(k \<mapsto> v)"
    and get_delete: "tr_Get tr (tr_Delete tr t k) = (tr_Get tr t)(k := None)"
    and scan_sorted: "sorted_wrt (<) (map fst (tr_Scan tr t))"
    and scan_set: "set (tr_Scan tr t) = {(k, v). tr_Get tr t k = Some v}"
    and ascend_eq: "tr_Ascend tr t p = filter (\<lambda>(k, _). p \<le> k) (tr_Scan tr t)"
    and len_eq: "tr_Len tr t = int (length (tr_Scan tr t))"

section \<open>The backend\<close>

record 't memItemBackend =
  mib_tables :: "(string \<times> 't) list"
  mib_indexes :: "((string \<times> string) \<times> 't) list"

definition newMemItemBackend :: "'t memItemBackend" where
  "newMemItemBackend = \<lparr>mib_tables = [], mib_indexes = []\<rparr>"

definition tree_or_new :: "'t tree_ops \<Rightarrow> 't option \<Rightarrow> 't" where
  "tree_or_new tr t = (case t of None \<Rightarrow> tr_empty tr | Some t \<Rightarrow> t)"

definition apply_mutation :: "'t tree_ops \<Rightarrow> string \<Rightarrow> indexMutation \<Rightarrow> 't memItemBackend \<Rightarrow> 't memItemBackend" where
  "apply_mutation tr tableName m b =
     (case m of
        indexMutationUpsert name ih is bh bs item \<Rightarrow>
          (let k = (tableName, name); tree = tree_or_new tr (map_of (mib_indexes b) k) in
           b\<lparr>mib_indexes := AList.update k (tr_Set tr tree (indexCompositeKey ih is bh bs) item) (mib_indexes b)\<rparr>)
      | indexMutationDelete name ih is bh bs \<Rightarrow>
          (let k = (tableName, name) in
           case map_of (mib_indexes b) k of
             None \<Rightarrow> b
           | Some tree \<Rightarrow>
               b\<lparr>mib_indexes := AList.update k (tr_Delete tr tree (indexCompositeKey ih is bh bs)) (mib_indexes b)\<rparr>))"

definition applyIndexMutationsLocked ::
  "'t tree_ops \<Rightarrow> 't memItemBackend \<Rightarrow> string \<Rightarrow> indexMutation list \<Rightarrow> 't memItemBackend"
where
  "applyIndexMutationsLocked tr b tableName mutations = fold (apply_mutation tr tableName) mutations b"

definition putWithIndexMutations ::
  "'t tree_ops \<Rightarrow> 't memItemBackend \<Rightarrow> string \<Rightarrow> string \<Rightarrow> string \<Rightarrow> Item \<Rightarrow> indexMutation list \<Rightarrow> 't memItemBackend"
where
  "putWithIndexMutations tr b tableName hashKey sortKey item mutations =
     (let tree = tree_or_new tr (map_of (mib_tables b) tableName);
          tree' = tr_Set tr tree (itemCompositeKey hashKey sortKey) item
      in applyIndexMutationsLocked tr (b\<lparr>mib_tables := AList.update tableName tree' (mib_tables b)\<rparr>)
           tableName mutations)"

definition backend_put ::
  "'t tree_ops \<Rightarrow> 't memItemBackend \<Rightarrow> string \<Rightarrow> string \<Rightarrow> string \<Rightarrow> Item \<Rightarrow> 't memItemBackend"
where
  "backend_put tr b tableName hashKey sortKey item = putWithIndexMutations tr b tableName hashKey sortKey item []"

definition backend_get :: "'t tree_ops \<Rightarrow> 't memItemBackend \<Rightarrow> string \<Rightarrow> string \<Rightarrow> string \<Rightarrow> Item option" where
  "backend_get tr b tableName hashKey sortKey =
     (case map_of (mib_tables b) tableName of
        None \<Rightarrow> None
      | Some tree \<Rightarrow> tr_Get tr tree (itemCompositeKey hashKey sortKey))"

definition removeWithIndexMutations ::
  "'t tree_ops \<Rightarrow> 't memItemBackend \<Rightarrow> string \<Rightarrow> string \<Rightarrow> string \<Rightarrow> indexMutation list \<Rightarrow> 't memItemBackend"
where
  "removeWithIndexMutations tr b tableName hashKey sortKey mutations =
     (let b' = (case map_of (mib_tables b) tableName of
                  None \<Rightarrow> b
                | Some tree \<Rightarrow>
                    b\<lparr>mib_tables := AList.update tableName (tr_Delete tr tree (itemCompositeKey hashKey sortKey)) (mib_tables b)\<rparr>)
      in applyIndexMutationsLocked tr b' tableName mutations)"

definition backend_remove :: "'t tree_ops \<Rightarrow> 't memItemBackend \<Rightarrow> string \<Rightarrow> string \<Rightarrow> string \<Rightarrow> 't memItemBackend" where
  "backend_remove tr b tableName hashKey sortKey = removeWithIndexMutations tr b tableName hashKey sortKey []"

definition rows_of :: "'t tree_ops \<Rightarrow> 't option \<Rightarrow> Item list" where
  "rows_of tr tree = (case tree of None \<Rightarrow> [] | Some t \<Rightarrow> map snd (tr_Scan tr t))"

definition by_hash :: "'t tree_ops \<Rightarrow> 't option \<Rightarrow> string \<Rightarrow> Item list" where
  "by_hash tr tree hashKey =
     (let p = hashKey @ [CHR 0x00] in
      case tree of
        None \<Rightarrow> []
      | Some t \<Rightarrow>
          iterate (\<lambda>(key, item) items. if \<not> HasPrefix key p then (items, False) else (items @ [item], True))
            (tr_Ascend tr t p) [])"

definition page_after :: "'t tree_ops \<Rightarrow> 't option \<Rightarrow> string option \<Rightarrow> int \<Rightarrow> Item list" where
  "page_after tr tree after limit =
     (case tree of
        None \<Rightarrow> []
      | Some t \<Rightarrow>
          (let afterKey = (case after of None \<Rightarrow> [] | Some k \<Rightarrow> k) in
           iterate (\<lambda>(key, item) items.
               if after \<noteq> None \<and> key \<le> afterKey then (items, True)
               else if 0 < limit \<and> limit \<le> int (length items) then (items, False)
               else (items @ [item], True))
             (tr_Ascend tr t afterKey) []))"

definition scanAll :: "'t tree_ops \<Rightarrow> 't memItemBackend \<Rightarrow> string \<Rightarrow> Item list" where
  "scanAll tr b tableName = rows_of tr (map_of (mib_tables b) tableName)"

definition scanIndexAll :: "'t tree_ops \<Rightarrow> 't memItemBackend \<Rightarrow> string \<Rightarrow> string \<Rightarrow> Item list" where
  "scanIndexAll tr b tableName indexName = rows_of tr (map_of (mib_indexes b) (tableName, indexName))"

definition queryByHash :: "'t tree_ops \<Rightarrow> 't memItemBackend \<Rightarrow> string \<Rightarrow> string \<Rightarrow> Item list" where
  "queryByHash tr b tableName hashKey = by_hash tr (map_of (mib_tables b) tableName) hashKey"

definition queryIndexByHash :: "'t tree_ops \<Rightarrow> 't memItemBackend \<Rightarrow> string \<Rightarrow> string \<Rightarrow> string \<Rightarrow> Item list" where
  "queryIndexByHash tr b tableName indexName indexHash =
     by_hash tr (map_of (mib_indexes b) (tableName, indexName)) indexHash"

text \<open>The cursor is \<open>None\<close> where the code passes \<open>hasAfter = false\<close>.\<close>

definition scanPage :: "'t tree_ops \<Rightarrow> 't memItemBackend \<Rightarrow> string \<Rightarrow> (string \<times> string) option \<Rightarrow> int \<Rightarrow> Item list" where
  "scanPage tr b tableName after limit =
     page_after tr (map_of (mib_tables b) tableName) (map_option (\<lambda>(h, s). itemCompositeKey h s) after) limit"

definition backend_scanIndexPage ::
  "'t tree_ops \<Rightarrow> 't memItemBackend \<Rightarrow> string \<Rightarrow> string \<Rightarrow> (string \<times> string \<times> string \<times> string) option \<Rightarrow> int \<Rightarrow> Item list"
where
  "backend_scanIndexPage tr b tableName indexName after limit =
     page_after tr (map_of (mib_indexes b) (tableName, indexName))
       (map_option (\<lambda>(ih, is, bh, bs). indexCompositeKey ih is bh bs) after) limit"

definition len_of :: "'t tree_ops \<Rightarrow> 't option \<Rightarrow> int" where
  "len_of tr tree = (case tree of None \<Rightarrow> 0 | Some t \<Rightarrow> tr_Len tr t)"

definition item_count :: "'t tree_ops \<Rightarrow> 't memItemBackend \<Rightarrow> string \<Rightarrow> int" where
  "item_count tr b tableName = len_of tr (map_of (mib_tables b) tableName)"

definition countIndexEntries :: "'t tree_ops \<Rightarrow> 't memItemBackend \<Rightarrow> string \<Rightarrow> string \<Rightarrow> int" where
  "countIndexEntries tr b tableName indexName = len_of tr (map_of (mib_indexes b) (tableName, indexName))"

definition deleteAll :: "'t memItemBackend \<Rightarrow> string \<Rightarrow> 't memItemBackend" where
  "deleteAll b tableName = b\<lparr>mib_tables := AList.delete tableName (mib_tables b)\<rparr>"

definition deleteAllIndexEntriesForTable :: "'t memItemBackend \<Rightarrow> string \<Rightarrow> 't memItemBackend" where
  "deleteAllIndexEntriesForTable b tableName =
     b\<lparr>mib_indexes := filter (\<lambda>((t, _), _). t \<noteq> tableName) (mib_indexes b)\<rparr>"

definition deleteAllIndexEntriesForIndex :: "'t memItemBackend \<Rightarrow> string \<Rightarrow> string \<Rightarrow> 't memItemBackend" where
  "deleteAllIndexEntriesForIndex b tableName indexName =
     b\<lparr>mib_indexes := AList.delete (tableName, indexName) (mib_indexes b)\<rparr>"

definition debugScan :: "'t tree_ops \<Rightarrow> 't memItemBackend \<Rightarrow> (string \<times> string \<times> string \<times> Item) list" where
  "debugScan tr b =
     concat (map (\<lambda>(tableName, tree).
        map (\<lambda>(key, item). case splitItemCompositeKey key of (h, s) \<Rightarrow> (tableName, h, s, item)) (tr_Scan tr tree))
       (mib_tables b))"

definition debugDeleteAll :: "'t memItemBackend \<Rightarrow> 't memItemBackend" where
  "debugDeleteAll b = b\<lparr>mib_tables := [], mib_indexes := []\<rparr>"

section \<open>Expiry\<close>

text \<open>
  \<open>parse_float\<close> stands for \<^verbatim>\<open>strconv.ParseFloat\<close> followed by \<^verbatim>\<open>math.Trunc\<close> and the conversion
  to an integer: the number of seconds a numeral denotes, or none if it is not a number.
\<close>

definition parseTTLValue :: "(string \<Rightarrow> int option) \<Rightarrow> attrValue \<Rightarrow> int option" where
  "parseTTLValue parse_float av =
     (case map_of av ''N'' of Some (AStr s) \<Rightarrow> parse_float s | _ \<Rightarrow> None)"

definition expired :: "(string \<Rightarrow> int option) \<Rightarrow> string \<Rightarrow> int \<Rightarrow> Item \<Rightarrow> bool" where
  "expired parse_float ttlAttr cutoffUnix item =
     (case map_of item ttlAttr of
        None \<Rightarrow> False
      | Some av \<Rightarrow>
          (case parseTTLValue parse_float av of
             None \<Rightarrow> False
           | Some ts \<Rightarrow> \<not> (ts = 0 \<or> cutoffUnix < ts)))"

definition scanExpiredTTL ::
  "'t tree_ops \<Rightarrow> (string \<Rightarrow> int option) \<Rightarrow> 't memItemBackend \<Rightarrow> string \<Rightarrow> string \<Rightarrow> int \<Rightarrow> Item list"
where
  "scanExpiredTTL tr parse_float b tableName ttlAttr cutoffUnix =
     filter (expired parse_float ttlAttr cutoffUnix) (scanAll tr b tableName)"

section \<open>Composite keys\<close>

text \<open>
  As long as the parts before the last hold no NUL byte, a composite key is its tuple:
  equal keys have equal parts and the byte order is the lexicographic order of the parts.
\<close>

abbreviation nul_free :: "string \<Rightarrow> bool" where
  "nul_free s \<equiv> CHR 0x00 \<notin> set s"

lemma nul_least: "CHR 0x00 \<le> c" "c \<noteq> CHR 0x00 \<Longrightarrow> CHR 0x00 < c" "\<not> c < CHR 0x00"
proof -
  have z: "(of_char CHR 0x00 :: nat) = 0" by simp
  show "CHR 0x00 < c" if "c \<noteq> CHR 0x00"
  proof -
    from that have "(of_char c :: nat) \<noteq> of_char CHR 0x00" by (simp only: of_char_nat_inject not_False_eq_True)
    then show ?thesis unfolding less_char_def z by simp
  qed
qed (simp_all add: less_eq_char_def less_char_def)

lemma nul_sep_eq:
  "nul_free h \<Longrightarrow> nul_free h' \<Longrightarrow> h @ CHR 0x00 # s = h' @ CHR 0x00 # s' \<longleftrightarrow> h = h' \<and> s = s'"
proof (induction h arbitrary: h')
  case Nil
  then show ?case by (cases h') auto
next
  case (Cons c h)
  then show ?case by (cases h') auto
qed

lemma nul_sep_less:
  "nul_free h \<Longrightarrow> nul_free h' \<Longrightarrow>
     h @ CHR 0x00 # s < h' @ CHR 0x00 # s' \<longleftrightarrow> h < h' \<or> h = h' \<and> s < s'"
proof (induction h arbitrary: h')
  case Nil
  then show ?case by (cases h') (auto simp: nul_least)
next
  case (Cons c h)
  then show ?case by (cases h') (auto simp: nul_least)
qed

lemma nul_sep_prefix:
  assumes "nul_free h" "nul_free h'"
  shows "HasPrefix (h' @ CHR 0x00 # s) (h @ [CHR 0x00]) \<longleftrightarrow> h' = h"
proof
  assume "HasPrefix (h' @ CHR 0x00 # s) (h @ [CHR 0x00])"
  then obtain r where "h' @ CHR 0x00 # s = h @ CHR 0x00 # r" by (auto simp: HasPrefix_iff_prefix prefix_def)
  then show "h' = h" using nul_sep_eq assms by blast
qed (simp add: HasPrefix_iff_prefix prefix_def)

lemma itemCompositeKey_eq:
  "nul_free h \<Longrightarrow> nul_free h' \<Longrightarrow> itemCompositeKey h s = itemCompositeKey h' s' \<longleftrightarrow> h = h' \<and> s = s'"
  by (simp add: itemCompositeKey_def nul_sep_eq)

lemma indexCompositeKey_eq:
  assumes "nul_free ih" "nul_free is" "nul_free bh" "nul_free ih'" "nul_free is'" "nul_free bh'"
  shows "indexCompositeKey ih is bh bs = indexCompositeKey ih' is' bh' bs' \<longleftrightarrow>
    ih = ih' \<and> is = is' \<and> bh = bh' \<and> bs = bs'"
  using assms by (simp add: indexCompositeKey_def nul_sep_eq)

section \<open>The backend over every lawful tree\<close>

definition view_of :: "'t tree_ops \<Rightarrow> 't option \<Rightarrow> string \<Rightarrow> Item option" where
  "view_of tr tree = (case tree of None \<Rightarrow> Map.empty | Some t \<Rightarrow> tr_Get tr t)"

definition table_view :: "'t tree_ops \<Rightarrow> 't memItemBackend \<Rightarrow> string \<Rightarrow> string \<Rightarrow> Item option" where
  "table_view tr b tk = view_of tr (map_of (mib_tables b) tk)"

definition index_view :: "'t tree_ops \<Rightarrow> 't memItemBackend \<Rightarrow> string \<Rightarrow> string \<Rightarrow> string \<Rightarrow> Item option" where
  "index_view tr b tk name = view_of tr (map_of (mib_indexes b) (tk, name))"

text \<open>What a mutation does to the indexes of its table.\<close>

fun mutate :: "indexMutation \<Rightarrow> (string \<Rightarrow> string \<Rightarrow> Item option) \<Rightarrow> string \<Rightarrow> string \<Rightarrow> Item option" where
  "mutate (indexMutationUpsert name ih is bh bs item) v = v(name := (v name)(indexCompositeKey ih is bh bs \<mapsto> item))"
| "mutate (indexMutationDelete name ih is bh bs) v = v(name := (v name)(indexCompositeKey ih is bh bs := None))"

lemma iterate_takeWhile:
  "iterate (\<lambda>(key, item) items. if \<not> P key then (items, False) else (items @ [item], True)) xs acc
   = acc @ map snd (takeWhile (\<lambda>(k, _). P k) xs)"
  by (induction xs arbitrary: acc) auto

lemma iterate_page:
  assumes "0 < limit \<Longrightarrow> int (length acc) \<le> limit"
  shows "iterate (\<lambda>(key, item) items.
      if skip key then (items, True)
      else if 0 < limit \<and> limit \<le> int (length items) then (items, False) else (items @ [item], True)) xs acc
    = (let ys = acc @ map snd (filter (\<lambda>(k, _). \<not> skip k) xs) in if 0 < limit then take (nat limit) ys else ys)"
  using assms
proof (induction xs arbitrary: acc)
  case (Cons x xs)
  obtain k v where x: "x = (k, v)" by (cases x)
  show ?case
    using Cons.prems Cons.IH [of acc] Cons.IH [of "acc @ [v]"] by (auto simp: x Let_def)
qed (auto simp: Let_def)

lemma apply_mutation_tables [simp]: "mib_tables (apply_mutation tr tk m b) = mib_tables b"
  by (cases m) (simp_all add: apply_mutation_def Let_def split: option.split)

lemma table_view_mutations [simp]: "table_view tr (applyIndexMutationsLocked tr b tk ms) = table_view tr b"
proof -
  have "mib_tables (fold (apply_mutation tr tk) ms b) = mib_tables b" by (induction ms arbitrary: b) simp_all
  then show ?thesis by (simp add: table_view_def applyIndexMutationsLocked_def fun_eq_iff)
qed

lemma view_simps [simp]:
  "table_view tr (b\<lparr>mib_indexes := i\<rparr>) = table_view tr b"
  "index_view tr (b\<lparr>mib_tables := t\<rparr>) = index_view tr b"
  by (simp_all add: table_view_def index_view_def fun_eq_iff)

context item_tree
begin

lemma view_set: "view_of tr (Some (tr_Set tr (tree_or_new tr t) k v)) = (view_of tr t)(k \<mapsto> v)"
  by (cases t) (auto simp: view_of_def tree_or_new_def get_set get_empty fun_eq_iff)

lemma index_view_mutation:
  "index_view tr (apply_mutation tr tk m b) tk' = (if tk' = tk then mutate m (index_view tr b tk) else index_view tr b tk')"
proof (cases m)
  case (indexMutationUpsert name ih isort bh bs item)
  then show ?thesis
    by (auto simp: apply_mutation_def Let_def index_view_def update_conv' view_set fun_eq_iff)
next
  case (indexMutationDelete name ih isort bh bs)
  then show ?thesis
    by (auto simp: apply_mutation_def Let_def index_view_def update_conv' view_of_def get_delete fun_eq_iff
        split: option.split)
qed

lemma index_view_mutations [simp]:
  "index_view tr (applyIndexMutationsLocked tr b tk ms) tk' =
     (if tk' = tk then fold mutate ms (index_view tr b tk) else index_view tr b tk')"
  unfolding applyIndexMutationsLocked_def
  by (induction ms arbitrary: b) (auto simp: index_view_mutation)

lemma put_views [simp]:
  "table_view tr (putWithIndexMutations tr b tk h s item ms) =
     (table_view tr b)(tk := (table_view tr b tk)(itemCompositeKey h s \<mapsto> item))"
  "index_view tr (putWithIndexMutations tr b tk h s item ms) =
     (index_view tr b)(tk := fold mutate ms (index_view tr b tk))"
  by (auto simp: putWithIndexMutations_def Let_def fun_eq_iff)
    (auto simp: table_view_def update_conv' view_set)

lemma remove_views [simp]:
  "table_view tr (removeWithIndexMutations tr b tk h s ms) =
     (table_view tr b)(tk := (table_view tr b tk)(itemCompositeKey h s := None))"
  "index_view tr (removeWithIndexMutations tr b tk h s ms) =
     (index_view tr b)(tk := fold mutate ms (index_view tr b tk))"
proof -
  define b' where "b' = (case map_of (mib_tables b) tk of None \<Rightarrow> b
    | Some tree \<Rightarrow> b\<lparr>mib_tables := AList.update tk (tr_Delete tr tree (itemCompositeKey h s)) (mib_tables b)\<rparr>)"
  have r: "removeWithIndexMutations tr b tk h s ms = applyIndexMutationsLocked tr b' tk ms"
    by (simp add: removeWithIndexMutations_def b'_def)
  have "index_view tr b' = index_view tr b" by (simp add: b'_def split: option.split)
  then show "index_view tr (removeWithIndexMutations tr b tk h s ms) =
     (index_view tr b)(tk := fold mutate ms (index_view tr b tk))" unfolding r by (simp add: fun_eq_iff [of "index_view tr (applyIndexMutationsLocked tr b' tk ms)"])
  show "table_view tr (removeWithIndexMutations tr b tk h s ms) =
     (table_view tr b)(tk := (table_view tr b tk)(itemCompositeKey h s := None))"
    unfolding r by (auto simp: b'_def table_view_def update_conv' view_of_def get_delete fun_eq_iff split: option.split)
qed

lemma backend_get_view [simp]: "backend_get tr b tk h s = table_view tr b tk (itemCompositeKey h s)"
  by (simp add: backend_get_def table_view_def view_of_def split: option.split)

lemma delete_views [simp]:
  "table_view tr (deleteAll b tk) = (table_view tr b)(tk := Map.empty)"
  "index_view tr (deleteAll b tk) = index_view tr b"
  "table_view tr (deleteAllIndexEntriesForTable b tk) = table_view tr b"
  "index_view tr (deleteAllIndexEntriesForTable b tk) = (index_view tr b)(tk := \<lambda>_. Map.empty)"
  "table_view tr (deleteAllIndexEntriesForIndex b tk name) = table_view tr b"
  "index_view tr (deleteAllIndexEntriesForIndex b tk name) = (index_view tr b)(tk := (index_view tr b tk)(name := Map.empty))"
proof -
  have f: "map_of (filter (\<lambda>((t, _), _). t \<noteq> tk) xs) (tk', n) = (if tk' = tk then None else map_of xs (tk', n))" for xs tk' n
    by (induction xs) auto
  show "table_view tr (deleteAll b tk) = (table_view tr b)(tk := Map.empty)"
    "index_view tr (deleteAll b tk) = index_view tr b"
    "table_view tr (deleteAllIndexEntriesForTable b tk) = table_view tr b"
    "index_view tr (deleteAllIndexEntriesForTable b tk) = (index_view tr b)(tk := \<lambda>_. Map.empty)"
    "table_view tr (deleteAllIndexEntriesForIndex b tk name) = table_view tr b"
    "index_view tr (deleteAllIndexEntriesForIndex b tk name) = (index_view tr b)(tk := (index_view tr b tk)(name := Map.empty))"
    by (auto simp: deleteAll_def deleteAllIndexEntriesForTable_def deleteAllIndexEntriesForIndex_def table_view_def
        index_view_def delete_conv' view_of_def f fun_eq_iff)
qed

text \<open>The rows of a tree in key order.\<close>

definition rows :: "'t option \<Rightarrow> row list" where
  "rows tree = (case tree of None \<Rightarrow> [] | Some t \<Rightarrow> tr_Scan tr t)"

lemma rows_set: "set (rows tree) = {(k, v). view_of tr tree k = Some v}"
  by (cases tree) (simp_all add: rows_def view_of_def scan_set)

lemma rows_sorted: "sorted_wrt (<) (map fst (rows tree))"
  by (cases tree) (simp_all add: rows_def scan_sorted)

lemma rows_of_rows: "rows_of tr tree = map snd (rows tree)"
  by (cases tree) (simp_all add: rows_of_def rows_def)

lemma by_hash_rows:
  "by_hash tr tree h = map snd (filter (\<lambda>(k, _). HasPrefix k (h @ [CHR 0x00])) (rows tree))"
proof (cases tree)
  case (Some t)
  let ?p = "h @ [CHR 0x00]"
  let ?xs = "filter (\<lambda>(k, _). ?p \<le> k) (tr_Scan tr t)"
  have "sorted_wrt (\<lambda>a b. fst a < fst b) ?xs"
    using scan_sorted [of t] by (simp add: sorted_wrt_map sorted_wrt_filter)
  then have "sorted_wrt (\<lambda>a b. ?p \<le> fst a \<and> fst a < fst b) ?xs"
    by (rule sorted_wrt_mono_rel [rotated]) auto
  then have "takeWhile (\<lambda>(k, _). HasPrefix k ?p) ?xs = filter (\<lambda>(k, _). HasPrefix k ?p) ?xs"
    by (rule takeWhile_sorted_eq_filter) (auto simp: HasPrefix_iff_prefix dest: not_prefix_less_mono less_imp_le)
  moreover have "filter (\<lambda>(k, _). HasPrefix k ?p) ?xs = filter (\<lambda>(k, _). HasPrefix k ?p) (tr_Scan tr t)"
    by (auto simp: case_prod_unfold HasPrefix_iff_prefix prefix_le_string intro: filter_cong)
  ultimately show ?thesis
    using Some iterate_takeWhile [of "\<lambda>k. HasPrefix k ?p" "tr_Ascend tr t ?p" "[]"]
    by (simp add: by_hash_def Let_def rows_def ascend_eq)
qed (simp add: by_hash_def rows_def)

lemma page_after_rows:
  "page_after tr tree after limit =
     (let ys = map snd (filter (\<lambda>(k, _). case after of None \<Rightarrow> True | Some a \<Rightarrow> a < k) (rows tree)) in
      if 0 < limit then take (nat limit) ys else ys)"
proof (cases tree)
  case (Some t)
  define a where "a = (case after of None \<Rightarrow> [] | Some k \<Rightarrow> k)"
  have "filter (\<lambda>(k, _). \<not> (after \<noteq> None \<and> k \<le> a)) (tr_Ascend tr t a)
      = filter (\<lambda>(k, _). case after of None \<Rightarrow> True | Some a \<Rightarrow> a < k) (tr_Scan tr t)"
    unfolding ascend_eq a_def by (auto simp: case_prod_unfold intro: filter_cong split: option.split)
  then show ?thesis
    using Some iterate_page [of limit "[]" "\<lambda>k. after \<noteq> None \<and> k \<le> a" "tr_Ascend tr t a"]
    by (simp add: page_after_def Let_def rows_def a_def [symmetric])
qed (simp add: page_after_def rows_def)

end

section \<open>An executable tree\<close>

definition alist_rows :: "row list \<Rightarrow> row list" where
  "alist_rows t = map (\<lambda>k. (k, the (map_of t k))) (sort (remdups (map fst t)))"

definition alist_tree :: "row list tree_ops" where
  "alist_tree = \<lparr>tr_empty = [], tr_Get = map_of, tr_Set = (\<lambda>t k v. (k, v) # t),
     tr_Delete = (\<lambda>t k. filter (\<lambda>(k', _). k' \<noteq> k) t),
     tr_Ascend = (\<lambda>t p. filter (\<lambda>(k, _). p \<le> k) (alist_rows t)),
     tr_Scan = alist_rows, tr_Len = (\<lambda>t. int (length (alist_rows t)))\<rparr>"

lemma alist_delete_get: "map_of (filter (\<lambda>(k', _). k' \<noteq> k) (t :: row list)) = (map_of t)(k := None)"
  by (induction t) (auto simp: fun_eq_iff)

lemma alist_rows_sorted: "sorted_wrt (<) (map fst (alist_rows t))"
  by (simp add: alist_rows_def o_def strict_sorted_iff)

lemma alist_rows_set: "set (alist_rows t) = {(k, v). map_of t k = Some v}"
proof (intro set_eqI iffI)
  fix kv
  assume "kv \<in> set (alist_rows t)"
  then obtain k where k: "k \<in> fst ` set t" "kv = (k, the (map_of t k))" by (auto simp: alist_rows_def)
  then have "map_of t k \<noteq> None" by (metis map_of_eq_None_iff)
  with k show "kv \<in> {(k, v). map_of t k = Some v}" by auto
next
  fix kv
  assume "kv \<in> {(k, v). map_of t k = Some v}"
  then obtain k v where kv: "kv = (k, v)" "map_of t k = Some v" by blast
  then have "k \<in> fst ` set t" by (metis map_of_eq_None_iff option.distinct(1))
  with kv show "kv \<in> set (alist_rows t)" by (auto simp: alist_rows_def image_iff intro!: bexI [of _ k])
qed

interpretation alist_items: item_tree alist_tree
  by unfold_locales (auto simp: alist_tree_def alist_delete_get alist_rows_sorted alist_rows_set)

end
