(* ===== verification/Ddb_Index.thy ===== *)
theory Ddb_Index
  imports Ddb_Items
begin

text \<open>
  The item operations of \<^verbatim>\<open>dynamoStore\<close> (\<^verbatim>\<open>store.go\<close>) on the in-process backend, the backfill
  of a new index (\<^verbatim>\<open>handler.go\<close>) and the expiry sweep (\<^verbatim>\<open>handler_ttl.go\<close>), with the contract
  between a table and its global secondary indexes: \<open>consistent\<close> says that every index
  holds exactly one row per item that has the key attributes of the index, under the
  composite key of the item and with the projection of the item.  Every write that passes
  the item it replaces keeps it.
\<close>

section \<open>The store\<close>

definition tableKey :: "string \<Rightarrow> string \<Rightarrow> string" where
  "tableKey region tableName = (if region = [] then tableName else region @ ''/'' @ tableName)"

definition putItem ::
  "'t tree_ops \<Rightarrow> string \<Rightarrow> Table \<Rightarrow> Item \<Rightarrow> 't memItemBackend \<Rightarrow> ddb_error option \<times> 't memItemBackend"
where
  "putItem tr region t item b =
     (case resolveStorageKeys t item of
        Inl e \<Rightarrow> (Some e, b)
      | Inr (h, s) \<Rightarrow> (None, backend_put tr b (tableKey region (t_TableName t)) h s item))"

definition putItemWithIndexMaintenance ::
  "'t tree_ops \<Rightarrow> string \<Rightarrow> Table \<Rightarrow> Item \<Rightarrow> Item option \<Rightarrow> 't memItemBackend
    \<Rightarrow> ddb_error option \<times> 't memItemBackend"
where
  "putItemWithIndexMaintenance tr region t item oldItem b =
     (case resolveStorageKeys t item of
        Inl e \<Rightarrow> (Some e, b)
      | Inr (h, s) \<Rightarrow>
          (None, putWithIndexMutations tr b (tableKey region (t_TableName t)) h s item
                   (diffIndexMutations t oldItem (Some item))))"

definition getItem ::
  "'t tree_ops \<Rightarrow> string \<Rightarrow> Table \<Rightarrow> Item \<Rightarrow> 't memItemBackend \<Rightarrow> ddb_error + Item option"
where
  "getItem tr region t key b =
     (case resolveStorageKeys t key of
        Inl e \<Rightarrow> Inl e
      | Inr (h, s) \<Rightarrow> Inr (backend_get tr b (tableKey region (t_TableName t)) h s))"

definition deleteItem ::
  "'t tree_ops \<Rightarrow> string \<Rightarrow> Table \<Rightarrow> Item \<Rightarrow> 't memItemBackend \<Rightarrow> ddb_error option \<times> 't memItemBackend"
where
  "deleteItem tr region t key b =
     (case resolveStorageKeys t key of
        Inl e \<Rightarrow> (Some e, b)
      | Inr (h, s) \<Rightarrow> (None, backend_remove tr b (tableKey region (t_TableName t)) h s))"

definition deleteItemWithIndexMaintenance ::
  "'t tree_ops \<Rightarrow> string \<Rightarrow> Table \<Rightarrow> Item \<Rightarrow> Item option \<Rightarrow> 't memItemBackend
    \<Rightarrow> ddb_error option \<times> 't memItemBackend"
where
  "deleteItemWithIndexMaintenance tr region t key oldItem b =
     (case resolveStorageKeys t key of
        Inl e \<Rightarrow> (Some e, b)
      | Inr (h, s) \<Rightarrow>
          (None, removeWithIndexMutations tr b (tableKey region (t_TableName t)) h s
                   (diffIndexMutations t oldItem None)))"

definition scanItems :: "'t tree_ops \<Rightarrow> string \<Rightarrow> string \<Rightarrow> 't memItemBackend \<Rightarrow> Item list" where
  "scanItems tr region tableName b = scanAll tr b (tableKey region tableName)"

definition countItems :: "'t tree_ops \<Rightarrow> string \<Rightarrow> string \<Rightarrow> 't memItemBackend \<Rightarrow> int" where
  "countItems tr region tableName b = item_count tr b (tableKey region tableName)"

definition scanItemsByHashKey :: "'t tree_ops \<Rightarrow> string \<Rightarrow> Table \<Rightarrow> string \<Rightarrow> 't memItemBackend \<Rightarrow> Item list" where
  "scanItemsByHashKey tr region t hashVal b =
     queryByHash tr b (tableKey region (t_TableName t)) (encodeStorageKeyComponent (keyAttrType t (hashKeyName t)) hashVal)"

definition scanIndexByHash ::
  "'t tree_ops \<Rightarrow> string \<Rightarrow> Table \<Rightarrow> SecondaryIndex \<Rightarrow> string \<Rightarrow> 't memItemBackend \<Rightarrow> Item list"
where
  "scanIndexByHash tr region t idx hashVal b =
     queryIndexByHash tr b (tableKey region (t_TableName t)) (si_IndexName idx)
       (encodeStorageKeyComponent (keyAttrType t (indexHashKeyName idx)) hashVal)"

definition applyIndexMutations ::
  "'t tree_ops \<Rightarrow> string \<Rightarrow> string \<Rightarrow> indexMutation list \<Rightarrow> 't memItemBackend \<Rightarrow> 't memItemBackend"
where
  "applyIndexMutations tr region tableName mutations b =
     applyIndexMutationsLocked tr b (tableKey region tableName) mutations"

definition deleteIndexEntriesForIndex ::
  "string \<Rightarrow> string \<Rightarrow> string \<Rightarrow> 't memItemBackend \<Rightarrow> 't memItemBackend"
where
  "deleteIndexEntriesForIndex region tableName indexName b =
     deleteAllIndexEntriesForIndex b (tableKey region tableName) indexName"

text \<open>The item part of \<^verbatim>\<open>deleteTable\<close>.\<close>

definition deleteTableItems :: "string \<Rightarrow> string \<Rightarrow> 't memItemBackend \<Rightarrow> 't memItemBackend" where
  "deleteTableItems region name b =
     deleteAllIndexEntriesForTable (deleteAll b (tableKey region name)) (tableKey region name)"

definition backfill_row :: "Table \<Rightarrow> SecondaryIndex \<Rightarrow> Item \<Rightarrow> indexMutation list" where
  "backfill_row t idx item =
     (case indexKeyComponents t idx (Some item) of
        None \<Rightarrow> []
      | Some (indexHash, indexSort) \<Rightarrow>
          (case resolveStorageKeys t item of
             Inl _ \<Rightarrow> []
           | Inr (baseHash, baseSort) \<Rightarrow>
               [indexMutationUpsert (si_IndexName idx) indexHash indexSort baseHash baseSort
                  (projectForIndex t idx (Some item))]))"

definition backfillIndex ::
  "'t tree_ops \<Rightarrow> string \<Rightarrow> Table \<Rightarrow> SecondaryIndex \<Rightarrow> 't memItemBackend \<Rightarrow> 't memItemBackend"
where
  "backfillIndex tr region t idx b =
     (let mutations = concat (map (backfill_row t idx) (scanItems tr region (t_TableName t) b)) in
      if mutations = [] then b else applyIndexMutations tr region (t_TableName t) mutations b)"

text \<open>The expiry sweep of one table; a failed delete is logged and skipped.\<close>

definition sweepTable ::
  "'t tree_ops \<Rightarrow> (string \<Rightarrow> int option) \<Rightarrow> string \<Rightarrow> Table \<Rightarrow> int \<Rightarrow> 't memItemBackend \<Rightarrow> 't memItemBackend"
where
  "sweepTable tr parse_float region t nowUnix b =
     fold (\<lambda>item b. snd (deleteItem tr region t item b))
       (scanExpiredTTL tr parse_float b (tableKey region (t_TableName t)) (t_TTLAttribute t) nowUnix) b"

section \<open>The contract between a table and its indexes\<close>

text \<open>The key of an item in its table, and of its row in an index.\<close>

definition item_key :: "Table \<Rightarrow> Item \<Rightarrow> string option" where
  "item_key t item = (case resolveStorageKeys t item of Inl _ \<Rightarrow> None | Inr (h, s) \<Rightarrow> Some (itemCompositeKey h s))"

definition row_key :: "Table \<Rightarrow> SecondaryIndex \<Rightarrow> Item \<Rightarrow> string option" where
  "row_key t idx item =
     (case (indexKeyComponents t idx (Some item), resolveStorageKeys t item) of
        (Some (ih, is), Inr (bh, bs)) \<Rightarrow> Some (indexCompositeKey ih is bh bs)
      | _ \<Rightarrow> None)"

text \<open>
  The separator of the composite keys is a NUL byte, so the contract is about items whose
  key attributes hold none.
\<close>

definition storable :: "Table \<Rightarrow> Item \<Rightarrow> bool" where
  "storable t item \<longleftrightarrow>
     (case resolveStorageKeys t item of
        Inl _ \<Rightarrow> False
      | Inr (h, s) \<Rightarrow> nul_free h
          \<and> list_all (\<lambda>idx. case indexKeyComponents t idx (Some item) of
               None \<Rightarrow> True | Some (ih, is) \<Rightarrow> nul_free ih \<and> nul_free is) (t_GlobalSecondaryIndexes t))"

definition well_stored :: "Table \<Rightarrow> (string \<Rightarrow> Item option) \<Rightarrow> bool" where
  "well_stored t m \<longleftrightarrow> (\<forall>key item. m key = Some item \<longrightarrow> storable t item \<and> item_key t item = Some key)"

definition indexed :: "Table \<Rightarrow> SecondaryIndex \<Rightarrow> (string \<Rightarrow> Item option) \<Rightarrow> (string \<Rightarrow> Item option) \<Rightarrow> bool" where
  "indexed t idx m v \<longleftrightarrow>
     (\<forall>ik r. v ik = Some r \<longleftrightarrow>
        (\<exists>key item. m key = Some item \<and> row_key t idx item = Some ik \<and> r = projectForIndex t idx (Some item)))"

definition wf_indexes :: "Table \<Rightarrow> bool" where
  "wf_indexes t \<longleftrightarrow> distinct (map si_IndexName (t_GlobalSecondaryIndexes t))"

definition consistent :: "'t tree_ops \<Rightarrow> string \<Rightarrow> Table \<Rightarrow> 't memItemBackend \<Rightarrow> bool" where
  "consistent tr region t b \<longleftrightarrow>
     (let tk = tableKey region (t_TableName t); m = table_view tr b tk in
      well_stored t m
      \<and> (\<forall>name. case find_named name (t_GlobalSecondaryIndexes t) of
            None \<Rightarrow> index_view tr b tk name = Map.empty
          | Some idx \<Rightarrow> indexed t idx m (index_view tr b tk name)))"

lemma consistentI:
  assumes "tk = tableKey region (t_TableName t)" "m = table_view tr b tk" "well_stored t m"
    and "\<And>name. case find_named name (t_GlobalSecondaryIndexes t) of
        None \<Rightarrow> index_view tr b tk name = Map.empty | Some idx \<Rightarrow> indexed t idx m (index_view tr b tk name)"
  shows "consistent tr region t b"
  using assms(3,4) unfolding consistent_def Let_def assms(1,2) by blast

lemma find_named_Some: "find_named name is = Some i \<Longrightarrow> i \<in> set is \<and> si_IndexName i = name"
  by (induction "is") (auto split: if_split_asm)

lemma find_named_None: "find_named name is = None \<longleftrightarrow> name \<notin> si_IndexName ` set is"
  by (induction "is") auto

section \<open>What the mutations of a write do\<close>

definition drop_row :: "Table \<Rightarrow> SecondaryIndex \<Rightarrow> Item option \<Rightarrow> (string \<Rightarrow> Item option) \<Rightarrow> string \<Rightarrow> Item option" where
  "drop_row t idx old v = (case old of None \<Rightarrow> v | Some i \<Rightarrow>
     (case row_key t idx i of None \<Rightarrow> v | Some k \<Rightarrow> v(k := None)))"

definition add_row :: "Table \<Rightarrow> SecondaryIndex \<Rightarrow> Item option \<Rightarrow> (string \<Rightarrow> Item option) \<Rightarrow> string \<Rightarrow> Item option" where
  "add_row t idx new v = (case new of None \<Rightarrow> v | Some i \<Rightarrow>
     (case row_key t idx i of None \<Rightarrow> v | Some k \<Rightarrow> v(k \<mapsto> projectForIndex t idx (Some i))))"

lemma mutate_other: "name \<noteq> si_IndexName idx \<Longrightarrow> fold mutate (diff_one t old new bh bs idx) v name = v name"
  by (auto simp: diff_one_def split: option.split prod.split)

lemma mutate_diff_one:
  assumes "\<And>i. old = Some i \<Longrightarrow> resolveStorageKeys t i = Inr (bh, bs)"
    and "\<And>i. new = Some i \<Longrightarrow> resolveStorageKeys t i = Inr (bh, bs)"
  shows "fold mutate (diff_one t old new bh bs idx) v (si_IndexName idx)
    = add_row t idx new (drop_row t idx old (v (si_IndexName idx)))"
proof -
  have rk: "row_key t idx i = map_option (\<lambda>(ih, is). indexCompositeKey ih is bh bs) (indexKeyComponents t idx (Some i))"
    if "resolveStorageKeys t i = Inr (bh, bs)" for i
    using that by (simp add: row_key_def split: option.split)
  have none: "indexKeyComponents t idx None = None" by (simp add: indexKeyComponents_def)
  have d: "drop_row t idx old w = (case indexKeyComponents t idx old of None \<Rightarrow> w
      | Some (oh, os) \<Rightarrow> w(indexCompositeKey oh os bh bs := None))" for w
    using assms(1) none by (cases old) (auto simp: drop_row_def rk split: option.split)
  have a: "add_row t idx new w = (case indexKeyComponents t idx new of None \<Rightarrow> w
      | Some (nh, ns) \<Rightarrow> w(indexCompositeKey nh ns bh bs \<mapsto> projectForIndex t idx new))" for w
    using assms(2) none by (cases new) (auto simp: add_row_def rk split: option.split)
  show ?thesis
    unfolding d a diff_one_def
    by (cases "indexKeyComponents t idx old"; cases "indexKeyComponents t idx new") auto
qed

lemma mutate_local: "v name = w name \<Longrightarrow> fold mutate ms v name = fold mutate ms w name"
proof (induction ms arbitrary: v w)
  case (Cons m ms)
  have "mutate m v name = mutate m w name" using Cons.prems by (cases m) auto
  then show ?case unfolding fold_simps by (rule Cons.IH)
qed simp

lemma mutate_all:
  assumes "distinct (map si_IndexName idxs)"
  shows "fold mutate (concat (map (diff_one t old new bh bs) idxs)) v name =
    (case find_named name idxs of None \<Rightarrow> v name | Some idx \<Rightarrow> fold mutate (diff_one t old new bh bs idx) v name)"
  using assms
proof (induction idxs arbitrary: v)
  case (Cons i "is")
  let ?d = "diff_one t old new bh bs"
  show ?case
  proof (cases "si_IndexName i = name")
    case True
    then have n: "find_named name is = None" using Cons.prems by (auto simp: find_named_None)
    show ?thesis using True n Cons.IH [of "fold mutate (?d i) v"] Cons.prems by simp
  next
    case False
    then have i: "fold mutate (?d i) v name = v name" by (intro mutate_other) simp
    have j: "fold mutate (?d j) (fold mutate (?d i) v) name = fold mutate (?d j) v name" for j
      using mutate_local [of "fold mutate (?d i) v" name v "?d j"] i by simp
    have u: "fold mutate (concat (map ?d (i # is))) v name = fold mutate (concat (map ?d is)) (fold mutate (?d i) v) name"
      by simp
    have d: "distinct (map si_IndexName is)" and f: "find_named name (i # is) = find_named name is"
      using Cons.prems False by simp_all
    show ?thesis unfolding u f Cons.IH [OF d] i j ..
  qed
qed simp

section \<open>Writes keep the contract\<close>

lemma well_storedD:
  "well_stored t m \<Longrightarrow> m key = Some item \<Longrightarrow> storable t item \<and> item_key t item = Some key"
  by (simp add: well_stored_def)

lemma storable_resolve:
  assumes "storable t item"
  obtains h s where "resolveStorageKeys t item = Inr (h, s)" "nul_free h" "item_key t item = Some (itemCompositeKey h s)"
  using assms by (auto simp: storable_def item_key_def split: sum.splits)

text \<open>Items with the same key resolve to the same pair, and rows with the same key are of one item.\<close>

lemma same_item_key:
  assumes "storable t i" "storable t j" "item_key t i = item_key t j"
  shows "resolveStorageKeys t i = resolveStorageKeys t j"
  using assms by (auto elim!: storable_resolve simp: itemCompositeKey_eq)

lemma row_key_item_key:
  assumes i: "storable t i" "row_key t idx i = Some ik" and j: "storable t j" "row_key t idx j = Some ik"
    and idx: "idx \<in> set (t_GlobalSecondaryIndexes t)"
  shows "item_key t i = item_key t j"
proof -
  have parts: "\<exists>ih is bh bs. ik = indexCompositeKey ih is bh bs \<and> nul_free ih \<and> nul_free is \<and> nul_free bh
      \<and> item_key t k = Some (itemCompositeKey bh bs)" if "storable t k" "row_key t idx k = Some ik" for k
    using that idx by (fastforce simp: storable_def row_key_def item_key_def list_all_iff split: sum.splits option.splits prod.splits)
  from parts [OF i] parts [OF j] show ?thesis by (auto simp: indexCompositeKey_eq)
qed

lemma indexed_update:
  assumes m: "well_stored t m" and idx: "idx \<in> set (t_GlobalSecondaryIndexes t)" and v: "indexed t idx m v"
    and new: "\<And>i. new = Some i \<Longrightarrow> storable t i \<and> item_key t i = Some key"
  shows "indexed t idx (m(key := new)) (add_row t idx new (drop_row t idx (m key) v))"
proof -
  let ?w = "add_row t idx new (drop_row t idx (m key) v)"
  have "?w ik = Some r \<longleftrightarrow>
      (\<exists>k i. (m(key := new)) k = Some i \<and> row_key t idx i = Some ik \<and> r = projectForIndex t idx (Some i))" for ik r
  proof -
    have own: "k = key" if "(m(key := new)) k = Some i" "row_key t idx i = Some ik"
        "storable t j" "row_key t idx j = Some ik" "item_key t j = Some key" for k i j
    proof (rule ccontr)
      assume "k \<noteq> key"
      with that(1) have "storable t i" "item_key t i = Some k" using well_storedD [OF m] by auto
      with row_key_item_key [OF this(1) that(2-4) idx] that(5) \<open>k \<noteq> key\<close> show False by simp
    qed
    consider (new) i where "new = Some i" "row_key t idx i = Some ik"
      | (old) j where "\<And>i. new = Some i \<Longrightarrow> row_key t idx i \<noteq> Some ik" "m key = Some j" "row_key t idx j = Some ik"
      | (none) "\<And>i. new = Some i \<Longrightarrow> row_key t idx i \<noteq> Some ik" "\<And>j. m key = Some j \<Longrightarrow> row_key t idx j \<noteq> Some ik"
      by (cases new; cases "m key") metis+
    then show ?thesis
    proof cases
      case new
      then have "?w ik = Some (projectForIndex t idx (Some i))" by (simp add: add_row_def)
      moreover have "k = key" if "(m(key := new)) k = Some i'" "row_key t idx i' = Some ik" for k i'
        using own [OF that] new assms(4) by blast
      ultimately show ?thesis using new by (metis fun_upd_same option.inject)
    next
      case old
      then have "?w ik = None" by (auto simp: add_row_def drop_row_def split: option.split)
      moreover have False if "(m(key := new)) k = Some i'" "row_key t idx i' = Some ik" for k i'
        using own [OF that _ old(3)] well_storedD [OF m old(2)] old(1) that by auto
      then have "\<not> (\<exists>k i. (m(key := new)) k = Some i \<and> row_key t idx i = Some ik \<and> r = projectForIndex t idx (Some i))"
        by blast
      ultimately show ?thesis by simp
    next
      case none
      then have "?w ik = v ik" by (auto simp: add_row_def drop_row_def split: option.split)
      then show ?thesis using v none unfolding indexed_def by (auto split: if_split_asm) metis
    qed
  qed
  then show ?thesis by (simp add: indexed_def)
qed

lemma diff_base:
  assumes m: "well_stored t m" and new: "\<And>i. new = Some i \<Longrightarrow> storable t i \<and> item_key t i = Some key"
    and some: "m key \<noteq> None \<or> new \<noteq> None"
  obtains bh bs where "\<And>i. m key = Some i \<Longrightarrow> resolveStorageKeys t i = Inr (bh, bs)"
    "\<And>i. new = Some i \<Longrightarrow> resolveStorageKeys t i = Inr (bh, bs)"
    "diffIndexMutations t (m key) new = concat (map (diff_one t (m key) new bh bs) (t_GlobalSecondaryIndexes t))"
proof -
  have ok: "storable t i \<and> item_key t i = Some key" if "m key = Some i \<or> new = Some i" for i
    using that new well_storedD [OF m] by blast
  obtain j where j: "(case new of None \<Rightarrow> m key | Some i \<Rightarrow> Some i) = Some j" "m key = Some j \<or> new = Some j"
    using some by (cases new) auto
  obtain bh bs where r: "resolveStorageKeys t j = Inr (bh, bs)"
    using ok [OF j(2)] by (auto elim: storable_resolve)
  have all: "resolveStorageKeys t i = Inr (bh, bs)" if "m key = Some i \<or> new = Some i" for i
    using same_item_key [of t i j] ok [OF that] ok [OF j(2)] r by simp
  have "diffIndexMutations t (m key) new = concat (map (diff_one t (m key) new bh bs) (t_GlobalSecondaryIndexes t))"
    using j(1) r by (simp add: diffIndexMutations_def)
  then show thesis using all that by blast
qed

context item_tree
begin

lemma consistent_write:
  fixes region t b
  defines "tk \<equiv> tableKey region (t_TableName t)"
  assumes c: "consistent tr region t b" and wf: "wf_indexes t"
    and new: "\<And>i. new = Some i \<Longrightarrow> storable t i \<and> item_key t i = Some key"
    and old: "old = table_view tr b tk key \<or> t_GlobalSecondaryIndexes t = []"
    and b': "table_view tr b' = (table_view tr b)(tk := (table_view tr b tk)(key := new))"
      "index_view tr b' = (index_view tr b)(tk := fold mutate (diffIndexMutations t old new) (index_view tr b tk))"
  shows "consistent tr region t b'"
proof -
  let ?m = "table_view tr b tk" and ?v = "index_view tr b tk"
  have m: "well_stored t ?m" and v: "\<And>name. case find_named name (t_GlobalSecondaryIndexes t) of
      None \<Rightarrow> ?v name = Map.empty | Some idx \<Rightarrow> indexed t idx ?m (?v name)"
    using c unfolding consistent_def Let_def tk_def by blast+
  have m': "well_stored t (?m(key := new))" using m new by (auto simp: well_stored_def)
  have "case find_named name (t_GlobalSecondaryIndexes t) of
      None \<Rightarrow> index_view tr b' tk name = Map.empty
    | Some idx \<Rightarrow> indexed t idx (?m(key := new)) (index_view tr b' tk name)" for name
  proof (cases "t_GlobalSecondaryIndexes t = []")
    case True
    then show ?thesis using v [of name] b'(2) by (simp add: diffIndexMutations_def)
  next
    case False
    with old have o: "old = ?m key" by simp
    show ?thesis
    proof (cases "?m key = None \<and> new = None")
      case True
      then have "?m(key := new) = ?m" "index_view tr b' tk = ?v"
        using b'(2) o by (auto simp: diffIndexMutations_def)
      then show ?thesis using v [of name] by (simp only:)
    next
      case False
      then obtain bh bs where r: "\<And>i. ?m key = Some i \<Longrightarrow> resolveStorageKeys t i = Inr (bh, bs)"
          "\<And>i. new = Some i \<Longrightarrow> resolveStorageKeys t i = Inr (bh, bs)"
          "diffIndexMutations t (?m key) new = concat (map (diff_one t (?m key) new bh bs) (t_GlobalSecondaryIndexes t))"
        using diff_base [OF m new] by blast
      have "index_view tr b' tk name = (case find_named name (t_GlobalSecondaryIndexes t) of
          None \<Rightarrow> ?v name | Some idx \<Rightarrow> fold mutate (diff_one t (?m key) new bh bs idx) ?v name)"
        using mutate_all wf by (simp add: b'(2) o r(3) wf_indexes_def)
      moreover have "indexed t idx (?m(key := new)) (fold mutate (diff_one t (?m key) new bh bs idx) ?v name)"
        if "find_named name (t_GlobalSecondaryIndexes t) = Some idx" for idx
      proof -
        note idx = find_named_Some [OF that]
        have "fold mutate (diff_one t (?m key) new bh bs idx) ?v name = add_row t idx new (drop_row t idx (?m key) (?v name))"
          using mutate_diff_one [where old = "?m key" and new = new and idx = idx and v = ?v, OF r(1,2)] idx by simp
        moreover have "indexed t idx ?m (?v name)" using v [of name] that by simp
        ultimately show ?thesis using indexed_update [where new = new, OF m conjunct1 [OF idx] _ new] by simp
      qed
      ultimately show ?thesis using v [of name] by (auto split: option.split)
    qed
  qed
  moreover have tm: "table_view tr b' tk = ?m(key := new)" by (simp add: b'(1))
  ultimately show ?thesis using m' unfolding consistent_def Let_def tk_def [symmetric] tm by blast
qed

text \<open>The index part of the frame: another table of the backend is not touched.\<close>

definition same_elsewhere :: "string \<Rightarrow> 't memItemBackend \<Rightarrow> 't memItemBackend \<Rightarrow> bool" where
  "same_elsewhere tk b b' \<longleftrightarrow>
     (\<forall>tk'. tk' \<noteq> tk \<longrightarrow> table_view tr b' tk' = table_view tr b tk' \<and> index_view tr b' tk' = index_view tr b tk')"

lemma put_consistent:
  assumes "consistent tr region t b" "wf_indexes t" "storable t item"
    and "getItem tr region t item b = Inr old \<or> t_GlobalSecondaryIndexes t = []"
  obtains b' key where "putItemWithIndexMaintenance tr region t item old b = (None, b')"
    "item_key t item = Some key" "consistent tr region t b'"
    "table_view tr b' = (table_view tr b)(tableKey region (t_TableName t) :=
        (table_view tr b (tableKey region (t_TableName t)))(key \<mapsto> item))"
    "same_elsewhere (tableKey region (t_TableName t)) b b'"
proof -
  obtain h s where r: "resolveStorageKeys t item = Inr (h, s)" "item_key t item = Some (itemCompositeKey h s)"
    using storable_resolve [OF assms(3)] by metis
  let ?tk = "tableKey region (t_TableName t)"
  define b' where "b' = putWithIndexMutations tr b ?tk h s item (diffIndexMutations t old (Some item))"
  have "old = table_view tr b ?tk (itemCompositeKey h s) \<or> t_GlobalSecondaryIndexes t = []"
    using assms(4) r by (simp add: getItem_def) blast
  then have "consistent tr region t b'"
    by (intro consistent_write [OF assms(1,2), where new = "Some item" and key = "itemCompositeKey h s"])
      (use r assms(3) in \<open>simp_all add: b'_def\<close>)
  then show thesis
    by (rule that [rotated 2]) (use r in \<open>simp_all add: putItemWithIndexMaintenance_def b'_def same_elsewhere_def\<close>)
qed

lemma delete_consistent:
  assumes "consistent tr region t b" "wf_indexes t" "resolveStorageKeys t key = Inr (h, s)"
    and "getItem tr region t key b = Inr old \<or> t_GlobalSecondaryIndexes t = []"
  obtains b' where "deleteItemWithIndexMaintenance tr region t key old b = (None, b')" "consistent tr region t b'"
    "table_view tr b' = (table_view tr b)(tableKey region (t_TableName t) :=
        (table_view tr b (tableKey region (t_TableName t)))(itemCompositeKey h s := None))"
    "same_elsewhere (tableKey region (t_TableName t)) b b'"
proof -
  let ?tk = "tableKey region (t_TableName t)"
  define b' where "b' = removeWithIndexMutations tr b ?tk h s (diffIndexMutations t old None)"
  have "old = table_view tr b ?tk (itemCompositeKey h s) \<or> t_GlobalSecondaryIndexes t = []"
    using assms(3,4) by (simp add: getItem_def) blast
  then have "consistent tr region t b'"
    by (intro consistent_write [OF assms(1,2), where new = None and key = "itemCompositeKey h s"]) (simp_all add: b'_def)
  then show thesis
    by (rule that [rotated]) (use assms(3) in \<open>simp_all add: deleteItemWithIndexMaintenance_def b'_def same_elsewhere_def\<close>)
qed

end

section \<open>Adding and dropping an index\<close>

definition with_indexes :: "Table \<Rightarrow> SecondaryIndex list \<Rightarrow> Table" where
  "with_indexes t is = t\<lparr>t_GlobalSecondaryIndexes := is\<rparr>"

lemma with_indexes_simps [simp]:
  "t_TableName (with_indexes t is) = t_TableName t"
  "t_GlobalSecondaryIndexes (with_indexes t is) = is"
  "resolveStorageKeys (with_indexes t is) item = resolveStorageKeys t item"
  "indexKeyComponents (with_indexes t is) idx itm = indexKeyComponents t idx itm"
  "projectForIndex (with_indexes t is) idx itm = projectForIndex t idx itm"
  "item_key (with_indexes t is) item = item_key t item"
  "row_key (with_indexes t is) idx item = row_key t idx item"
  "indexed (with_indexes t is) idx m v = indexed t idx m v"
proof -
  have k: "keyAttrType (with_indexes t is) = keyAttrType t" "hashKeyName (with_indexes t is) = hashKeyName t"
    "sortKeyName (with_indexes t is) = sortKeyName t"
    by (simp_all add: with_indexes_def keyAttrType_def hashKeyName_def sortKeyName_def fun_eq_iff)
  show r: "resolveStorageKeys (with_indexes t is) item = resolveStorageKeys t item" for item
    unfolding resolveStorageKeys_def resolveKeys_def k ..
  show c: "indexKeyComponents (with_indexes t is) idx itm = indexKeyComponents t idx itm" for idx itm
    unfolding indexKeyComponents_def k ..
  show p: "projectForIndex (with_indexes t is) idx itm = projectForIndex t idx itm" for idx itm
    unfolding projectForIndex_def indexKeysOnlyProjection_def k ..
  show "item_key (with_indexes t is) item = item_key t item" by (simp add: item_key_def r)
  show rk: "row_key (with_indexes t is) idx item = row_key t idx item" for idx item by (simp add: row_key_def r c)
  show "indexed (with_indexes t is) idx m v = indexed t idx m v" by (simp add: indexed_def rk p)
  show "t_TableName (with_indexes t is) = t_TableName t" "t_GlobalSecondaryIndexes (with_indexes t is) = is"
    by (simp_all add: with_indexes_def)
qed

lemma fold_backfill:
  assumes "\<And>i j. i \<in> set items \<Longrightarrow> j \<in> set items \<Longrightarrow> row_key t idx i = row_key t idx j \<Longrightarrow> row_key t idx i \<noteq> None \<Longrightarrow> i = j"
    and "v (si_IndexName idx) = Map.empty"
  shows "fold mutate (concat (map (backfill_row t idx) items)) v (si_IndexName idx) ik = Some r \<longleftrightarrow>
      (\<exists>i\<in>set items. row_key t idx i = Some ik \<and> r = projectForIndex t idx (Some i))"
  using assms(1)
proof (induction items arbitrary: r rule: rev_induct)
  case (snoc x xs)
  let ?v = "fold mutate (concat (map (backfill_row t idx) xs)) v"
  have ih: "?v (si_IndexName idx) ik = Some r \<longleftrightarrow> (\<exists>i\<in>set xs. row_key t idx i = Some ik \<and> r = projectForIndex t idx (Some i))" for r
    using snoc by simp
  have step: "fold mutate (backfill_row t idx x) ?v (si_IndexName idx) = add_row t idx (Some x) (?v (si_IndexName idx))"
    by (auto simp: backfill_row_def add_row_def row_key_def split: option.split sum.split prod.split)
  show ?case
  proof (cases "row_key t idx x = Some ik")
    case True
    have "i = x" if "i \<in> set xs" "row_key t idx i = Some ik" for i
      using snoc.prems [of i x] that True by simp
    then show ?thesis using True ih step by (auto simp: add_row_def)
  next
    case False
    then have "add_row t idx (Some x) w ik = w ik" for w by (auto simp: add_row_def split: option.split)
    then show ?thesis using False ih step by auto
  qed
qed (simp add: assms(2))

lemma mutate_backfill_other:
  "name \<noteq> si_IndexName idx \<Longrightarrow> fold mutate (concat (map (backfill_row t idx) items)) v name = v name"
proof (induction items arbitrary: v)
  case (Cons x xs)
  have "fold mutate (backfill_row t idx x) v name = v name"
    using Cons.prems by (auto simp: backfill_row_def split: option.split sum.split prod.split)
  then show ?case using Cons by simp
qed simp

lemma find_named_append:
  "find_named name (is @ js) = (case find_named name is of Some i \<Rightarrow> Some i | None \<Rightarrow> find_named name js)"
  by (induction "is") auto

lemma find_named_filter:
  "find_named name (filter (\<lambda>g. si_IndexName g \<noteq> gone) is) = (if name = gone then None else find_named name is)"
  by (induction "is") auto

context item_tree
begin

lemma scanItems_set: "set (scanItems tr region name b) = {i. \<exists>k. table_view tr b (tableKey region name) k = Some i}"
  using rows_set [of "map_of (mib_tables b) (tableKey region name)"]
  by (force simp: scanItems_def scanAll_def rows_of_rows table_view_def)

lemma backfill_consistent:
  fixes region t b
  defines "tk \<equiv> tableKey region (t_TableName t)"
  assumes c: "consistent tr region t b" and fresh: "find_named (si_IndexName idx) (t_GlobalSecondaryIndexes t) = None"
    and st: "\<And>k i. table_view tr b tk k = Some i \<Longrightarrow> storable (with_indexes t (t_GlobalSecondaryIndexes t @ [idx])) i"
  shows "consistent tr region (with_indexes t (t_GlobalSecondaryIndexes t @ [idx]))
      (backfillIndex tr region (with_indexes t (t_GlobalSecondaryIndexes t @ [idx])) idx b)"
proof -
  define t' where "t' = with_indexes t (t_GlobalSecondaryIndexes t @ [idx])"
  let ?m = "table_view tr b tk" and ?v = "index_view tr b tk"
  let ?items = "scanItems tr region (t_TableName t) b"
  have m: "well_stored t ?m" and v: "\<And>name. case find_named name (t_GlobalSecondaryIndexes t) of
      None \<Rightarrow> ?v name = Map.empty | Some idx \<Rightarrow> indexed t idx ?m (?v name)"
    using c unfolding consistent_def Let_def tk_def by blast+
  have m': "well_stored t' ?m" using m st by (auto simp: well_stored_def t'_def)
  have bf: "backfill_row t' idx = backfill_row t idx"
    unfolding backfill_row_def t'_def with_indexes_simps ..
  define b' where "b' = backfillIndex tr region t' idx b"
  have b': "table_view tr b' = table_view tr b"
      "index_view tr b' tk = fold mutate (concat (map (backfill_row t idx) ?items)) ?v"
    unfolding b'_def backfillIndex_def Let_def bf applyIndexMutations_def
    by (cases "concat (map (backfill_row t idx) ?items) = []"; simp add: t'_def tk_def del: concat_eq_Nil_conv)+
  have inj: "i = j" if ij: "i \<in> set ?items" "j \<in> set ?items" "row_key t idx i = row_key t idx j" "row_key t idx i \<noteq> None" for i j
  proof -
    obtain ki kj where k: "?m ki = Some i" "?m kj = Some j" using ij(1,2) by (auto simp: scanItems_set tk_def)
    have "item_key t' i = item_key t' j"
    proof (rule row_key_item_key)
      show "idx \<in> set (t_GlobalSecondaryIndexes t')" by (simp add: t'_def)
      show "row_key t' idx i = Some (the (row_key t idx i))" "row_key t' idx j = Some (the (row_key t idx i))"
        using ij(3,4) by (auto simp: t'_def)
    qed (use k well_storedD [OF m'] in blast)+
    then show "i = j" using k well_storedD [OF m' k(1)] well_storedD [OF m' k(2)] by simp
  qed
  have empty: "?v (si_IndexName idx) = Map.empty" using v [of "si_IndexName idx"] fresh by simp
  have new: "fold mutate (concat (map (backfill_row t idx) ?items)) ?v (si_IndexName idx) ik = Some r \<longleftrightarrow>
      (\<exists>i\<in>set ?items. row_key t idx i = Some ik \<and> r = projectForIndex t idx (Some i))" for ik r
    by (rule fold_backfill) (rule inj, assumption+, rule empty)
  have "case find_named name (t_GlobalSecondaryIndexes t') of
      None \<Rightarrow> index_view tr b' tk name = Map.empty | Some j \<Rightarrow> indexed t' j ?m (index_view tr b' tk name)" for name
  proof (cases "name = si_IndexName idx")
    case True
    then have "find_named name (t_GlobalSecondaryIndexes t') = Some idx"
      using fresh by (simp add: t'_def find_named_append)
    moreover have "indexed t idx ?m (index_view tr b' tk name)"
      unfolding indexed_def True b'(2) new by (auto simp: scanItems_set tk_def)
    ultimately show ?thesis by (simp add: t'_def)
  next
    case False
    then show ?thesis using v [of name] mutate_backfill_other [OF False]
      by (auto simp: b'(2) t'_def find_named_append split: option.split)
  qed
  then have "consistent tr region t' b'"
    by (intro consistentI [of tk _ _ ?m]) (simp_all add: t'_def tk_def b'(1) m' [unfolded t'_def, unfolded tk_def])
  then show ?thesis by (simp add: b'_def t'_def)
qed

lemma drop_index_consistent:
  assumes c: "consistent tr region t b"
  shows "consistent tr region (with_indexes t (filter (\<lambda>g. si_IndexName g \<noteq> gone) (t_GlobalSecondaryIndexes t)))
      (deleteIndexEntriesForIndex region (t_TableName t) gone b)"
proof -
  let ?tk = "tableKey region (t_TableName t)"
  let ?t = "with_indexes t (filter (\<lambda>g. si_IndexName g \<noteq> gone) (t_GlobalSecondaryIndexes t))"
  have m: "well_stored t (table_view tr b ?tk)" and v: "\<And>name. case find_named name (t_GlobalSecondaryIndexes t) of
      None \<Rightarrow> index_view tr b ?tk name = Map.empty | Some idx \<Rightarrow> indexed t idx (table_view tr b ?tk) (index_view tr b ?tk name)"
    using c unfolding consistent_def Let_def by blast+
  have st: "storable ?t i" if "storable t i" for i
    using that by (auto simp: storable_def list_all_iff split: sum.splits)
  then have "well_stored ?t (table_view tr b ?tk)" using m by (simp add: well_stored_def)
  moreover have "case find_named name (t_GlobalSecondaryIndexes ?t) of
      None \<Rightarrow> index_view tr (deleteIndexEntriesForIndex region (t_TableName t) gone b) ?tk name = Map.empty
    | Some idx \<Rightarrow> indexed ?t idx (table_view tr b ?tk)
        (index_view tr (deleteIndexEntriesForIndex region (t_TableName t) gone b) ?tk name)" for name
    using v [of name] by (auto simp: find_named_filter deleteIndexEntriesForIndex_def split: option.split)
  moreover have "table_view tr (deleteIndexEntriesForIndex region (t_TableName t) gone b) = table_view tr b"
    by (simp add: deleteIndexEntriesForIndex_def)
  ultimately show ?thesis unfolding consistent_def Let_def by (simp only: with_indexes_simps(1)) blast
qed

lemma empty_consistent:
  assumes "table_view tr b (tableKey region (t_TableName t)) = Map.empty"
    "index_view tr b (tableKey region (t_TableName t)) = (\<lambda>_. Map.empty)"
  shows "consistent tr region t b"
  using assms by (auto simp: consistent_def well_stored_def indexed_def split: option.split)

lemma deleteTableItems_views [simp]:
  "table_view tr (deleteTableItems region name b) = (table_view tr b)(tableKey region name := Map.empty)"
  "index_view tr (deleteTableItems region name b) = (index_view tr b)(tableKey region name := \<lambda>_. Map.empty)"
  by (simp_all add: deleteTableItems_def)

end

end
