(* ===== verification/Ddb_Read.thy ===== *)
theory Ddb_Read
  imports Ddb_Index "HOL-Library.Product_Lexorder"
begin

text \<open>
  Reading a table: the partition of a table under one partition key and the partition of an
  index under one key (\<^verbatim>\<open>item_store.go\<close>), the lists of items that a query pages through.
  For a consistent table each is a function of the items: which items are returned, each
  once, and in which order.  The paging of queries and scans is not modelled.
\<close>

section \<open>Partitions\<close>

definition storage :: "Table \<Rightarrow> Item \<Rightarrow> string \<times> string" where
  "storage t item = projr (resolveStorageKeys t item)"

definition components :: "Table \<Rightarrow> SecondaryIndex \<Rightarrow> Item \<Rightarrow> string \<times> string" where
  "components t idx item = the (indexKeyComponents t idx (Some item))"

lemma storable_storage:
  assumes "storable t item"
  shows "resolveStorageKeys t item = Inr (storage t item)" "nul_free (fst (storage t item))"
    "item_key t item = Some (itemCompositeKey (fst (storage t item)) (snd (storage t item)))"
  using assms by (auto simp: storable_def storage_def item_key_def split: sum.splits)

context item_tree
begin

lemma consistent_items:
  assumes "consistent tr region t b" "table_view tr b (tableKey region (t_TableName t)) k = Some i"
  shows "storable t i" "k = itemCompositeKey (fst (storage t i)) (snd (storage t i))"
proof -
  have "well_stored t (table_view tr b (tableKey region (t_TableName t)))"
    using assms(1) unfolding consistent_def Let_def by blast
  from well_storedD [OF this assms(2)] storable_storage(3) [of t i]
  show "storable t i" "k = itemCompositeKey (fst (storage t i)) (snd (storage t i))" by auto
qed

lemma consistent_indexed:
  assumes "consistent tr region t b" "find_named (si_IndexName idx) (t_GlobalSecondaryIndexes t) = Some idx"
  shows "indexed t idx (table_view tr b (tableKey region (t_TableName t)))
    (index_view tr b (tableKey region (t_TableName t)) (si_IndexName idx))"
proof -
  have "case find_named (si_IndexName idx) (t_GlobalSecondaryIndexes t) of
        None \<Rightarrow> index_view tr b (tableKey region (t_TableName t)) (si_IndexName idx) = Map.empty
      | Some idx' \<Rightarrow> indexed t idx' (table_view tr b (tableKey region (t_TableName t)))
          (index_view tr b (tableKey region (t_TableName t)) (si_IndexName idx))"
    using assms(1) unfolding consistent_def Let_def by blast
  then show ?thesis by (simp add: assms(2))
qed

text \<open>A partition holds the items of its hash key, each once, in sort key order.\<close>

lemma partition_spec:
  fixes region t b hashVal
  defines "h \<equiv> encodeStorageKeyComponent (keyAttrType t (hashKeyName t)) hashVal"
    and "m \<equiv> table_view tr b (tableKey region (t_TableName t))"
  assumes c: "consistent tr region t b" and h: "nul_free h"
  shows "set (scanItemsByHashKey tr region t hashVal b) = {i. (\<exists>k. m k = Some i) \<and> fst (storage t i) = h}"
    "sorted_wrt (\<lambda>i j. snd (storage t i) < snd (storage t j)) (scanItemsByHashKey tr region t hashVal b)"
proof -
  let ?tree = "map_of (mib_tables b) (tableKey region (t_TableName t))"
  let ?xs = "filter (\<lambda>(k, _). HasPrefix k (h @ [CHR 0x00])) (rows ?tree)"
  have items: "scanItemsByHashKey tr region t hashVal b = map snd ?xs"
    by (simp add: scanItemsByHashKey_def queryByHash_def by_hash_rows h_def)
  have row: "k = itemCompositeKey (fst (storage t i)) (snd (storage t i)) \<and> nul_free (fst (storage t i)) \<and> m k = Some i"
    if "(k, i) \<in> set (rows ?tree)" for k i
  proof -
    have mk: "m k = Some i" using that by (simp add: rows_set m_def table_view_def)
    with consistent_items [OF c mk [unfolded m_def]] storable_storage(2) [of t i] show ?thesis by blast
  qed
  have pre: "HasPrefix k (h @ [CHR 0x00]) \<longleftrightarrow> fst (storage t i) = h" if "(k, i) \<in> set (rows ?tree)" for k i
  proof -
    note r = row [OF that]
    then have k: "k = fst (storage t i) @ CHR 0x00 # snd (storage t i)" by (simp add: itemCompositeKey_def)
    show ?thesis unfolding k using nul_sep_prefix [OF h] r by blast
  qed
  show "set (scanItemsByHashKey tr region t hashVal b) = {i. (\<exists>k. m k = Some i) \<and> fst (storage t i) = h}"
  proof (intro set_eqI iffI)
    fix i assume "i \<in> set (scanItemsByHashKey tr region t hashVal b)"
    then obtain k where "(k, i) \<in> set (rows ?tree)" "HasPrefix k (h @ [CHR 0x00])" unfolding items by auto
    with pre row show "i \<in> {i. (\<exists>k. m k = Some i) \<and> fst (storage t i) = h}" by blast
  next
    fix i assume "i \<in> {i. (\<exists>k. m k = Some i) \<and> fst (storage t i) = h}"
    then obtain k where "m k = Some i" "fst (storage t i) = h" by blast
    moreover from this(1) have "(k, i) \<in> set (rows ?tree)" by (simp add: rows_set m_def table_view_def)
    ultimately show "i \<in> set (scanItemsByHashKey tr region t hashVal b)" using pre unfolding items by force
  qed
  have "sorted_wrt (\<lambda>a b. fst a < fst b) ?xs"
    using rows_sorted [of ?tree] by (simp add: sorted_wrt_map sorted_wrt_filter)
  then have "sorted_wrt (\<lambda>a b. snd (storage t (snd a)) < snd (storage t (snd b))) ?xs"
  proof (rule sorted_wrt_mono_rel [rotated])
    fix a c assume ac: "a \<in> set ?xs" "c \<in> set ?xs" "fst a < fst c"
    obtain k i l j where a: "a = (k, i)" "c = (l, j)" by (cases a; cases c)
    have r: "(k, i) \<in> set (rows ?tree)" "(l, j) \<in> set (rows ?tree)" "fst (storage t i) = h" "fst (storage t j) = h"
      using ac(1,2) pre unfolding a by auto
    have "k = itemCompositeKey h (snd (storage t i))" "l = itemCompositeKey h (snd (storage t j))"
      using row [OF r(1)] row [OF r(2)] unfolding r(3,4) by blast+
    with ac(3) a show "snd (storage t (snd a)) < snd (storage t (snd c))"
      using nul_sep_less [OF h h] by (simp add: itemCompositeKey_def)
  qed
  then show "sorted_wrt (\<lambda>i j. snd (storage t i) < snd (storage t j)) (scanItemsByHashKey tr region t hashVal b)"
    unfolding items by (simp add: sorted_wrt_map)
qed

text \<open>The rows of an index are the items that have its key attributes, one row each.\<close>

definition stored :: "string \<Rightarrow> Table \<Rightarrow> 't memItemBackend \<Rightarrow> Item \<Rightarrow> bool" where
  "stored region t b i \<longleftrightarrow> (\<exists>k. table_view tr b (tableKey region (t_TableName t)) k = Some i)"

lemma index_row_parts:
  assumes c: "consistent tr region t b" and i: "stored region t b i" "row_key t idx i = Some k"
    and idx: "idx \<in> set (t_GlobalSecondaryIndexes t)"
  shows "\<exists>ih sk. indexKeyComponents t idx (Some i) = Some (ih, sk) \<and> nul_free ih \<and> nul_free sk
      \<and> nul_free (fst (storage t i)) \<and> k = ih @ CHR 0x00 # sk @ CHR 0x00 # fst (storage t i) @ CHR 0x00 # snd (storage t i)"
proof -
  have st: "storable t i" using i(1) consistent_items(1) [OF c] by (auto simp: stored_def)
  obtain ih sk where ic: "indexKeyComponents t idx (Some i) = Some (ih, sk)"
    using i(2) by (auto simp: row_key_def split: option.splits)
  have "nul_free ih \<and> nul_free sk"
    using st idx ic by (auto simp: storable_def list_all_iff split: sum.splits)
  then show ?thesis
    using i(2) storable_storage(1,2) [OF st] ic by (auto simp: row_key_def indexCompositeKey_def split: prod.splits)
qed

lemma index_rows:
  assumes c: "consistent tr region t b"
    and idx: "find_named (si_IndexName idx) (t_GlobalSecondaryIndexes t) = Some idx"
  obtains pick where
    "\<And>k r. (k, r) \<in> set (rows (map_of (mib_indexes b) (tableKey region (t_TableName t), si_IndexName idx)))
       \<Longrightarrow> stored region t b (pick k) \<and> row_key t idx (pick k) = Some k \<and> r = projectForIndex t idx (Some (pick k))"
    "\<And>i k. stored region t b i \<Longrightarrow> row_key t idx i = Some k
       \<Longrightarrow> pick k = i \<and> (k, projectForIndex t idx (Some i))
            \<in> set (rows (map_of (mib_indexes b) (tableKey region (t_TableName t), si_IndexName idx)))"
proof -
  let ?rows = "set (rows (map_of (mib_indexes b) (tableKey region (t_TableName t), si_IndexName idx)))"
  have ix: "(k, r) \<in> ?rows \<longleftrightarrow> (\<exists>i. stored region t b i \<and> row_key t idx i = Some k \<and> r = projectForIndex t idx (Some i))" for k r
    using consistent_indexed [OF c idx] unfolding indexed_def rows_set stored_def index_view_def by auto
  have uniq: "i = j" if ij: "stored region t b i" "stored region t b j" "row_key t idx i = Some k" "row_key t idx j = Some k" for i j k
  proof -
    obtain ki kj where k: "table_view tr b (tableKey region (t_TableName t)) ki = Some i"
        "table_view tr b (tableKey region (t_TableName t)) kj = Some j" using ij(1,2) by (auto simp: stored_def)
    have st: "storable t i" "storable t j" using consistent_items(1) [OF c] k by blast+
    have "item_key t i = item_key t j"
      by (rule row_key_item_key [OF st(1) ij(3) st(2) ij(4)]) (use find_named_Some [OF idx] in blast)
    then have "ki = kj"
      using consistent_items(2) [OF c k(1)] consistent_items(2) [OF c k(2)] st storable_storage(3) by simp
    with k show "i = j" by simp
  qed
  define pick where "pick k = (THE i. stored region t b i \<and> row_key t idx i = Some k)" for k
  have pick: "pick k = i" if "stored region t b i" "row_key t idx i = Some k" for i k
    unfolding pick_def using that uniq by (intro the_equality) blast+
  show thesis
  proof (rule that [of pick])
    fix k r assume "(k, r) \<in> ?rows"
    then show "stored region t b (pick k) \<and> row_key t idx (pick k) = Some k \<and> r = projectForIndex t idx (Some (pick k))"
      unfolding ix using pick by auto
  next
    fix i k assume "stored region t b i" "row_key t idx i = Some k"
    then show "pick k = i \<and> (k, projectForIndex t idx (Some i)) \<in> ?rows" unfolding ix using pick by auto
  qed
qed

lemma nul_triple_less:
  assumes "nul_free h" "nul_free s" "nul_free s'" "nul_free (fst p)" "nul_free (fst p')"
  shows "h @ CHR 0x00 # s @ CHR 0x00 # fst p @ CHR 0x00 # snd p < h @ CHR 0x00 # s' @ CHR 0x00 # fst p' @ CHR 0x00 # snd p'
    \<longleftrightarrow> (s, p) < (s', p')"
  using assms by (cases p; cases p') (auto simp: nul_sep_less le_less)

text \<open>
  A partition of an index holds the projections of the items that have its key attributes
  with that hash value, each once, in the order of the index sort key; items that share
  both index keys are in the order of their own key.
\<close>

lemma index_partition_spec:
  fixes region t b hashVal idx
  defines "h \<equiv> encodeStorageKeyComponent (keyAttrType t (indexHashKeyName idx)) hashVal"
  assumes c: "consistent tr region t b" and h: "nul_free h"
    and idx: "find_named (si_IndexName idx) (t_GlobalSecondaryIndexes t) = Some idx"
  shows "\<exists>items. scanIndexByHash tr region t idx hashVal b = map (\<lambda>i. projectForIndex t idx (Some i)) items
    \<and> set items = {i. stored region t b i \<and> (\<exists>s. indexKeyComponents t idx (Some i) = Some (h, s))}
    \<and> sorted_wrt (\<lambda>i j. (snd (components t idx i), storage t i) < (snd (components t idx j), storage t j)) items"
proof -
  let ?rows = "rows (map_of (mib_indexes b) (tableKey region (t_TableName t), si_IndexName idx))"
  let ?xs = "filter (\<lambda>(k, _). HasPrefix k (h @ [CHR 0x00])) ?rows"
  obtain pick where pick: "\<And>k r. (k, r) \<in> set ?rows
        \<Longrightarrow> stored region t b (pick k) \<and> row_key t idx (pick k) = Some k \<and> r = projectForIndex t idx (Some (pick k))"
      "\<And>i k. stored region t b i \<Longrightarrow> row_key t idx i = Some k \<Longrightarrow> pick k = i \<and> (k, projectForIndex t idx (Some i)) \<in> set ?rows"
    using index_rows [OF c idx] by blast
  have mem: "idx \<in> set (t_GlobalSecondaryIndexes t)" using find_named_Some [OF idx] by blast
  have key: "\<exists>ih sk. indexKeyComponents t idx (Some i) = Some (ih, sk) \<and> nul_free ih \<and> nul_free sk
      \<and> nul_free (fst (storage t i)) \<and> k = ih @ CHR 0x00 # sk @ CHR 0x00 # fst (storage t i) @ CHR 0x00 # snd (storage t i)
      \<and> (HasPrefix k (h @ [CHR 0x00]) \<longleftrightarrow> ih = h)"
    if "stored region t b i" "row_key t idx i = Some k" for i k
    using index_row_parts [OF c that mem] nul_sep_prefix [OF h] by auto
  have "scanIndexByHash tr region t idx hashVal b = map snd ?xs"
    by (simp add: scanIndexByHash_def queryIndexByHash_def by_hash_rows h_def)
  also have "\<dots> = map (\<lambda>i. projectForIndex t idx (Some i)) (map (pick \<circ> fst) ?xs)"
    using pick(1) by auto
  finally have 1: "scanIndexByHash tr region t idx hashVal b
      = map (\<lambda>i. projectForIndex t idx (Some i)) (map (pick \<circ> fst) ?xs)" .
  have 2: "set (map (pick \<circ> fst) ?xs) = {i. stored region t b i \<and> (\<exists>s. indexKeyComponents t idx (Some i) = Some (h, s))}"
  proof (intro set_eqI iffI)
    fix i assume "i \<in> set (map (pick \<circ> fst) ?xs)"
    then obtain k r where "(k, r) \<in> set ?rows" "HasPrefix k (h @ [CHR 0x00])" "i = pick k" by auto
    with pick(1) [of k r] key [of i k] show "i \<in> {i. stored region t b i \<and> (\<exists>s. indexKeyComponents t idx (Some i) = Some (h, s))}"
      by auto
  next
    fix i assume "i \<in> {i. stored region t b i \<and> (\<exists>s. indexKeyComponents t idx (Some i) = Some (h, s))}"
    then obtain s where i: "stored region t b i" "indexKeyComponents t idx (Some i) = Some (h, s)" by blast
    have "storable t i" using i(1) consistent_items(1) [OF c] by (auto simp: stored_def)
    then obtain k where k: "row_key t idx i = Some k"
      using i(2) storable_storage(1) by (cases "storage t i") (auto simp: row_key_def)
    then have "HasPrefix k (h @ [CHR 0x00])" using key [OF i(1) k] i(2) by auto
    with pick(2) [OF i(1) k] show "i \<in> set (map (pick \<circ> fst) ?xs)" by (force simp: image_iff)
  qed
  have "sorted_wrt (\<lambda>a b. fst a < fst b) ?xs"
    using rows_sorted [of "map_of (mib_indexes b) (tableKey region (t_TableName t), si_IndexName idx)"]
    by (simp add: sorted_wrt_map sorted_wrt_filter)
  then have "sorted_wrt (\<lambda>a b. (snd (components t idx (pick (fst a))), storage t (pick (fst a)))
      < (snd (components t idx (pick (fst b))), storage t (pick (fst b)))) ?xs"
  proof (rule sorted_wrt_mono_rel [rotated])
    fix a c assume ac: "a \<in> set ?xs" "c \<in> set ?xs" "fst a < fst c"
    have f: "\<exists>s. components t idx (pick k) = (h, s) \<and> nul_free s \<and> nul_free (fst (storage t (pick k)))
        \<and> k = h @ CHR 0x00 # s @ CHR 0x00 # fst (storage t (pick k)) @ CHR 0x00 # snd (storage t (pick k))"
      if "(k, r) \<in> set ?xs" for k r
      using that pick(1) [of k r] key [of "pick k" k] by (auto simp: components_def)
    obtain s s' where s: "components t idx (pick (fst a)) = (h, s)" "nul_free s" "nul_free (fst (storage t (pick (fst a))))"
        "fst a = h @ CHR 0x00 # s @ CHR 0x00 # fst (storage t (pick (fst a))) @ CHR 0x00 # snd (storage t (pick (fst a)))"
      and s': "components t idx (pick (fst c)) = (h, s')" "nul_free s'" "nul_free (fst (storage t (pick (fst c))))"
        "fst c = h @ CHR 0x00 # s' @ CHR 0x00 # fst (storage t (pick (fst c))) @ CHR 0x00 # snd (storage t (pick (fst c)))"
      using f [of "fst a" "snd a"] f [of "fst c" "snd c"] ac(1,2) by (cases a; cases c) auto
    have "(s, storage t (pick (fst a))) < (s', storage t (pick (fst c)))"
      using ac(3) s(4) s'(4) nul_triple_less [OF h s(2) s'(2) s(3) s'(3)] by simp
    then show "(snd (components t idx (pick (fst a))), storage t (pick (fst a)))
        < (snd (components t idx (pick (fst c))), storage t (pick (fst c)))"
      by (simp add: s(1) s'(1))
  qed
  then have "sorted_wrt (\<lambda>i j. (snd (components t idx i), storage t i) < (snd (components t idx j), storage t j))
      (map (pick \<circ> fst) ?xs)" by (simp add: sorted_wrt_map)
  with 1 2 show ?thesis by blast
qed

end

end
