(* ===== verification/Ddb_Handler.thy ===== *)
theory Ddb_Handler
  imports Ddb_Read
begin

text \<open>
  The requests that write items (\<^verbatim>\<open>handler.go\<close>, \<^verbatim>\<open>handler_update.go\<close>, \<^verbatim>\<open>handler_transact.go\<close>) and
  the size of an item (\<^verbatim>\<open>item_size.go\<close>), over the table descriptors and the item backend.

  The expression compilers are an interface: a record of what the handlers call, so that
  everything below holds whatever the expressions of a request say.  Stream records and
  events are published after the write and do not touch the items.
\<close>

section \<open>The size of an item\<close>

definition maxItemSizeBytes :: int where "maxItemSizeBytes = 400 * 1024"

definition trim_zeros :: "string \<Rightarrow> string" where
  "trim_zeros s = TrimRight (dropWhile (\<lambda>c. c = CHR ''0'') s) CHR ''0''"

definition numberSizeBytes :: "string \<Rightarrow> int" where
  "numberSizeBytes s =
     (let s1 = takeWhile (\<lambda>c. c \<noteq> CHR ''e'' \<and> c \<noteq> CHR ''E'') s;
          s2 = dropWhile (\<lambda>c. c = CHR ''+'' \<or> c = CHR ''-'') s1;
          s3 = filter (\<lambda>c. c \<noteq> CHR ''.'') s2;
          s4 = trim_zeros s3
      in (int (length s4) + 1) div 2 + 1)"

definition binarySizeBytes :: "string \<Rightarrow> int" where
  "binarySizeBytes s = (case b64_decode s of Some n \<Rightarrow> int (length n) | None \<Rightarrow> int (length s) div 4 * 3)"

definition any_string :: "any \<Rightarrow> string" where
  "any_string raw = (case raw of AStr s \<Rightarrow> s | _ \<Rightarrow> [])"

definition any_elems :: "any \<Rightarrow> any list" where
  "any_elems raw = (case raw of AList es \<Rightarrow> es | _ \<Rightarrow> [])"

fun attrValueSizeBytes :: "attrValue \<Rightarrow> int" where
  "attrValueSizeBytes [] = 0"
| "attrValueSizeBytes ((typ, raw) # v) =
     (if typ = ''S'' then int (length (any_string raw))
      else if typ = ''N'' then numberSizeBytes (any_string raw)
      else if typ = ''B'' then binarySizeBytes (any_string raw)
      else if typ = ''BOOL'' \<or> typ = ''NULL'' then 1
      else if typ = ''SS'' then sum_list (map (\<lambda>e. int (length (any_string e))) (any_elems raw))
      else if typ = ''NS'' then sum_list (map (\<lambda>e. numberSizeBytes (any_string e)) (any_elems raw))
      else if typ = ''BS'' then sum_list (map (\<lambda>e. binarySizeBytes (any_string e)) (any_elems raw))
      else if typ = ''L'' then
        (case raw of
           AList es \<Rightarrow> 3 + sum_list (map (\<lambda>e. 1 + (case e of AMap av \<Rightarrow> attrValueSizeBytes av | _ \<Rightarrow> 0)) es)
         | _ \<Rightarrow> 3)
      else if typ = ''M'' then
        (case raw of
           AMap m \<Rightarrow> 3 + sum_list (map (\<lambda>(k, e). 1 + int (length k)
                       + (case e of AMap av \<Rightarrow> attrValueSizeBytes av | _ \<Rightarrow> 0)) m)
         | _ \<Rightarrow> 3)
      else attrValueSizeBytes v)"

definition itemSizeBytes :: "Item \<Rightarrow> int" where
  "itemSizeBytes item = sum_list (map (\<lambda>(name, v). int (length name) + attrValueSizeBytes v) item)"

section \<open>The interface of the expressions\<close>

record 'e expr_engine =
  ex_compileFilter :: "string \<Rightarrow> string gomap \<Rightarrow> attrValue gomap \<Rightarrow> string + 'e"
  ex_evalFilter :: "'e \<Rightarrow> Item \<Rightarrow> string + bool"
  ex_applyUpdate :: "Item \<Rightarrow> string \<Rightarrow> string gomap \<Rightarrow> attrValue gomap \<Rightarrow> string + Item"

record condition =
  cd_Expression :: string
  cd_Names :: "string gomap"
  cd_Values :: "attrValue gomap"

definition check_condition :: "'e expr_engine \<Rightarrow> condition \<Rightarrow> Item option \<Rightarrow> ddb_error option" where
  "check_condition en c existing =
     (if cd_Expression c = [] then None
      else case ex_compileFilter en (cd_Expression c) (cd_Names c) (cd_Values c) of
        Inl err \<Rightarrow> Some (ValidationException err)
      | Inr f \<Rightarrow>
          (case ex_evalFilter en f (case existing of None \<Rightarrow> [] | Some i \<Rightarrow> i) of
             Inl err \<Rightarrow> Some (ValidationException err)
           | Inr ok \<Rightarrow>
               if ok then None else Some (ConditionalCheckFailedException ''The conditional request failed'')))"

section \<open>Tables\<close>

record 't ddb =
  db_tables :: "Table gomap"
  db_items :: "'t memItemBackend"

definition getTable :: "string \<Rightarrow> string \<Rightarrow> 't ddb \<Rightarrow> ddb_error + Table" where
  "getTable region name s =
     (case map_of (db_tables s) (tableKey region name) of
        None \<Rightarrow> Inl (ResourceNotFoundException (''Requested resource not found: Table: '' @ name @ '' not found''))
      | Some t \<Rightarrow> Inr t)"

definition putTable :: "string \<Rightarrow> Table \<Rightarrow> 't ddb \<Rightarrow> 't ddb" where
  "putTable region t s = s\<lparr>db_tables := map_put (tableKey region (t_TableName t)) t (db_tables s)\<rparr>"

text \<open>The end of \<^verbatim>\<open>createTableTyped\<close>: the descriptor is stored unless the name is taken.\<close>

definition storeNewTable :: "string \<Rightarrow> Table \<Rightarrow> 't ddb \<Rightarrow> ddb_error option \<times> 't ddb" where
  "storeNewTable region t s =
     (if map_of (db_tables s) (tableKey region (t_TableName t)) \<noteq> None
      then (Some (ResourceInUseException (''Table already exists: '' @ t_TableName t)), s)
      else (None, putTable region t s))"

definition deleteTable :: "string \<Rightarrow> string \<Rightarrow> 't ddb \<Rightarrow> 't ddb" where
  "deleteTable region name s =
     s\<lparr>db_items := deleteTableItems region name (db_items s), db_tables := map_del (tableKey region name) (db_tables s)\<rparr>"

definition deleteTableTyped :: "string \<Rightarrow> string \<Rightarrow> 't ddb \<Rightarrow> (ddb_error + Table) \<times> 't ddb" where
  "deleteTableTyped region name s =
     (if name = [] then (Inl (MissingParameter ''TableName''), s)
      else case getTable region name s of
        Inl e \<Rightarrow> (Inl e, s)
      | Inr t \<Rightarrow> (Inr t, deleteTable region name s))"

text \<open>One entry of \<^verbatim>\<open>GlobalSecondaryIndexUpdates\<close>; throughput changes touch no item.\<close>

datatype gsiUpdate = GsiCreate SecondaryIndex | GsiDelete string

definition apply_gsi_update :: "'t tree_ops \<Rightarrow> string \<Rightarrow> gsiUpdate \<Rightarrow> Table \<times> 't memItemBackend \<Rightarrow> Table \<times> 't memItemBackend" where
  "apply_gsi_update tr region u tb =
     (case tb of (t, b) \<Rightarrow>
        (case u of
           GsiCreate idx \<Rightarrow>
             (let t' = t\<lparr>t_GlobalSecondaryIndexes := t_GlobalSecondaryIndexes t @ [idx]\<rparr>
              in (t', backfillIndex tr region t' idx b))
         | GsiDelete name \<Rightarrow>
             (t\<lparr>t_GlobalSecondaryIndexes := filter (\<lambda>g. si_IndexName g \<noteq> name) (t_GlobalSecondaryIndexes t)\<rparr>,
              deleteIndexEntriesForIndex region (t_TableName t) name b)))"

definition updateTableIndexes ::
  "'t tree_ops \<Rightarrow> string \<Rightarrow> string \<Rightarrow> gsiUpdate list \<Rightarrow> 't ddb \<Rightarrow> (ddb_error + Table) \<times> 't ddb"
where
  "updateTableIndexes tr region name updates s =
     (if name = [] then (Inl (MissingParameter ''TableName''), s)
      else case getTable region name s of
        Inl e \<Rightarrow> (Inl e, s)
      | Inr t \<Rightarrow>
          (case fold (apply_gsi_update tr region) updates (t, db_items s) of
             (t', b) \<Rightarrow> (Inr t', if updates = [] then s else putTable region t' (s\<lparr>db_items := b\<rparr>))))"

section \<open>Items\<close>

record putItemRequest =
  pi_TableName :: string
  pi_Item :: Item
  pi_Condition :: condition
  pi_ReturnValues :: string

text \<open>\<^verbatim>\<open>oldItem, _ = h.store.getItem(...)\<close>: an error reads as no item.\<close>

definition read_old :: "'t tree_ops \<Rightarrow> string \<Rightarrow> Table \<Rightarrow> Item \<Rightarrow> 't memItemBackend \<Rightarrow> Item option" where
  "read_old tr region t key b = (case getItem tr region t key b of Inl _ \<Rightarrow> None | Inr i \<Rightarrow> i)"

definition errItemSizeExceeded :: ddb_error where
  "errItemSizeExceeded = ValidationException ''Item size has exceeded the maximum allowed size''"

definition errItemSizeToUpdateExceeded :: ddb_error where
  "errItemSizeToUpdateExceeded = ValidationException ''Item size to update has exceeded the maximum allowed size''"

definition write_put ::
  "'t tree_ops \<Rightarrow> string \<Rightarrow> Table \<Rightarrow> Item \<Rightarrow> Item option \<Rightarrow> 't ddb \<Rightarrow> ddb_error option \<times> 't ddb"
where
  "write_put tr region t item oldItem s =
     (case putItemWithIndexMaintenance tr region t item oldItem (db_items s) of (e, b) \<Rightarrow> (e, s\<lparr>db_items := b\<rparr>))"

definition write_delete ::
  "'t tree_ops \<Rightarrow> string \<Rightarrow> Table \<Rightarrow> Item \<Rightarrow> Item option \<Rightarrow> 't ddb \<Rightarrow> ddb_error option \<times> 't ddb"
where
  "write_delete tr region t key oldItem s =
     (case deleteItemWithIndexMaintenance tr region t key oldItem (db_items s) of (e, b) \<Rightarrow> (e, s\<lparr>db_items := b\<rparr>))"

definition check_existing :: "'e expr_engine \<Rightarrow> 't tree_ops \<Rightarrow> string \<Rightarrow> Table \<Rightarrow> Item \<Rightarrow> condition \<Rightarrow> 't ddb \<Rightarrow> ddb_error option" where
  "check_existing en tr region t item c s =
     (if cd_Expression c = [] then None
      else case getItem tr region t item (db_items s) of
        Inl e \<Rightarrow> Some e
      | Inr existing \<Rightarrow> check_condition en c existing)"

definition putItemTypedCore ::
  "'e expr_engine \<Rightarrow> 't tree_ops \<Rightarrow> string \<Rightarrow> putItemRequest \<Rightarrow> 't ddb \<Rightarrow> (ddb_error + Item option) \<times> 't ddb"
where
  "putItemTypedCore en tr region req s =
     (if pi_TableName req = [] then (Inl (MissingParameter ''TableName''), s)
      else case getTable region (pi_TableName req) s of
        Inl e \<Rightarrow> (Inl e, s)
      | Inr t \<Rightarrow>
          (case validateKeySchema t (pi_Item req) operandItem of
             Some e \<Rightarrow> (Inl e, s)
           | None \<Rightarrow>
               if maxItemSizeBytes < itemSizeBytes (pi_Item req) then (Inl errItemSizeExceeded, s)
               else case check_existing en tr region t (pi_Item req) (pi_Condition req) s of
                 Some e \<Rightarrow> (Inl e, s)
               | None \<Rightarrow>
                   (let oldItem = (if t_streamEnabled t \<or> pi_ReturnValues req = ''ALL_OLD'' \<or> t_GlobalSecondaryIndexes t \<noteq> []
                                   then read_old tr region t (pi_Item req) (db_items s) else None)
                    in case write_put tr region t (pi_Item req) oldItem s of
                         (Some e, s') \<Rightarrow> (Inl e, s')
                       | (None, s') \<Rightarrow> (Inr (if pi_ReturnValues req = ''ALL_OLD'' then oldItem else None), s'))))"

record deleteItemRequest =
  di_TableName :: string
  di_Key :: Item
  di_Condition :: condition
  di_ReturnValues :: string

definition deleteItemTypedCore ::
  "'e expr_engine \<Rightarrow> 't tree_ops \<Rightarrow> string \<Rightarrow> deleteItemRequest \<Rightarrow> 't ddb \<Rightarrow> (ddb_error + Item option) \<times> 't ddb"
where
  "deleteItemTypedCore en tr region req s =
     (if di_TableName req = [] then (Inl (MissingParameter ''TableName''), s)
      else case getTable region (di_TableName req) s of
        Inl e \<Rightarrow> (Inl e, s)
      | Inr t \<Rightarrow>
          (case validateKeySchema t (di_Key req) operandKey of
             Some e \<Rightarrow> (Inl e, s)
           | None \<Rightarrow>
               (let oldItem = (if t_streamEnabled t \<or> cd_Expression (di_Condition req) \<noteq> []
                                  \<or> di_ReturnValues req = ''ALL_OLD'' \<or> t_GlobalSecondaryIndexes t \<noteq> []
                               then read_old tr region t (di_Key req) (db_items s) else None)
                in case check_condition en (di_Condition req) oldItem of
                     Some e \<Rightarrow> (Inl e, s)
                   | None \<Rightarrow>
                       (case write_delete tr region t (di_Key req) oldItem s of
                          (Some e, s') \<Rightarrow> (Inl e, s')
                        | (None, s') \<Rightarrow> (Inr (if di_ReturnValues req = ''ALL_OLD'' then oldItem else None), s')))))"

text \<open>
  \<^verbatim>\<open>UpdateItem\<close>.  The engine's update works on the copy it is given; the compiler of the code
  assigns below the top level in place, through values the copy shares with the stored item.
\<close>

record updateItemRequest =
  ui_TableName :: string
  ui_Key :: Item
  ui_UpdateExpression :: string
  ui_Condition :: condition
  ui_ReturnValues :: string

definition diffItemKeys :: "Item \<Rightarrow> Item \<Rightarrow> string list" where
  "diffItemKeys old new =
     map fst (filter (\<lambda>(k, nv). case map_of old k of None \<Rightarrow> True | Some ov \<Rightarrow> \<not> attrValueEqual ov nv) new)
     @ map fst (filter (\<lambda>(k, _). map_of new k = None) old)"

definition updated_attributes :: "string \<Rightarrow> Item option \<Rightarrow> Item \<Rightarrow> Item option" where
  "updated_attributes returnValues existing item =
     (let old = (case existing of None \<Rightarrow> [] | Some e \<Rightarrow> e) in
      if returnValues = ''ALL_OLD'' then Some old
      else if returnValues = ''ALL_NEW'' then Some item
      else if returnValues = ''UPDATED_NEW'' then Some (fold (keep_attr item) (diffItemKeys old item) [])
      else if returnValues = ''UPDATED_OLD'' then Some (fold (keep_attr old) (diffItemKeys old item) [])
      else None)"

definition updated_item ::
  "'e expr_engine \<Rightarrow> Item \<Rightarrow> Item option \<Rightarrow> string \<Rightarrow> string gomap \<Rightarrow> attrValue gomap \<Rightarrow> ddb_error + Item"
where
  "updated_item en key existing expr names values =
     (let item = cloneItem (case existing of None \<Rightarrow> key | Some e \<Rightarrow> e) in
      if expr = [] then Inr item
      else case ex_applyUpdate en item expr names values of Inl err \<Rightarrow> Inl (ValidationException err) | Inr i \<Rightarrow> Inr i)"

definition updateItemTypedCore ::
  "'e expr_engine \<Rightarrow> 't tree_ops \<Rightarrow> string \<Rightarrow> updateItemRequest \<Rightarrow> 't ddb \<Rightarrow> (ddb_error + Item option) \<times> 't ddb"
where
  "updateItemTypedCore en tr region req s =
     (if ui_TableName req = [] then (Inl (MissingParameter ''TableName''), s)
      else case getTable region (ui_TableName req) s of
        Inl e \<Rightarrow> (Inl e, s)
      | Inr t \<Rightarrow>
          (case validateKeySchema t (ui_Key req) operandKey of
             Some e \<Rightarrow> (Inl e, s)
           | None \<Rightarrow>
               (case getItem tr region t (ui_Key req) (db_items s) of
                  Inl e \<Rightarrow> (Inl e, s)
                | Inr existing \<Rightarrow>
                    (case check_condition en (ui_Condition req) existing of
                       Some e \<Rightarrow> (Inl e, s)
                     | None \<Rightarrow>
                         (case updated_item en (ui_Key req) existing (ui_UpdateExpression req)
                                 (cd_Names (ui_Condition req)) (cd_Values (ui_Condition req)) of
                            Inl e \<Rightarrow> (Inl e, s)
                          | Inr item \<Rightarrow>
                              if maxItemSizeBytes < itemSizeBytes item then (Inl errItemSizeToUpdateExceeded, s)
                              else (case write_put tr region t item existing s of
                                      (Some e, s') \<Rightarrow> (Inl e, s')
                                    | (None, s') \<Rightarrow> (Inr (updated_attributes (ui_ReturnValues req) existing item), s')))))))"

section \<open>Batches\<close>

datatype writeRequest = PutRequest Item | DeleteRequest Item | EmptyRequest

definition write_key :: "writeRequest \<Rightarrow> (Item \<times> keyOperand) option" where
  "write_key op = (case op of PutRequest i \<Rightarrow> Some (i, operandItem) | DeleteRequest k \<Rightarrow> Some (k, operandKey) | EmptyRequest \<Rightarrow> None)"

fun validate_ops :: "Table \<Rightarrow> string list \<Rightarrow> writeRequest list \<Rightarrow> ddb_error option" where
  "validate_ops t seen [] = None"
| "validate_ops t seen (op # ops) =
     (case write_key op of
        None \<Rightarrow> validate_ops t seen ops
      | Some (keyOrItem, operand) \<Rightarrow>
          (case validateKeySchema t keyOrItem operand of
             Some e \<Rightarrow> Some e
           | None \<Rightarrow>
               if operand = operandItem \<and> maxItemSizeBytes < itemSizeBytes keyOrItem then Some errItemSizeExceeded
               else case itemIdentity t keyOrItem of
                 Inl e \<Rightarrow> Some e
               | Inr ident \<Rightarrow>
                   if ident \<in> set seen then Some (ValidationException ''Provided list of item keys contains duplicates'')
                   else validate_ops t (ident # seen) ops))"

fun resolve_tables :: "string \<Rightarrow> 't ddb \<Rightarrow> writeRequest list gomap \<Rightarrow> ddb_error + (Table \<times> writeRequest list) list" where
  "resolve_tables region s [] = Inr []"
| "resolve_tables region s ((name, ops) # reqs) =
     (case getTable region name s of
        Inl e \<Rightarrow> Inl e
      | Inr t \<Rightarrow>
          (case validate_ops t [] ops of
             Some e \<Rightarrow> Inl e
           | None \<Rightarrow> (case resolve_tables region s reqs of Inl e \<Rightarrow> Inl e | Inr ts \<Rightarrow> Inr ((t, ops) # ts))))"

definition apply_op :: "'t tree_ops \<Rightarrow> string \<Rightarrow> Table \<Rightarrow> writeRequest \<Rightarrow> 't ddb \<Rightarrow> ddb_error option \<times> 't ddb" where
  "apply_op tr region t op s =
     (let old = (\<lambda>key. if t_streamEnabled t \<or> t_GlobalSecondaryIndexes t \<noteq> [] then read_old tr region t key (db_items s) else None) in
      case op of
        PutRequest item \<Rightarrow> write_put tr region t item (old item) s
      | DeleteRequest key \<Rightarrow> write_delete tr region t key (old key) s
      | EmptyRequest \<Rightarrow> (None, s))"

fun apply_ops :: "'t tree_ops \<Rightarrow> string \<Rightarrow> (Table \<times> writeRequest) list \<Rightarrow> 't ddb \<Rightarrow> ddb_error option \<times> 't ddb" where
  "apply_ops tr region [] s = (None, s)"
| "apply_ops tr region ((t, op) # ops) s =
     (case apply_op tr region t op s of
        (Some e, s') \<Rightarrow> (Some e, s')
      | (None, s') \<Rightarrow> apply_ops tr region ops s')"

definition batchWriteItemTypedCore ::
  "'t tree_ops \<Rightarrow> string \<Rightarrow> writeRequest list gomap \<Rightarrow> 't ddb \<Rightarrow> ddb_error option \<times> 't ddb"
where
  "batchWriteItemTypedCore tr region reqs s =
     (if 25 < sum_list (map (length \<circ> snd) reqs)
      then (Some (ValidationException ''Too many items requested for the BatchWriteItem call''), s)
      else case resolve_tables region s reqs of
        Inl e \<Rightarrow> (Some e, s)
      | Inr ts \<Rightarrow> apply_ops tr region (concat (map (\<lambda>(t, ops). map (Pair t) ops) ts)) s)"

section \<open>Transactions\<close>

text \<open>
  A member of \<^verbatim>\<open>TransactItems\<close> has four optional actions.  The code takes the first that is
  present, in the order below; the size check looks at the \<^verbatim>\<open>Put\<close> of a member whether or
  not it is the action taken.
\<close>

record transactWriteItem =
  ti_ConditionCheck :: "(string \<times> Item \<times> condition) option"
  ti_Put :: "(string \<times> Item \<times> condition) option"
  ti_Delete :: "(string \<times> Item \<times> condition) option"
  ti_Update :: "(string \<times> Item \<times> string \<times> condition) option"

datatype txItem =
    TxConditionCheck string Item condition
  | TxPut string Item condition
  | TxDelete string Item condition
  | TxUpdate string Item string condition
  | TxNone

definition tx_action :: "transactWriteItem \<Rightarrow> txItem" where
  "tx_action m =
     (case ti_ConditionCheck m of
        Some (name, key, c) \<Rightarrow> TxConditionCheck name key c
      | None \<Rightarrow>
          (case ti_Put m of
             Some (name, item, c) \<Rightarrow> TxPut name item c
           | None \<Rightarrow>
               (case ti_Delete m of
                  Some (name, key, c) \<Rightarrow> TxDelete name key c
                | None \<Rightarrow>
                    (case ti_Update m of
                       Some (name, key, expr, c) \<Rightarrow> TxUpdate name key expr c
                     | None \<Rightarrow> TxNone))))"

definition put_too_large :: "transactWriteItem \<Rightarrow> bool" where
  "put_too_large m = (case ti_Put m of None \<Rightarrow> False | Some (_, item, _) \<Rightarrow> maxItemSizeBytes < itemSizeBytes item)"

fun tx_target :: "txItem \<Rightarrow> (string \<times> Item \<times> keyOperand \<times> condition) option" where
  "tx_target (TxConditionCheck n k c) = Some (n, k, operandKey, c)"
| "tx_target (TxPut n i c) = Some (n, i, operandItem, c)"
| "tx_target (TxDelete n k c) = Some (n, k, operandKey, c)"
| "tx_target (TxUpdate n k e c) = Some (n, k, operandKey, c)"
| "tx_target TxNone = None"

text \<open>
  Phase 1: the first fault of the request itself is the answer; a condition that does not
  hold or an item that is too large is recorded as a cancellation reason.
\<close>

fun tx_resolve ::
  "'e expr_engine \<Rightarrow> 't tree_ops \<Rightarrow> string \<Rightarrow> 't ddb \<Rightarrow> string list \<Rightarrow> transactWriteItem list
    \<Rightarrow> ddb_error + (txItem \<times> Table \<times> Item option \<times> string) list"
where
  "tx_resolve en tr region s targeted [] = Inr []"
| "tx_resolve en tr region s targeted (m # ms) =
     (case tx_target (tx_action m) of
        None \<Rightarrow> Inl (ValidationException
          ''TransactItems member must contain exactly one of Put, Delete, Update, or ConditionCheck'')
      | Some (name, key, operand, c) \<Rightarrow>
          (case getTable region name s of
             Inl e \<Rightarrow> Inl e
           | Inr t \<Rightarrow>
               (case validateKeySchema t key operand of
                  Some e \<Rightarrow> Inl e
                | None \<Rightarrow>
                    (case itemIdentity t key of
                       Inl e \<Rightarrow> Inl e
                     | Inr ident0 \<Rightarrow>
                         (let ident = name @ [CHR 0x00] @ ident0 in
                          if ident \<in> set targeted
                          then Inl (ValidationException ''Transaction request cannot include multiple operations on one item'')
                          else case getItem tr region t key (db_items s) of
                            Inl e \<Rightarrow> Inl e
                          | Inr existing \<Rightarrow>
                              (case check_condition en c existing of
                                 Some (ValidationException e) \<Rightarrow> Inl (ValidationException e)
                               | failed \<Rightarrow>
                                   (let reason =
                                          (if failed \<noteq> None then ''ConditionalCheckFailed''
                                           else if put_too_large m then ''ValidationError'' else [])
                                    in case tx_resolve en tr region s (ident # targeted) ms of
                                         Inl e \<Rightarrow> Inl e
                                       | Inr rs \<Rightarrow> Inr ((tx_action m, t, existing, reason) # rs))))))))"

definition tx_apply_one ::
  "'e expr_engine \<Rightarrow> 't tree_ops \<Rightarrow> string \<Rightarrow> txItem \<Rightarrow> Table \<Rightarrow> Item option \<Rightarrow> 't ddb \<Rightarrow> ddb_error option \<times> 't ddb"
where
  "tx_apply_one en tr region x t oldItem s =
     (case x of
        TxConditionCheck _ _ _ \<Rightarrow> (None, s)
      | TxPut _ item _ \<Rightarrow> write_put tr region t item oldItem s
      | TxDelete _ key _ \<Rightarrow> write_delete tr region t key oldItem s
      | TxUpdate _ key expr c \<Rightarrow>
          (case updated_item en key oldItem expr (cd_Names c) (cd_Values c) of
             Inl e \<Rightarrow> (Some e, s)
           | Inr item \<Rightarrow> write_put tr region t item oldItem s)
      | TxNone \<Rightarrow> (None, s))"

fun tx_apply ::
  "'e expr_engine \<Rightarrow> 't tree_ops \<Rightarrow> string \<Rightarrow> (txItem \<times> Table \<times> Item option \<times> string) list \<Rightarrow> 't ddb
    \<Rightarrow> ddb_error option \<times> 't ddb"
where
  "tx_apply en tr region [] s = (None, s)"
| "tx_apply en tr region ((x, t, oldItem, _) # rs) s =
     (case tx_apply_one en tr region x t oldItem s of
        (Some e, s') \<Rightarrow> (Some e, s')
      | (None, s') \<Rightarrow> tx_apply en tr region rs s')"

definition transactWriteItemsTypedCore ::
  "'e expr_engine \<Rightarrow> 't tree_ops \<Rightarrow> string \<Rightarrow> transactWriteItem list \<Rightarrow> 't ddb \<Rightarrow> ddb_error option \<times> 't ddb"
where
  "transactWriteItemsTypedCore en tr region items s =
     (if 100 < length items
      then (Some (ValidationException ''Member must have length less than or equal to 100''), s)
      else case tx_resolve en tr region s [] items of
        Inl e \<Rightarrow> (Some e, s)
      | Inr rs \<Rightarrow>
          (let reasons = map (\<lambda>(_, _, _, reason). reason) rs in
           if \<exists>r\<in>set reasons. r \<noteq> [] then (Some (TransactionCanceledException reasons), s)
           else tx_apply en tr region rs s))"

end
