(* ===== verification/Ddb_Writes.thy ===== *)
theory Ddb_Writes
  imports Ddb_Handler
begin

text \<open>
  What one request does to the items: the expiry sweep, the invariant of the whole store
  (\<open>db_consistent\<close>: every table agrees with its indexes, and nothing is stored
  for a table that does not exist), and that the requests for tables, indexes, single
  items and batches keep it.
\<close>

section \<open>The expiry sweep\<close>

context item_tree
begin

lemma deleteItem_views:
  assumes "storable t i" "deleteItem tr region t i b = (e, b')"
  shows "index_view tr b' = index_view tr b"
    "table_view tr b' = (table_view tr b)(tableKey region (t_TableName t) :=
        (table_view tr b (tableKey region (t_TableName t)))(itemCompositeKey (fst (storage t i)) (snd (storage t i)) := None))"
  using assms storable_storage(1) [OF assms(1)]
  by (auto simp: deleteItem_def backend_remove_def split: prod.splits)

lemma sweep_fold:
  fixes region t
  defines "tk \<equiv> tableKey region (t_TableName t)"
    and "key \<equiv> \<lambda>i. itemCompositeKey (fst (storage t i)) (snd (storage t i))"
  assumes "\<And>i. i \<in> set items \<Longrightarrow> storable t i"
  shows "index_view tr (fold (\<lambda>item b. snd (deleteItem tr region t item b)) items b) = index_view tr b
    \<and> table_view tr (fold (\<lambda>item b. snd (deleteItem tr region t item b)) items b)
      = (table_view tr b)(tk := (\<lambda>k. if k \<in> key ` set items then None else table_view tr b tk k))"
  using assms(3)
proof (induction items arbitrary: b)
  case (Cons i items)
  obtain e b' where d: "deleteItem tr region t i b = (e, b')" by fastforce
  have st: "storable t i" "\<And>j. j \<in> set items \<Longrightarrow> storable t j" using Cons.prems by auto
  note v = deleteItem_views [OF st(1) d, folded tk_def]
  show ?case
    using Cons.IH [OF st(2), of b'] unfolding fold_simps o_apply d snd_conv v
    by (simp add: fun_eq_iff key_def)
qed simp

text \<open>The sweep removes the expired items of the table, and no row of any index.\<close>

lemma sweep_views:
  fixes region t b
  defines "tk \<equiv> tableKey region (t_TableName t)"
  assumes c: "consistent tr region t b"
  shows "index_view tr (sweepTable tr pf region t now b) = index_view tr b"
    "table_view tr (sweepTable tr pf region t now b) = (table_view tr b)(tk := (\<lambda>k. case table_view tr b tk k of
        None \<Rightarrow> None | Some i \<Rightarrow> if expired pf (t_TTLAttribute t) now i then None else Some i))"
proof -
  let ?ex = "expired pf (t_TTLAttribute t) now" and ?m = "table_view tr b tk"
  let ?items = "filter ?ex (scanAll tr b tk)"
  have items: "set ?items = {i. (\<exists>k. ?m k = Some i) \<and> ?ex i}"
    using scanItems_set [of region "t_TableName t" b] by (auto simp: scanItems_def tk_def)
  have st: "storable t i \<and> k = itemCompositeKey (fst (storage t i)) (snd (storage t i))" if "?m k = Some i" for i k
    using consistent_items [OF c that [unfolded tk_def]] by blast
  then have st': "storable t i" if "i \<in> set ?items" for i using that items by blast
  have s: "sweepTable tr pf region t now b = fold (\<lambda>item b. snd (deleteItem tr region t item b)) ?items b"
    by (simp add: sweepTable_def scanExpiredTTL_def tk_def)
  show "index_view tr (sweepTable tr pf region t now b) = index_view tr b"
    unfolding s using sweep_fold [OF st'] by blast
  have "(\<lambda>k. if k \<in> (\<lambda>i. itemCompositeKey (fst (storage t i)) (snd (storage t i))) ` set ?items then None else ?m k)
      = (\<lambda>k. case ?m k of None \<Rightarrow> None | Some i \<Rightarrow> if ?ex i then None else Some i)"
  proof
    fix k
    show "(if k \<in> (\<lambda>i. itemCompositeKey (fst (storage t i)) (snd (storage t i))) ` set ?items then None else ?m k)
      = (case ?m k of None \<Rightarrow> None | Some i \<Rightarrow> if ?ex i then None else Some i)"
    proof (cases "?m k")
      case None
      then show ?thesis by simp
    next
      case (Some i)
      have "k \<in> (\<lambda>i. itemCompositeKey (fst (storage t i)) (snd (storage t i))) ` set ?items \<longleftrightarrow> ?ex i"
        unfolding items using st Some by force
      then show ?thesis using Some by simp
    qed
  qed
  then show "table_view tr (sweepTable tr pf region t now b) = (table_view tr b)(tk := (\<lambda>k. case ?m k of
        None \<Rightarrow> None | Some i \<Rightarrow> if ?ex i then None else Some i))"
    unfolding s using conjunct2 [OF sweep_fold [OF st', where region = region and b = b and items = "?items"]]
    unfolding tk_def by (simp only:)
qed

lemma sweep_consistent:
  assumes c: "consistent tr region t b" and none: "t_GlobalSecondaryIndexes t = []"
  shows "consistent tr region t (sweepTable tr pf region t now b)"
proof (rule consistentI [OF refl refl])
  show "well_stored t (table_view tr (sweepTable tr pf region t now b) (tableKey region (t_TableName t)))"
    using c unfolding sweep_views(2) [OF c] by (auto simp: consistent_def Let_def well_stored_def split: option.splits if_split_asm)
  have "index_view tr b (tableKey region (t_TableName t)) name = Map.empty" for name
    using c none by (auto simp: consistent_def Let_def)
  then show "case find_named name (t_GlobalSecondaryIndexes t) of
        None \<Rightarrow> index_view tr (sweepTable tr pf region t now b) (tableKey region (t_TableName t)) name = Map.empty
      | Some idx \<Rightarrow> indexed t idx (table_view tr (sweepTable tr pf region t now b) (tableKey region (t_TableName t)))
          (index_view tr (sweepTable tr pf region t now b) (tableKey region (t_TableName t)) name)" for name
    using none by (simp add: sweep_views(1) [OF c])
qed

end

section \<open>The invariant of the store\<close>

definition region_ok :: "string \<Rightarrow> bool" where
  "region_ok region \<longleftrightarrow> region \<noteq> [] \<and> CHR ''/'' \<notin> set region"

lemma tableKey_eq:
  "region_ok r \<Longrightarrow> region_ok r' \<Longrightarrow> tableKey r n = tableKey r' n' \<longleftrightarrow> r = r' \<and> n = n'"
proof -
  have "r = r'" if "r @ CHR ''/'' # n = r' @ CHR ''/'' # n'" "CHR ''/'' \<notin> set r" "CHR ''/'' \<notin> set r'"
    using that by (induction r arbitrary: r') (case_tac r'; auto)+
  then show "region_ok r \<Longrightarrow> region_ok r' \<Longrightarrow> tableKey r n = tableKey r' n' \<longleftrightarrow> r = r' \<and> n = n'"
    by (auto simp: region_ok_def tableKey_def)
qed

definition db_consistent :: "'t tree_ops \<Rightarrow> 't ddb \<Rightarrow> bool" where
  "db_consistent tr s \<longleftrightarrow>
     (\<forall>tk. case map_of (db_tables s) tk of
        None \<Rightarrow> table_view tr (db_items s) tk = Map.empty \<and> index_view tr (db_items s) tk = (\<lambda>_. Map.empty)
      | Some t \<Rightarrow> (\<exists>region. region_ok region \<and> tk = tableKey region (t_TableName t) \<and> wf_indexes t
            \<and> consistent tr region t (db_items s)))"

lemma getTable_Inr: "getTable region name s = Inr t \<longleftrightarrow> map_of (db_tables s) (tableKey region name) = Some t"
  by (simp add: getTable_def split: option.split)

lemma db_consistent_absent:
  assumes "db_consistent tr s" "map_of (db_tables s) tk = None"
  shows "table_view tr (db_items s) tk = Map.empty" "index_view tr (db_items s) tk = (\<lambda>_. Map.empty)"
proof -
  have "case map_of (db_tables s) tk of
        None \<Rightarrow> table_view tr (db_items s) tk = Map.empty \<and> index_view tr (db_items s) tk = (\<lambda>_. Map.empty)
      | Some t \<Rightarrow> (\<exists>region. region_ok region \<and> tk = tableKey region (t_TableName t) \<and> wf_indexes t
            \<and> consistent tr region t (db_items s))"
    using assms(1) unfolding db_consistent_def by blast
  then show "table_view tr (db_items s) tk = Map.empty" "index_view tr (db_items s) tk = (\<lambda>_. Map.empty)"
    unfolding assms(2) option.case by blast+
qed

lemma db_consistentD:
  assumes "db_consistent tr s" "region_ok region" "getTable region name s = Inr t"
  shows "t_TableName t = name" "wf_indexes t" "consistent tr region t (db_items s)"
proof -
  have "map_of (db_tables s) (tableKey region name) = Some t" using assms(3) by (simp add: getTable_Inr)
  moreover have "case map_of (db_tables s) (tableKey region name) of
      None \<Rightarrow> True | Some t \<Rightarrow> \<exists>r. region_ok r \<and> tableKey region name = tableKey r (t_TableName t) \<and> wf_indexes t
        \<and> consistent tr r t (db_items s)"
    using assms(1) unfolding db_consistent_def by (auto split: option.splits)
  ultimately obtain r where r: "region_ok r" "tableKey region name = tableKey r (t_TableName t)" "wf_indexes t"
      "consistent tr r t (db_items s)" by auto
  with tableKey_eq [OF assms(2) r(1)] show "t_TableName t = name" "wf_indexes t" "consistent tr region t (db_items s)"
    by auto
qed

context item_tree
begin

lemma consistent_frame:
  assumes "same_elsewhere tk b b'" "tableKey region (t_TableName t) \<noteq> tk" "consistent tr region t b"
  shows "consistent tr region t b'"
proof -
  have eqs: "table_view tr b' (tableKey region (t_TableName t)) = table_view tr b (tableKey region (t_TableName t))"
    "index_view tr b' (tableKey region (t_TableName t)) = index_view tr b (tableKey region (t_TableName t))"
    using assms(1,2) unfolding same_elsewhere_def by blast+
  show ?thesis using assms(3) unfolding consistent_def Let_def eqs .
qed

text \<open>A request that touches one table only has to account for that table.\<close>

lemma db_frame:
  assumes s: "db_consistent tr s" and r: "region_ok region" and else: "same_elsewhere (tableKey region name) (db_items s) (db_items s')"
    and tables: "\<And>tk. tk \<noteq> tableKey region name \<Longrightarrow> map_of (db_tables s') tk = map_of (db_tables s) tk"
    and own: "case map_of (db_tables s') (tableKey region name) of
        None \<Rightarrow> table_view tr (db_items s') (tableKey region name) = Map.empty
          \<and> index_view tr (db_items s') (tableKey region name) = (\<lambda>_. Map.empty)
      | Some t \<Rightarrow> t_TableName t = name \<and> wf_indexes t \<and> consistent tr region t (db_items s')"
  shows "db_consistent tr s'"
  unfolding db_consistent_def
proof (intro allI)
  fix tk
  show "case map_of (db_tables s') tk of
        None \<Rightarrow> table_view tr (db_items s') tk = Map.empty \<and> index_view tr (db_items s') tk = (\<lambda>_. Map.empty)
      | Some t \<Rightarrow> (\<exists>region. region_ok region \<and> tk = tableKey region (t_TableName t) \<and> wf_indexes t
            \<and> consistent tr region t (db_items s'))"
  proof (cases "tk = tableKey region name")
    case True
    then show ?thesis using own r by (auto split: option.splits)
  next
    case False
    have old: "case map_of (db_tables s) tk of
        None \<Rightarrow> table_view tr (db_items s) tk = Map.empty \<and> index_view tr (db_items s) tk = (\<lambda>_. Map.empty)
      | Some t \<Rightarrow> (\<exists>region. region_ok region \<and> tk = tableKey region (t_TableName t) \<and> wf_indexes t
            \<and> consistent tr region t (db_items s))"
      using s unfolding db_consistent_def by blast
    show ?thesis
    proof (cases "map_of (db_tables s) tk")
      case None
      then show ?thesis using old tables [OF False] else False by (simp add: same_elsewhere_def)
    next
      case (Some t)
      with old obtain q where "region_ok q" "tk = tableKey q (t_TableName t)" "wf_indexes t" "consistent tr q t (db_items s)"
        by auto
      with consistent_frame [OF else] Some tables [OF False] False show ?thesis by auto
    qed
  qed
qed

lemma db_write:
  assumes "db_consistent tr s" "region_ok region" "getTable region name s = Inr t"
    and "consistent tr region t b'" "same_elsewhere (tableKey region name) (db_items s) b'"
  shows "db_consistent tr (s\<lparr>db_items := b'\<rparr>)"
proof (rule db_frame [OF assms(1,2)])
  have t: "map_of (db_tables (s\<lparr>db_items := b'\<rparr>)) (tableKey region name) = Some t" "db_items (s\<lparr>db_items := b'\<rparr>) = b'"
    using assms(3) by (simp_all add: getTable_Inr)
  show "case map_of (db_tables (s\<lparr>db_items := b'\<rparr>)) (tableKey region name) of
        None \<Rightarrow> table_view tr (db_items (s\<lparr>db_items := b'\<rparr>)) (tableKey region name) = Map.empty
          \<and> index_view tr (db_items (s\<lparr>db_items := b'\<rparr>)) (tableKey region name) = (\<lambda>_. Map.empty)
      | Some t \<Rightarrow> t_TableName t = name \<and> wf_indexes t \<and> consistent tr region t (db_items (s\<lparr>db_items := b'\<rparr>))"
    unfolding t option.case using assms(4) db_consistentD [OF assms(1-3)] by simp
qed (use assms(5) in simp_all)

lemma write_put_ok:
  assumes s: "db_consistent tr s" "region_ok region" "getTable region name s = Inr t" and item: "storable t item"
    and old: "getItem tr region t item (db_items s) = Inr old \<or> t_GlobalSecondaryIndexes t = []"
  obtains s' key where "write_put tr region t item old s = (None, s')" "item_key t item = Some key"
    "db_consistent tr s'" "db_tables s' = db_tables s"
    "table_view tr (db_items s') = (table_view tr (db_items s))(tableKey region name :=
        (table_view tr (db_items s) (tableKey region name))(key \<mapsto> item))"
proof -
  note t = db_consistentD [OF s]
  obtain b' key where b: "putItemWithIndexMaintenance tr region t item old (db_items s) = (None, b')"
    "item_key t item = Some key" "consistent tr region t b'"
    "table_view tr b' = (table_view tr (db_items s))(tableKey region (t_TableName t) :=
        (table_view tr (db_items s) (tableKey region (t_TableName t)))(key \<mapsto> item))"
    "same_elsewhere (tableKey region (t_TableName t)) (db_items s) b'"
    using put_consistent [OF t(3,2) item old] .
  show thesis
    by (rule that [of "s\<lparr>db_items := b'\<rparr>" key])
      (use b t(1) db_write [OF s b(3)] in \<open>simp_all add: write_put_def\<close>)
qed

lemma write_delete_ok:
  assumes s: "db_consistent tr s" "region_ok region" "getTable region name s = Inr t"
    and key: "item_key t item = Some key"
    and old: "getItem tr region t item (db_items s) = Inr old \<or> t_GlobalSecondaryIndexes t = []"
  obtains s' where "write_delete tr region t item old s = (None, s')" "db_consistent tr s'" "db_tables s' = db_tables s"
    "table_view tr (db_items s') = (table_view tr (db_items s))(tableKey region name :=
        (table_view tr (db_items s) (tableKey region name))(key := None))"
proof -
  note t = db_consistentD [OF s]
  obtain h k where r: "resolveStorageKeys t item = Inr (h, k)" "key = itemCompositeKey h k"
    using key by (auto simp: item_key_def split: sum.splits)
  obtain b' where b: "deleteItemWithIndexMaintenance tr region t item old (db_items s) = (None, b')" "consistent tr region t b'"
    "table_view tr b' = (table_view tr (db_items s))(tableKey region (t_TableName t) :=
        (table_view tr (db_items s) (tableKey region (t_TableName t)))(itemCompositeKey h k := None))"
    "same_elsewhere (tableKey region (t_TableName t)) (db_items s) b'"
    using delete_consistent [OF t(3,2) r(1) old] .
  show thesis
    by (rule that [of "s\<lparr>db_items := b'\<rparr>"])
      (use b r(2) t(1) db_write [OF s b(2)] in \<open>simp_all add: write_delete_def\<close>)
qed

lemma getItem_eq:
  "item_key t item = Some key \<Longrightarrow> getItem tr region t item b = Inr (table_view tr b (tableKey region (t_TableName t)) key)"
  by (auto simp: getItem_def item_key_def split: sum.splits)

lemma getItem_Inr: "getItem tr region t item b = Inr old \<Longrightarrow> item_key t item \<noteq> None"
  by (auto simp: getItem_def item_key_def split: sum.splits)

lemma read_old_eq: "item_key t item \<noteq> None \<Longrightarrow> getItem tr region t item b = Inr (read_old tr region t item b)"
  by (auto simp: read_old_def getItem_eq)

text \<open>Tables appear empty and disappear with their items and index rows.\<close>

lemma storeNewTable_ok:
  assumes s: "db_consistent tr s" "region_ok region" and t: "wf_indexes t"
  shows "db_consistent tr (snd (storeNewTable region t s))"
proof (cases "map_of (db_tables s) (tableKey region (t_TableName t))")
  case None
  have "consistent tr region t (db_items s)" using db_consistent_absent [OF s(1) None] by (intro empty_consistent)
  then have "db_consistent tr (putTable region t s)"
    by (intro db_frame [OF s, of "t_TableName t"]) (use t in \<open>simp_all add: putTable_def same_elsewhere_def\<close>)
  then show ?thesis using None by (simp add: storeNewTable_def)
qed (simp add: storeNewTable_def s)

lemma deleteTable_ok:
  assumes s: "db_consistent tr s" "region_ok region"
  shows "db_consistent tr (deleteTable region name s)"
  by (rule db_frame [OF s, of name]) (simp_all add: deleteTable_def same_elsewhere_def)

lemma deleteTableTyped_ok:
  assumes "db_consistent tr s" "region_ok region"
  shows "db_consistent tr (snd (deleteTableTyped region name s))"
  using deleteTable_ok [OF assms] assms(1) by (simp add: deleteTableTyped_def split: sum.split)

end

section \<open>Index updates\<close>

text \<open>A new index needs a new name, and keys the items of the table can be stored under.\<close>

fun gsi_updates_ok :: "'t tree_ops \<Rightarrow> string \<Rightarrow> gsiUpdate list \<Rightarrow> Table \<times> 't memItemBackend \<Rightarrow> bool" where
  "gsi_updates_ok tr region [] tb \<longleftrightarrow> True"
| "gsi_updates_ok tr region (u # us) tb \<longleftrightarrow>
     (case u of
        GsiCreate idx \<Rightarrow> find_named (si_IndexName idx) (t_GlobalSecondaryIndexes (fst tb)) = None
          \<and> list_all (storable (with_indexes (fst tb) (t_GlobalSecondaryIndexes (fst tb) @ [idx])))
              (scanItems tr region (t_TableName (fst tb)) (snd tb))
      | GsiDelete _ \<Rightarrow> True)
     \<and> gsi_updates_ok tr region us (apply_gsi_update tr region u tb)"

context item_tree
begin

lemma applyIndexMutations_elsewhere: "same_elsewhere (tableKey region name) b (applyIndexMutations tr region name ms b)"
  by (simp add: same_elsewhere_def applyIndexMutations_def)

lemma backfillIndex_elsewhere: "same_elsewhere (tableKey region (t_TableName t)) b (backfillIndex tr region t idx b)"
  by (auto simp: backfillIndex_def Let_def applyIndexMutations_elsewhere) (simp add: same_elsewhere_def)

lemma apply_gsi_updates_ok:
  assumes "consistent tr region t b" "wf_indexes t" "gsi_updates_ok tr region us (t, b)"
    and "fold (apply_gsi_update tr region) us (t, b) = (t', b')"
  shows "consistent tr region t' b' \<and> wf_indexes t' \<and> t_TableName t' = t_TableName t
    \<and> same_elsewhere (tableKey region (t_TableName t)) b b'"
  using assms
proof (induction us arbitrary: t b)
  case Nil
  then show ?case by (simp add: same_elsewhere_def)
next
  case (Cons u us)
  obtain t1 b1 where u: "apply_gsi_update tr region u (t, b) = (t1, b1)" by fastforce
  have "consistent tr region t1 b1 \<and> wf_indexes t1 \<and> t_TableName t1 = t_TableName t
    \<and> same_elsewhere (tableKey region (t_TableName t)) b b1"
  proof (cases u)
    case (GsiCreate idx)
    let ?t = "with_indexes t (t_GlobalSecondaryIndexes t @ [idx])"
    have t1: "t1 = ?t" "b1 = backfillIndex tr region ?t idx b"
      using u unfolding GsiCreate by (auto simp: apply_gsi_update_def with_indexes_def Let_def)
    have ok: "find_named (si_IndexName idx) (t_GlobalSecondaryIndexes t) = None"
      "list_all (storable ?t) (scanItems tr region (t_TableName t) b)"
      using Cons.prems(3) unfolding GsiCreate by simp_all
    have st: "storable ?t i" if "table_view tr b (tableKey region (t_TableName t)) k = Some i" for k i
      using that ok(2) by (auto simp: list_all_iff scanItems_set)
    show ?thesis
      using backfill_consistent [OF Cons.prems(1) ok(1) st] backfillIndex_elsewhere [of region ?t b idx]
        Cons.prems(2) ok(1) by (simp add: t1 wf_indexes_def find_named_None)
  next
    case (GsiDelete name)
    let ?t = "with_indexes t (filter (\<lambda>g. si_IndexName g \<noteq> name) (t_GlobalSecondaryIndexes t))"
    have t1: "t1 = ?t" "b1 = deleteIndexEntriesForIndex region (t_TableName t) name b"
      using u unfolding GsiDelete by (simp_all add: apply_gsi_update_def with_indexes_def)
    have "wf_indexes ?t" using Cons.prems(2) by (simp add: wf_indexes_def distinct_map_filter)
    moreover have "same_elsewhere (tableKey region (t_TableName t)) b b1"
      by (simp add: t1 same_elsewhere_def deleteIndexEntriesForIndex_def)
    ultimately show ?thesis using drop_index_consistent [OF Cons.prems(1), of name] by (simp add: t1)
  qed
  moreover from this have "consistent tr region t' b' \<and> wf_indexes t' \<and> t_TableName t' = t_TableName t1
    \<and> same_elsewhere (tableKey region (t_TableName t1)) b1 b'"
    using Cons.IH [of t1 b1] Cons.prems(3,4) u by auto
  ultimately show ?case by (simp add: same_elsewhere_def)
qed

lemma updateTableIndexes_ok:
  assumes s: "db_consistent tr s" "region_ok region"
    and ok: "\<And>t. getTable region name s = Inr t \<Longrightarrow> gsi_updates_ok tr region us (t, db_items s)"
  shows "db_consistent tr (snd (updateTableIndexes tr region name us s))"
proof (cases "getTable region name s")
  case (Inr t)
  note t = db_consistentD [OF s Inr]
  obtain t' b where f: "fold (apply_gsi_update tr region) us (t, db_items s) = (t', b)" by fastforce
  note r = apply_gsi_updates_ok [OF t(3,2) ok [OF Inr] f]
  have "db_consistent tr (putTable region t' (s\<lparr>db_items := b\<rparr>))"
    by (rule db_frame [OF s, of name]) (use r t(1) in \<open>simp_all add: putTable_def\<close>)
  then show ?thesis using s Inr f by (simp add: updateTableIndexes_def)
qed (simp add: updateTableIndexes_def s)

end

section \<open>Requests for single items\<close>

text \<open>
  What the invariant asks of an update: the expression may not assign the primary key, and
  the new item must be one the table can store.
\<close>

definition update_keeps_key ::
  "'e expr_engine \<Rightarrow> 't tree_ops \<Rightarrow> string \<Rightarrow> Table \<Rightarrow> Item \<Rightarrow> string \<Rightarrow> condition \<Rightarrow> 't memItemBackend \<Rightarrow> bool"
where
  "update_keeps_key en tr region t key expr c b =
     (case getItem tr region t key b of
        Inl _ \<Rightarrow> True
      | Inr existing \<Rightarrow>
          (case updated_item en key existing expr (cd_Names c) (cd_Values c) of
             Inl _ \<Rightarrow> True
           | Inr item \<Rightarrow> storable t item \<and> item_key t item = item_key t key))"

context item_tree
begin

lemma putItemTypedCore_ok:
  assumes s: "db_consistent tr s" "region_ok region"
    and ok: "\<And>t. getTable region (pi_TableName req) s = Inr t \<Longrightarrow> storable t (pi_Item req)"
  shows "db_consistent tr (snd (putItemTypedCore en tr region req s))"
proof (cases "getTable region (pi_TableName req) s")
  case (Inr t)
  have st: "storable t (pi_Item req)" using ok [OF Inr] .
  have k: "item_key t (pi_Item req) \<noteq> None" using st by (auto elim: storable_resolve)
  define old where "old = (if t_streamEnabled t \<or> pi_ReturnValues req = ''ALL_OLD'' \<or> t_GlobalSecondaryIndexes t \<noteq> []
      then read_old tr region t (pi_Item req) (db_items s) else None)"
  have o: "getItem tr region t (pi_Item req) (db_items s) = Inr old \<or> t_GlobalSecondaryIndexes t = []"
    using read_old_eq [OF k] by (simp add: old_def)
  obtain s' key where w: "write_put tr region t (pi_Item req) old s = (None, s')" "db_consistent tr s'"
    using write_put_ok [OF s Inr st o] by blast
  have "snd (putItemTypedCore en tr region req s) \<in> {s, s'}"
    unfolding putItemTypedCore_def Inr sum.case old_def [symmetric] Let_def w(1)
    by (auto split: option.split)
  then show ?thesis using s(1) w(2) by auto
qed (simp add: putItemTypedCore_def s)

lemma deleteItemTypedCore_ok:
  assumes s: "db_consistent tr s" "region_ok region"
  shows "db_consistent tr (snd (deleteItemTypedCore en tr region req s))"
proof (cases "getTable region (di_TableName req) s")
  case (Inr t)
  define old where "old = (if t_streamEnabled t \<or> cd_Expression (di_Condition req) \<noteq> []
      \<or> di_ReturnValues req = ''ALL_OLD'' \<or> t_GlobalSecondaryIndexes t \<noteq> []
      then read_old tr region t (di_Key req) (db_items s) else None)"
  have "db_consistent tr (snd (write_delete tr region t (di_Key req) old s))"
  proof (cases "item_key t (di_Key req)")
    case None
    then have "snd (write_delete tr region t (di_Key req) old s) = s"
      by (auto simp: write_delete_def deleteItemWithIndexMaintenance_def item_key_def split: sum.splits)
    then show ?thesis using s by simp
  next
    case (Some key)
    then have "item_key t (di_Key req) \<noteq> None" by simp
    from read_old_eq [OF this] have o: "getItem tr region t (di_Key req) (db_items s) = Inr old \<or> t_GlobalSecondaryIndexes t = []"
      by (simp add: old_def)
    obtain s' where "write_delete tr region t (di_Key req) old s = (None, s')" "db_consistent tr s'"
      using write_delete_ok [OF s Inr Some o] .
    then show ?thesis by simp
  qed
  moreover have "snd (deleteItemTypedCore en tr region req s) \<in> {s, snd (write_delete tr region t (di_Key req) old s)}"
    unfolding deleteItemTypedCore_def Inr sum.case old_def [symmetric] Let_def
    by (cases "write_delete tr region t (di_Key req) old s") (auto split: option.split)
  ultimately show ?thesis using s(1) by auto
qed (simp add: deleteItemTypedCore_def s)

lemma updated_write_ok:
  assumes s: "db_consistent tr s" "region_ok region" "getTable region name s = Inr t"
    and g: "getItem tr region t key (db_items s) = Inr existing"
    and u: "updated_item en key existing expr (cd_Names c) (cd_Values c) = Inr item"
    and ok: "update_keeps_key en tr region t key expr c (db_items s)"
  obtains s' k where "write_put tr region t item existing s = (None, s')" "item_key t key = Some k"
    "db_consistent tr s'" "db_tables s' = db_tables s"
    "table_view tr (db_items s') = (table_view tr (db_items s))(tableKey region name :=
        (table_view tr (db_items s) (tableKey region name))(k \<mapsto> item))"
proof -
  have i: "storable t item" "item_key t item = item_key t key" using ok g u by (simp_all add: update_keeps_key_def)
  obtain k where k: "item_key t key = Some k" using getItem_Inr [OF g] by blast
  have "getItem tr region t item (db_items s) = Inr existing"
    using g unfolding getItem_eq [OF k] getItem_eq [OF trans [OF i(2) k]] .
  then have o: "getItem tr region t item (db_items s) = Inr existing \<or> t_GlobalSecondaryIndexes t = []" ..
  obtain s' k' where w: "write_put tr region t item existing s = (None, s')" "item_key t item = Some k'"
    "db_consistent tr s'" "db_tables s' = db_tables s"
    "table_view tr (db_items s') = (table_view tr (db_items s))(tableKey region name :=
        (table_view tr (db_items s) (tableKey region name))(k' \<mapsto> item))"
    using write_put_ok [OF s i(1) o] .
  have "k' = k" using w(2) i(2) k by simp
  then show thesis using that [OF w(1) k w(3,4)] w(5) by simp
qed

lemma updateItemTypedCore_ok:
  assumes s: "db_consistent tr s" "region_ok region"
    and ok: "\<And>t. getTable region (ui_TableName req) s = Inr t
      \<Longrightarrow> update_keeps_key en tr region t (ui_Key req) (ui_UpdateExpression req) (ui_Condition req) (db_items s)"
  shows "db_consistent tr (snd (updateItemTypedCore en tr region req s))"
proof (cases "getTable region (ui_TableName req) s")
  case (Inr t)
  show ?thesis
  proof (cases "getItem tr region t (ui_Key req) (db_items s)")
    case (Inl e)
    then show ?thesis using s(1) unfolding updateItemTypedCore_def Inr Inl sum.case by (simp split: option.split)
  next
    case g: (Inr existing)
    show ?thesis
    proof (cases "updated_item en (ui_Key req) existing (ui_UpdateExpression req)
          (cd_Names (ui_Condition req)) (cd_Values (ui_Condition req))")
      case (Inl e)
      then show ?thesis using s(1) unfolding updateItemTypedCore_def Inr g Inl sum.case by (simp split: option.split)
    next
      case u: (Inr item)
      obtain s' where w: "write_put tr region t item existing s = (None, s')" "db_consistent tr s'"
        using updated_write_ok [OF s Inr g u ok [OF Inr]] .
      then show ?thesis using s(1) unfolding updateItemTypedCore_def Inr g u sum.case w(1) prod.case option.case
        by (simp split: option.split)
    qed
  qed
qed (simp add: updateItemTypedCore_def s)

end

section \<open>Batches\<close>

text \<open>
  The items of a store, seen as a function of the table and of the item key, and what a
  list of writes makes of it.
\<close>

type_synonym contents = "string \<Rightarrow> string \<Rightarrow> Item option"

definition contents :: "'t tree_ops \<Rightarrow> 't ddb \<Rightarrow> contents" where
  "contents tr s = table_view tr (db_items s)"

fun apply_effect :: "string \<times> string \<times> Item option \<Rightarrow> contents \<Rightarrow> contents" where
  "apply_effect (tk, key, v) m = m(tk := (m tk)(key := v))"

definition op_storable :: "Table \<Rightarrow> writeRequest \<Rightarrow> bool" where
  "op_storable t op = (case op of PutRequest i \<Rightarrow> storable t i | _ \<Rightarrow> True)"

definition op_effects :: "string \<Rightarrow> Table \<times> writeRequest \<Rightarrow> (string \<times> string \<times> Item option) list" where
  "op_effects region pair =
     (case pair of (t, op) \<Rightarrow>
        (case op of
           PutRequest i \<Rightarrow> [(tableKey region (t_TableName t), the (item_key t i), Some i)]
         | DeleteRequest k \<Rightarrow> [(tableKey region (t_TableName t), the (item_key t k), None)]
         | EmptyRequest \<Rightarrow> []))"

definition op_resolved :: "Table \<Rightarrow> writeRequest \<Rightarrow> bool" where
  "op_resolved t op = (case write_key op of None \<Rightarrow> True | Some (i, _) \<Rightarrow> item_key t i \<noteq> None)"

lemma validate_ops_resolved: "validate_ops t seen ops = None \<Longrightarrow> op \<in> set ops \<Longrightarrow> op_resolved t op"
proof (induction t seen ops rule: validate_ops.induct)
  case (2 t seen o1 ops)
  show ?case
  proof (cases "write_key o1")
    case None
    then show ?thesis using 2 by (auto simp: op_resolved_def)
  next
    case (Some p)
    obtain i operand where p: "p = (i, operand)" by (cases p) auto
    have v: "validateKeySchema t i operand = None" "\<not> (operand = operandItem \<and> maxItemSizeBytes < itemSizeBytes i)"
      using 2(3) unfolding validate_ops.simps Some p option.case prod.case by (auto split: option.splits if_split_asm)
    obtain ident where id: "itemIdentity t i = Inr ident" "ident \<notin> set seen" "validate_ops t (ident # seen) ops = None"
      using 2(3) unfolding validate_ops.simps Some p option.case prod.case v(1) if_not_P [OF v(2)]
      by (auto split: sum.splits if_split_asm)
    have "op_resolved t o1"
      using id(1) Some p by (auto simp: op_resolved_def itemIdentity_def item_key_def split: sum.splits)
    moreover have "op_resolved t op" if "op \<in> set ops"
      using 2(2) [OF Some p [symmetric] v(1,2) id(1,2,3) that] .
    ultimately show ?thesis using 2(4) by auto
  qed
qed simp

lemma resolve_tables_spec:
  "resolve_tables region s reqs = Inr ts \<Longrightarrow> (t, ops) \<in> set ts
    \<Longrightarrow> \<exists>name. (name, ops) \<in> set reqs \<and> getTable region name s = Inr t \<and> validate_ops t [] ops = None"
proof (induction reqs arbitrary: ts)
  case (Cons r reqs)
  obtain name ops1 where r: "r = (name, ops1)" by (cases r)
  obtain t1 ts1 where g: "getTable region name s = Inr t1" "validate_ops t1 [] ops1 = None"
      "resolve_tables region s reqs = Inr ts1" "ts = (t1, ops1) # ts1"
    using Cons.prems(1) unfolding r resolve_tables.simps by (auto split: sum.splits option.splits)
  then show ?case using Cons.IH [OF g(3)] Cons.prems(2) r by auto
qed simp

context item_tree
begin

lemma apply_op_ok:
  assumes s: "db_consistent tr s" "region_ok region" "getTable region name s = Inr t"
    and op: "op_storable t op" "op_resolved t op"
  obtains s' where "apply_op tr region t op s = (None, s')" "db_consistent tr s'" "db_tables s' = db_tables s"
    "contents tr s' = fold apply_effect (op_effects region (t, op)) (contents tr s)"
proof -
  let ?old = "\<lambda>key. if t_streamEnabled t \<or> t_GlobalSecondaryIndexes t \<noteq> [] then read_old tr region t key (db_items s) else None"
  have name: "t_TableName t = name" using db_consistentD(1) [OF s] .
  have old: "getItem tr region t i (db_items s) = Inr (?old i) \<or> t_GlobalSecondaryIndexes t = []" if "item_key t i \<noteq> None" for i
    using read_old_eq [OF that, of region "db_items s"] by simp
  show thesis
  proof (cases op)
    case (PutRequest i)
    have i: "storable t i" "item_key t i \<noteq> None"
      using op unfolding PutRequest by (simp_all add: op_storable_def op_resolved_def write_key_def)
    obtain s' key where w: "write_put tr region t i (?old i) s = (None, s')" "item_key t i = Some key"
        "db_consistent tr s'" "db_tables s' = db_tables s"
        "table_view tr (db_items s') = (table_view tr (db_items s))(tableKey region name :=
          (table_view tr (db_items s) (tableKey region name))(key \<mapsto> i))"
      using write_put_ok [OF s i(1) old [OF i(2)]] .
    show thesis
      by (rule that [of s']) (use w name in \<open>simp_all add: PutRequest apply_op_def Let_def contents_def op_effects_def\<close>)
  next
    case (DeleteRequest i)
    obtain key where i: "item_key t i = Some key"
      using op(2) unfolding DeleteRequest by (auto simp: op_resolved_def write_key_def)
    obtain s' where w: "write_delete tr region t i (?old i) s = (None, s')"
        "db_consistent tr s'" "db_tables s' = db_tables s"
        "table_view tr (db_items s') = (table_view tr (db_items s))(tableKey region name :=
          (table_view tr (db_items s) (tableKey region name))(key := None))"
      using write_delete_ok [OF s i old] i by auto
    show thesis
      by (rule that [of s']) (use w name i in \<open>simp_all add: DeleteRequest apply_op_def Let_def contents_def op_effects_def\<close>)
  next
    case EmptyRequest
    show thesis by (rule that [of s]) (simp_all add: EmptyRequest apply_op_def op_effects_def s)
  qed
qed

lemma apply_ops_ok:
  assumes "db_consistent tr s" "region_ok region"
    and "\<And>t op. (t, op) \<in> set ops \<Longrightarrow> (\<exists>name. getTable region name s = Inr t) \<and> op_storable t op \<and> op_resolved t op"
  shows "\<exists>s'. apply_ops tr region ops s = (None, s') \<and> db_consistent tr s'
    \<and> contents tr s' = fold apply_effect (concat (map (op_effects region) ops)) (contents tr s)"
  using assms
proof (induction ops arbitrary: s)
  case (Cons pair ops)
  obtain t op where pair: "pair = (t, op)" by (cases pair)
  obtain name where n: "getTable region name s = Inr t" and op: "op_storable t op" "op_resolved t op"
    using Cons.prems(3) [of t op] pair by auto
  obtain s1 where w: "apply_op tr region t op s = (None, s1)" "db_consistent tr s1" "db_tables s1 = db_tables s"
    "contents tr s1 = fold apply_effect (op_effects region (t, op)) (contents tr s)"
    using apply_op_ok [OF Cons.prems(1,2) n op] .
  have "(\<exists>name. getTable region name s1 = Inr u) \<and> op_storable u op' \<and> op_resolved u op'" if "(u, op') \<in> set ops" for u op'
    using Cons.prems(3) [of u op'] that w(3) by (simp add: getTable_Inr)
  from Cons.IH [OF w(2) Cons.prems(2) this] show ?case by (simp add: pair w(1,4))
qed simp

lemma batch_resolved:
  assumes "db_consistent tr s" "region_ok region" "resolve_tables region s reqs = Inr ts"
    and "\<And>name ops t op. (name, ops) \<in> set reqs \<Longrightarrow> getTable region name s = Inr t \<Longrightarrow> op \<in> set ops \<Longrightarrow> op_storable t op"
  shows "\<exists>s'. apply_ops tr region (concat (map (\<lambda>(t, ops). map (Pair t) ops) ts)) s = (None, s') \<and> db_consistent tr s'
    \<and> contents tr s' = fold apply_effect
        (concat (map (op_effects region) (concat (map (\<lambda>(t, ops). map (Pair t) ops) ts)))) (contents tr s)"
proof (rule apply_ops_ok [OF assms(1,2)])
  fix t op
  assume "(t, op) \<in> set (concat (map (\<lambda>(t, ops). map (Pair t) ops) ts))"
  then obtain ops where o: "(t, ops) \<in> set ts" "op \<in> set ops" by auto
  obtain name where "(name, ops) \<in> set reqs" "getTable region name s = Inr t" "validate_ops t [] ops = None"
    using resolve_tables_spec [OF assms(3) o(1)] by blast
  with assms(4) o(2) validate_ops_resolved [OF this(3) o(2)]
  show "(\<exists>name. getTable region name s = Inr t) \<and> op_storable t op \<and> op_resolved t op" by blast
qed

end

end
