(* ===== verification/Ddb_Tx.thy ===== *)
theory Ddb_Tx
  imports Ddb_Writes
begin

text \<open>
  Batches and transactions (\<^verbatim>\<open>handler.go\<close>, \<^verbatim>\<open>handler_transact.go\<close>): when a request is
  rejected nothing was written, and what an accepted request leaves is the list of its
  writes applied to the items, in order.  The one exception of the code is an update
  expression that fails in the second phase of a transaction.
\<close>

section \<open>Writes that cannot fail\<close>

lemma write_put_fst: "fst (write_put tr region t item old s) = None \<longleftrightarrow> item_key t item \<noteq> None"
  by (auto simp: write_put_def putItemWithIndexMaintenance_def item_key_def split: sum.splits)

lemma write_delete_fst: "fst (write_delete tr region t item old s) = None \<longleftrightarrow> item_key t item \<noteq> None"
  by (auto simp: write_delete_def deleteItemWithIndexMaintenance_def item_key_def split: sum.splits)

lemma apply_ops_total:
  "(\<And>t op. (t, op) \<in> set ops \<Longrightarrow> op_resolved t op) \<Longrightarrow> fst (apply_ops tr region ops s) = None"
proof (induction ops arbitrary: s)
  case (Cons p ops)
  obtain t op where p: "p = (t, op)" by (cases p)
  have "op_resolved t op" using Cons.prems p by simp
  then have "fst (apply_op tr region t op s) = None"
    by (cases op) (auto simp: apply_op_def Let_def write_put_fst write_delete_fst op_resolved_def write_key_def)
  then obtain s1 where "apply_op tr region t op s = (None, s1)" by (metis prod.collapse)
  then show ?case using Cons by (simp add: p)
qed simp

lemma batch_error_unchanged:
  assumes "batchWriteItemTypedCore tr region reqs s = (Some e, s')"
  shows "s' = s"
proof (cases "resolve_tables region s reqs")
  case (Inr ts)
  have "op_resolved t op" if "(t, op) \<in> set (concat (map (\<lambda>(t, ops). map (Pair t) ops) ts))" for t op
    using that resolve_tables_spec [OF Inr] validate_ops_resolved by fastforce
  then have "fst (apply_ops tr region (concat (map (\<lambda>(t, ops). map (Pair t) ops) ts)) s) = None"
    by (rule apply_ops_total)
  then show ?thesis using assms Inr by (auto simp: batchWriteItemTypedCore_def split: if_split_asm)
qed (use assms in \<open>simp add: batchWriteItemTypedCore_def split: if_split_asm\<close>)

section \<open>What a transaction resolves to\<close>

definition tx_ident :: "Table \<Rightarrow> txItem \<Rightarrow> string" where
  "tx_ident t x =
     (case tx_target x of
        None \<Rightarrow> []
      | Some (name, key, _, _) \<Rightarrow> name @ [CHR 0x00] @ (case itemIdentity t key of Inl _ \<Rightarrow> [] | Inr i \<Rightarrow> i))"

lemma tx_ident_key:
  "tx_target x = Some (name, key, operand, c) \<Longrightarrow> item_key t key = Some k \<Longrightarrow> tx_ident t x = name @ [CHR 0x00] @ k"
  by (auto simp: tx_ident_def itemIdentity_def item_key_def itemCompositeKey_def split: sum.splits)

definition tx_resolved ::
  "'e expr_engine \<Rightarrow> 't tree_ops \<Rightarrow> string \<Rightarrow> 't ddb \<Rightarrow> txItem \<times> Table \<times> Item option \<times> string \<Rightarrow> bool"
where
  "tx_resolved en tr region s r \<longleftrightarrow>
     (case r of (x, t, existing, reason) \<Rightarrow> \<exists>name key operand c. tx_target x = Some (name, key, operand, c)
        \<and> getTable region name s = Inr t \<and> getItem tr region t key (db_items s) = Inr existing
        \<and> (reason = [] \<longrightarrow> check_condition en c existing = None))"

lemma tx_resolve_spec:
  "tx_resolve en tr region s targeted xs = Inr rs \<Longrightarrow>
     map fst rs = map tx_action xs \<and> distinct (map (\<lambda>(x, t, _). tx_ident t x) rs)
     \<and> set targeted \<inter> set (map (\<lambda>(x, t, _). tx_ident t x) rs) = {}
     \<and> list_all (tx_resolved en tr region s) rs"
proof (induction xs arbitrary: targeted rs)
  case (Cons m ms)
  define x where "x = tx_action m"
  obtain name key operand c where x0: "tx_target (tx_action m) = Some (name, key, operand, c)"
    using Cons.prems by (cases "tx_target (tx_action m)") auto
  then have x: "tx_target x = Some (name, key, operand, c)" by (simp add: x_def)
  obtain t where t: "getTable region name s = Inr t"
    using Cons.prems by (cases "getTable region name s") (simp_all add: x0)
  have v: "validateKeySchema t key operand = None"
    using Cons.prems by (cases "validateKeySchema t key operand") (simp_all add: x0 t)
  obtain ident where i: "itemIdentity t key = Inr ident"
    using Cons.prems by (cases "itemIdentity t key") (simp_all add: x0 t v)
  define ident' where "ident' = name @ [CHR 0x00] @ ident"
  have n: "ident' \<notin> set targeted"
    using Cons.prems unfolding tx_resolve.simps x_def [symmetric] x t v i option.case prod.case sum.case Let_def ident'_def [symmetric]
    by (auto split: if_split_asm)
  obtain existing where g: "getItem tr region t key (db_items s) = Inr existing"
    using Cons.prems n unfolding tx_resolve.simps x_def [symmetric] x t v i option.case prod.case sum.case Let_def ident'_def [symmetric]
    by (cases "getItem tr region t key (db_items s)") simp_all
  define failed where "failed = check_condition en c existing"
  define reason where "reason = (if failed \<noteq> None then ''ConditionalCheckFailed''
      else if put_too_large m then ''ValidationError'' else [])"
  obtain rs1 where r: "tx_resolve en tr region s (ident' # targeted) ms = Inr rs1" "rs = (x, t, existing, reason) # rs1"
  proof (cases "\<exists>e. failed = Some (ValidationException e)")
    case True
    then show thesis using Cons.prems n
      unfolding tx_resolve.simps x_def [symmetric] x t v i g option.case prod.case sum.case Let_def ident'_def [symmetric] failed_def by auto
  next
    case False
    note step = tx_resolve.simps x_def [symmetric] x t v i g option.case prod.case sum.case Let_def ident'_def [symmetric]
      failed_def [symmetric] if_not_P [OF n]
    obtain rs1 where r1: "tx_resolve en tr region s (ident' # targeted) ms = Inr rs1"
      using Cons.prems False unfolding step
      by (cases "tx_resolve en tr region s (ident' # targeted) ms") (auto split: option.splits ddb_error.splits)
    have "rs = (x, t, existing, reason) # rs1"
      using Cons.prems False unfolding step r1 reason_def
      by (cases failed) (auto split: ddb_error.splits)
    then show thesis by (rule that [OF r1])
  qed
  have id: "tx_ident t x = ident'" using i x by (simp add: tx_ident_def ident'_def)
  have ok: "tx_resolved en tr region s (x, t, existing, reason)"
    using x t g by (auto simp: tx_resolved_def reason_def failed_def)
  show ?case using Cons.IH [OF r(1)] n by (auto simp: r(2) id ok x_def [symmetric])
qed simp

section \<open>What the writes of a transaction do\<close>

definition tx_result :: "'e expr_engine \<Rightarrow> txItem \<Rightarrow> Item option \<Rightarrow> ddb_error + Item option" where
  "tx_result en x existing =
     (case x of
        TxPut _ item _ \<Rightarrow> Inr (Some item)
      | TxDelete _ _ _ \<Rightarrow> Inr None
      | TxUpdate _ key expr c \<Rightarrow>
          (case updated_item en key existing expr (cd_Names c) (cd_Values c) of Inl e \<Rightarrow> Inl e | Inr item \<Rightarrow> Inr (Some item))
      | _ \<Rightarrow> Inr existing)"

definition tx_effects ::
  "'e expr_engine \<Rightarrow> string \<Rightarrow> txItem \<times> Table \<times> Item option \<times> string \<Rightarrow> (string \<times> string \<times> Item option) list"
where
  "tx_effects en region r =
     (case r of (x, t, existing, _) \<Rightarrow>
        (case (tx_target x, tx_result en x existing) of
           (Some (name, key, _, _), Inr v) \<Rightarrow> [(tableKey region name, the (item_key t key), v)]
         | _ \<Rightarrow> []))"

text \<open>What the invariant asks of the items a transaction writes.\<close>

definition tx_storable :: "'e expr_engine \<Rightarrow> txItem \<times> Table \<times> Item option \<times> string \<Rightarrow> bool" where
  "tx_storable en r \<longleftrightarrow>
     (case r of (x, t, existing, _) \<Rightarrow>
        (case x of
           TxPut _ item _ \<Rightarrow> storable t item
         | TxUpdate _ key expr c \<Rightarrow>
             (case updated_item en key existing expr (cd_Names c) (cd_Values c) of
                Inl _ \<Rightarrow> True | Inr item \<Rightarrow> storable t item \<and> item_key t item = item_key t key)
         | _ \<Rightarrow> True))"

context item_tree
begin

lemma tx_apply_one_ok:
  assumes s: "db_consistent tr s" "region_ok region" "getTable region name s = Inr t"
    and x: "tx_target x = Some (name, key, operand, c)"
    and g: "getItem tr region t key (db_items s) = Inr existing" and st: "tx_storable en (x, t, existing, reason)"
  shows "(\<exists>e. tx_apply_one en tr region x t existing s = (Some e, s) \<and> tx_result en x existing = Inl e)
    \<or> (\<exists>s' v k. tx_apply_one en tr region x t existing s = (None, s') \<and> db_consistent tr s' \<and> db_tables s' = db_tables s
        \<and> tx_result en x existing = Inr v \<and> item_key t key = Some k
        \<and> contents tr s' = apply_effect (tableKey region name, k, v) (contents tr s))"
proof -
  obtain k where k: "item_key t key = Some k" using getItem_Inr [OF g] by blast
  have name: "t_TableName t = name" using db_consistentD(1) [OF s] .
  have e: "existing = contents tr s (tableKey region name) k" using g k by (simp add: getItem_eq contents_def name)
  have o: "getItem tr region t key (db_items s) = Inr existing \<or> t_GlobalSecondaryIndexes t = []" using g ..
  show ?thesis
  proof (cases x)
    case (TxConditionCheck n i c')
    then show ?thesis using x s k e by (simp add: tx_apply_one_def tx_result_def)
  next
    case (TxPut n i c')
    have i: "i = key" "storable t key" using x st by (simp_all add: TxPut tx_storable_def)
    obtain s' k' where w: "write_put tr region t key existing s = (None, s')" "item_key t key = Some k'"
        "db_consistent tr s'" "db_tables s' = db_tables s"
        "table_view tr (db_items s') = (table_view tr (db_items s))(tableKey region name :=
          (table_view tr (db_items s) (tableKey region name))(k' \<mapsto> key))"
      using write_put_ok [OF s i(2) o] .
    then show ?thesis using k by (simp add: TxPut i(1) tx_apply_one_def tx_result_def contents_def)
  next
    case (TxDelete n i c')
    have i: "i = key" using x by (simp add: TxDelete)
    obtain s' where w: "write_delete tr region t key existing s = (None, s')"
        "db_consistent tr s'" "db_tables s' = db_tables s"
        "table_view tr (db_items s') = (table_view tr (db_items s))(tableKey region name :=
          (table_view tr (db_items s) (tableKey region name))(k := None))"
      using write_delete_ok [OF s k o] .
    then show ?thesis using k by (simp add: TxDelete i tx_apply_one_def tx_result_def contents_def)
  next
    case (TxUpdate n i ex c')
    have i: "i = key" "c' = c" using x by (simp_all add: TxUpdate)
    show ?thesis
    proof (cases "updated_item en key existing ex (cd_Names c) (cd_Values c)")
      case (Inl er)
      then show ?thesis by (simp add: TxUpdate i tx_apply_one_def tx_result_def)
    next
      case (Inr item)
      have u: "update_keeps_key en tr region t key ex c (db_items s)"
        using st g Inr by (simp add: TxUpdate i tx_storable_def update_keeps_key_def)
      obtain s' k' where w: "write_put tr region t item existing s = (None, s')" "item_key t key = Some k'"
          "db_consistent tr s'" "db_tables s' = db_tables s"
          "table_view tr (db_items s') = (table_view tr (db_items s))(tableKey region name :=
            (table_view tr (db_items s) (tableKey region name))(k' \<mapsto> item))"
        using updated_write_ok [OF s g Inr u] .
      then show ?thesis using k Inr by (simp add: TxUpdate i tx_apply_one_def tx_result_def contents_def)
    qed
  qed (use x in simp)
qed

text \<open>The items read in the first phase are still the ones of the store when they are replaced.\<close>

lemma tx_apply_ok:
  assumes "db_consistent tr s" "region_ok region"
    and "list_all (tx_resolved en tr region s) rs" "list_all (tx_storable en) rs"
    and "distinct (map (\<lambda>(x, t, _). tx_ident t x) rs)"
    and "tx_apply en tr region rs s = (e, s')"
  shows "db_consistent tr s'
    \<and> (e = None \<longrightarrow> contents tr s' = fold apply_effect (concat (map (tx_effects en region) rs)) (contents tr s)
          \<and> list_all (\<lambda>(x, _, existing, _). \<exists>v. tx_result en x existing = Inr v) rs)"
  using assms
proof (induction rs arbitrary: s)
  case (Cons r rs)
  obtain x t existing reason where r: "r = (x, t, existing, reason)" by (cases r)
  obtain name key operand c where x: "tx_target x = Some (name, key, operand, c)" "getTable region name s = Inr t"
      "getItem tr region t key (db_items s) = Inr existing"
    using Cons.prems(3) unfolding r by (auto simp: tx_resolved_def)
  have st: "tx_storable en (x, t, existing, reason)" using Cons.prems(4) by (simp add: r)
  from tx_apply_one_ok [OF Cons.prems(1,2) x(2,1,3) st] show ?case
  proof (elim disjE exE conjE)
    fix er
    assume "tx_apply_one en tr region x t existing s = (Some er, s)"
    then show ?thesis using Cons.prems(1,6) by (auto simp: r)
  next
    fix s1 v k
    assume one: "tx_apply_one en tr region x t existing s = (None, s1)" and s1: "db_consistent tr s1"
      and tables: "db_tables s1 = db_tables s" and v: "tx_result en x existing = Inr v" and k: "item_key t key = Some k"
      and upd: "contents tr s1 = apply_effect (tableKey region name, k, v) (contents tr s)"
    have "list_all (tx_resolved en tr region s1) rs"
      unfolding list_all_iff
    proof
      fix r'
      assume r': "r' \<in> set rs"
      obtain x' t' existing' reason' where q: "r' = (x', t', existing', reason')" by (cases r')
      obtain name' key' operand' c' where x': "tx_target x' = Some (name', key', operand', c')"
          "getTable region name' s = Inr t'" "getItem tr region t' key' (db_items s) = Inr existing'"
          "reason' = [] \<longrightarrow> check_condition en c' existing' = None"
        using Cons.prems(3) r' unfolding q by (fastforce simp: list_all_iff tx_resolved_def)
      obtain k' where k': "item_key t' key' = Some k'" using getItem_Inr [OF x'(3)] by blast
      have "tx_ident t' x' \<noteq> tx_ident t x" using Cons.prems(5) r' by (force simp: r q)
      then have "\<not> (name' = name \<and> k' = k)" using tx_ident_key [OF x(1) k] tx_ident_key [OF x'(1) k'] by auto
      moreover have "t_TableName t' = name'" using db_consistentD(1) [OF Cons.prems(1,2) x'(2)] .
      ultimately have "getItem tr region t' key' (db_items s1) = getItem tr region t' key' (db_items s)"
        using upd tableKey_eq [OF Cons.prems(2,2), of name' name] by (auto simp: getItem_eq [OF k'] contents_def)
      then show "tx_resolved en tr region s1 r'"
        using x' tables by (simp add: q tx_resolved_def getTable_Inr)
    qed
    moreover have "tx_effects en region r = [(tableKey region name, k, v)]"
      by (simp add: r tx_effects_def x(1) v k)
    ultimately show ?thesis
      using Cons.IH [OF s1 Cons.prems(2)] Cons.prems(4-6)
      by (simp add: r one upd v del: apply_effect.simps)
  qed
qed simp

text \<open>The targets of a transaction are different items, so each reads as its own write.\<close>

lemma effects_outside: "(tk, k) \<notin> (\<lambda>(tk, k, _). (tk, k)) ` set es \<Longrightarrow> fold apply_effect es m tk k = m tk k"
proof (induction es arbitrary: m)
  case (Cons e es)
  then show ?case by (cases e) (auto simp: fun_upd_def split: if_split_asm)
qed simp

lemma effects_inside:
  "distinct (map (\<lambda>(tk, k, _). (tk, k)) es) \<Longrightarrow> (tk, k, v) \<in> set es \<Longrightarrow> fold apply_effect es m tk k = v"
proof (induction es arbitrary: m)
  case (Cons e es)
  obtain tk' k' v' where e: "e = (tk', k', v')" by (cases e)
  show ?case
  proof (cases "e = (tk, k, v)")
    case True
    then have "(tk, k) \<notin> (\<lambda>(tk, k, _). (tk, k)) ` set es" using Cons.prems(1) by force
    then show ?thesis using effects_outside [of tk k es] True by simp
  next
    case False
    then show ?thesis using Cons by simp
  qed
qed simp

lemma tx_reads:
  assumes s: "db_consistent tr s" "region_ok region" and rs: "list_all (tx_resolved en tr region s) rs"
    and d: "distinct (map (\<lambda>(x, t, _). tx_ident t x) rs)"
    and v: "list_all (\<lambda>(x, _, existing, _). \<exists>v. tx_result en x existing = Inr v) rs"
    and s': "contents tr s' = fold apply_effect (concat (map (tx_effects en region) rs)) (contents tr s)"
    and r: "(x, t, existing, reason) \<in> set rs" "tx_target x = Some (name, key, operand, c)"
  shows "getItem tr region t key (db_items s') = tx_result en x existing"
proof -
  let ?es = "concat (map (tx_effects en region) rs)"
  define pair where "pair = (\<lambda>(x, t, _ :: Item option \<times> string). case tx_target x of
      None \<Rightarrow> ([], []) | Some (name, key, _) \<Rightarrow> (tableKey region name, the (item_key t key)))"
  define ident where "ident = (\<lambda>(tk, k). drop (length region + 1) tk @ CHR 0x00 # k)"
  have one: "tx_effects en region q = [(fst (pair q), snd (pair q), projr (tx_result en (fst q) (fst (snd (snd q)))))]
      \<and> (\<lambda>(x, t, _). tx_ident t x) q = ident (pair q)" if q: "q \<in> set rs" for q
  proof -
    obtain x t existing reason where q': "q = (x, t, existing, reason)" by (cases q)
    obtain name key operand c where x: "tx_target x = Some (name, key, operand, c)"
        "getItem tr region t key (db_items s) = Inr existing"
      using rs q unfolding q' by (fastforce simp: list_all_iff tx_resolved_def)
    obtain k where k: "item_key t key = Some k" using getItem_Inr [OF x(2)] by blast
    obtain w where w: "tx_result en x existing = Inr w" using v q unfolding q' by (fastforce simp: list_all_iff)
    have "drop (length region + 1) (tableKey region name) = name" using s(2) by (simp add: tableKey_def region_ok_def)
    then show ?thesis using tx_ident_key [OF x(1) k] x(1) k w by (simp add: q' tx_effects_def pair_def ident_def)
  qed
  have es: "?es = map (\<lambda>q. (fst (pair q), snd (pair q), projr (tx_result en (fst q) (fst (snd (snd q)))))) rs"
    using one by (induction rs) simp_all
  have "map (\<lambda>(x, t, _). tx_ident t x) rs = map ident (map pair rs)" using one by simp
  then have dp: "distinct (map pair rs)" using d distinct_map by metis
  have ds: "distinct (map (\<lambda>(tk, k, _). (tk, k)) ?es)" unfolding es using dp by (simp add: o_def)
  have q: "getTable region name s = Inr t" "getItem tr region t key (db_items s) = Inr existing"
    using rs r by (fastforce simp: list_all_iff tx_resolved_def)+
  obtain k where k: "item_key t key = Some k" using getItem_Inr [OF q(2)] by blast
  obtain w where w: "tx_result en x existing = Inr w" using v r(1) by (fastforce simp: list_all_iff)
  have "(tableKey region name, k, w) \<in> set ?es"
    unfolding es using r k w by (force simp: pair_def)
  from effects_inside [OF ds this] show ?thesis
    using s' k w db_consistentD(1) [OF s q(1)] by (simp add: getItem_eq contents_def)
qed

end

text \<open>Without an update that fails, a transaction that is not accepted changes nothing.\<close>

definition update_applies :: "'e expr_engine \<Rightarrow> 't tree_ops \<Rightarrow> string \<Rightarrow> 't ddb \<Rightarrow> transactWriteItem \<Rightarrow> bool" where
  "update_applies en tr region s m =
     (case tx_action m of
        TxUpdate name key expr c \<Rightarrow>
          (case getTable region name s of
             Inl _ \<Rightarrow> True
           | Inr t \<Rightarrow>
               (case getItem tr region t key (db_items s) of
                  Inl _ \<Rightarrow> True
                | Inr existing \<Rightarrow>
                    (case updated_item en key existing expr (cd_Names c) (cd_Values c) of
                       Inl _ \<Rightarrow> False | Inr item \<Rightarrow> item_key t item \<noteq> None)))
      | _ \<Rightarrow> True)"

lemma tx_apply_total:
  "list_all (\<lambda>(x, t, existing, _). \<forall>s. fst (tx_apply_one en tr region x t existing s) = None) rs
    \<Longrightarrow> fst (tx_apply en tr region rs s) = None"
proof (induction rs arbitrary: s)
  case (Cons r rs)
  obtain x t existing reason where r: "r = (x, t, existing, reason)" by (cases r)
  obtain s1 where "tx_apply_one en tr region x t existing s = (None, s1)"
    using Cons.prems r by (cases "tx_apply_one en tr region x t existing s") (auto dest: spec [of _ s])
  then show ?case using Cons by (simp add: r)
qed simp

lemma transact_error_unchanged:
  assumes u: "list_all (update_applies en tr region s) xs"
    and e: "transactWriteItemsTypedCore en tr region xs s = (Some e, s')"
  shows "s' = s"
proof (cases "tx_resolve en tr region s [] xs")
  case (Inl er)
  then show ?thesis using e by (simp add: transactWriteItemsTypedCore_def split: if_split_asm)
next
  case (Inr rs)
  note spec = tx_resolve_spec [OF Inr]
  have "fst (tx_apply en tr region rs s) = None"
  proof (rule tx_apply_total, unfold list_all_iff, intro ballI, clarify)
    fix x t existing reason s1
    assume r: "(x, t, existing, reason) \<in> set rs"
    obtain name key operand c where x: "tx_target x = Some (name, key, operand, c)" "getTable region name s = Inr t"
        "getItem tr region t key (db_items s) = Inr existing"
      using spec r by (fastforce simp: list_all_iff tx_resolved_def)
    have k: "item_key t key \<noteq> None" using x(3) by (auto simp: getItem_def item_key_def split: sum.splits)
    have "x \<in> set (map fst rs)" using r by force
    then have "x \<in> set (map tx_action xs)" using spec by simp
    then obtain m where m: "m \<in> set xs" "x = tx_action m" by auto
    then have a: "update_applies en tr region s m" using u by (simp add: list_all_iff)
    show "fst (tx_apply_one en tr region x t existing s1) = None"
    proof (cases x)
      case (TxUpdate n i ex c')
      then obtain item where "updated_item en key existing ex (cd_Names c) (cd_Values c) = Inr item" "item_key t item \<noteq> None"
        using a x m(2) by (auto simp: update_applies_def split: sum.splits)
      then show ?thesis using x(1) TxUpdate by (simp add: tx_apply_one_def write_put_fst)
    qed (use x(1) k in \<open>simp_all add: tx_apply_one_def write_put_fst write_delete_fst\<close>)
  qed
  then show ?thesis using e Inr by (auto simp: transactWriteItemsTypedCore_def Let_def split: if_split_asm)
qed

end
