(* ===== verification/Ddb_Run.thy ===== *)
theory Ddb_Run
  imports Ddb_Tx
begin

text \<open>
  The histories of a store: the requests of a region as steps, the invariant of every state
  they reach, and what it says of the answers: an index holds exactly the items it should,
  an accepted transaction or batch is the list of its writes, a rejected one changes nothing.
\<close>

section \<open>Requests\<close>

datatype request =
    CreateTable Table
  | DeleteTable string
  | UpdateTable string "gsiUpdate list"
  | PutItem putItemRequest
  | DeleteItem deleteItemRequest
  | UpdateItem updateItemRequest
  | BatchWriteItem "writeRequest list gomap"
  | TransactWriteItems "transactWriteItem list"
  | ExpirySweep string int

fun serve ::
  "'e expr_engine \<Rightarrow> 't tree_ops \<Rightarrow> (string \<Rightarrow> int option) \<Rightarrow> string \<Rightarrow> request \<Rightarrow> 't ddb \<Rightarrow> 't ddb"
where
  "serve en tr pf region (CreateTable t) s = snd (storeNewTable region t s)"
| "serve en tr pf region (DeleteTable name) s = snd (deleteTableTyped region name s)"
| "serve en tr pf region (UpdateTable name us) s = snd (updateTableIndexes tr region name us s)"
| "serve en tr pf region (PutItem req) s = snd (putItemTypedCore en tr region req s)"
| "serve en tr pf region (DeleteItem req) s = snd (deleteItemTypedCore en tr region req s)"
| "serve en tr pf region (UpdateItem req) s = snd (updateItemTypedCore en tr region req s)"
| "serve en tr pf region (BatchWriteItem reqs) s = snd (batchWriteItemTypedCore tr region reqs s)"
| "serve en tr pf region (TransactWriteItems xs) s = snd (transactWriteItemsTypedCore en tr region xs s)"
| "serve en tr pf region (ExpirySweep name now) s =
     (case getTable region name s of
        Inl _ \<Rightarrow> s
      | Inr t \<Rightarrow> s\<lparr>db_items := sweepTable tr pf region t now (db_items s)\<rparr>)"

text \<open>
  The requests the invariant is about: items whose key attributes hold no NUL byte, updates
  that leave the primary key alone, index names that are not taken, and expiry on tables
  without global secondary indexes.
\<close>

definition on_table :: "string \<Rightarrow> string \<Rightarrow> 't ddb \<Rightarrow> (Table \<Rightarrow> bool) \<Rightarrow> bool" where
  "on_table region name s P = (case getTable region name s of Inl _ \<Rightarrow> True | Inr t \<Rightarrow> P t)"

fun admissible :: "'e expr_engine \<Rightarrow> 't tree_ops \<Rightarrow> string \<Rightarrow> request \<Rightarrow> 't ddb \<Rightarrow> bool" where
  "admissible en tr region (CreateTable t) s \<longleftrightarrow> wf_indexes t"
| "admissible en tr region (DeleteTable name) s \<longleftrightarrow> True"
| "admissible en tr region (UpdateTable name us) s \<longleftrightarrow>
     on_table region name s (\<lambda>t. gsi_updates_ok tr region us (t, db_items s))"
| "admissible en tr region (PutItem req) s \<longleftrightarrow>
     on_table region (pi_TableName req) s (\<lambda>t. storable t (pi_Item req))"
| "admissible en tr region (DeleteItem req) s \<longleftrightarrow> True"
| "admissible en tr region (UpdateItem req) s \<longleftrightarrow>
     on_table region (ui_TableName req) s (\<lambda>t.
       update_keeps_key en tr region t (ui_Key req) (ui_UpdateExpression req) (ui_Condition req) (db_items s))"
| "admissible en tr region (BatchWriteItem reqs) s \<longleftrightarrow>
     list_all (\<lambda>(name, ops). on_table region name s (\<lambda>t. list_all (op_storable t) ops)) reqs"
| "admissible en tr region (TransactWriteItems xs) s \<longleftrightarrow>
     (case tx_resolve en tr region s [] xs of Inl _ \<Rightarrow> True | Inr rs \<Rightarrow> list_all (tx_storable en) rs)"
| "admissible en tr region (ExpirySweep name now) s \<longleftrightarrow>
     on_table region name s (\<lambda>t. t_GlobalSecondaryIndexes t = [])"

inductive ddb_run ::
  "'e expr_engine \<Rightarrow> 't tree_ops \<Rightarrow> (string \<Rightarrow> int option) \<Rightarrow> 't ddb \<Rightarrow> bool"
  for en tr pf
where
  start: "ddb_run en tr pf \<lparr>db_tables = [], db_items = \<lparr>mib_tables = [], mib_indexes = []\<rparr>\<rparr>"
| step: "ddb_run en tr pf s \<Longrightarrow> region_ok region \<Longrightarrow> admissible en tr region req s
    \<Longrightarrow> ddb_run en tr pf (serve en tr pf region req s)"

context item_tree
begin

lemma db_consistent_start: "db_consistent tr \<lparr>db_tables = [], db_items = \<lparr>mib_tables = [], mib_indexes = []\<rparr>\<rparr>"
  by (simp add: db_consistent_def table_view_def index_view_def view_of_def fun_eq_iff)

lemma sweep_ok:
  assumes s: "db_consistent tr s" "region_ok region" "getTable region name s = Inr t" and none: "t_GlobalSecondaryIndexes t = []"
  shows "db_consistent tr (s\<lparr>db_items := sweepTable tr pf region t now (db_items s)\<rparr>)"
proof (rule db_write [OF s])
  note t = db_consistentD [OF s]
  show "consistent tr region t (sweepTable tr pf region t now (db_items s))" by (rule sweep_consistent [OF t(3) none])
  show "same_elsewhere (tableKey region name) (db_items s) (sweepTable tr pf region t now (db_items s))"
    by (simp add: same_elsewhere_def sweep_views [OF t(3)] t(1))
qed

lemma batch_spec:
  assumes s: "db_consistent tr s" "region_ok region" and ok: "admissible en tr region (BatchWriteItem reqs) s"
    and b: "batchWriteItemTypedCore tr region reqs s = (e, s')"
  shows "db_consistent tr s'"
    "e = None \<Longrightarrow> \<exists>ts. resolve_tables region s reqs = Inr ts \<and> contents tr s' = fold apply_effect
        (concat (map (op_effects region) (concat (map (\<lambda>(t, ops). map (Pair t) ops) ts)))) (contents tr s)"
proof -
  have "db_consistent tr s' \<and> (e = None \<longrightarrow> (\<exists>ts. resolve_tables region s reqs = Inr ts \<and> contents tr s' = fold apply_effect
        (concat (map (op_effects region) (concat (map (\<lambda>(t, ops). map (Pair t) ops) ts)))) (contents tr s)))"
  proof (cases "resolve_tables region s reqs")
    case (Inl er)
    then show ?thesis using b s(1) by (auto simp: batchWriteItemTypedCore_def split: if_split_asm)
  next
    case (Inr ts)
    have "op_storable t op" if "(name, ops) \<in> set reqs" "getTable region name s = Inr t" "op \<in> set ops" for name ops t op
      using ok that by (force simp: list_all_iff on_table_def)
    from batch_resolved [OF s Inr this] show ?thesis
      using b s(1) Inr by (auto simp: batchWriteItemTypedCore_def split: if_split_asm)
  qed
  then show "db_consistent tr s'"
    "e = None \<Longrightarrow> \<exists>ts. resolve_tables region s reqs = Inr ts \<and> contents tr s' = fold apply_effect
        (concat (map (op_effects region) (concat (map (\<lambda>(t, ops). map (Pair t) ops) ts)))) (contents tr s)" by blast+
qed

lemma transact_spec:
  assumes s: "db_consistent tr s" "region_ok region" and ok: "admissible en tr region (TransactWriteItems xs) s"
    and b: "transactWriteItemsTypedCore en tr region xs s = (e, s')"
  shows "db_consistent tr s'"
    "e = None \<Longrightarrow> \<exists>rs. tx_resolve en tr region s [] xs = Inr rs
      \<and> list_all (\<lambda>(x, t, existing, _). case tx_target x of None \<Rightarrow> False
           | Some (_, key, _, c) \<Rightarrow> getItem tr region t key (db_items s) = Inr existing
               \<and> check_condition en c existing = None
               \<and> getItem tr region t key (db_items s') = tx_result en x existing) rs
      \<and> contents tr s' = fold apply_effect (concat (map (tx_effects en region) rs)) (contents tr s)"
proof -
  have "db_consistent tr s' \<and> (e = None \<longrightarrow> (\<exists>rs. tx_resolve en tr region s [] xs = Inr rs
      \<and> list_all (\<lambda>(x, t, existing, _). case tx_target x of None \<Rightarrow> False
           | Some (_, key, _, c) \<Rightarrow> getItem tr region t key (db_items s) = Inr existing
               \<and> check_condition en c existing = None
               \<and> getItem tr region t key (db_items s') = tx_result en x existing) rs
      \<and> contents tr s' = fold apply_effect (concat (map (tx_effects en region) rs)) (contents tr s)))"
  proof (cases "tx_resolve en tr region s [] xs")
    case (Inl er)
    then show ?thesis using b s(1) by (auto simp: transactWriteItemsTypedCore_def split: if_split_asm)
  next
    case (Inr rs)
    show ?thesis
    proof (cases "100 < length xs \<or> (\<exists>r\<in>set (map (\<lambda>(_, _, _, reason). reason) rs). r \<noteq> [])")
      case True
      then show ?thesis using b s(1) Inr by (auto simp: transactWriteItemsTypedCore_def Let_def split: if_split_asm)
    next
      case False
      then have ap: "tx_apply en tr region rs s = (e, s')"
        using b Inr by (auto simp: transactWriteItemsTypedCore_def Let_def)
      note spec = tx_resolve_spec [OF Inr]
      have "list_all (tx_storable en) rs" using ok Inr by simp
      with tx_apply_ok [OF s _ _ _ ap] spec
      have ok: "db_consistent tr s'" "e = None \<Longrightarrow>
          contents tr s' = fold apply_effect (concat (map (tx_effects en region) rs)) (contents tr s)"
        "e = None \<Longrightarrow> list_all (\<lambda>(x, _, existing, _). \<exists>v. tx_result en x existing = Inr v) rs"
        by blast+
      have "case tx_target x of None \<Rightarrow> False
           | Some (_, key, _, c) \<Rightarrow> getItem tr region t key (db_items s) = Inr existing
               \<and> check_condition en c existing = None
               \<and> getItem tr region t key (db_items s') = tx_result en x existing"
        if e: "e = None" and r: "(x, t, existing, reason) \<in> set rs" for x t existing reason
      proof -
        obtain name key operand c where x: "tx_target x = Some (name, key, operand, c)"
            "getItem tr region t key (db_items s) = Inr existing" "reason = [] \<longrightarrow> check_condition en c existing = None"
          using spec r by (fastforce simp: list_all_iff tx_resolved_def)
        have "reason = []" using False r by force
        then show ?thesis
          using x tx_reads [OF s conjunct2 [OF conjunct2 [OF conjunct2 [OF spec]]] conjunct1 [OF conjunct2 [OF spec]]
            ok(3) [OF e] ok(2) [OF e] r x(1)] by simp
      qed
      then show ?thesis using ok(1,2) Inr by (fastforce simp: list_all_iff)
    qed
  qed
  then show "db_consistent tr s'"
    "e = None \<Longrightarrow> \<exists>rs. tx_resolve en tr region s [] xs = Inr rs
      \<and> list_all (\<lambda>(x, t, existing, _). case tx_target x of None \<Rightarrow> False
           | Some (_, key, _, c) \<Rightarrow> getItem tr region t key (db_items s) = Inr existing
               \<and> check_condition en c existing = None
               \<and> getItem tr region t key (db_items s') = tx_result en x existing) rs
      \<and> contents tr s' = fold apply_effect (concat (map (tx_effects en region) rs)) (contents tr s)" by blast+
qed

lemma serve_ok:
  assumes s: "db_consistent tr s" "region_ok region" and ok: "admissible en tr region req s"
  shows "db_consistent tr (serve en tr pf region req s)"
proof (cases req)
  case (CreateTable t)
  then show ?thesis using storeNewTable_ok [OF s] ok by simp
next
  case (DeleteTable name)
  then show ?thesis using deleteTableTyped_ok [OF s] by simp
next
  case (UpdateTable name us)
  then show ?thesis using ok by (simp add: on_table_def) (rule updateTableIndexes_ok [OF s], simp)
next
  case (PutItem r)
  then show ?thesis using ok by (simp add: on_table_def) (rule putItemTypedCore_ok [OF s], simp)
next
  case (DeleteItem r)
  then show ?thesis using deleteItemTypedCore_ok [OF s] by simp
next
  case (UpdateItem r)
  then show ?thesis using ok by (simp add: on_table_def) (rule updateItemTypedCore_ok [OF s], simp)
next
  case (BatchWriteItem reqs)
  show ?thesis unfolding BatchWriteItem serve.simps
    by (rule batch_spec(1) [OF s ok [unfolded BatchWriteItem] surjective_pairing])
next
  case (TransactWriteItems xs)
  show ?thesis unfolding TransactWriteItems serve.simps
    by (rule transact_spec(1) [OF s ok [unfolded TransactWriteItems] surjective_pairing])
next
  case (ExpirySweep name now)
  then show ?thesis using ok s sweep_ok [OF s] by (cases "getTable region name s") (simp_all add: on_table_def)
qed

lemma run_ok: "ddb_run en tr pf s \<Longrightarrow> db_consistent tr s"
  by (induction rule: ddb_run.induct) (simp_all add: db_consistent_start serve_ok)

end

section \<open>Numeric sort keys\<close>





section \<open>The properties\<close>




text \<open>
  C3. In a state that admissible requests reach, an accepted admissible transaction (its
  items have no NUL byte in a key attribute and its update expressions leave the primary
  key alone) is the list of its writes: one per member, by the action the member selects;
  every condition holds of the items before it, every target reads afterwards as its own
  action leaves it, and apart from these the items are what they were.
\<close>

theorem transaction_refines:
  assumes "item_tree tr" "ddb_run en tr pf s" "region_ok region"
    and "admissible en tr region (TransactWriteItems xs) s"
    and "transactWriteItemsTypedCore en tr region xs s = (None, s')"
  shows "\<exists>rs. tx_resolve en tr region s [] xs = Inr rs \<and> map fst rs = map tx_action xs
    \<and> list_all (\<lambda>(x, t, existing, _). case tx_target x of None \<Rightarrow> False
         | Some (_, key, _, c) \<Rightarrow> getItem tr region t key (db_items s) = Inr existing
             \<and> check_condition en c existing = None
             \<and> getItem tr region t key (db_items s') = tx_result en x existing) rs
    \<and> contents tr s' = fold apply_effect (concat (map (tx_effects en region) rs)) (contents tr s)"
proof -
  obtain rs where rs: "tx_resolve en tr region s [] xs = Inr rs"
    "list_all (\<lambda>(x, t, existing, _). case tx_target x of None \<Rightarrow> False
         | Some (_, key, _, c) \<Rightarrow> getItem tr region t key (db_items s) = Inr existing
             \<and> check_condition en c existing = None
             \<and> getItem tr region t key (db_items s') = tx_result en x existing) rs"
    "contents tr s' = fold apply_effect (concat (map (tx_effects en region) rs)) (contents tr s)"
    using item_tree.transact_spec(2) [OF assms(1) item_tree.run_ok [OF assms(1,2)] assms(3-5)] by blast
  moreover have "map fst rs = map tx_action xs" using tx_resolve_spec [OF rs(1)] by blast
  ultimately show ?thesis by (intro exI conjI)
qed

text \<open>
  C15. A transaction that is not accepted writes nothing at all, as long as the update
  expressions it holds can be applied to the items they name.
\<close>

theorem transaction_rejected_unchanged:
  assumes "list_all (update_applies en tr region s) xs"
    and "transactWriteItemsTypedCore en tr region xs s = (Some e, s')"
  shows "s' = s"
  by (rule transact_error_unchanged [OF assms])

text \<open>
  C16. In a state that admissible requests reach, a batch of writes that has no NUL byte in a
  key attribute (\<open>admissible\<close>) is checked as a whole first: when it is rejected nothing was
  written, and when it is accepted every write of it was done.
\<close>

theorem batch_refines:
  assumes "item_tree tr" "ddb_run en tr pf s" "region_ok region"
    and "admissible en tr region (BatchWriteItem reqs) s"
  shows "case batchWriteItemTypedCore tr region reqs s of
      (Some _, s') \<Rightarrow> s' = s
    | (None, s') \<Rightarrow> \<exists>ts. resolve_tables region s reqs = Inr ts \<and> contents tr s' = fold apply_effect
        (concat (map (op_effects region) (concat (map (\<lambda>(t, ops). map (Pair t) ops) ts)))) (contents tr s)"
  using batch_error_unchanged [of tr region reqs s]
    item_tree.batch_spec(2) [OF assms(1) item_tree.run_ok [OF assms(1,2)] assms(3,4)]
  by (auto split: prod.split option.split)

section \<open>Examples\<close>

fun run_requests ::
  "'e expr_engine \<Rightarrow> 't tree_ops \<Rightarrow> (string \<Rightarrow> int option) \<Rightarrow> string \<Rightarrow> request list \<Rightarrow> 't ddb \<Rightarrow> bool \<times> 't ddb"
where
  "run_requests en tr pf region [] s = (True, s)"
| "run_requests en tr pf region (req # reqs) s =
     (case run_requests en tr pf region reqs (serve en tr pf region req s) of
        (ok, s') \<Rightarrow> (admissible en tr region req s \<and> ok, s'))"

lemma run_requests_run:
  "ddb_run en tr pf s \<Longrightarrow> region_ok region \<Longrightarrow> run_requests en tr pf region reqs s = (True, s') \<Longrightarrow> ddb_run en tr pf s'"
proof (induction reqs arbitrary: s)
  case (Cons req reqs)
  then show ?case by (cases "run_requests en tr pf region reqs (serve en tr pf region req s)") (auto intro: ddb_run.step)
qed simp

definition demo_engine :: "string expr_engine" where
  "demo_engine = \<lparr>ex_compileFilter = (\<lambda>e _ _. Inr e), ex_evalFilter = (\<lambda>e i. Inr (map_of i e \<noteq> None)),
     ex_applyUpdate = (\<lambda>i e _ _. if e = ''fail'' then Inl ''no'' else Inr (map_put ''c'' [(''S'', AStr e)] i))\<rparr>"

definition demo_index :: SecondaryIndex where
  "demo_index = \<lparr>si_IndexName = ''byc'',
     si_KeySchema = [\<lparr>kse_AttributeName = ''c'', kse_KeyType = ''HASH''\<rparr>, \<lparr>kse_AttributeName = ''n'', kse_KeyType = ''RANGE''\<rparr>],
     si_Projection = \<lparr>pj_ProjectionType = ''KEYS_ONLY'', pj_NonKeyAttributes = []\<rparr>\<rparr>"

definition demo_table :: Table where
  "demo_table = \<lparr>t_TableName = ''t'',
     t_KeySchema = [\<lparr>kse_AttributeName = ''id'', kse_KeyType = ''HASH''\<rparr>, \<lparr>kse_AttributeName = ''n'', kse_KeyType = ''RANGE''\<rparr>],
     t_AttributeDefinitions = [\<lparr>ad_AttributeName = ''id'', ad_AttributeType = ''S''\<rparr>,
       \<lparr>ad_AttributeName = ''n'', ad_AttributeType = ''N''\<rparr>, \<lparr>ad_AttributeName = ''c'', ad_AttributeType = ''S''\<rparr>],
     t_streamEnabled = False, t_TTLAttribute = ''n'', t_GlobalSecondaryIndexes = [demo_index], t_LocalSecondaryIndexes = []\<rparr>"

definition demo_key :: "string \<Rightarrow> string \<Rightarrow> Item" where
  "demo_key i n = [(''id'', [(''S'', AStr i)]), (''n'', [(''N'', AStr n)])]"

definition demo_item :: "string \<Rightarrow> string \<Rightarrow> string \<Rightarrow> Item" where
  "demo_item i n c = (''c'', [(''S'', AStr c)]) # demo_key i n"

definition no_condition :: condition where
  "no_condition = \<lparr>cd_Expression = [], cd_Names = [], cd_Values = []\<rparr>"


definition demo_start :: "row list ddb" where
  "demo_start = \<lparr>db_tables = [], db_items = \<lparr>mib_tables = [], mib_indexes = []\<rparr>\<rparr>"


definition enc_1 :: string where "enc_1 = ''210001000000000000000000000000000000000000000''"

definition enc_9 :: string where "enc_9 = ''210009000000000000000000000000000000000000000''"

definition enc_10 :: string where "enc_10 = ''210011000000000000000000000000000000000000000''"

definition enc_m100 :: string where "enc_m100 = ''089978999999999999999999999999999999999999999''"

definition demo_state :: "row list ddb" where
  "demo_state = \<lparr>db_tables = [(''r/t'', demo_table)],
     db_items = \<lparr>mib_tables = [(''r/t'', [
         (itemCompositeKey ''b'' enc_1, demo_item ''b'' ''1'' ''x''),
         (itemCompositeKey ''a'' enc_m100, demo_key ''a'' ''-1e2''),
         (itemCompositeKey ''a'' enc_9, demo_item ''a'' ''9'' ''x''),
         (itemCompositeKey ''a'' enc_10, demo_item ''a'' ''10'' ''x'')])],
       mib_indexes = [((''r/t'', ''byc''), [
         (indexCompositeKey ''x'' enc_1 ''b'' enc_1, demo_item ''b'' ''1'' ''x''),
         (indexCompositeKey ''x'' enc_9 ''a'' enc_9, demo_item ''a'' ''9'' ''x''),
         (indexCompositeKey ''x'' enc_10 ''a'' enc_10, demo_item ''a'' ''10'' ''x'')])]\<rparr>\<rparr>"

definition demo_partition :: "Item list" where
  "demo_partition = [demo_key ''a'' ''-1e2'', demo_item ''a'' ''9'' ''x'', demo_item ''a'' ''10'' ''x'']"


lemma demo_facts:
  "getTable ''r'' ''t'' demo_state = Inr demo_table"
  "scanItemsByHashKey alist_tree ''r'' demo_table ''a'' (db_items demo_state) = demo_partition"
  "scanIndexByHash alist_tree ''r'' demo_table demo_index ''x'' (db_items demo_state)
     = [demo_item ''b'' ''1'' ''x'', demo_item ''a'' ''9'' ''x'', demo_item ''a'' ''10'' ''x'']"
  "region_ok ''r''"
  by code_simp+





text \<open>A table with a string key, for the requests of several items.\<close>

definition small_index :: SecondaryIndex where
  "small_index = \<lparr>si_IndexName = ''byc'', si_KeySchema = [\<lparr>kse_AttributeName = ''c'', kse_KeyType = ''HASH''\<rparr>],
     si_Projection = \<lparr>pj_ProjectionType = ''ALL'', pj_NonKeyAttributes = []\<rparr>\<rparr>"

definition small_table :: Table where
  "small_table = \<lparr>t_TableName = ''u'', t_KeySchema = [\<lparr>kse_AttributeName = ''id'', kse_KeyType = ''HASH''\<rparr>],
     t_AttributeDefinitions = [\<lparr>ad_AttributeName = ''id'', ad_AttributeType = ''S''\<rparr>,
       \<lparr>ad_AttributeName = ''c'', ad_AttributeType = ''S''\<rparr>],
     t_streamEnabled = False, t_TTLAttribute = ''n'', t_GlobalSecondaryIndexes = [small_index], t_LocalSecondaryIndexes = []\<rparr>"

definition small_key :: "string \<Rightarrow> Item" where
  "small_key i = [(''id'', [(''S'', AStr i)])]"

definition small_item :: "string \<Rightarrow> string \<Rightarrow> Item" where
  "small_item i c = [(''c'', [(''S'', AStr c)]), (''id'', [(''S'', AStr i)]), (''n'', [(''N'', AStr ''5'')])]"

definition small_requests :: "request list" where
  "small_requests = [CreateTable small_table, PutItem \<lparr>pi_TableName = ''u'', pi_Item = small_item ''a'' ''x'',
     pi_Condition = no_condition, pi_ReturnValues = []\<rparr>]"

definition small_state :: "row list ddb" where
  "small_state = \<lparr>db_tables = [(''r/u'', small_table)],
     db_items = \<lparr>mib_tables = [(''r/u'', [(itemCompositeKey ''a'' [], small_item ''a'' ''x'')])],
       mib_indexes = [((''r/u'', ''byc''), [(indexCompositeKey ''x'' [] ''a'' [], small_item ''a'' ''x'')])]\<rparr>\<rparr>"

definition has_c :: condition where
  "has_c = \<lparr>cd_Expression = ''c'', cd_Names = [], cd_Values = []\<rparr>"

definition no_action :: transactWriteItem where
  "no_action = \<lparr>ti_ConditionCheck = None, ti_Put = None, ti_Delete = None, ti_Update = None\<rparr>"

definition put_b :: transactWriteItem where
  "put_b = no_action\<lparr>ti_Put := Some (''u'', small_item ''b'' ''x'', no_condition)\<rparr>"

definition check_of :: "string \<Rightarrow> transactWriteItem" where
  "check_of i = no_action\<lparr>ti_ConditionCheck := Some (''u'', small_key i, has_c)\<rparr>"

definition update_a :: "string \<Rightarrow> transactWriteItem" where
  "update_a expr = no_action\<lparr>ti_Update := Some (''u'', small_key ''a'', expr, has_c)\<rparr>"

definition good_transaction :: "transactWriteItem list" where
  "good_transaction = [put_b, update_a ''y'']"

definition cancelled_transaction :: "transactWriteItem list" where
  "cancelled_transaction = [put_b, check_of ''z'']"

definition failing_transaction :: "transactWriteItem list" where
  "failing_transaction = [put_b, update_a ''fail'']"

definition small_batch :: "writeRequest list gomap" where
  "small_batch = [(''u'', [DeleteRequest (small_key ''a''), PutRequest (small_item ''b'' ''x'')])]"

lemma small_facts:
  "run_requests demo_engine alist_tree (\<lambda>_. Some 5) ''r'' small_requests demo_start = (True, small_state)"
  "admissible demo_engine alist_tree ''r'' (TransactWriteItems good_transaction) small_state"
  "fst (transactWriteItemsTypedCore demo_engine alist_tree ''r'' good_transaction small_state) = None"
  "list_all (update_applies demo_engine alist_tree ''r'' small_state) cancelled_transaction"
  "fst (transactWriteItemsTypedCore demo_engine alist_tree ''r'' cancelled_transaction small_state)
     = Some (TransactionCanceledException [[], ''ConditionalCheckFailed''])"
  "admissible demo_engine alist_tree ''r'' (BatchWriteItem small_batch) small_state"
  "fst (batchWriteItemTypedCore alist_tree ''r'' small_batch small_state) = None"
  by code_simp+

lemma small_run: "ddb_run demo_engine alist_tree (\<lambda>_. Some 5) small_state"
  by (rule run_requests_run [OF ddb_run.start demo_facts(4) small_facts(1) [unfolded demo_start_def]])

lemma transaction_refines_witness:
  "\<exists>rs. tx_resolve demo_engine alist_tree ''r'' small_state [] good_transaction = Inr rs
    \<and> contents alist_tree (snd (transactWriteItemsTypedCore demo_engine alist_tree ''r'' good_transaction small_state))
      = fold apply_effect (concat (map (tx_effects demo_engine ''r'') rs)) (contents alist_tree small_state)"
proof -
  define r where "r = transactWriteItemsTypedCore demo_engine alist_tree ''r'' good_transaction small_state"
  have "r = (None, snd r)" using small_facts(3) by (simp add: r_def [symmetric] prod_eq_iff)
  from transaction_refines [OF alist_items.item_tree_axioms small_run demo_facts(4) small_facts(2) this [unfolded r_def]]
  show ?thesis by blast
qed

lemma transaction_rejected_unchanged_witness:
  "snd (transactWriteItemsTypedCore demo_engine alist_tree ''r'' cancelled_transaction small_state) = small_state"
  by (rule transaction_rejected_unchanged [OF small_facts(4)]) (simp add: prod_eq_iff small_facts(5))

lemma batch_refines_witness:
  "\<exists>ts. resolve_tables ''r'' small_state small_batch = Inr ts
    \<and> contents alist_tree (snd (batchWriteItemTypedCore alist_tree ''r'' small_batch small_state)) = fold apply_effect
        (concat (map (op_effects ''r'') (concat (map (\<lambda>(t, ops). map (Pair t) ops) ts)))) (contents alist_tree small_state)"
  using batch_refines [OF alist_items.item_tree_axioms small_run demo_facts(4) small_facts(6)] small_facts(7)
  by (simp split: prod.splits)

text \<open>
  Two places where the code falls short of these properties.  An update expression that
  fails in the second phase leaves the earlier writes of its transaction behind.
\<close>

lemma failed_update_leaves_writes:
  "fst (transactWriteItemsTypedCore demo_engine alist_tree ''r'' failing_transaction small_state) = Some (ValidationException ''no'')
   \<and> getItem alist_tree ''r'' small_table (small_key ''b'')
       (db_items (snd (transactWriteItemsTypedCore demo_engine alist_tree ''r'' failing_transaction small_state)))
     = Inr (Some (small_item ''b'' ''x''))"
  by code_simp

text \<open>
  A member with several actions is accepted, although the message for an empty one asks for
  exactly one: the condition check is made and the put beside it is dropped.
\<close>

lemma several_actions_first_wins:
  "fst (transactWriteItemsTypedCore demo_engine alist_tree ''r''
       [put_b\<lparr>ti_ConditionCheck := Some (''u'', small_key ''a'', has_c)\<rparr>] small_state) = None
   \<and> snd (transactWriteItemsTypedCore demo_engine alist_tree ''r''
       [put_b\<lparr>ti_ConditionCheck := Some (''u'', small_key ''a'', has_c)\<rparr>] small_state) = small_state"
  by code_simp

text \<open>The expiry sweep takes the item out of the table and leaves its row in the index.\<close>

lemma sweep_leaves_index_row:
  "scanItems alist_tree ''r'' ''u'' (sweepTable alist_tree (\<lambda>_. Some 5) ''r'' small_table 10 (db_items small_state)) = []
   \<and> scanIndexByHash alist_tree ''r'' small_table small_index ''x''
       (sweepTable alist_tree (\<lambda>_. Some 5) ''r'' small_table 10 (db_items small_state)) = [small_item ''a'' ''x'']"
  by code_simp

end
