(* ===== verification/Namespaced_Store.thy ===== *)
theory Namespaced_Store
  imports Memory_Store
begin

text \<open>
  The dispatcher of \<^verbatim>\<open>internal/state/namespaced.go\<close>, which routes every operation
  to the backend of the service that owns the namespace.

  Backends are Go interface values compared by identity, so they are modelled as
  numbers into an explicit heap of store states, with the method table of each number;
  two routes may name the same backend.  The locale \<open>store_family\<close> states what the
  dispatcher relies on (each backend keeps the contract \<open>kv_store\<close>), and the sublocale
  shows that the dispatcher keeps it as well, as long as every backend holds only
  namespaces that are routed to it.
\<close>

section \<open>The dispatcher\<close>

type_synonym store_id = nat
type_synonym 's heap = "store_id \<Rightarrow> 's"

record namespaced_store =
  defaultStore :: store_id
  routes :: "(string \<times> store_id) list"

definition NewNamespacedStore :: "store_id \<Rightarrow> (string \<times> store_id) list \<Rightarrow> namespaced_store" where
  "NewNamespacedStore d rs = \<lparr>defaultStore = d, routes = rs\<rparr>"

definition StoreFor :: "namespaced_store \<Rightarrow> string \<Rightarrow> store_id" where
  "StoreFor n servicePrefix =
     (case map_of (routes n) servicePrefix of Some st \<Rightarrow> st | None \<Rightarrow> defaultStore n)"

definition storeFor :: "namespaced_store \<Rightarrow> string \<Rightarrow> store_id" where
  "storeFor n namespace =
     (case str_index namespace '':'' of
        Some i \<Rightarrow> if i > 0 then StoreFor n (take i namespace) else StoreFor n namespace
      | None \<Rightarrow> StoreFor n namespace)"

text \<open>A store value is a dispatcher or some other backend.\<close>

datatype store_value = Namespaced namespaced_store | Backend store_id

fun Unwrap :: "store_value \<Rightarrow> string \<Rightarrow> store_value" where
  "Unwrap (Namespaced n) servicePrefix = Backend (StoreFor n servicePrefix)"
| "Unwrap (Backend i) servicePrefix = Backend i"

fun add_store :: "store_id \<Rightarrow> store_id list \<Rightarrow> store_id list" where
  "add_store st stores = (if st \<in> set stores then stores else stores @ [st])"

definition UnderlyingStores :: "namespaced_store \<Rightarrow> store_id list" where
  "UnderlyingStores n = fold (\<lambda>(_, st) stores. add_store st stores) (routes n) (add_store (defaultStore n) [])"

definition ns_Get :: "(store_id \<Rightarrow> 's store_ops) \<Rightarrow> namespaced_store \<Rightarrow> 's heap \<Rightarrow> string \<Rightarrow> string
    \<Rightarrow> (string \<times> bool) result \<times> 's heap" where
  "ns_Get reg n h namespace key =
     (let i = storeFor n namespace; (r, s) = st_Get (reg i) (h i) namespace key in (r, h(i := s)))"

definition ns_Set :: "(store_id \<Rightarrow> 's store_ops) \<Rightarrow> namespaced_store \<Rightarrow> 's heap \<Rightarrow> string \<Rightarrow> string
    \<Rightarrow> string \<Rightarrow> unit result \<times> 's heap" where
  "ns_Set reg n h namespace key value =
     (let i = storeFor n namespace; (r, s) = st_Set (reg i) (h i) namespace key value in (r, h(i := s)))"

definition ns_Delete :: "(store_id \<Rightarrow> 's store_ops) \<Rightarrow> namespaced_store \<Rightarrow> 's heap \<Rightarrow> string \<Rightarrow> string
    \<Rightarrow> unit result \<times> 's heap" where
  "ns_Delete reg n h namespace key =
     (let i = storeFor n namespace; (r, s) = st_Delete (reg i) (h i) namespace key in (r, h(i := s)))"

text \<open>The fallback when the backend has no ranged delete: enumerate, then delete one by one.\<close>

fun delete_keys :: "'s store_ops \<Rightarrow> 's \<Rightarrow> string \<Rightarrow> string list \<Rightarrow> unit result \<times> 's" where
  "delete_keys ops s namespace [] = (Inr (), s)"
| "delete_keys ops s namespace (key # keys) =
     (case st_Delete ops s namespace key of
        (Inl e, s') \<Rightarrow> (Inl e, s')
      | (Inr _, s') \<Rightarrow> delete_keys ops s' namespace keys)"

definition ns_DeletePrefix :: "(store_id \<Rightarrow> 's store_ops) \<Rightarrow> namespaced_store \<Rightarrow> 's heap \<Rightarrow> string
    \<Rightarrow> string \<Rightarrow> unit result \<times> 's heap" where
  "ns_DeletePrefix reg n h namespace p =
     (let i = storeFor n namespace in
      case st_DeletePrefix (reg i) of
        Some deleter \<Rightarrow> (let (r, s) = deleter (h i) namespace p in (r, h(i := s)))
      | None \<Rightarrow>
          (case st_List (reg i) (h i) namespace p of
             (Inl e, s) \<Rightarrow> (Inl e, h(i := s))
           | (Inr keys, s) \<Rightarrow> (let (r, s') = delete_keys (reg i) s namespace keys in (r, h(i := s')))))"

definition ns_List :: "(store_id \<Rightarrow> 's store_ops) \<Rightarrow> namespaced_store \<Rightarrow> 's heap \<Rightarrow> string \<Rightarrow> string
    \<Rightarrow> string list result \<times> 's heap" where
  "ns_List reg n h namespace p =
     (let i = storeFor n namespace; (r, s) = st_List (reg i) (h i) namespace p in (r, h(i := s)))"

text \<open>
  The loop over the distinct backends: the first error ends it; otherwise every
  namespace not seen before is appended.
\<close>

fun collect_namespaces :: "(store_id \<Rightarrow> 's store_ops) \<Rightarrow> 's heap \<Rightarrow> store_id list \<Rightarrow> string list
    \<Rightarrow> string list result \<times> 's heap" where
  "collect_namespaces reg h [] namespaces = (Inr namespaces, h)"
| "collect_namespaces reg h (i # is) namespaces =
     (case st_ListNamespaces (reg i) (h i) of
        (Inl e, s) \<Rightarrow> (Inl e, h(i := s))
      | (Inr items, s) \<Rightarrow>
          collect_namespaces reg (h(i := s)) is
            (fold (\<lambda>ns acc. if ns \<in> set acc then acc else acc @ [ns]) items namespaces))"

definition ns_ListNamespaces :: "(store_id \<Rightarrow> 's store_ops) \<Rightarrow> namespaced_store \<Rightarrow> 's heap
    \<Rightarrow> string list result \<times> 's heap" where
  "ns_ListNamespaces reg n h =
     (case collect_namespaces reg h (UnderlyingStores n) [] of
        (Inl e, h') \<Rightarrow> (Inl e, h')
      | (Inr namespaces, h') \<Rightarrow> (Inr (sort namespaces), h'))"

definition ns_Scan :: "(store_id \<Rightarrow> 's store_ops) \<Rightarrow> namespaced_store \<Rightarrow> 's heap \<Rightarrow> string \<Rightarrow> string
    \<Rightarrow> KV list result \<times> 's heap" where
  "ns_Scan reg n h namespace p =
     (let i = storeFor n namespace; (r, s) = st_Scan (reg i) (h i) namespace p in (r, h(i := s)))"

definition ns_ScanPage :: "(store_id \<Rightarrow> 's store_ops) \<Rightarrow> namespaced_store \<Rightarrow> 's heap \<Rightarrow> string \<Rightarrow> string
    \<Rightarrow> string \<Rightarrow> int \<Rightarrow> (KV list \<times> string) result \<times> 's heap" where
  "ns_ScanPage reg n h namespace p startAfter limit =
     (let i = storeFor n namespace; (r, s) = st_ScanPage (reg i) (h i) namespace p startAfter limit
      in (r, h(i := s)))"

text \<open>Every backend is closed, whatever the others answer; the first error is reported.\<close>

fun close_stores :: "(store_id \<Rightarrow> 's store_ops) \<Rightarrow> 's heap \<Rightarrow> store_id list \<Rightarrow> unit result \<Rightarrow> unit result \<times> 's heap"
where
  "close_stores reg h [] first = (first, h)"
| "close_stores reg h (i # is) first =
     (let (r, s) = st_Close (reg i) (h i);
          first' = (case (r, first) of (Inl e, Inr _) \<Rightarrow> Inl e | _ \<Rightarrow> first)
      in close_stores reg (h(i := s)) is first')"

definition ns_Close :: "(store_id \<Rightarrow> 's store_ops) \<Rightarrow> namespaced_store \<Rightarrow> 's heap \<Rightarrow> unit result \<times> 's heap" where
  "ns_Close reg n h = close_stores reg h (UnderlyingStores n) (Inr ())"

text \<open>
  Readiness.  \<open>awaiter i\<close> and \<open>reporter i\<close> are \<open>None\<close> for a backend that does not
  implement the optional interface.
\<close>

fun wait_ready :: "(store_id \<Rightarrow> unit result option) \<Rightarrow> store_id list \<Rightarrow> unit result" where
  "wait_ready awaiter [] = Inr ()"
| "wait_ready awaiter (i # is) =
     (case awaiter i of Some (Inl e) \<Rightarrow> Inl e | _ \<Rightarrow> wait_ready awaiter is)"

definition ns_WaitReady :: "(store_id \<Rightarrow> unit result option) \<Rightarrow> namespaced_store \<Rightarrow> unit result" where
  "ns_WaitReady awaiter n = wait_ready awaiter (UnderlyingStores n)"

definition ns_NotReady :: "(store_id \<Rightarrow> bool option) \<Rightarrow> namespaced_store \<Rightarrow> bool" where
  "ns_NotReady reporter n = list_ex (\<lambda>i. reporter i = Some True) (UnderlyingStores n)"

definition ns_ops :: "(store_id \<Rightarrow> 's store_ops) \<Rightarrow> namespaced_store \<Rightarrow> 's heap store_ops" where
  "ns_ops reg n = \<lparr>st_Get = ns_Get reg n, st_Set = ns_Set reg n, st_Delete = ns_Delete reg n,
     st_DeletePrefix = Some (ns_DeletePrefix reg n), st_List = ns_List reg n,
     st_ListNamespaces = ns_ListNamespaces reg n, st_Scan = ns_Scan reg n,
     st_ScanPage = ns_ScanPage reg n, st_Close = ns_Close reg n\<rparr>"

section \<open>Routing\<close>

lemma set_add_store [simp]: "set (add_store st stores) = insert st (set stores)"
  by auto

lemma distinct_add_store [simp]: "distinct (add_store st stores) = distinct stores"
  by auto

declare add_store.simps [simp del]

lemma fold_add_store:
  "set (fold (\<lambda>(_, st) acc. add_store st acc) rs acc) = set acc \<union> snd ` set rs"
  "distinct (fold (\<lambda>(_, st) acc. add_store st acc) rs acc) = distinct acc"
  by (induction rs arbitrary: acc) (auto split: prod.splits)

lemma UnderlyingStores_set:
  "set (UnderlyingStores n) = insert (defaultStore n) (snd ` set (routes n))"
  "distinct (UnderlyingStores n)"
  by (simp_all add: UnderlyingStores_def fold_add_store)

lemma StoreFor_underlying: "StoreFor n p \<in> set (UnderlyingStores n)"
  by (auto simp: StoreFor_def UnderlyingStores_set split: option.splits) (metis map_of_SomeD snd_conv image_eqI)

lemma storeFor_underlying [simp]: "storeFor n ns \<in> set (UnderlyingStores n)"
  by (simp add: storeFor_def StoreFor_underlying split: option.split)

lemma str_index_colon: "CHR '':'' \<notin> set svc \<Longrightarrow> str_index (svc @ CHR '':'' # rest) '':'' = Some (length svc)"
  by (induction svc) (auto simp: str_index.simps HasPrefix_def)

lemma str_index_colon_None: "CHR '':'' \<notin> set svc \<Longrightarrow> str_index svc '':'' = None"
  by (induction svc) (auto simp: str_index.simps HasPrefix_def)

section \<open>The contract\<close>

definition ns_view :: "(store_id \<Rightarrow> 's \<Rightarrow> contents) \<Rightarrow> namespaced_store \<Rightarrow> 's heap \<Rightarrow> contents" where
  "ns_view view n h ns = view (storeFor n ns) (h (storeFor n ns)) ns"

definition ns_invar :: "(store_id \<Rightarrow> 's \<Rightarrow> contents) \<Rightarrow> (store_id \<Rightarrow> 's \<Rightarrow> bool) \<Rightarrow> namespaced_store \<Rightarrow> 's heap \<Rightarrow> bool"
where
  "ns_invar view invar n h \<longleftrightarrow>
     (\<forall>i \<in> set (UnderlyingStores n). invar i (h i)
        \<and> (\<forall>ns. view i (h i) ns \<noteq> Map.empty \<longrightarrow> storeFor n ns = i))"

locale store_family =
  fixes reg :: "store_id \<Rightarrow> 's store_ops"
    and view :: "store_id \<Rightarrow> 's \<Rightarrow> contents"
    and invar :: "store_id \<Rightarrow> 's \<Rightarrow> bool"
    and n :: namespaced_store
  assumes member: "i \<in> set (UnderlyingStores n) \<Longrightarrow> kv_store (reg i) (view i) (invar i)"
begin

lemmas member_for = member [OF storeFor_underlying]

lemma invar_routed: "ns_invar view invar n h \<Longrightarrow> invar (storeFor n ns) (h (storeFor n ns))"
  by (simp add: ns_invar_def)

lemma invar_upd:
  assumes "ns_invar view invar n h" "invar i s"
    and "\<And>ns. view i s ns \<noteq> Map.empty \<Longrightarrow> view i (h i) ns \<noteq> Map.empty \<or> storeFor n ns = i"
  shows "ns_invar view invar n (h(i := s))"
  using assms unfolding ns_invar_def by (metis fun_upd_apply)

lemma read_upd:
  assumes "ns_invar view invar n h" "view i s = view i (h i)" "invar i s"
  shows "ns_view view n (h(i := s)) = ns_view view n h \<and> ns_invar view invar n (h(i := s))"
  using assms by (auto intro!: invar_upd simp: ns_view_def fun_eq_iff)

lemma fold_seen:
  "set (fold (\<lambda>ns acc. if ns \<in> set acc then acc else acc @ [ns]) items acc) = set acc \<union> set items"
  "distinct acc \<Longrightarrow> distinct (fold (\<lambda>ns acc. if ns \<in> set acc then acc else acc @ [ns]) items acc)"
  by (induction items arbitrary: acc) auto

lemma collect_namespaces_spec:
  assumes "ns_invar view invar n h" "set is \<subseteq> set (UnderlyingStores n)" "distinct acc"
  shows "\<exists>nss h'. collect_namespaces reg h is acc = (Inr nss, h') \<and> distinct nss
      \<and> set nss = set acc \<union> {ns. \<exists>i \<in> set is. view i (h i) ns \<noteq> Map.empty}
      \<and> ns_view view n h' = ns_view view n h \<and> ns_invar view invar n h'"
  using assms
proof (induction "is" arbitrary: h acc)
  case (Cons i "is")
  then have iU: "i \<in> set (UnderlyingStores n)" and inv: "invar i (h i)"
    by (auto simp: ns_invar_def)
  obtain items s where call: "st_ListNamespaces (reg i) (h i) = (Inr items, s)"
    "set items = {ns. view i (h i) ns \<noteq> Map.empty}" "view i s = view i (h i)" "invar i s"
    using kv_store.namespaces_law [OF member [OF iU] inv] by (metis prod.collapse)
  let ?acc = "fold (\<lambda>ns acc. if ns \<in> set acc then acc else acc @ [ns]) items acc"
  have keep: "ns_view view n (h(i := s)) = ns_view view n h" "ns_invar view invar n (h(i := s))"
    using read_upd [OF Cons.prems(1) call(3,4)] by auto
  have same: "view j ((h(i := s)) j) = view j (h j)" for j using call(3) by simp
  have sub: "set is \<subseteq> set (UnderlyingStores n)" using Cons.prems(2) by simp
  obtain nss h' where ih: "collect_namespaces reg (h(i := s)) is ?acc = (Inr nss, h')" "distinct nss"
    "set nss = set ?acc \<union> {ns. \<exists>j \<in> set is. view j ((h(i := s)) j) ns \<noteq> Map.empty}"
    "ns_view view n h' = ns_view view n (h(i := s))" "ns_invar view invar n h'"
    using Cons.IH [OF keep(2) sub fold_seen(2) [OF Cons.prems(3)], of items] by blast
  have "set nss = set acc \<union> {ns. \<exists>j \<in> set (i # is). view j (h j) ns \<noteq> Map.empty}"
    unfolding ih(3) same fold_seen(1) call(2) by auto
  with ih show ?case by (simp add: call(1) keep(1) del: fun_upd_apply)
qed auto

lemma ns_ListNamespaces_spec:
  assumes "ns_invar view invar n h"
  shows "\<exists>nss h'. ns_ListNamespaces reg n h = (Inr nss, h') \<and> sorted_wrt (<) nss
      \<and> set nss = {ns. ns_view view n h ns \<noteq> Map.empty}
      \<and> ns_view view n h' = ns_view view n h \<and> ns_invar view invar n h'"
proof -
  obtain nss h' where *: "collect_namespaces reg h (UnderlyingStores n) [] = (Inr nss, h')" "distinct nss"
    "set nss = {ns. \<exists>i \<in> set (UnderlyingStores n). view i (h i) ns \<noteq> Map.empty}"
    "ns_view view n h' = ns_view view n h" "ns_invar view invar n h'"
    using collect_namespaces_spec [OF assms order_refl, of "[]"] by auto
  moreover have "{ns. \<exists>i \<in> set (UnderlyingStores n). view i (h i) ns \<noteq> Map.empty}
      = {ns. ns_view view n h ns \<noteq> Map.empty}"
    using assms storeFor_underlying unfolding ns_invar_def ns_view_def by blast
  ultimately show ?thesis by (simp add: ns_ListNamespaces_def strict_sorted_iff)
qed

text \<open>
  A routed call that leaves the backend's contents alone leaves the dispatcher's alone.
\<close>

lemma routed_read:
  assumes "ns_invar view invar n h" "i = storeFor n ns"
    and "view i (snd c) = view i (h i) \<and> invar i (snd c)"
  shows "ns_view view n (h(i := snd c)) = ns_view view n h \<and> ns_invar view invar n (h(i := snd c))"
  using assms read_upd by blast

lemma routed_write:
  assumes "ns_invar view invar n h" "i = storeFor n ns" "invar i s"
    and "view i s = (view i (h i))(ns := m)"
  shows "ns_view view n (h(i := s)) = (ns_view view n h)(ns := m)"
    "ns_invar view invar n (h(i := s))"
  using assms by (auto intro!: invar_upd simp: ns_view_def fun_eq_iff split: if_splits)

lemma ns_kv_store: "kv_store (ns_ops reg n) (ns_view view n) (ns_invar view invar n)"
proof
  fix h ns k v
  assume inv: "ns_invar view invar n h"
  let ?i = "storeFor n ns"
  note m = member_for [of ns] and ri = invar_routed [OF inv, of ns]
  show "fst (st_Get (ns_ops reg n) h ns k) = Inr (get_spec (ns_view view n h) ns k)
      \<and> ns_view view n (snd (st_Get (ns_ops reg n) h ns k)) = ns_view view n h
      \<and> ns_invar view invar n (snd (st_Get (ns_ops reg n) h ns k))"
    using kv_store.get_law [OF m ri, of ns k] routed_read [OF inv refl, of ns "st_Get (reg ?i) (h ?i) ns k"]
    by (simp add: ns_ops_def ns_Get_def Let_def case_prod_unfold get_spec_def ns_view_def)
  show "fst (st_Set (ns_ops reg n) h ns k v) = Inr ()
      \<and> ns_view view n (snd (st_Set (ns_ops reg n) h ns k v)) = set_spec (ns_view view n h) ns k v
      \<and> ns_invar view invar n (snd (st_Set (ns_ops reg n) h ns k v))"
    using kv_store.set_law [OF m ri, of ns k v] routed_write [OF inv refl, of ns]
    by (simp add: ns_ops_def ns_Set_def Let_def case_prod_unfold set_spec_def ns_view_def [of view n h ns])
  show "fst (st_Delete (ns_ops reg n) h ns k) = Inr ()
      \<and> ns_view view n (snd (st_Delete (ns_ops reg n) h ns k)) = delete_spec (ns_view view n h) ns k
      \<and> ns_invar view invar n (snd (st_Delete (ns_ops reg n) h ns k))"
    using kv_store.delete_law [OF m ri, of ns k] routed_write [OF inv refl, of ns]
    by (simp add: ns_ops_def ns_Delete_def Let_def case_prod_unfold delete_spec_def ns_view_def [of view n h ns])
next
  fix h ns p
  assume inv: "ns_invar view invar n h"
  let ?i = "storeFor n ns"
  note m = member_for [of ns] and ri = invar_routed [OF inv, of ns]
  show "(\<exists>xs. scan_spec (ns_view view n h ns) p xs \<and> fst (st_List (ns_ops reg n) h ns p) = Inr (map fst xs))
      \<and> ns_view view n (snd (st_List (ns_ops reg n) h ns p)) = ns_view view n h
      \<and> ns_invar view invar n (snd (st_List (ns_ops reg n) h ns p))"
    using kv_store.list_law [OF m ri, of ns p] routed_read [OF inv refl, of ns "st_List (reg ?i) (h ?i) ns p"]
    by (simp add: ns_ops_def ns_List_def Let_def case_prod_unfold ns_view_def)
  show "(\<exists>xs. scan_spec (ns_view view n h ns) p xs \<and> fst (st_Scan (ns_ops reg n) h ns p) = Inr xs)
      \<and> ns_view view n (snd (st_Scan (ns_ops reg n) h ns p)) = ns_view view n h
      \<and> ns_invar view invar n (snd (st_Scan (ns_ops reg n) h ns p))"
    using kv_store.scan_law [OF m ri, of ns p] routed_read [OF inv refl, of ns "st_Scan (reg ?i) (h ?i) ns p"]
    by (simp add: ns_ops_def ns_Scan_def Let_def case_prod_unfold ns_view_def)
next
  fix h ns p xs sa lim
  assume inv: "ns_invar view invar n h" and sp: "scan_spec (ns_view view n h ns) p xs"
  let ?i = "storeFor n ns"
  show "fst (st_ScanPage (ns_ops reg n) h ns p sa lim) = Inr (page_spec xs sa lim)
      \<and> ns_view view n (snd (st_ScanPage (ns_ops reg n) h ns p sa lim)) = ns_view view n h
      \<and> ns_invar view invar n (snd (st_ScanPage (ns_ops reg n) h ns p sa lim))"
    using kv_store.page_law [OF member_for invar_routed [OF inv] sp [unfolded ns_view_def], of sa lim]
      routed_read [OF inv refl, of ns "st_ScanPage (reg ?i) (h ?i) ns p sa lim"]
    by (simp add: ns_ops_def ns_ScanPage_def Let_def case_prod_unfold)
next
  fix h
  assume "ns_invar view invar n h"
  from ns_ListNamespaces_spec [OF this]
  show "(\<exists>nss. fst (st_ListNamespaces (ns_ops reg n) h) = Inr nss \<and> sorted_wrt (<) nss
        \<and> set nss = {ns. ns_view view n h ns \<noteq> Map.empty})
      \<and> ns_view view n (snd (st_ListNamespaces (ns_ops reg n) h)) = ns_view view n h
      \<and> ns_invar view invar n (snd (st_ListNamespaces (ns_ops reg n) h))"
    by (auto simp: ns_ops_def)
qed

end

sublocale store_family \<subseteq> ns: kv_store "ns_ops reg n" "ns_view view n" "ns_invar view invar n"
  by (rule ns_kv_store)

section \<open>A family of memory stores\<close>

text \<open>
  The configuration of one per-service override: the service \<^verbatim>\<open>sqs\<close> on a store
  of its own, every other service on the default store.
\<close>

definition two_stores :: namespaced_store where
  "two_stores = NewNamespacedStore 0 [(''sqs'', 1)]"

interpretation mem_family: store_family "\<lambda>_. mem_ops alist_bt" "\<lambda>_. mem_view alist_bt" "\<lambda>_. mem_invar" two_stores
  by unfold_locales

section \<open>Properties\<close>

lemma close_stores_heap:
  "distinct is \<Longrightarrow> snd (close_stores reg h is first) = (\<lambda>i. if i \<in> set is then snd (st_Close (reg i) (h i)) else h i)"
proof (induction "is" arbitrary: h first)
  case (Cons i "is")
  then show ?case by (auto simp: Let_def case_prod_unfold fun_eq_iff)
qed simp

lemma close_stores_error: "fst (close_stores reg h is (Inl e)) = Inl e"
  by (induction "is" arbitrary: h) (auto simp: Let_def case_prod_unfold split: sum.split)

lemma close_stores_result:
  "distinct is \<Longrightarrow> fst (close_stores reg h is (Inr ())) = Inr ()
     \<longleftrightarrow> (\<forall>i \<in> set is. fst (st_Close (reg i) (h i)) = Inr ())"
proof (induction "is" arbitrary: h)
  case (Cons i "is")
  have "fst (st_Close (reg j) ((h(i := s)) j)) = fst (st_Close (reg j) (h j))" if "j \<in> set is" for j s
    using Cons.prems that by auto
  then show ?case
    using Cons
    by (cases "fst (st_Close (reg i) (h i))") (auto simp: Let_def case_prod_unfold close_stores_error)
qed simp

text \<open>
  C20. When every backend keeps the storage contract and holds only namespaces routed to it,
  the dispatcher keeps the same contract: services cannot tell one store from a family of
  per-service stores.
\<close>

theorem namespaced_store_contract:
  assumes "store_family reg view invar n"
  shows "kv_store (ns_ops reg n) (ns_view view n) (ns_invar view invar n)"
  using assms by (rule store_family.ns_kv_store)

theorem namespaced_store_contract_witness:
  "kv_store (ns_ops (\<lambda>_. mem_ops alist_bt) two_stores) (ns_view (\<lambda>_. mem_view alist_bt) two_stores)
      (ns_invar (\<lambda>_. mem_view alist_bt) (\<lambda>_. mem_invar) two_stores)
   \<and> ns_invar (\<lambda>_. mem_view alist_bt) (\<lambda>_. mem_invar) two_stores (\<lambda>_. NewMemoryStore)"
  using namespaced_store_contract [OF mem_family.store_family_axioms]
  by (simp add: ns_invar_def mem_invar_def mem_view_def NewMemoryStore_def)

text \<open>
  Routing by service prefix: a namespace \<^verbatim>\<open>svc:rest\<close> and the bare namespace
  \<^verbatim>\<open>svc\<close> both go to the store registered for the service \<^verbatim>\<open>svc\<close>, so an
  override reaches the services that use colonless namespaces too.
\<close>

theorem storeFor_service_prefix:
  assumes "svc \<noteq> []" "CHR '':'' \<notin> set svc"
  shows "storeFor n (svc @ '':'' @ rest) = StoreFor n svc \<and> storeFor n svc = StoreFor n svc"
  using assms by (simp add: storeFor_def str_index_colon str_index_colon_None)

theorem storeFor_service_prefix_witness:
  "storeFor two_stores ''sqs:queues'' = 1 \<and> storeFor two_stores ''sqs'' = 1"
  using storeFor_service_prefix [of "''sqs''" two_stores "''queues''"]
  by (simp add: StoreFor_def two_stores_def NewNamespacedStore_def)

text \<open>
  Closing the dispatcher closes each distinct backend exactly once, also one that serves
  several prefixes, and touches no other; the call succeeds exactly when every backend
  closed without an error.
\<close>

theorem ns_Close_each_once:
  "snd (ns_Close reg n h) = (\<lambda>i. if i \<in> set (UnderlyingStores n) then snd (st_Close (reg i) (h i)) else h i)
   \<and> (fst (ns_Close reg n h) = Inr () \<longleftrightarrow> (\<forall>i \<in> set (UnderlyingStores n). fst (st_Close (reg i) (h i)) = Inr ()))"
  by (simp add: ns_Close_def close_stores_heap close_stores_result UnderlyingStores_set(2))

text \<open>The hypothesis-like quantifier above is met by the memory stores, which close without an error.\<close>

theorem ns_Close_each_once_witness:
  "fst (ns_Close (\<lambda>_. mem_ops alist_bt) two_stores (\<lambda>_. NewMemoryStore)) = Inr ()"
  using ns_Close_each_once [of "\<lambda>_. mem_ops alist_bt" two_stores "\<lambda>_. NewMemoryStore"]
  by (simp add: mem_ops_def mem_Close_def)

text \<open>
  Without that restriction on what the backends hold, the listing of namespaces and the
  contents disagree: a namespace left in the default store from before an override was
  configured is still listed although every read of it goes to the other store and finds
  nothing.
\<close>

theorem ListNamespaces_stale_override:
  "let h = (\<lambda>i. if i = 0 then \<lparr>ms_data = [(''sqs:queues'', [(''q'', ''v'')])], ms_reads = 0, ms_writes = 1\<rparr>
                else NewMemoryStore);
       reg = (\<lambda>_. mem_ops alist_bt)
   in fst (ns_ListNamespaces reg two_stores h) = Inr [''sqs:queues'']
      \<and> fst (ns_Scan reg two_stores h ''sqs:queues'' []) = Inr []"
  by code_simp

end
