(* ===== verification/Wal_Store.thy ===== *)
theory Wal_Store
  imports Memory_Store Go_Json
begin

text \<open>
  The write-ahead-log backend, \<^verbatim>\<open>internal/state/wal.go\<close>, down to the bytes of its
  log file.

  The state holds the in-memory store, the bookkeeping fields and the two files the
  store touches (the log \<^verbatim>\<open>overcast.wal\<close> and the file \<^verbatim>\<open>overcast.wal.new\<close> that
  compaction writes), with how many bytes of the log a successful fsync has covered.
  Every system call that can fail takes its outcome from an argument: a short write
  with the number of bytes that reached the file, a failed fsync, and for a compaction
  the step that failed.  A crash keeps some prefix of the log that contains everything
  fsync has covered.  That the creation of the log and the rename of a compaction survive
  a crash is an assumption about the file system: the code never syncs the directory, so
  on a file system that loses unsynced directory entries a compacted log can revert to
  the file it replaced.
\<close>

section \<open>Log entries\<close>

record walEntry =
  e_Op :: string
  e_Namespace :: string
  e_Key :: string
  e_Value :: string

definition walSet :: string where "walSet = ''set''"
definition walDelete :: string where "walDelete = ''delete''"
definition walDeletePrefix :: string where "walDeletePrefix = ''delete_prefix''"

definition json_member :: "string \<Rightarrow> string \<Rightarrow> string" where
  "json_member name v = CHR 0x22 # name @ CHR 0x22 # CHR '':'' # json_quote v"

text \<open>\<^verbatim>\<open>json.Marshal\<close> of an entry; \<^verbatim>\<open>value\<close> is tagged \<^verbatim>\<open>omitempty\<close>.\<close>

definition walEntry_marshal :: "walEntry \<Rightarrow> string" where
  "walEntry_marshal e =
     CHR ''{'' # json_member ''op'' (e_Op e) @ CHR '','' # json_member ''namespace'' (e_Namespace e)
       @ CHR '','' # json_member ''key'' (e_Key e)
       @ (if e_Value e = [] then [] else CHR '','' # json_member ''value'' (e_Value e)) @ ''}''"

text \<open>
  \<^verbatim>\<open>json.Unmarshal\<close> into an entry: members are assigned in order, names match without
  regard to case, unknown names are skipped, \<^verbatim>\<open>null\<close> leaves a field as it is and any
  other non-string value is an error.
\<close>

definition zero_entry :: walEntry where
  "zero_entry = \<lparr>e_Op = [], e_Namespace = [], e_Key = [], e_Value = []\<rparr>"

definition walEntry_field :: "string \<Rightarrow> ((string \<Rightarrow> string) \<Rightarrow> walEntry \<Rightarrow> walEntry) option" where
  "walEntry_field name =
     (if EqualFold name ''op'' then Some e_Op_update
      else if EqualFold name ''namespace'' then Some e_Namespace_update
      else if EqualFold name ''key'' then Some e_Key_update
      else if EqualFold name ''value'' then Some e_Value_update
      else None)"

fun assign_member :: "string \<times> string \<times> json \<Rightarrow> walEntry option \<Rightarrow> walEntry option" where
  "assign_member (name, raw, v) None = None"
| "assign_member (name, raw, v) (Some e) =
     (case walEntry_field name of
        None \<Rightarrow> Some e
      | Some upd \<Rightarrow> (case v of JStr s \<Rightarrow> Some (upd (\<lambda>_. s) e) | JNull \<Rightarrow> Some e | _ \<Rightarrow> None))"

definition walEntry_unmarshal :: "string \<Rightarrow> walEntry option" where
  "walEntry_unmarshal line =
     (case json_parse line of
        Some (JObj ms) \<Rightarrow> fold assign_member ms (Some zero_entry)
      | Some JNull \<Rightarrow> Some zero_entry
      | _ \<Rightarrow> None)"

section \<open>Replaying a log of lines\<close>

text \<open>
  The reading loop of \<open>replayWALFile\<close>: \<open>dec\<close> decodes one line and \<open>app\<close> applies it.  A
  last line without its newline that does not decode ends the replay; any other line
  that does not decode is counted and skipped.
\<close>

function replay_lines ::
  "(string \<Rightarrow> 'e option) \<Rightarrow> ('e \<Rightarrow> 'm \<times> nat \<Rightarrow> 'err + ('m \<times> nat)) \<Rightarrow> string \<Rightarrow> 'm \<times> nat \<Rightarrow> 'err + ('m \<times> nat)"
where
  "replay_lines dec app data (mem, skipped) =
     (case Cut data (CHR 0x0A) of
        (line, rest, hadNewline) \<Rightarrow>
          if line = [] then (if hadNewline then replay_lines dec app rest (mem, skipped) else Inr (mem, skipped))
          else (case dec line of
             None \<Rightarrow> if hadNewline then replay_lines dec app rest (mem, skipped + 1) else Inr (mem, skipped)
           | Some e \<Rightarrow>
               (case app e (mem, skipped) of
                  Inl err \<Rightarrow> Inl err
                | Inr (mem', skipped') \<Rightarrow>
                    if hadNewline then replay_lines dec app rest (mem', skipped') else Inr (mem', skipped'))))"
  by pat_completeness auto
termination
  by (relation "measure (\<lambda>(dec, app, data, st). length data)") (auto dest!: sym [of "(_, _, True)"] Cut_length)

declare replay_lines.simps [simp del]

definition apply_entry ::
  "'t btree_ops \<Rightarrow> walEntry \<Rightarrow> 't memory_store \<times> nat \<Rightarrow> store_error + ('t memory_store \<times> nat)"
where
  "apply_entry bt e st =
     (let (mem, skipped) = st in
      if e_Op e = walSet then
        (case mem_Set bt mem (e_Namespace e) (e_Key e) (e_Value e) of
           (Inl err, _) \<Rightarrow> Inl err | (Inr _, mem') \<Rightarrow> Inr (mem', skipped))
      else if e_Op e = walDelete then
        (case mem_Delete bt mem (e_Namespace e) (e_Key e) of
           (Inl err, _) \<Rightarrow> Inl err | (Inr _, mem') \<Rightarrow> Inr (mem', skipped))
      else if e_Op e = walDeletePrefix then
        (case mem_DeletePrefix bt mem (e_Namespace e) (e_Key e) of
           (Inl err, _) \<Rightarrow> Inl err | (Inr _, mem') \<Rightarrow> Inr (mem', skipped))
      else Inr (mem, skipped + 1))"

text \<open>
  \<open>replayWALFile\<close>: a missing file replays to nothing.  The second component counts the
  entries a warning reports as skipped.
\<close>

definition replayWALFile ::
  "'t btree_ops \<Rightarrow> string option \<Rightarrow> 't memory_store \<Rightarrow> store_error + ('t memory_store \<times> nat)"
where
  "replayWALFile bt file mem =
     (case file of None \<Rightarrow> Inr (mem, 0) | Some data \<Rightarrow> replay_lines walEntry_unmarshal (apply_entry bt) data (mem, 0))"

section \<open>The store\<close>

definition WALSyncAlways :: string where "WALSyncAlways = ''always''"
definition WALSyncInterval :: string where "WALSyncInterval = ''interval''"
definition WALSyncNever :: string where "WALSyncNever = ''never''"

record WALOptions =
  o_SyncMode :: string
  o_SyncInterval :: int
  o_MaxLogBytes :: int

record wal_disk =
  dk_log :: "string option"
  dk_new :: "string option"
  dk_synced :: nat

record 't wal_store =
  wal_mem :: "'t memory_store"
  wal_disk :: wal_disk
  wal_maxLogBytes :: int
  wal_syncMode :: string
  wal_syncEvery :: int
  wal_fd :: bool
  wal_logSize :: int
  wal_closed :: bool
  wal_dirty :: bool

definition log_bytes :: "'t wal_store \<Rightarrow> string" where
  "log_bytes s = (case dk_log (wal_disk s) of None \<Rightarrow> [] | Some b \<Rightarrow> b)"

definition log_append :: "string \<Rightarrow> 't wal_store \<Rightarrow> 't wal_store" where
  "log_append b s = s\<lparr>wal_disk := (wal_disk s)\<lparr>dk_log := Some (log_bytes s @ b)\<rparr>\<rparr>"

definition log_synced :: "'t wal_store \<Rightarrow> 't wal_store" where
  "log_synced s = s\<lparr>wal_dirty := False, wal_disk := (wal_disk s)\<lparr>dk_synced := length (log_bytes s)\<rparr>\<rparr>"

text \<open>The outcomes of system calls.\<close>

datatype open_outcome = OpenOk | FailMkdir | FailReplayOpen | FailReplayRead | FailOpen | FailStat

datatype compact_outcome = CompactOk | FailCreateTmp | FailSnapshot nat | FailSyncTmp | FailCloseTmp
  | FailCloseActive | FailRename | FailReopen | FailStatNew

record wal_io =
  io_write :: "nat option"
  io_sync :: bool
  io_compact :: compact_outcome

definition no_fault :: wal_io where
  "no_fault = \<lparr>io_write = None, io_sync = True, io_compact = CompactOk\<rparr>"

definition validateWALSyncMode :: "string \<Rightarrow> unit result" where
  "validateWALSyncMode mode =
     (if mode = WALSyncAlways \<or> mode = WALSyncInterval \<or> mode = WALSyncNever then Inr ()
      else Inl (IOError (''wal store: sync mode must be always, interval, or never, got '' @ go_quote mode)))"

definition defaultWALMaxLogBytes :: int where
  "defaultWALMaxLogBytes = 64 * 2 ^ 20"

text \<open>100 milliseconds, in nanoseconds.\<close>

definition defaultWALSyncEvery :: int where
  "defaultWALSyncEvery = 100 * 10 ^ 6"

definition NewWALStore ::
  "'t btree_ops \<Rightarrow> open_outcome \<Rightarrow> WALOptions \<Rightarrow> wal_disk \<Rightarrow> store_error + 't wal_store"
where
  "NewWALStore bt out opts disk =
     (if out = FailMkdir then Inl (IOError ''wal store: create data dir'')
      else
        let mode = (if o_SyncMode opts = [] then WALSyncInterval else o_SyncMode opts);
            every = (if o_SyncInterval opts \<le> 0 then defaultWALSyncEvery else o_SyncInterval opts);
            maxLog = (if o_MaxLogBytes opts \<le> 0 then defaultWALMaxLogBytes else o_MaxLogBytes opts)
        in case validateWALSyncMode mode of
             Inl err \<Rightarrow> Inl err
           | Inr _ \<Rightarrow>
               if out = FailReplayOpen \<and> dk_log disk \<noteq> None then Inl (IOError ''wal store: open replay file'')
               else if out = FailReplayRead \<and> dk_log disk \<noteq> None then Inl (IOError ''wal store: read replay file'')
               else (case replayWALFile bt (dk_log disk) NewMemoryStore of
                  Inl err \<Rightarrow> Inl err
                | Inr (mem, skipped) \<Rightarrow>
                    if out = FailOpen then Inl (IOError ''wal store: open'')
                    else if out = FailStat then Inl (IOError ''wal store: stat'')
                    else
                      let log = (case dk_log disk of None \<Rightarrow> [] | Some b \<Rightarrow> b) in
                      Inr \<lparr>wal_mem = mem, wal_disk = disk\<lparr>dk_log := Some log\<rparr>, wal_maxLogBytes = maxLog,
                           wal_syncMode = mode, wal_syncEvery = every, wal_fd = True,
                           wal_logSize = int (length log), wal_closed = False, wal_dirty = False\<rparr>))"

definition appendEntryLocked :: "wal_io \<Rightarrow> walEntry \<Rightarrow> 't wal_store \<Rightarrow> unit result \<times> 't wal_store" where
  "appendEntryLocked io entry s =
     (let b = walEntry_marshal entry @ [CHR 0x0A] in
      if wal_closed s then (Inl ErrClosedPipe, s)
      else if \<not> wal_fd s then (Inl (IOError ''wal store: append''), s)
      else (case io_write io of
         Some n \<Rightarrow> (Inl (IOError ''wal store: append''), log_append (take n b) s)
       | None \<Rightarrow>
           let s1 = (log_append b s)\<lparr>wal_logSize := wal_logSize s + int (length b), wal_dirty := True\<rparr> in
           if wal_syncMode s = WALSyncAlways then
             (if io_sync io then (Inr (), log_synced s1) else (Inl (IOError ''wal store: sync''), s1))
           else (Inr (), s1)))"

text \<open>\<open>writeSnapshot\<close>: one set entry per pair, namespaces in map order, keys in order.\<close>

definition snapshot_entries :: "'t btree_ops \<Rightarrow> 't memory_store \<Rightarrow> walEntry list" where
  "snapshot_entries bt m =
     concat (map (\<lambda>(namespace, tree).
        map (\<lambda>(key, value). \<lparr>e_Op = walSet, e_Namespace = namespace, e_Key = key, e_Value = value\<rparr>) (bt_scan bt tree))
       (ms_data m))"

definition lines_of :: "('e \<Rightarrow> string) \<Rightarrow> 'e list \<Rightarrow> string" where
  "lines_of enc es = concat (map (\<lambda>e. enc e @ [CHR 0x0A]) es)"

abbreviation encode_lines :: "walEntry list \<Rightarrow> string" where
  "encode_lines \<equiv> lines_of walEntry_marshal"

definition writeSnapshot :: "'t btree_ops \<Rightarrow> 't memory_store \<Rightarrow> string" where
  "writeSnapshot bt m = encode_lines (snapshot_entries bt m)"

definition set_new :: "string option \<Rightarrow> 't wal_store \<Rightarrow> 't wal_store" where
  "set_new f s = s\<lparr>wal_disk := (wal_disk s)\<lparr>dk_new := f\<rparr>\<rparr>"

text \<open>
  \<open>compactLocked\<close>: the snapshot is written and synced beside the log and renamed over
  it.  Once the active handle has been closed, every failure leaves the store without
  an open log.  A rename that returned is taken to be durable (the code syncs the file,
  not the directory).
\<close>

definition compactLocked :: "'t btree_ops \<Rightarrow> compact_outcome \<Rightarrow> 't wal_store \<Rightarrow> unit result \<times> 't wal_store" where
  "compactLocked bt out s =
     (let snap = writeSnapshot bt (wal_mem s);
          renamed = s\<lparr>wal_fd := False, wal_disk := \<lparr>dk_log = Some snap, dk_new = None, dk_synced = length snap\<rparr>\<rparr>
      in case out of
           FailCreateTmp \<Rightarrow> (Inl (IOError ''wal store: compact create tmp''), s)
         | FailSnapshot n \<Rightarrow> (Inl (IOError ''wal store: compact encode snapshot''), set_new (Some (take n snap)) s)
         | FailSyncTmp \<Rightarrow> (Inl (IOError ''wal store: compact sync tmp''), set_new (Some snap) s)
         | FailCloseTmp \<Rightarrow> (Inl (IOError ''wal store: compact close tmp''), set_new (Some snap) s)
         | _ \<Rightarrow>
             if \<not> wal_fd s \<or> out = FailCloseActive
             then (Inl (IOError ''wal store: compact close active''), (set_new (Some snap) s)\<lparr>wal_fd := False\<rparr>)
             else if out = FailRename
             then (Inl (IOError ''wal store: compact rename''), (set_new (Some snap) s)\<lparr>wal_fd := False\<rparr>)
             else if out = FailReopen then (Inl (IOError ''wal store: compact reopen''), renamed)
             else if out = FailStatNew then (Inl (IOError ''wal store: compact stat''), renamed)
             else (Inr (), renamed\<lparr>wal_fd := True, wal_logSize := int (length snap), wal_dirty := False\<rparr>))"

definition maybeCompact :: "'t btree_ops \<Rightarrow> wal_io \<Rightarrow> 't wal_store \<Rightarrow> unit result \<times> 't wal_store" where
  "maybeCompact bt io s =
     (if wal_closed s then (Inl ErrClosedPipe, s)
      else if wal_logSize s < wal_maxLogBytes s then (Inr (), s)
      else compactLocked bt (io_compact io) s)"

text \<open>
  A mutation has two phases under different locks: the change of the memory store, and
  the append to the log followed by the size check.
\<close>

definition log_mutation :: "'t btree_ops \<Rightarrow> wal_io \<Rightarrow> walEntry \<Rightarrow> 't wal_store \<Rightarrow> unit result \<times> 't wal_store" where
  "log_mutation bt io e s =
     (case appendEntryLocked io e s of
        (Inl err, s') \<Rightarrow> (Inl err, s')
      | (Inr _, s') \<Rightarrow> maybeCompact bt io s')"

definition wal_Set ::
  "'t btree_ops \<Rightarrow> wal_io \<Rightarrow> 't wal_store \<Rightarrow> string \<Rightarrow> string \<Rightarrow> string \<Rightarrow> unit result \<times> 't wal_store"
where
  "wal_Set bt io s namespace key value =
     (case mem_Set bt (wal_mem s) namespace key value of
        (Inl err, m) \<Rightarrow> (Inl err, s\<lparr>wal_mem := m\<rparr>)
      | (Inr _, m) \<Rightarrow>
          log_mutation bt io \<lparr>e_Op = walSet, e_Namespace = namespace, e_Key = key, e_Value = value\<rparr> (s\<lparr>wal_mem := m\<rparr>))"

definition wal_Delete ::
  "'t btree_ops \<Rightarrow> wal_io \<Rightarrow> 't wal_store \<Rightarrow> string \<Rightarrow> string \<Rightarrow> unit result \<times> 't wal_store"
where
  "wal_Delete bt io s namespace key =
     (case mem_Delete bt (wal_mem s) namespace key of
        (Inl err, m) \<Rightarrow> (Inl err, s\<lparr>wal_mem := m\<rparr>)
      | (Inr _, m) \<Rightarrow>
          log_mutation bt io \<lparr>e_Op = walDelete, e_Namespace = namespace, e_Key = key, e_Value = []\<rparr> (s\<lparr>wal_mem := m\<rparr>))"

definition wal_DeletePrefix ::
  "'t btree_ops \<Rightarrow> wal_io \<Rightarrow> 't wal_store \<Rightarrow> string \<Rightarrow> string \<Rightarrow> unit result \<times> 't wal_store"
where
  "wal_DeletePrefix bt io s namespace p =
     (case mem_DeletePrefix bt (wal_mem s) namespace p of
        (Inl err, m) \<Rightarrow> (Inl err, s\<lparr>wal_mem := m\<rparr>)
      | (Inr _, m) \<Rightarrow>
          log_mutation bt io \<lparr>e_Op = walDeletePrefix, e_Namespace = namespace, e_Key = p, e_Value = []\<rparr>
            (s\<lparr>wal_mem := m\<rparr>))"

text \<open>Reads go to the memory store.\<close>

definition wal_read :: "('t memory_store \<Rightarrow> 'a \<times> 't memory_store) \<Rightarrow> 't wal_store \<Rightarrow> 'a \<times> 't wal_store" where
  "wal_read f s = (let (r, m) = f (wal_mem s) in (r, s\<lparr>wal_mem := m\<rparr>))"

definition wal_Get :: "'t btree_ops \<Rightarrow> 't wal_store \<Rightarrow> string \<Rightarrow> string \<Rightarrow> (string \<times> bool) result \<times> 't wal_store" where
  "wal_Get bt s namespace key = wal_read (\<lambda>m. mem_Get bt m namespace key) s"

definition wal_List :: "'t btree_ops \<Rightarrow> 't wal_store \<Rightarrow> string \<Rightarrow> string \<Rightarrow> string list result \<times> 't wal_store" where
  "wal_List bt s namespace p = wal_read (\<lambda>m. mem_List bt m namespace p) s"

definition wal_ListNamespaces :: "'t btree_ops \<Rightarrow> 't wal_store \<Rightarrow> string list result \<times> 't wal_store" where
  "wal_ListNamespaces bt s = wal_read (mem_ListNamespaces bt) s"

definition wal_Scan :: "'t btree_ops \<Rightarrow> 't wal_store \<Rightarrow> string \<Rightarrow> string \<Rightarrow> KV list result \<times> 't wal_store" where
  "wal_Scan bt s namespace p = wal_read (\<lambda>m. mem_Scan bt m namespace p) s"

definition wal_ScanPage ::
  "'t btree_ops \<Rightarrow> 't wal_store \<Rightarrow> string \<Rightarrow> string \<Rightarrow> string \<Rightarrow> int \<Rightarrow> (KV list \<times> string) result \<times> 't wal_store"
where
  "wal_ScanPage bt s namespace p startAfter limit = wal_read (\<lambda>m. mem_ScanPage bt m namespace p startAfter limit) s"

definition wal_DebugMetrics :: "'t wal_store \<Rightarrow> string \<times> int \<times> int" where
  "wal_DebugMetrics s = (''wal'', ms_reads (wal_mem s), ms_writes (wal_mem s))"

text \<open>One tick of \<open>runPeriodicSync\<close>; the flag is the outcome of the fsync.\<close>

definition sync_tick :: "bool \<Rightarrow> 't wal_store \<Rightarrow> 't wal_store" where
  "sync_tick sync_ok s =
     (if wal_closed s then s
      else if wal_dirty s then (if wal_fd s \<and> sync_ok then log_synced s else s)
      else s)"

definition wal_Close :: "bool \<Rightarrow> bool \<Rightarrow> 't wal_store \<Rightarrow> unit result \<times> 't wal_store" where
  "wal_Close sync_ok close_ok s =
     (if wal_closed s then (Inr (), s)
      else
        let s1 = s\<lparr>wal_closed := True\<rparr> in
        if wal_dirty s \<and> \<not> (wal_fd s \<and> sync_ok)
        then (Inl (IOError ''wal store: final sync''), s1\<lparr>wal_fd := False\<rparr>)
        else
          let s2 = (if wal_dirty s
                    then s1\<lparr>wal_disk := (wal_disk s)\<lparr>dk_synced := length (log_bytes s)\<rparr>\<rparr> else s1) in
          if wal_fd s \<and> close_ok then (Inr (), s2\<lparr>wal_fd := False\<rparr>)
          else (Inl (IOError ''wal store: close''), s2\<lparr>wal_fd := False\<rparr>))"

section \<open>Logs of lines\<close>

text \<open>Applying entries in order, stopping at the first error.\<close>

fun apply_all :: "('e \<Rightarrow> 'st \<Rightarrow> 'err + 'st) \<Rightarrow> 'e list \<Rightarrow> 'st \<Rightarrow> 'err + 'st" where
  "apply_all app [] st = Inr st"
| "apply_all app (e # es) st = (case app e st of Inl err \<Rightarrow> Inl err | Inr st' \<Rightarrow> apply_all app es st')"

lemma Cut_fresh: "c \<notin> set b \<Longrightarrow> Cut (b @ c # a) c = (b, a, True)"
  by (induction b) auto

lemma Cut_none: "c \<notin> set b \<Longrightarrow> Cut b c = (b, [], False)"
  by (induction b) auto

text \<open>
  What the replay relies on from the encoding of an entry: it decodes to the entry
  (up to the normalisation \<open>norm\<close>), fits on one line, and no torn piece of it decodes.
\<close>

locale line_log =
  fixes enc :: "'e \<Rightarrow> string" and dec :: "string \<Rightarrow> 'e option" and norm :: "'e \<Rightarrow> 'e"
  assumes dec_enc: "dec (enc e) = Some (norm e)"
    and enc_no_newline: "CHR 0x0A \<notin> set (enc e)"
    and enc_nonempty: "enc e \<noteq> []"
    and torn: "strict_prefix p (enc e) \<Longrightarrow> p = [] \<or> dec p = None"
begin

lemma replay_line:
  "replay_lines dec app (enc e @ CHR 0x0A # rest) st =
     (case app (norm e) st of Inl err \<Rightarrow> Inl err | Inr st' \<Rightarrow> replay_lines dec app rest st')"
  by (cases st) (simp add: replay_lines.simps Cut_fresh enc_no_newline enc_nonempty dec_enc split: sum.split)

lemma replay_lines_append:
  "replay_lines dec app (lines_of enc es @ rest) st =
     (case apply_all (\<lambda>e. app (norm e)) es st of Inl err \<Rightarrow> Inl err | Inr st' \<Rightarrow> replay_lines dec app rest st')"
  by (induction es arbitrary: st) (auto simp: lines_of_def replay_line split: sum.split)

lemma replay_nothing: "replay_lines dec app [] st = Inr st"
  by (cases st) (simp add: replay_lines.simps)

lemma replay_complete:
  "replay_lines dec app (lines_of enc es) st = apply_all (\<lambda>e. app (norm e)) es st"
  using replay_lines_append [of app es "[]" st] by (simp add: replay_nothing split: sum.splits)

lemma replay_torn: "strict_prefix p (enc e) \<Longrightarrow> replay_lines dec app p st = Inr st"
proof -
  assume p: "strict_prefix p (enc e)"
  then have "CHR 0x0A \<notin> set p" using enc_no_newline [of e] by (auto simp: strict_prefix_def prefix_def)
  with torn [OF p] show ?thesis by (cases st) (auto simp: replay_lines.simps Cut_none)
qed

lemma replay_unterminated: "replay_lines dec app (enc e) st = app (norm e) st"
  by (cases st) (simp add: replay_lines.simps Cut_none enc_no_newline enc_nonempty dec_enc split: sum.split)

text \<open>
  Cutting a log anywhere and replaying what is left applies exactly the entries that are
  complete before the cut, a missing final newline not counting.
\<close>

lemma replay_cut:
  "\<exists>j \<le> length es. replay_lines dec app (take n (lines_of enc es)) st = apply_all (\<lambda>e. app (norm e)) (take j es) st
     \<and> length (lines_of enc (take j es)) \<le> Suc n
     \<and> (j < length es \<longrightarrow> Suc n < length (lines_of enc (take (Suc j) es)))"
proof (induction es arbitrary: n st)
  case Nil
  then show ?case by (simp add: lines_of_def replay_nothing)
next
  case (Cons e es)
  let ?m = "length (enc e)"
  have l: "lines_of enc (e # es) = enc e @ CHR 0x0A # lines_of enc es" for es by (simp add: lines_of_def)
  consider "n < ?m" | "n = ?m" | k where "n = Suc (?m + k)" by (metis less_iff_Suc_add linorder_cases add_Suc_right)
  then show ?case
  proof cases
    case 1
    then have "strict_prefix (take n (enc e)) (enc e)"
      by (simp add: strict_prefix_def take_is_prefix)
    with 1 have "replay_lines dec app (take n (lines_of enc (e # es))) st = Inr st"
      by (simp add: l replay_torn)
    with 1 show ?thesis by (intro exI [of _ 0]) (simp add: l, simp add: lines_of_def)
  next
    case 2
    have "replay_lines dec app (take n (lines_of enc (e # es))) st = app (norm e) st"
      using 2 by (simp add: l replay_unterminated)
    moreover have "Suc n < length (lines_of enc (take (Suc 1) (e # es)))" if "1 < length (e # es)"
      using that 2 enc_nonempty by (cases es) (auto simp: lines_of_def)
    ultimately show ?thesis using 2 by (intro exI [of _ 1]) (auto simp: l lines_of_def split: sum.split)
  next
    case 3
    then have t: "take n (lines_of enc (e # es)) = enc e @ CHR 0x0A # take k (lines_of enc es)" by (simp add: l)
    show ?thesis
    proof (cases "app (norm e) st")
      case (Inl err)
      from Cons.IH [of k st] obtain j where j: "j \<le> length es" "length (lines_of enc (take j es)) \<le> Suc k"
        "j < length es \<longrightarrow> Suc k < length (lines_of enc (take (Suc j) es))" by blast
      then show ?thesis using Inl 3 by (intro exI [of _ "Suc j"]) (simp add: t replay_line l)
    next
      case (Inr st')
      from Cons.IH [of k st'] obtain j where j: "j \<le> length es" "length (lines_of enc (take j es)) \<le> Suc k"
        "j < length es \<longrightarrow> Suc k < length (lines_of enc (take (Suc j) es))"
        "replay_lines dec app (take k (lines_of enc es)) st' = apply_all (\<lambda>e. app (norm e)) (take j es) st'" by blast
      then show ?thesis using Inr 3 by (intro exI [of _ "Suc j"]) (simp add: t replay_line l)
    qed
  qed
qed

end

section \<open>The JSON encoding of entries\<close>

definition clean_entry :: "walEntry \<Rightarrow> walEntry" where
  "clean_entry e = \<lparr>e_Op = to_valid (e_Op e), e_Namespace = to_valid (e_Namespace e),
     e_Key = to_valid (e_Key e), e_Value = to_valid (e_Value e)\<rparr>"

lemma skip_ws_quote [simp]: "skip_ws (CHR 0x22 # s) = CHR 0x22 # s"
  by (simp add: skip_ws_def is_ws_def)

lemma skip_ws_punct [simp]:
  "skip_ws (CHR '','' # s) = CHR '','' # s" "skip_ws (CHR ''}'' # s) = CHR ''}'' # s"
  "skip_ws (CHR '':'' # s) = CHR '':'' # s" "skip_ws (CHR ''{'' # s) = CHR ''{'' # s"
  by (simp_all add: skip_ws_def is_ws_def)

lemma parse_members_member:
  assumes n: "\<And>r. scan_str (name @ CHR 0x22 # r) = Some (name, r)" "unquote name = name"
  shows "parse_members d (json_member name v @ CHR '','' # CHR 0x22 # r)
      = map_option (apfst ((#) (name, json_quote v, JStr (to_valid v)))) (parse_members d (CHR 0x22 # r))"
    "parse_members d (json_member name v @ CHR ''}'' # r) = Some ([(name, json_quote v, JStr (to_valid v))], r)"
proof -
  have q: "skip_ws (json_quote v @ q) = json_quote v @ q" for q by (simp add: json_quote_def)
  show "parse_members d (json_member name v @ CHR ''}'' # r) = Some ([(name, json_quote v, JStr (to_valid v))], r)"
    "parse_members d (json_member name v @ CHR '','' # CHR 0x22 # r)
      = map_option (apfst ((#) (name, json_quote v, JStr (to_valid v)))) (parse_members d (CHR 0x22 # r))"
    using n by (simp_all add: json_member_def q parse_json_quote)
qed

lemma json_member_start: "json_member name v @ r = CHR 0x22 # tl (json_member name v) @ r"
  by (simp add: json_member_def)

lemma plain_names:
  "scan_str (''op'' @ CHR 0x22 # r) = Some (''op'', r)" "unquote ''op'' = ''op''"
  "scan_str (''namespace'' @ CHR 0x22 # r) = Some (''namespace'', r)" "unquote ''namespace'' = ''namespace''"
  "scan_str (''key'' @ CHR 0x22 # r) = Some (''key'', r)" "unquote ''key'' = ''key''"
  "scan_str (''value'' @ CHR 0x22 # r) = Some (''value'', r)" "unquote ''value'' = ''value''"
  by (simp_all add: utf8_width_def)

definition entry_members :: "walEntry \<Rightarrow> (string \<times> string \<times> json) list" where
  "entry_members e =
     [(''op'', json_quote (e_Op e), JStr (to_valid (e_Op e))),
      (''namespace'', json_quote (e_Namespace e), JStr (to_valid (e_Namespace e))),
      (''key'', json_quote (e_Key e), JStr (to_valid (e_Key e)))]
     @ (if e_Value e = [] then [] else [(''value'', json_quote (e_Value e), JStr (to_valid (e_Value e)))])"

lemma parse_marshal: "parse_value 0 (walEntry_marshal e) = Some (JObj (entry_members e), [])"
proof -
  note step = parse_members_member(1) [OF plain_names(1,2)] parse_members_member(1) [OF plain_names(3,4)]
    parse_members_member(1) [OF plain_names(5,6)] parse_members_member(2) [OF plain_names(5,6)]
    parse_members_member(2) [OF plain_names(7,8)]
  let ?n = "json_member ''namespace'' (e_Namespace e)" and ?k = "json_member ''key'' (e_Key e)"
    and ?v = "json_member ''value'' (e_Value e)"
  let ?tail = "if e_Value e = [] then ''}'' else CHR '','' # ?v @ ''}''"
  have k: "parse_members 1 (?k @ ?tail) = Some (drop 2 (entry_members e), [])"
    using step(5) [of 1 "e_Value e" "[]"]
    by (auto simp: step(4) entry_members_def json_member_start [of "''value''"] step(3) simp del: parse_members.simps)
  have "parse_members 1 (json_member ''op'' (e_Op e) @ CHR '','' # ?n @ CHR '','' # ?k @ ?tail)
      = Some (entry_members e, [])"
    using k by (subst json_member_start [of "''namespace''"], subst step(1),
        subst json_member_start [of "''namespace''", symmetric],
        subst json_member_start [of "''key''"], subst step(2), subst json_member_start [of "''key''", symmetric])
      (simp add: entry_members_def del: parse_members.simps)
  then show ?thesis
    by (simp add: walEntry_marshal_def json_member_start [of "''op''"] HasPrefix_def maxNestingDepth_def
        del: parse_members.simps split: if_splits)
qed

lemma walEntry_roundtrip: "walEntry_unmarshal (walEntry_marshal e) = Some (clean_entry e)"
proof -
  have "skip_ws (walEntry_marshal e) = walEntry_marshal e" by (simp add: walEntry_marshal_def)
  then have "json_parse (walEntry_marshal e) = Some (JObj (entry_members e))"
    by (simp add: json_parse_def parse_marshal skip_ws_def [of "[]"])
  moreover have "walEntry_field ''op'' = Some e_Op_update" "walEntry_field ''namespace'' = Some e_Namespace_update"
    "walEntry_field ''key'' = Some e_Key_update" "walEntry_field ''value'' = Some e_Value_update"
    by (simp_all add: walEntry_field_def EqualFold_def ToLower_def lowerASCII_def less_eq_char_def)
  ultimately show ?thesis
    by (simp add: walEntry_unmarshal_def entry_members_def zero_entry_def clean_entry_def)
qed

interpretation wal_lines: line_log walEntry_marshal walEntry_unmarshal clean_entry
proof
  fix e p
  show "walEntry_unmarshal (walEntry_marshal e) = Some (clean_entry e)" by (rule walEntry_roundtrip)
  show "CHR 0x0A \<notin> set (walEntry_marshal e)"
    using json_quote_no_newline by (auto simp: walEntry_marshal_def json_member_def)
  show "walEntry_marshal e \<noteq> []" by (simp add: walEntry_marshal_def)
  show "p = [] \<or> walEntry_unmarshal p = None" if "strict_prefix p (walEntry_marshal e)"
  proof -
    have "walEntry_marshal e = CHR ''{'' # tl (walEntry_marshal e)" by (simp add: walEntry_marshal_def)
    with json_parse_strict_prefix [of "tl (walEntry_marshal e)" _ p] parse_marshal [of e] that
    have "json_parse p = None" by metis
    then show ?thesis by (simp add: walEntry_unmarshal_def)
  qed
qed

section \<open>What a log means\<close>

abbreviation no_contents :: contents where
  "no_contents \<equiv> \<lambda>_. Map.empty"

definition entry_spec :: "walEntry \<Rightarrow> contents \<Rightarrow> contents" where
  "entry_spec e c =
     (if e_Op e = walSet then set_spec c (e_Namespace e) (e_Key e) (e_Value e)
      else if e_Op e = walDelete then delete_spec c (e_Namespace e) (e_Key e)
      else if e_Op e = walDeletePrefix then delete_prefix_spec c (e_Namespace e) (e_Key e)
      else c)"

text \<open>Entries that survive the encoding unchanged: all their strings are valid UTF-8.\<close>

definition clean :: "walEntry \<Rightarrow> bool" where
  "clean e \<longleftrightarrow> clean_entry e = e"

lemma clean_iff:
  "clean e \<longleftrightarrow> to_valid (e_Op e) = e_Op e \<and> to_valid (e_Namespace e) = e_Namespace e
     \<and> to_valid (e_Key e) = e_Key e \<and> to_valid (e_Value e) = e_Value e"
  by (cases e) (simp add: clean_def clean_entry_def)

lemma op_names [simp]:
  "walSet \<noteq> walDelete" "walSet \<noteq> walDeletePrefix" "walDelete \<noteq> walDeletePrefix"
  "walDelete \<noteq> walSet" "walDeletePrefix \<noteq> walSet" "walDeletePrefix \<noteq> walDelete"
  "to_valid walSet = walSet" "to_valid walDelete = walDelete" "to_valid walDeletePrefix = walDeletePrefix"
  by (simp_all add: walSet_def walDelete_def walDeletePrefix_def utf8_width_def)

lemma fold_set_entries:
  "fold entry_spec (map (\<lambda>(k, v). \<lparr>e_Op = walSet, e_Namespace = ns, e_Key = k, e_Value = v\<rparr>) xs) c
   = c(ns := c ns ++ map_of (rev xs))"
  by (induction xs arbitrary: c) (auto simp: entry_spec_def set_spec_def map_add_upd_left fun_eq_iff map_add_def
      split: option.splits)

lemma clean_contents:
  assumes "\<forall>e \<in> set es. clean e" "fold entry_spec es c ns k = Some v"
    and "\<And>ns k v. c ns k = Some v \<Longrightarrow> to_valid ns = ns \<and> to_valid k = k \<and> to_valid v = v"
  shows "to_valid ns = ns \<and> to_valid k = k \<and> to_valid v = v"
  using assms
proof (induction es arbitrary: c)
  case (Cons e es)
  have "entry_spec e c ns k = Some v \<Longrightarrow> to_valid ns = ns \<and> to_valid k = k \<and> to_valid v = v" for ns k v
    using Cons.prems(1) Cons.prems(3) [of ns k v]
    by (auto simp: entry_spec_def set_spec_def delete_spec_def delete_prefix_spec_def clean_iff split: if_splits)
  with Cons.IH [of "entry_spec e c"] Cons.prems show ?case by auto
qed simp

context ordered_map
begin

lemma apply_entry_spec:
  assumes "mem_invar m"
  shows "\<exists>m' k'. apply_entry bt e (m, k) = Inr (m', k') \<and> mem_invar m' \<and> mem_view bt m' = entry_spec e (mem_view bt m)"
proof -
  note specs = mem_Set_spec [OF assms] mem_Delete_spec [OF assms] mem_DeletePrefix_spec [OF assms]
  obtain m1 m2 m3 where
    1: "mem_Set bt m (e_Namespace e) (e_Key e) (e_Value e) = (Inr (), m1)" and
    2: "mem_Delete bt m (e_Namespace e) (e_Key e) = (Inr (), m2)" and
    3: "mem_DeletePrefix bt m (e_Namespace e) (e_Key e) = (Inr (), m3)"
    by (metis specs(1,4,7) prod.collapse)
  show ?thesis
    using 1 2 3 assms specs(2,3) [of "e_Namespace e" "e_Key e" "e_Value e"]
      specs(5,6,8,9) [of "e_Namespace e" "e_Key e"]
    by (auto simp: apply_entry_def entry_spec_def)
qed

lemma apply_all_spec:
  assumes "mem_invar m"
  shows "\<exists>m' k'. apply_all (apply_entry bt) es (m, k) = Inr (m', k') \<and> mem_invar m'
     \<and> mem_view bt m' = fold entry_spec es (mem_view bt m)"
  using assms
proof (induction es arbitrary: m k)
  case (Cons e es)
  obtain m1 k1 where 1: "apply_entry bt e (m, k) = Inr (m1, k1)" "mem_invar m1" "mem_view bt m1 = entry_spec e (mem_view bt m)"
    using apply_entry_spec [OF Cons.prems] by blast
  with Cons.IH [OF 1(2), of k1] show ?case by auto
qed simp

lemma map_of_rev_scan: "map_of (rev (bt_scan bt t)) = bt_get bt t"
proof
  fix k
  have "distinct (map fst (rev (bt_scan bt t)))"
    using scan_sorted [of t] by (simp add: rev_map [symmetric] strict_sorted_iff)
  then have "map_of (rev (bt_scan bt t)) k = Some v \<longleftrightarrow> bt_get bt t k = Some v" for v
    using scan_set [of t] by (auto simp: map_of_eq_Some_iff)
  then show "map_of (rev (bt_scan bt t)) k = bt_get bt t k" by (metis not_Some_eq)
qed

lemma fold_snapshot:
  assumes "mem_invar m"
  shows "fold entry_spec (snapshot_entries bt m) no_contents = mem_view bt m"
proof -
  define snap where "snap = (\<lambda>(ns, tree). map (\<lambda>(k, v). \<lparr>e_Op = walSet, e_Namespace = ns, e_Key = k, e_Value = v\<rparr>)
    (bt_scan bt tree))"
  have "fold entry_spec (concat (map snap d)) c
      = (\<lambda>ns. case map_of d ns of None \<Rightarrow> c ns | Some t \<Rightarrow> c ns ++ bt_get bt t)"
    if "distinct (map fst d)" for d c
    using that
  proof (induction d arbitrary: c)
    case (Cons x d)
    obtain ns t where x: "x = (ns, t)" by (cases x)
    have "ns \<notin> fst ` set d" using Cons.prems x by simp
    then have "map_of d ns = None" by (simp add: map_of_eq_None_iff)
    with Cons x show ?case
      by (auto simp: snap_def fold_set_entries map_of_rev_scan fun_eq_iff split: option.splits)
  qed simp
  from this [of "ms_data m" no_contents] assms show ?thesis
    by (auto simp: snapshot_entries_def snap_def mem_invar_def mem_view_def fun_eq_iff case_prod_unfold
        split: option.splits)
qed

lemma snapshot_clean:
  assumes "mem_invar m" "\<And>ns k v. mem_view bt m ns k = Some v \<Longrightarrow> to_valid ns = ns \<and> to_valid k = k \<and> to_valid v = v"
  shows "\<forall>e \<in> set (snapshot_entries bt m). clean e"
proof
  fix e
  assume "e \<in> set (snapshot_entries bt m)"
  then obtain ns t k v where e: "(ns, t) \<in> set (ms_data m)" "(k, v) \<in> set (bt_scan bt t)"
    "e = \<lparr>e_Op = walSet, e_Namespace = ns, e_Key = k, e_Value = v\<rparr>"
    by (auto simp: snapshot_entries_def)
  then have "mem_view bt m ns k = Some v"
    using assms(1) scan_set [of t] by (auto simp: mem_view_def mem_invar_def)
  from assms(2) [OF this] e(3) show "clean e" by (simp add: clean_iff)
qed

lemma replay_clean:
  assumes "\<forall>e \<in> set es. clean e"
  shows "\<exists>m k. replayWALFile bt (Some (encode_lines es)) NewMemoryStore = Inr (m, k) \<and> mem_invar m
     \<and> mem_view bt m = fold entry_spec es no_contents"
proof -
  have inv: "mem_invar NewMemoryStore" "mem_view bt NewMemoryStore = no_contents"
    by (auto simp: NewMemoryStore_def mem_invar_def mem_view_def)
  have "apply_all (\<lambda>e. apply_entry bt (clean_entry e)) es st = apply_all (apply_entry bt) es st" for st
    using assms by (induction es arbitrary: st) (auto simp: clean_def split: sum.split)
  then show ?thesis
    using apply_all_spec [OF inv(1), of es 0] inv(2) by (simp add: replayWALFile_def wal_lines.replay_complete)
qed

end

section \<open>Reachable stores\<close>

text \<open>
  The stores that arise from an empty directory by mutations whose system calls all
  succeed, periodic syncs that may fail, and reads, together with the history of
  mutations.
\<close>

definition empty_disk :: wal_disk where
  "empty_disk = \<lparr>dk_log = None, dk_new = None, dk_synced = 0\<rparr>"

inductive wal_reach :: "'t btree_ops \<Rightarrow> WALOptions \<Rightarrow> walEntry list \<Rightarrow> 't wal_store \<Rightarrow> bool"
  for bt opts where
  start: "NewWALStore bt OpenOk opts empty_disk = Inr s \<Longrightarrow> wal_reach bt opts [] s"
| set: "wal_reach bt opts h s \<Longrightarrow> wal_Set bt no_fault s ns k v = (r, s') \<Longrightarrow>
    wal_reach bt opts (h @ [\<lparr>e_Op = walSet, e_Namespace = ns, e_Key = k, e_Value = v\<rparr>]) s'"
| delete: "wal_reach bt opts h s \<Longrightarrow> wal_Delete bt no_fault s ns k = (r, s') \<Longrightarrow>
    wal_reach bt opts (h @ [\<lparr>e_Op = walDelete, e_Namespace = ns, e_Key = k, e_Value = []\<rparr>]) s'"
| delete_prefix: "wal_reach bt opts h s \<Longrightarrow> wal_DeletePrefix bt no_fault s ns p = (r, s') \<Longrightarrow>
    wal_reach bt opts (h @ [\<lparr>e_Op = walDeletePrefix, e_Namespace = ns, e_Key = p, e_Value = []\<rparr>]) s'"
| tick: "wal_reach bt opts h s \<Longrightarrow> wal_reach bt opts h (sync_tick ok s)"
| get: "wal_reach bt opts h s \<Longrightarrow> wal_Get bt s ns k = (r, s') \<Longrightarrow> wal_reach bt opts h s'"

text \<open>
  The log is a snapshot that fsync has covered, followed by the mutations since; both
  together with what the snapshot stands for are the history.
\<close>

definition wal_inv :: "'t btree_ops \<Rightarrow> walEntry list \<Rightarrow> 't wal_store \<Rightarrow> bool" where
  "wal_inv bt h s \<longleftrightarrow>
     \<not> wal_closed s \<and> wal_fd s \<and> mem_invar (wal_mem s) \<and> mem_view bt (wal_mem s) = fold entry_spec h no_contents
     \<and> dk_synced (wal_disk s) \<le> length (log_bytes s)
     \<and> (wal_syncMode s = WALSyncAlways \<longrightarrow> dk_synced (wal_disk s) = length (log_bytes s))
     \<and> (\<exists>i base. i \<le> length h \<and> dk_log (wal_disk s) = Some (encode_lines (base @ drop i h))
          \<and> (\<forall>e \<in> set base. clean e) \<and> fold entry_spec base no_contents = fold entry_spec (take i h) no_contents
          \<and> length (encode_lines base) \<le> dk_synced (wal_disk s))"

lemma lines_of_append: "lines_of enc (xs @ ys) = lines_of enc xs @ lines_of enc ys"
  by (simp add: lines_of_def)

lemma lines_of_snoc: "lines_of enc (xs @ [e]) = lines_of enc xs @ enc e @ [CHR 0x0A]"
  by (simp add: lines_of_def)

lemma log_bytes_simps [simp]:
  "log_bytes (log_append b s) = log_bytes s @ b" "log_bytes (log_synced s) = log_bytes s"
  "log_bytes (s\<lparr>wal_mem := m\<rparr>) = log_bytes s" "log_bytes (s\<lparr>wal_logSize := n, wal_dirty := d\<rparr>) = log_bytes s"
  by (simp_all add: log_bytes_def log_append_def log_synced_def)

lemma append_inv:
  assumes "wal_inv bt h (s\<lparr>wal_mem := m0\<rparr>)" "mem_invar (wal_mem s)"
    and "mem_view bt (wal_mem s) = entry_spec e (fold entry_spec h no_contents)"
  shows "\<exists>s'. appendEntryLocked no_fault e s = (Inr (), s') \<and> wal_inv bt (h @ [e]) s'
    \<and> wal_mem s' = wal_mem s"
proof -
  obtain i base where ib: "i \<le> length h" "dk_log (wal_disk s) = Some (encode_lines (base @ drop i h))"
    "\<forall>e \<in> set base. clean e" "fold entry_spec base no_contents = fold entry_spec (take i h) no_contents"
    "length (encode_lines base) \<le> dk_synced (wal_disk s)"
    using assms(1) by (auto simp: wal_inv_def)
  define b where "b = walEntry_marshal e @ [CHR 0x0A]"
  define s1 where "s1 = (log_append b s)\<lparr>wal_logSize := wal_logSize s + int (length b), wal_dirty := True\<rparr>"
  define s' where "s' = (if wal_syncMode s = WALSyncAlways then log_synced s1 else s1)"
  have "appendEntryLocked no_fault e s = (Inr (), s')"
    using assms(1) by (simp add: appendEntryLocked_def no_fault_def wal_inv_def b_def s1_def s'_def Let_def)
  moreover have "dk_log (wal_disk s') = Some (encode_lines (base @ drop i (h @ [e])))"
    using ib(1,2) by (simp add: s'_def s1_def log_append_def log_synced_def log_bytes_def b_def lines_of_append
        lines_of_def [of _ "[e]"])
  moreover have "dk_synced (wal_disk s') = (if wal_syncMode s = WALSyncAlways then length (log_bytes s') else dk_synced (wal_disk s))"
    "length (log_bytes s) \<le> length (log_bytes s')"
    by (simp_all add: s'_def s1_def log_append_def log_synced_def log_bytes_def)
  moreover have "wal_syncMode s' = wal_syncMode s" "wal_closed s' = wal_closed s" "wal_fd s' = wal_fd s" "wal_mem s' = wal_mem s"
    by (simp_all add: s'_def s1_def log_append_def log_synced_def)
  ultimately show ?thesis
    using assms ib by (intro exI [of _ s']) (auto simp: wal_inv_def intro!: exI [of _ i] exI [of _ base])
qed

context ordered_map
begin

lemma compact_inv:
  assumes "wal_inv bt h s" "\<forall>e \<in> set h. clean e"
  shows "\<exists>s'. maybeCompact bt no_fault s = (Inr (), s') \<and> wal_inv bt h s' \<and> wal_mem s' = wal_mem s"
proof (cases "wal_logSize s < wal_maxLogBytes s")
  case True
  with assms show ?thesis by (simp add: maybeCompact_def wal_inv_def)
next
  case False
  have m: "mem_invar (wal_mem s)" "mem_view bt (wal_mem s) = fold entry_spec h no_contents"
    using assms(1) by (auto simp: wal_inv_def)
  have "\<forall>e \<in> set (snapshot_entries bt (wal_mem s)). clean e"
    using snapshot_clean [OF m(1)] clean_contents [OF assms(2), of no_contents] m(2) by auto
  with False m fold_snapshot [OF m(1)] assms(1) show ?thesis
    by (auto simp: maybeCompact_def compactLocked_def Let_def no_fault_def wal_inv_def log_bytes_def writeSnapshot_def
        intro!: exI [of _ "length h"] exI [of _ "snapshot_entries bt (wal_mem s)"])
qed

lemma log_mutation_inv:
  assumes "wal_inv bt h (s\<lparr>wal_mem := m0\<rparr>)" "mem_invar (wal_mem s)"
    and "mem_view bt (wal_mem s) = entry_spec e (fold entry_spec h no_contents)"
    and "\<forall>e' \<in> set (h @ [e]). clean e'"
  shows "\<exists>s'. log_mutation bt no_fault e s = (Inr (), s') \<and> wal_inv bt (h @ [e]) s' \<and> wal_mem s' = wal_mem s"
proof -
  obtain s1 where 1: "appendEntryLocked no_fault e s = (Inr (), s1)" "wal_inv bt (h @ [e]) s1" "wal_mem s1 = wal_mem s"
    using append_inv [OF assms(1-3)] by blast
  from compact_inv [OF 1(2) assms(4)] 1 show ?thesis by (auto simp: log_mutation_def)
qed

text \<open>What a mutation does when nothing fails: it succeeds, and the history grows by it.\<close>

lemma wal_mutations_inv:
  assumes "wal_inv bt h s"
  shows "\<forall>e' \<in> set (h @ [\<lparr>e_Op = walSet, e_Namespace = ns, e_Key = k, e_Value = v\<rparr>]). clean e' \<Longrightarrow>
      \<exists>s'. wal_Set bt no_fault s ns k v = (Inr (), s')
        \<and> wal_inv bt (h @ [\<lparr>e_Op = walSet, e_Namespace = ns, e_Key = k, e_Value = v\<rparr>]) s'"
    "\<forall>e' \<in> set (h @ [\<lparr>e_Op = walDelete, e_Namespace = ns, e_Key = k, e_Value = []\<rparr>]). clean e' \<Longrightarrow>
      \<exists>s'. wal_Delete bt no_fault s ns k = (Inr (), s')
        \<and> wal_inv bt (h @ [\<lparr>e_Op = walDelete, e_Namespace = ns, e_Key = k, e_Value = []\<rparr>]) s'"
    "\<forall>e' \<in> set (h @ [\<lparr>e_Op = walDeletePrefix, e_Namespace = ns, e_Key = k, e_Value = []\<rparr>]). clean e' \<Longrightarrow>
      \<exists>s'. wal_DeletePrefix bt no_fault s ns k = (Inr (), s')
        \<and> wal_inv bt (h @ [\<lparr>e_Op = walDeletePrefix, e_Namespace = ns, e_Key = k, e_Value = []\<rparr>]) s'"
proof -
  have m: "mem_invar (wal_mem s)" "mem_view bt (wal_mem s) = fold entry_spec h no_contents"
    using assms by (auto simp: wal_inv_def)
  have inv: "wal_inv bt h (s\<lparr>wal_mem := m\<rparr>\<lparr>wal_mem := wal_mem s\<rparr>)" for m using assms by simp
  note specs = mem_Set_spec [OF m(1)] mem_Delete_spec [OF m(1)] mem_DeletePrefix_spec [OF m(1)]
  obtain m1 m2 m3 where
    1: "mem_Set bt (wal_mem s) ns k v = (Inr (), m1)" and
    2: "mem_Delete bt (wal_mem s) ns k = (Inr (), m2)" and
    3: "mem_DeletePrefix bt (wal_mem s) ns k = (Inr (), m3)"
    by (metis specs(1,4,7) prod.collapse)
  show "\<exists>s'. wal_Set bt no_fault s ns k v = (Inr (), s')
        \<and> wal_inv bt (h @ [\<lparr>e_Op = walSet, e_Namespace = ns, e_Key = k, e_Value = v\<rparr>]) s'"
    if "\<forall>e' \<in> set (h @ [\<lparr>e_Op = walSet, e_Namespace = ns, e_Key = k, e_Value = v\<rparr>]). clean e'"
    using log_mutation_inv [OF inv _ _ that, of m1] 1 m specs(2,3) [of ns k v]
    by (auto simp: wal_Set_def entry_spec_def)
  show "\<exists>s'. wal_Delete bt no_fault s ns k = (Inr (), s')
        \<and> wal_inv bt (h @ [\<lparr>e_Op = walDelete, e_Namespace = ns, e_Key = k, e_Value = []\<rparr>]) s'"
    if "\<forall>e' \<in> set (h @ [\<lparr>e_Op = walDelete, e_Namespace = ns, e_Key = k, e_Value = []\<rparr>]). clean e'"
    using log_mutation_inv [OF inv _ _ that, of m2] 2 m specs(5,6) [of ns k]
    by (auto simp: wal_Delete_def entry_spec_def)
  show "\<exists>s'. wal_DeletePrefix bt no_fault s ns k = (Inr (), s')
        \<and> wal_inv bt (h @ [\<lparr>e_Op = walDeletePrefix, e_Namespace = ns, e_Key = k, e_Value = []\<rparr>]) s'"
    if "\<forall>e' \<in> set (h @ [\<lparr>e_Op = walDeletePrefix, e_Namespace = ns, e_Key = k, e_Value = []\<rparr>]). clean e'"
    using log_mutation_inv [OF inv _ _ that, of m3] 3 m specs(8,9) [of ns k]
    by (auto simp: wal_DeletePrefix_def entry_spec_def)
qed

lemma wal_reach_inv:
  assumes "wal_reach bt opts h s" "\<forall>e \<in> set h. clean e"
  shows "wal_inv bt h s"
  using assms
proof (induction rule: wal_reach.induct)
  case (start s)
  then show ?case
    by (auto simp: NewWALStore_def empty_disk_def replayWALFile_def NewMemoryStore_def wal_inv_def mem_invar_def
        mem_view_def log_bytes_def lines_of_def Let_def split: sum.splits if_splits)
next
  case (set h s ns k v r s')
  then show ?case using wal_mutations_inv(1) [of h s ns k v] by fastforce
next
  case (delete h s ns k r s')
  then show ?case using wal_mutations_inv(2) [of h s ns k] by fastforce
next
  case (delete_prefix h s ns p r s')
  then show ?case using wal_mutations_inv(3) [of h s ns p] by fastforce
next
  case (tick h s ok)
  then have "wal_inv bt h s" by simp
  moreover have "wal_inv bt h (log_synced s)" if "wal_inv bt h s"
    using that by (auto simp: wal_inv_def log_synced_def log_bytes_def intro: order_trans)
  ultimately show ?case by (simp add: sync_tick_def)
next
  case (get h s ns k r s')
  then have "wal_inv bt h s" "s' = s\<lparr>wal_mem := bump_reads (wal_mem s)\<rparr>"
    by (auto simp: wal_Get_def wal_read_def mem_Get_spec)
  then show ?case by (simp add: wal_inv_def log_bytes_def)
qed

end

section \<open>Calls with failing system calls\<close>

text \<open>A mutating call, the entry it logs, and the call with the outcomes of its system calls.\<close>

datatype wal_call = CallSet string string string | CallDelete string string | CallDeletePrefix string string

fun call_entry :: "wal_call \<Rightarrow> walEntry" where
  "call_entry (CallSet ns k v) = \<lparr>e_Op = walSet, e_Namespace = ns, e_Key = k, e_Value = v\<rparr>"
| "call_entry (CallDelete ns k) = \<lparr>e_Op = walDelete, e_Namespace = ns, e_Key = k, e_Value = []\<rparr>"
| "call_entry (CallDeletePrefix ns p) = \<lparr>e_Op = walDeletePrefix, e_Namespace = ns, e_Key = p, e_Value = []\<rparr>"

fun wal_perform :: "'t btree_ops \<Rightarrow> wal_io \<Rightarrow> wal_call \<Rightarrow> 't wal_store \<Rightarrow> unit result \<times> 't wal_store" where
  "wal_perform bt io (CallSet ns k v) s = wal_Set bt io s ns k v"
| "wal_perform bt io (CallDelete ns k) s = wal_Delete bt io s ns k"
| "wal_perform bt io (CallDeletePrefix ns p) s = wal_DeletePrefix bt io s ns p"

fun wal_performs ::
  "'t btree_ops \<Rightarrow> (wal_call \<times> wal_io) list \<Rightarrow> 't wal_store \<Rightarrow> unit result list \<times> 't wal_store"
where
  "wal_performs bt [] s = ([], s)"
| "wal_performs bt ((c, io) # cs) s =
     (let (r, s1) = wal_perform bt io c s; (rs, s2) = wal_performs bt cs s1 in (r # rs, s2))"

context ordered_map
begin

text \<open>Every call changes memory first and then logs its entry, whatever fails.\<close>

lemma wal_perform_phases:
  assumes "mem_invar (wal_mem s)"
  shows "\<exists>m. wal_perform bt io c s = log_mutation bt io (call_entry c) (s\<lparr>wal_mem := m\<rparr>) \<and> mem_invar m
    \<and> mem_view bt m = entry_spec (call_entry c) (mem_view bt (wal_mem s))"
proof (cases c)
  case (CallSet ns k v)
  obtain m where "mem_Set bt (wal_mem s) ns k v = (Inr (), m)"
    using mem_Set_spec(1) [OF assms] by (metis prod.collapse)
  with CallSet mem_Set_spec(2,3) [OF assms, of ns k v] show ?thesis
    by (auto simp: wal_Set_def entry_spec_def)
next
  case (CallDelete ns k)
  obtain m where "mem_Delete bt (wal_mem s) ns k = (Inr (), m)"
    using mem_Delete_spec(1) [OF assms] by (metis prod.collapse)
  with CallDelete mem_Delete_spec(2,3) [OF assms, of ns k] show ?thesis
    by (auto simp: wal_Delete_def entry_spec_def)
next
  case (CallDeletePrefix ns p)
  obtain m where "mem_DeletePrefix bt (wal_mem s) ns p = (Inr (), m)"
    using mem_DeletePrefix_spec(1) [OF assms] by (metis prod.collapse)
  with CallDeletePrefix mem_DeletePrefix_spec(2,3) [OF assms, of ns p] show ?thesis
    by (auto simp: wal_DeletePrefix_def entry_spec_def)
qed

text \<open>Without an open handle nothing is logged any more, and nothing reopens it.\<close>

lemma wal_performs_closed:
  assumes "mem_invar (wal_mem s)" "\<not> wal_fd s" "\<not> wal_closed s"
  shows "fst (wal_performs bt cs s) = replicate (length cs) (Inl (IOError ''wal store: append''))
    \<and> wal_disk (snd (wal_performs bt cs s)) = wal_disk s \<and> \<not> wal_fd (snd (wal_performs bt cs s))
    \<and> mem_view bt (wal_mem (snd (wal_performs bt cs s)))
      = fold entry_spec (map (\<lambda>x. call_entry (fst x)) cs) (mem_view bt (wal_mem s))"
  using assms
proof (induction cs arbitrary: s)
  case (Cons x cs)
  obtain c io where x: "x = (c, io)" by (cases x)
  obtain m where m: "wal_perform bt io c s = log_mutation bt io (call_entry c) (s\<lparr>wal_mem := m\<rparr>)" "mem_invar m"
    "mem_view bt m = entry_spec (call_entry c) (mem_view bt (wal_mem s))"
    using wal_perform_phases [OF Cons.prems(1), of io c] by blast
  have "wal_perform bt io c s = (Inl (IOError ''wal store: append''), s\<lparr>wal_mem := m\<rparr>)"
    using m(1) Cons.prems(2,3) by (simp add: log_mutation_def appendEntryLocked_def Let_def)
  with Cons.IH [of "s\<lparr>wal_mem := m\<rparr>"] Cons.prems(2,3) m(2,3) show ?case
    by (simp add: x case_prod_unfold Let_def)
qed simp

end

section \<open>The store contract\<close>

definition wal_ops :: "'t btree_ops \<Rightarrow> 't wal_store store_ops" where
  "wal_ops bt = \<lparr>st_Get = wal_Get bt, st_Set = wal_Set bt no_fault, st_Delete = wal_Delete bt no_fault,
     st_DeletePrefix = Some (wal_DeletePrefix bt no_fault), st_List = wal_List bt,
     st_ListNamespaces = wal_ListNamespaces bt, st_Scan = wal_Scan bt,
     st_ScanPage = wal_ScanPage bt, st_Close = wal_Close True True\<rparr>"

definition wal_open :: "'t wal_store \<Rightarrow> bool" where
  "wal_open s \<longleftrightarrow> mem_invar (wal_mem s) \<and> \<not> wal_closed s \<and> wal_fd s"

lemma log_mutation_open:
  assumes "wal_open s"
  shows "fst (log_mutation bt no_fault e s) = Inr () \<and> wal_open (snd (log_mutation bt no_fault e s))
    \<and> wal_mem (snd (log_mutation bt no_fault e s)) = wal_mem s"
  using assms
  by (auto simp: log_mutation_def appendEntryLocked_def maybeCompact_def compactLocked_def no_fault_def wal_open_def
      Let_def log_append_def log_synced_def)

lemma wal_read_open: "wal_open s \<Longrightarrow> mem_invar (snd (f (wal_mem s))) \<Longrightarrow> wal_open (snd (wal_read f s))"
  by (simp add: wal_read_def wal_open_def case_prod_unfold Let_def)

lemma wal_read_simps: "fst (wal_read f s) = fst (f (wal_mem s))" "wal_mem (snd (wal_read f s)) = snd (f (wal_mem s))"
  by (simp_all add: wal_read_def case_prod_unfold Let_def)

context ordered_map
begin

lemma wal_set_law:
  assumes "wal_open s"
  shows "fst (wal_Set bt no_fault s ns k v) = Inr ()
      \<and> mem_view bt (wal_mem (snd (wal_Set bt no_fault s ns k v))) = set_spec (mem_view bt (wal_mem s)) ns k v
      \<and> wal_open (snd (wal_Set bt no_fault s ns k v))"
proof -
  have inv: "mem_invar (wal_mem s)" using assms by (simp add: wal_open_def)
  obtain m where m: "mem_Set bt (wal_mem s) ns k v = (Inr (), m)" using mem_Set_spec(1) [OF inv] by (metis prod.collapse)
  have "mem_invar m" "mem_view bt m = set_spec (mem_view bt (wal_mem s)) ns k v"
    using mem_Set_spec(2,3) [OF inv, of ns k v] m by auto
  moreover from this assms have "wal_open (s\<lparr>wal_mem := m\<rparr>)" by (simp add: wal_open_def)
  ultimately show ?thesis using log_mutation_open [of "s\<lparr>wal_mem := m\<rparr>" bt] m by (simp add: wal_Set_def)
qed

lemma wal_delete_law:
  assumes "wal_open s"
  shows "fst (wal_Delete bt no_fault s ns k) = Inr ()
      \<and> mem_view bt (wal_mem (snd (wal_Delete bt no_fault s ns k))) = delete_spec (mem_view bt (wal_mem s)) ns k
      \<and> wal_open (snd (wal_Delete bt no_fault s ns k))"
proof -
  have inv: "mem_invar (wal_mem s)" using assms by (simp add: wal_open_def)
  obtain m where m: "mem_Delete bt (wal_mem s) ns k = (Inr (), m)" using mem_Delete_spec(1) [OF inv] by (metis prod.collapse)
  have "mem_invar m" "mem_view bt m = delete_spec (mem_view bt (wal_mem s)) ns k"
    using mem_Delete_spec(2,3) [OF inv, of ns k] m by auto
  moreover from this assms have "wal_open (s\<lparr>wal_mem := m\<rparr>)" by (simp add: wal_open_def)
  ultimately show ?thesis using log_mutation_open [of "s\<lparr>wal_mem := m\<rparr>" bt] m by (simp add: wal_Delete_def)
qed

lemma wal_kv_store: "kv_store (wal_ops bt) (\<lambda>s. mem_view bt (wal_mem s)) wal_open"
proof
  fix s :: "'t wal_store" and ns k v p sa lim xs
  assume o: "wal_open s"
  then have inv: "mem_invar (wal_mem s)" by (simp add: wal_open_def)
  note rd = wal_ops_def wal_Get_def wal_List_def wal_Scan_def wal_ListNamespaces_def wal_ScanPage_def wal_read_simps
    store_ops.simps
  note laws = mem.get_law [OF inv] mem.list_law [OF inv] mem.scan_law [OF inv] mem.namespaces_law [OF inv]
    mem.page_law [OF inv]
  show "fst (st_Get (wal_ops bt) s ns k) = Inr (get_spec (mem_view bt (wal_mem s)) ns k)
      \<and> mem_view bt (wal_mem (snd (st_Get (wal_ops bt) s ns k))) = mem_view bt (wal_mem s)
      \<and> wal_open (snd (st_Get (wal_ops bt) s ns k))"
    using laws(1) [of ns k] unfolding mem_ops_def rd by (simp add: wal_read_open [OF o])
  show "fst (st_Set (wal_ops bt) s ns k v) = Inr ()
      \<and> mem_view bt (wal_mem (snd (st_Set (wal_ops bt) s ns k v))) = set_spec (mem_view bt (wal_mem s)) ns k v
      \<and> wal_open (snd (st_Set (wal_ops bt) s ns k v))"
    using wal_set_law [OF o] by (simp add: wal_ops_def)
  show "fst (st_Delete (wal_ops bt) s ns k) = Inr ()
      \<and> mem_view bt (wal_mem (snd (st_Delete (wal_ops bt) s ns k))) = delete_spec (mem_view bt (wal_mem s)) ns k
      \<and> wal_open (snd (st_Delete (wal_ops bt) s ns k))"
    using wal_delete_law [OF o] by (simp add: wal_ops_def)
  show "(\<exists>xs. scan_spec (mem_view bt (wal_mem s) ns) p xs \<and> fst (st_List (wal_ops bt) s ns p) = Inr (map fst xs))
      \<and> mem_view bt (wal_mem (snd (st_List (wal_ops bt) s ns p))) = mem_view bt (wal_mem s)
      \<and> wal_open (snd (st_List (wal_ops bt) s ns p))"
    using laws(2) [of ns p] unfolding mem_ops_def rd by (simp add: wal_read_open [OF o])
  show "(\<exists>nss. fst (st_ListNamespaces (wal_ops bt) s) = Inr nss \<and> sorted_wrt (<) nss
        \<and> set nss = {ns. mem_view bt (wal_mem s) ns \<noteq> Map.empty})
      \<and> mem_view bt (wal_mem (snd (st_ListNamespaces (wal_ops bt) s))) = mem_view bt (wal_mem s)
      \<and> wal_open (snd (st_ListNamespaces (wal_ops bt) s))"
    using laws(4) unfolding mem_ops_def rd by (simp add: wal_read_open [OF o])
  show "(\<exists>xs. scan_spec (mem_view bt (wal_mem s) ns) p xs \<and> fst (st_Scan (wal_ops bt) s ns p) = Inr xs)
      \<and> mem_view bt (wal_mem (snd (st_Scan (wal_ops bt) s ns p))) = mem_view bt (wal_mem s)
      \<and> wal_open (snd (st_Scan (wal_ops bt) s ns p))"
    using laws(3) [of ns p] unfolding mem_ops_def rd by (simp add: wal_read_open [OF o])
  show "fst (st_ScanPage (wal_ops bt) s ns p sa lim) = Inr (page_spec xs sa lim)
      \<and> mem_view bt (wal_mem (snd (st_ScanPage (wal_ops bt) s ns p sa lim))) = mem_view bt (wal_mem s)
      \<and> wal_open (snd (st_ScanPage (wal_ops bt) s ns p sa lim))"
    if "scan_spec (mem_view bt (wal_mem s) ns) p xs"
    using laws(5) [OF that, of sa lim] unfolding mem_ops_def rd by (simp add: wal_read_open [OF o])
qed

end

sublocale ordered_map \<subseteq> wal: kv_store "wal_ops bt" "\<lambda>s. mem_view bt (wal_mem s)" wal_open
  by (rule wal_kv_store)

section \<open>Recovery\<close>

lemma NewWALStore_ok:
  assumes "NewWALStore bt OpenOk opts empty_disk = Inr s0"
    and "replayWALFile bt (Some data) NewMemoryStore = Inr (m, k)"
  shows "\<exists>s. NewWALStore bt OpenOk opts (d\<lparr>dk_log := Some data\<rparr>) = Inr s \<and> wal_mem s = m"
  using assms
  by (auto simp: NewWALStore_def empty_disk_def Let_def split: sum.splits if_splits)

lemma wal_reach_opened: "wal_reach bt opts h s \<Longrightarrow> \<exists>s0. NewWALStore bt OpenOk opts empty_disk = Inr s0"
  by (induction rule: wal_reach.induct) auto

lemma lines_of_take_mono: "i \<le> j \<Longrightarrow> length (lines_of enc (take i es)) \<le> length (lines_of enc (take j es))"
  by (metis lines_of_append le_add1 length_append take_add le_iff_add)

context ordered_map
begin

lemma recover_cut:
  assumes "wal_inv bt h s" "\<forall>e \<in> set h. clean e" "dk_synced (wal_disk s) \<le> n"
  shows "\<exists>j m k. j \<le> length h \<and> replayWALFile bt (Some (take n (log_bytes s))) NewMemoryStore = Inr (m, k)
    \<and> mem_view bt m = fold entry_spec (take j h) no_contents
    \<and> (j < length h \<longrightarrow> n < length (log_bytes s) - length (encode_lines (drop (Suc j) h)))"
proof -
  obtain i base where ib: "i \<le> length h" "dk_log (wal_disk s) = Some (encode_lines (base @ drop i h))"
    "\<forall>e \<in> set base. clean e" "fold entry_spec base no_contents = fold entry_spec (take i h) no_contents"
    "length (encode_lines base) \<le> dk_synced (wal_disk s)"
    using assms(1) by (auto simp: wal_inv_def)
  let ?es = "base @ drop i h"
  have lb: "log_bytes s = encode_lines ?es" using ib(2) by (simp add: log_bytes_def)
  have cl: "\<forall>e \<in> set ?es. clean e" using ib(3) assms(2) by (auto dest: in_set_dropD)
  obtain j where j: "j \<le> length ?es"
    "replay_lines walEntry_unmarshal (apply_entry bt) (take n (encode_lines ?es)) (NewMemoryStore, 0)
       = apply_all (\<lambda>e. apply_entry bt (clean_entry e)) (take j ?es) (NewMemoryStore, 0)"
    "j < length ?es \<longrightarrow> Suc n < length (encode_lines (take (Suc j) ?es))"
    using wal_lines.replay_cut [of ?es "apply_entry bt" n "(NewMemoryStore, 0)"] by blast
  have jb: "length base \<le> j"
  proof (rule ccontr)
    assume "\<not> length base \<le> j"
    then have "length (encode_lines (take (Suc j) ?es)) \<le> length (encode_lines base)"
      using lines_of_take_mono [of "Suc j" "length base" walEntry_marshal ?es] by simp
    moreover have "j < length ?es" using \<open>\<not> length base \<le> j\<close> by simp
    ultimately show False using j(3) ib(5) assms(3) by linarith
  qed
  define j' where "j' = i + (j - length base)"
  have te: "take j ?es = base @ take (j - length base) (drop i h)" using jb by simp
  have "fold entry_spec (take j ?es) no_contents = fold entry_spec (take j' h) no_contents"
    unfolding te j'_def take_add by (simp add: ib(4))
  moreover have "take j ?es = map clean_entry (take j ?es)"
    using cl by (metis (no_types, lifting) clean_def in_set_takeD list.map_ident_strong)
  then have "replay_lines walEntry_unmarshal (apply_entry bt) (take n (encode_lines ?es)) (NewMemoryStore, 0)
      = replayWALFile bt (Some (encode_lines (take j ?es))) NewMemoryStore"
    by (simp only: j(2) replayWALFile_def option.case wal_lines.replay_complete)
  then have "\<exists>m k. replayWALFile bt (Some (take n (log_bytes s))) NewMemoryStore = Inr (m, k)
      \<and> mem_view bt m = fold entry_spec (take j ?es) no_contents"
    using replay_clean [of "take j ?es"] cl lb by (auto simp: replayWALFile_def dest: in_set_takeD)
  moreover have "n < length (log_bytes s) - length (encode_lines (drop (Suc j') h))" if "j' < length h"
  proof -
    have jl: "j < length ?es" using that jb by (simp add: j'_def)
    have "?es = take (Suc j) ?es @ drop (Suc j) ?es" by (rule append_take_drop_id [symmetric])
    then have "length (log_bytes s) = length (encode_lines (take (Suc j) ?es)) + length (encode_lines (drop (Suc j) ?es))"
      by (metis lb lines_of_append length_append)
    moreover have "drop (Suc j) ?es = drop (Suc j') h" using jb by (simp add: j'_def Suc_diff_le add.commute)
    ultimately show ?thesis using j(3) jl by simp
  qed
  moreover have "j' \<le> length h" using j(1) ib(1) jb by (auto simp: j'_def)
  ultimately show ?thesis by (intro exI [of _ j']) auto
qed

end

section \<open>A crash during a call\<close>

text \<open>
  What the log is after a call in which any system call may have failed: some beginning of
  the entry's line was appended, or a compaction replaced the log by a synced snapshot.
\<close>

lemma log_mutation_log:
  assumes "\<not> wal_closed s" "wal_fd s" "log_mutation bt io e s = (r, s1)"
    and "dk_synced (wal_disk s) \<le> length (log_bytes s)"
  shows "(\<exists>m. log_bytes s1 = log_bytes s @ take m (walEntry_marshal e @ [CHR 0x0A])
        \<and> dk_synced (wal_disk s) \<le> dk_synced (wal_disk s1)
        \<and> (r = Inr () \<longrightarrow> log_bytes s1 = log_bytes s @ walEntry_marshal e @ [CHR 0x0A]
            \<and> (wal_syncMode s = WALSyncAlways \<longrightarrow> dk_synced (wal_disk s1) = length (log_bytes s1))))
    \<or> (log_bytes s1 = writeSnapshot bt (wal_mem s) \<and> dk_synced (wal_disk s1) = length (log_bytes s1))"
proof -
  let ?l = "walEntry_marshal e @ [CHR 0x0A]"
  obtain ra sa where a: "appendEntryLocked io e s = (ra, sa)" by (cases "appendEntryLocked io e s")
  define l where "l = ?l"
  have "\<exists>m. log_bytes sa = log_bytes s @ take m l"
  proof (cases "io_write io")
    case None
    then have "log_bytes sa = log_bytes s @ take (length l) l"
      using a assms(1,2) unfolding appendEntryLocked_def Let_def l_def [symmetric] by (auto split: if_splits)
    then show ?thesis ..
  next
    case (Some n)
    then have "log_bytes sa = log_bytes s @ take n l"
      using a assms(1,2) unfolding appendEntryLocked_def Let_def l_def [symmetric] by auto
    then show ?thesis ..
  qed
  moreover have "wal_mem sa = wal_mem s \<and> \<not> wal_closed sa"
    "dk_synced (wal_disk s) \<le> dk_synced (wal_disk sa)"
    "ra = Inr () \<Longrightarrow> log_bytes sa = log_bytes s @ ?l \<and>
       (wal_syncMode s = WALSyncAlways \<longrightarrow> dk_synced (wal_disk sa) = length (log_bytes sa))"
    using a assms(1,2,4)
    by (auto simp: appendEntryLocked_def Let_def log_append_def log_synced_def log_bytes_def
        split: option.splits if_splits)
  ultimately have sa: "wal_mem sa = wal_mem s \<and> \<not> wal_closed sa" "\<exists>m. log_bytes sa = log_bytes s @ take m ?l"
    "dk_synced (wal_disk s) \<le> dk_synced (wal_disk sa)"
    "ra = Inr () \<Longrightarrow> log_bytes sa = log_bytes s @ ?l \<and>
       (wal_syncMode s = WALSyncAlways \<longrightarrow> dk_synced (wal_disk sa) = length (log_bytes sa))"
    unfolding l_def by blast+
  show ?thesis
  proof (cases ra)
    case (Inl err)
    with a assms(3) have "s1 = sa" "r = Inl err" by (simp_all add: log_mutation_def)
    with sa show ?thesis by auto
  next
    case (Inr u)
    then have m: "maybeCompact bt io sa = (r, s1)" using a assms(3) by (simp add: log_mutation_def)
    have "log_bytes s1 = log_bytes sa \<and> dk_synced (wal_disk s1) = dk_synced (wal_disk sa)
        \<or> log_bytes s1 = writeSnapshot bt (wal_mem sa) \<and> dk_synced (wal_disk s1) = length (log_bytes s1)"
      using m by (cases "io_compact io")
        (auto simp: maybeCompact_def compactLocked_def Let_def set_new_def log_bytes_def split: if_splits)
    with sa Inr show ?thesis by auto
  qed
qed

lemma take_cut_append: "take n (xs @ take m ys) = take (min n (length xs + length (take m ys))) (xs @ ys)"
proof -
  have "xs @ take m ys = take (length xs + length (take m ys)) (xs @ ys)" by (simp add: min_def)
  then show ?thesis by (simp only: take_take)
qed

context ordered_map
begin

lemma recover_last_call:
  assumes "wal_inv bt h s" "\<forall>e \<in> set h. clean e" "clean (call_entry c)"
    and "wal_perform bt io c s = (r, s1)" "dk_synced (wal_disk s1) \<le> n"
  shows "\<exists>j m k. j \<le> Suc (length h) \<and> replayWALFile bt (Some (take n (log_bytes s1))) NewMemoryStore = Inr (m, k)
    \<and> mem_view bt m = fold entry_spec (take j (h @ [call_entry c])) no_contents
    \<and> (j < length h \<longrightarrow> dk_synced (wal_disk s) < length (log_bytes s) - length (encode_lines (drop (Suc j) h)))
    \<and> (wal_syncMode s = WALSyncAlways \<longrightarrow> length h \<le> j \<and> (r = Inr () \<longrightarrow> j = Suc (length h)))"
proof -
  let ?e = "call_entry c" and ?l = "walEntry_marshal (call_entry c) @ [CHR 0x0A]"
  let ?h = "h @ [?e]"
  have s: "\<not> wal_closed s" "wal_fd s" "mem_invar (wal_mem s)" "mem_view bt (wal_mem s) = fold entry_spec h no_contents"
    "dk_synced (wal_disk s) \<le> length (log_bytes s)"
    "wal_syncMode s = WALSyncAlways \<Longrightarrow> dk_synced (wal_disk s) = length (log_bytes s)"
    using assms(1) by (auto simp: wal_inv_def)
  have cl: "\<forall>e \<in> set ?h. clean e" using assms(2,3) by simp
  obtain mm where mm: "wal_perform bt io c s = log_mutation bt io ?e (s\<lparr>wal_mem := mm\<rparr>)" "mem_invar mm"
    "mem_view bt mm = fold entry_spec ?h no_contents"
    using wal_perform_phases [OF s(3), of io c] s(4) by auto
  let ?s0 = "s\<lparr>wal_mem := mm\<rparr>"
  have lm: "log_mutation bt io ?e ?s0 = (r, s1)" using mm(1) assms(4) by simp
  consider (log) m where "log_bytes s1 = log_bytes s @ take m ?l"
      "dk_synced (wal_disk s) \<le> dk_synced (wal_disk s1)"
      "r = Inr () \<longrightarrow> log_bytes s1 = log_bytes s @ ?l
         \<and> (wal_syncMode s = WALSyncAlways \<longrightarrow> dk_synced (wal_disk s1) = length (log_bytes s1))"
    | (snap) "log_bytes s1 = writeSnapshot bt mm" "dk_synced (wal_disk s1) = length (log_bytes s1)"
    using log_mutation_log [OF _ _ lm] s(1,2,5) by auto
  then show ?thesis
  proof cases
    case log
    define sv where "sv = s\<lparr>wal_mem := mm, wal_syncMode := WALSyncInterval\<rparr>"
    have "wal_inv bt h (sv\<lparr>wal_mem := wal_mem s\<rparr>)"
      using assms(1) by (auto simp: wal_inv_def sv_def log_bytes_def WALSyncInterval_def WALSyncAlways_def)
    then obtain s2 where s2: "appendEntryLocked no_fault ?e sv = (Inr (), s2)" "wal_inv bt ?h s2"
      using append_inv [of bt h "wal_mem s" sv ?e] mm(2,3) by (auto simp: sv_def)
    have d: "log_bytes s2 = log_bytes s @ ?l" "dk_synced (wal_disk s2) = dk_synced (wal_disk s)"
      using s2(1) s(1,2) by (auto simp: appendEntryLocked_def no_fault_def Let_def sv_def log_append_def log_bytes_def
          WALSyncInterval_def WALSyncAlways_def)
    define n' where "n' = min n (length (log_bytes s) + length (take m ?l))"
    have cut: "take n (log_bytes s1) = take n' (log_bytes s2)"
      unfolding log(1) d(1) n'_def by (rule take_cut_append)
    have n': "dk_synced (wal_disk s) \<le> n'" using log(2) assms(5) s(5) by (simp add: n'_def)
    obtain j m' k where j: "j \<le> length ?h" "replayWALFile bt (Some (take n' (log_bytes s2))) NewMemoryStore = Inr (m', k)"
      "mem_view bt m' = fold entry_spec (take j ?h) no_contents"
      "j < length ?h \<longrightarrow> n' < length (log_bytes s2) - length (encode_lines (drop (Suc j) ?h))"
      using recover_cut [OF s2(2) cl, of n'] n' d(2) by auto
    have before: "n' < length (log_bytes s) - length (encode_lines (drop (Suc j) h))" if "j < length h"
      using that j(4) by (simp add: d(1) lines_of_append lines_of_def [of _ "[?e]"])
    have "length h \<le> j \<and> (r = Inr () \<longrightarrow> j = Suc (length h))" if a: "wal_syncMode s = WALSyncAlways"
    proof
      show "length h \<le> j"
        using before n' s(6) [OF a] by (cases "j < length h") simp_all
      show "r = Inr () \<longrightarrow> j = Suc (length h)"
      proof
        assume "r = Inr ()"
        with log(3) a have full: "log_bytes s1 = log_bytes s @ ?l" "dk_synced (wal_disk s1) = length (log_bytes s1)" by simp_all
        then have t: "take m ?l = ?l" using log(1) by (metis same_append_eq)
        have "length (log_bytes s) + length ?l \<le> n" using full assms(5) by (simp only: length_append)
        then have "n' = length (log_bytes s2)" unfolding n'_def t d(1) by simp
        then have "\<not> j < length ?h" using j(4) by (metis diff_le_self leD)
        with j(1) show "j = Suc (length h)" by simp
      qed
    qed
    with j before n' show ?thesis unfolding cut
      by (intro exI [of _ j] exI [of _ m'] exI [of _ k]) auto
  next
    case snap
    have "\<forall>e \<in> set (snapshot_entries bt mm). clean e"
      using snapshot_clean [OF mm(2)] clean_contents [OF cl, of no_contents] mm(3) by auto
    from replay_clean [OF this] fold_snapshot [OF mm(2)] mm(3) obtain m k where
      "replayWALFile bt (Some (writeSnapshot bt mm)) NewMemoryStore = Inr (m, k)"
      "mem_view bt m = fold entry_spec ?h no_contents"
      by (auto simp: writeSnapshot_def)
    moreover have "take n (log_bytes s1) = writeSnapshot bt mm" using snap assms(5) by simp
    ultimately show ?thesis by (intro exI [of _ "Suc (length h)"]) auto
  qed
qed

end

section \<open>Overlapping mutations\<close>

text \<open>
  Mutations of different goroutines interleave at the boundary of their two phases: a
  step either applies a new mutation to memory, which then waits for the log, or lets
  any waiting one append.
\<close>

definition mem_phase :: "'t btree_ops \<Rightarrow> walEntry \<Rightarrow> 't wal_store \<Rightarrow> 't wal_store" where
  "mem_phase bt e s = (case apply_entry bt e (wal_mem s, 0) of Inr (m, _) \<Rightarrow> s\<lparr>wal_mem := m\<rparr> | Inl _ \<Rightarrow> s)"

inductive wal_conc_step ::
  "'t btree_ops \<Rightarrow> 't wal_store \<times> walEntry list \<Rightarrow> 't wal_store \<times> walEntry list \<Rightarrow> bool" for bt where
  memory: "wal_conc_step bt (s, waiting) (mem_phase bt e s, waiting @ [e])"
| log: "wal_conc_step bt (s, ws @ e # ws') (snd (log_mutation bt no_fault e s), ws @ ws')"

text \<open>Alone, the two phases are the operation.\<close>

lemma wal_Set_phases:
  "wal_Set bt no_fault s ns k v =
     (let e = \<lparr>e_Op = walSet, e_Namespace = ns, e_Key = k, e_Value = v\<rparr> in log_mutation bt no_fault e (mem_phase bt e s))"
  by (simp add: wal_Set_def mem_phase_def apply_entry_def mem_Set_def)

section \<open>Sample logs\<close>

definition sample_opts :: WALOptions where
  "sample_opts = \<lparr>o_SyncMode = ''always'', o_SyncInterval = 0, o_MaxLogBytes = 0\<rparr>"

definition sample_entry :: "string \<Rightarrow> string \<Rightarrow> walEntry" where
  "sample_entry k v = \<lparr>e_Op = walSet, e_Namespace = ''ns'', e_Key = k, e_Value = v\<rparr>"

definition sample_wal :: "string \<Rightarrow> KV list wal_store" where
  "sample_wal mode = \<lparr>wal_mem = NewMemoryStore, wal_disk = \<lparr>dk_log = Some [], dk_new = None, dk_synced = 0\<rparr>,
     wal_maxLogBytes = defaultWALMaxLogBytes, wal_syncMode = mode, wal_syncEvery = defaultWALSyncEvery, wal_fd = True,
     wal_logSize = 0, wal_closed = False, wal_dirty = False\<rparr>"

lemma sample_wal_start: "wal_reach alist_bt (sample_opts\<lparr>o_SyncMode := []\<rparr>) [] (sample_wal ''interval'')"
  by (rule wal_reach.start)
    (simp add: NewWALStore_def sample_opts_def sample_wal_def empty_disk_def validateWALSyncMode_def WALSyncInterval_def
      replayWALFile_def)

lemma sample_wal_set:
  "wal_reach alist_bt (sample_opts\<lparr>o_SyncMode := []\<rparr>) [sample_entry ''k'' ''v'']
     (snd (wal_Set alist_bt no_fault (sample_wal ''interval'') ''ns'' ''k'' ''v''))"
  using wal_reach.set [OF sample_wal_start, of "''ns''" "''k''" "''v''"]
  by (cases "wal_Set alist_bt no_fault (sample_wal ''interval'') ''ns'' ''k'' ''v''") (simp add: sample_entry_def)

lemma sample_entry_clean: "clean (sample_entry ''k'' ''v'')"
  by (simp add: clean_iff sample_entry_def utf8_width_def)

definition torn_disk :: wal_disk where
  "torn_disk = \<lparr>dk_log = Some (encode_lines [sample_entry ''a'' ''1''] @ take 12 (walEntry_marshal (sample_entry ''b'' ''2''))),
     dk_new = None, dk_synced = 0\<rparr>"

text \<open>Two writes of one key, the second of which reaches the log first.\<close>

definition conc_end :: "KV list wal_store" where
  "conc_end =
    (let a = sample_entry ''k'' ''A''; b = sample_entry ''k'' ''B'';
         s2 = mem_phase alist_bt b (mem_phase alist_bt a (sample_wal ''always''));
         s3 = snd (log_mutation alist_bt no_fault b s2)
     in snd (log_mutation alist_bt no_fault a s3))"

lemma memory_step: "s' = mem_phase bt e s \<Longrightarrow> wal_conc_step bt (s, ws) (s', ws @ [e])"
  by (simp add: wal_conc_step.memory)

lemma log_step: "s' = snd (log_mutation bt no_fault e s) \<Longrightarrow> wal_conc_step bt (s, ws @ e # ws') (s', ws @ ws')"
  by (simp add: wal_conc_step.log)

lemma conc_end_reached: "(wal_conc_step alist_bt)\<^sup>*\<^sup>* (sample_wal ''always'', []) (conc_end, [])"
proof -
  let ?a = "sample_entry ''k'' ''A''" and ?b = "sample_entry ''k'' ''B''" and ?s0 = "sample_wal ''always''"
  define s1 s2 s3 where "s1 = mem_phase alist_bt ?a ?s0" and "s2 = mem_phase alist_bt ?b s1"
    and "s3 = snd (log_mutation alist_bt no_fault ?b s2)"
  have e: "conc_end = snd (log_mutation alist_bt no_fault ?a s3)" 
    unfolding conc_end_def Let_def s1_def s2_def s3_def by (rule refl)
  have 1: "wal_conc_step alist_bt (?s0, []) (s1, [?a])" using memory_step [OF s1_def, of "[]"] by simp
  have 2: "wal_conc_step alist_bt (s1, [?a]) (s2, [?a, ?b])" using memory_step [OF s2_def, of "[?a]"] by simp
  have 3: "wal_conc_step alist_bt (s2, [?a, ?b]) (s3, [?a])" using log_step [OF s3_def, of "[?a]" "[]"] by simp
  have 4: "wal_conc_step alist_bt (s3, [?a]) (conc_end, [])" using log_step [OF e, of "[]" "[]"] by simp
  note step = converse_rtranclp_into_rtranclp [where r = "wal_conc_step alist_bt"]
  show ?thesis by (rule step [OF 1 step [OF 2 step [OF 3 step [OF 4 rtranclp.rtrancl_refl]]]])
qed

section \<open>Properties\<close>

text \<open>
  C19. As long as no system call fails, the write-ahead-log store keeps the contract of the
  \<^verbatim>\<open>Store\<close> interface, compactions included.
\<close>

theorem wal_store_contract:
  assumes "ordered_map bt"
  shows "kv_store (wal_ops bt) (\<lambda>s. mem_view bt (wal_mem s)) wal_open"
  using assms by (rule ordered_map.wal_kv_store)

theorem wal_store_contract_witness:
  "kv_store (wal_ops alist_bt) (\<lambda>s. mem_view alist_bt (wal_mem s)) wal_open \<and> wal_open (sample_wal ''interval'')"
  using wal_store_contract [OF alist.ordered_map_axioms]
  by (simp add: wal_open_def sample_wal_def mem_invar_def NewMemoryStore_def)

text \<open>
  C1. Crash consistency.  Take any store reached from an empty directory by mutations
  (with the compactions they trigger) whose strings are valid UTF-8 and whose system calls
  succeed, by periodic syncs, which may fail, and by reads; let one more mutation be under way,
  in which any system call may fail or fall short; and let a crash cut the log anywhere
  behind what fsync has covered (a finished rename and the file's creation being durable).
  Reopening succeeds and gives exactly the contents after some prefix of the mutations,
  the last one included: none is half applied, reordered or resurrected; the first of the
  completed ones that is lost was not completely covered by fsync; and in mode \<^verbatim>\<open>always\<close>
  all completed ones survive, and the last one too when it was acknowledged.
\<close>

theorem wal_crash_consistent:
  assumes "ordered_map bt" "wal_reach bt opts h s" "\<forall>e \<in> set h. clean e"
    and "case under_way of
           None \<Rightarrow> s1 = s \<and> h1 = h \<and> r = Inr ()
         | Some (c, io) \<Rightarrow> wal_perform bt io c s = (r, s1) \<and> h1 = h @ [call_entry c] \<and> clean (call_entry c)"
    and "dk_synced (wal_disk s1) \<le> n"
  shows "\<exists>j s'. j \<le> length h1
    \<and> NewWALStore bt OpenOk opts ((wal_disk s1)\<lparr>dk_log := Some (take n (log_bytes s1))\<rparr>) = Inr s'
    \<and> mem_view bt (wal_mem s') = fold entry_spec (take j h1) no_contents
    \<and> (j < length h \<longrightarrow> dk_synced (wal_disk s) < length (log_bytes s) - length (encode_lines (drop (Suc j) h)))
    \<and> (wal_syncMode s = WALSyncAlways \<longrightarrow> length h \<le> j \<and> (r = Inr () \<longrightarrow> j = length h1))"
proof -
  have inv: "wal_inv bt h s" using ordered_map.wal_reach_inv [OF assms(1-3)] .
  have "\<exists>j m k. j \<le> length h1 \<and> replayWALFile bt (Some (take n (log_bytes s1))) NewMemoryStore = Inr (m, k)
    \<and> mem_view bt m = fold entry_spec (take j h1) no_contents
    \<and> (j < length h \<longrightarrow> dk_synced (wal_disk s) < length (log_bytes s) - length (encode_lines (drop (Suc j) h)))
    \<and> (wal_syncMode s = WALSyncAlways \<longrightarrow> length h \<le> j \<and> (r = Inr () \<longrightarrow> j = length h1))"
  proof (cases under_way)
    case None
    then have e: "s1 = s" "h1 = h" using assms(4) by auto
    obtain j m k where j: "j \<le> length h" "replayWALFile bt (Some (take n (log_bytes s))) NewMemoryStore = Inr (m, k)"
      "mem_view bt m = fold entry_spec (take j h) no_contents"
      "j < length h \<longrightarrow> n < length (log_bytes s) - length (encode_lines (drop (Suc j) h))"
      using ordered_map.recover_cut [OF assms(1) inv assms(3)] assms(5) e by blast
    have "wal_syncMode s = WALSyncAlways \<longrightarrow> dk_synced (wal_disk s) = length (log_bytes s)" using inv by (simp add: wal_inv_def)
    with j assms(5) show ?thesis unfolding e by (intro exI [of _ j] exI [of _ m] exI [of _ k]) auto
  next
    case (Some p)
    obtain c io where "p = (c, io)" by (cases p)
    with Some assms(4) have c: "wal_perform bt io c s = (r, s1)" "h1 = h @ [call_entry c]" "clean (call_entry c)" by auto
    show ?thesis
      using ordered_map.recover_last_call [OF assms(1) inv assms(3) c(3,1) assms(5)] by (simp add: c(2))
  qed
  then obtain j m k where j: "j \<le> length h1" "replayWALFile bt (Some (take n (log_bytes s1))) NewMemoryStore = Inr (m, k)"
    "mem_view bt m = fold entry_spec (take j h1) no_contents"
    "j < length h \<longrightarrow> dk_synced (wal_disk s) < length (log_bytes s) - length (encode_lines (drop (Suc j) h))"
    "wal_syncMode s = WALSyncAlways \<longrightarrow> length h \<le> j \<and> (r = Inr () \<longrightarrow> j = length h1)" by blast
  obtain s0 where "NewWALStore bt OpenOk opts empty_disk = Inr s0" using wal_reach_opened [OF assms(2)] by blast
  from NewWALStore_ok [OF this j(2)] obtain s' where
    "NewWALStore bt OpenOk opts ((wal_disk s1)\<lparr>dk_log := Some (take n (log_bytes s1))\<rparr>) = Inr s'" "wal_mem s' = m" by blast
  with j show ?thesis by (intro exI [of _ j] exI [of _ s']) auto
qed

text \<open>One write is on the log, a second one is cut short, and the crash leaves a torn line.\<close>

theorem wal_crash_consistent_witness:
  "let s = snd (wal_Set alist_bt no_fault (sample_wal ''interval'') ''ns'' ''k'' ''v'');
       short = no_fault\<lparr>io_write := Some 9\<rparr>;
       s1 = snd (wal_perform alist_bt short (CallDelete ''ns'' ''k'') s)
   in \<exists>j s'. j \<le> (2 :: nat)
    \<and> NewWALStore alist_bt OpenOk (sample_opts\<lparr>o_SyncMode := []\<rparr>)
        ((wal_disk s1)\<lparr>dk_log := Some (take 7 (log_bytes s1))\<rparr>) = Inr s'
    \<and> mem_view alist_bt (wal_mem s')
        = fold entry_spec (take j [sample_entry ''k'' ''v'', call_entry (CallDelete ''ns'' ''k'')]) no_contents"
proof -
  let ?s = "snd (wal_Set alist_bt no_fault (sample_wal ''interval'') ''ns'' ''k'' ''v'')"
  let ?io = "no_fault\<lparr>io_write := Some 9\<rparr>" and ?c = "CallDelete ''ns'' ''k''"
  let ?r = "wal_perform alist_bt ?io ?c ?s"
  let ?h = "[sample_entry ''k'' ''v'']"
  have n: "dk_synced (wal_disk (snd ?r)) \<le> 7" by code_simp
  have c: "\<forall>e \<in> set ?h. clean e" using sample_entry_clean by simp
  have "clean (call_entry ?c)" by (simp add: clean_iff utf8_width_def)
  then have u: "case Some (?c, ?io) of
           None \<Rightarrow> snd ?r = ?s \<and> ?h @ [call_entry ?c] = ?h \<and> fst ?r = Inr ()
         | Some (c, io) \<Rightarrow> wal_perform alist_bt io c ?s = (fst ?r, snd ?r) \<and> ?h @ [call_entry ?c] = ?h @ [call_entry c]
             \<and> clean (call_entry c)" by simp
  obtain j s' where "j \<le> length (?h @ [call_entry ?c])"
    and r: "NewWALStore alist_bt OpenOk (sample_opts\<lparr>o_SyncMode := []\<rparr>)
        ((wal_disk (snd ?r))\<lparr>dk_log := Some (take 7 (log_bytes (snd ?r)))\<rparr>) = Inr s'"
      "mem_view alist_bt (wal_mem s') = fold entry_spec (take j (?h @ [call_entry ?c])) no_contents"
    using wal_crash_consistent [OF alist.ordered_map_axioms sample_wal_set c u n] by blast
  from this(1) have "j \<le> 2" by simp
  with r show ?thesis unfolding Let_def by auto
qed



text \<open>
  C38. What comes back from the log is what was written, with every byte that is not part of
  a valid UTF-8 sequence replaced by U+FFFD; valid UTF-8 comes back unchanged.
\<close>

theorem walEntry_marshal_unmarshal:
  "walEntry_unmarshal (walEntry_marshal e) = Some (clean_entry e)
   \<and> (valid_utf8 (e_Op e) \<and> valid_utf8 (e_Namespace e) \<and> valid_utf8 (e_Key e) \<and> valid_utf8 (e_Value e)
      \<longrightarrow> walEntry_unmarshal (walEntry_marshal e) = Some e)"
  using to_valid_id by (simp add: walEntry_roundtrip clean_iff [unfolded clean_def])

theorem walEntry_marshal_unmarshal_witness:
  "walEntry_unmarshal (walEntry_marshal (sample_entry ''k'' ''v'')) = Some (sample_entry ''k'' ''v'')"
  by (rule walEntry_marshal_unmarshal [THEN conjunct2, THEN mp]) (simp add: sample_entry_def walSet_def utf8_width_def)

text \<open>
  C39. Once a compaction has failed at or behind closing the active log (close, rename,
  reopen or stat), the store stays broken: of every sequence of mutations that follows,
  whatever the outcomes of their system calls, each one reports an error, all of them
  change what reads return, and none leaves a trace on disk.
\<close>

theorem wal_failed_compaction_sticky:
  assumes "ordered_map bt" "wal_open s" "out \<in> {FailCloseActive, FailRename, FailReopen, FailStatNew}"
  shows "let s1 = snd (compactLocked bt out s); (rs, s2) = wal_performs bt cs s1 in
     rs = replicate (length cs) (Inl (IOError ''wal store: append'')) \<and> wal_disk s2 = wal_disk s1
     \<and> mem_view bt (wal_mem s2) = fold entry_spec (map (\<lambda>x. call_entry (fst x)) cs) (mem_view bt (wal_mem s))
     \<and> \<not> wal_fd s2"
proof -
  let ?s1 = "snd (compactLocked bt out s)"
  have s1: "\<not> wal_fd ?s1" "wal_mem ?s1 = wal_mem s" "\<not> wal_closed ?s1"
    using assms(2,3) by (auto simp: compactLocked_def Let_def set_new_def wal_open_def)
  moreover have "mem_invar (wal_mem ?s1)" using assms(2) s1(2) by (simp add: wal_open_def)
  ultimately show ?thesis
    using ordered_map.wal_performs_closed [OF assms(1), of ?s1 cs] by (simp add: Let_def case_prod_unfold)
qed

theorem wal_failed_compaction_sticky_witness:
  "fst (wal_performs alist_bt [(CallSet ''ns'' ''k'' ''v'', no_fault), (CallDelete ''ns'' ''k'', no_fault)]
      (snd (compactLocked alist_bt FailRename (sample_wal ''always''))))
   = [Inl (IOError ''wal store: append''), Inl (IOError ''wal store: append'')]"
proof -
  have "wal_open (sample_wal ''always'')" by (simp add: wal_open_def sample_wal_def mem_invar_def NewMemoryStore_def)
  from wal_failed_compaction_sticky [OF alist.ordered_map_axioms this, of FailRename
      "[(CallSet ''ns'' ''k'' ''v'', no_fault), (CallDelete ''ns'' ''k'', no_fault)]"]
  show ?thesis by (simp add: Let_def case_prod_unfold del: wal_performs.simps)
qed

text \<open>
  A torn final line is ignored by the replay but stays in the file, and the file is
  reopened for appending behind it: the next entry, although written, fsynced and
  acknowledged, is glued to the torn fragment and is lost at the following restart.
\<close>

theorem wal_torn_tail_loses_next_write:
  "case NewWALStore alist_bt OpenOk sample_opts torn_disk of
     Inl _ \<Rightarrow> False
   | Inr s \<Rightarrow>
       let (r, s1) = wal_Set alist_bt no_fault s ''ns'' ''c'' ''3'' in
       r = Inr () \<and> fst (wal_Get alist_bt s1 ''ns'' ''c'') = Inr (''3'', True)
       \<and> dk_synced (wal_disk s1) = length (log_bytes s1)
       \<and> (case NewWALStore alist_bt OpenOk sample_opts (wal_disk s1) of
            Inl _ \<Rightarrow> False
          | Inr s2 \<Rightarrow> fst (wal_Get alist_bt s2 ''ns'' ''a'') = Inr (''1'', True)
                     \<and> fst (wal_Get alist_bt s2 ''ns'' ''c'') = Inr ([], False))"
  by code_simp

text \<open>
  Two overlapping writes of one key may reach memory in one order and the log in the
  other: every read returns the second value until a restart brings back the first.
\<close>

theorem wal_concurrent_sets_diverge:
  "\<exists>s. (wal_conc_step alist_bt)\<^sup>*\<^sup>* (sample_wal ''always'', []) (s, [])
     \<and> fst (wal_Get alist_bt s ''ns'' ''k'') = Inr (''B'', True)
     \<and> (case NewWALStore alist_bt OpenOk sample_opts (wal_disk s) of
          Inl _ \<Rightarrow> False | Inr s' \<Rightarrow> fst (wal_Get alist_bt s' ''ns'' ''k'') = Inr (''A'', True))"
proof -
  have "fst (wal_Get alist_bt conc_end ''ns'' ''k'') = Inr (''B'', True)" by code_simp
  moreover have "case NewWALStore alist_bt OpenOk sample_opts (wal_disk conc_end) of
      Inl _ \<Rightarrow> False | Inr s' \<Rightarrow> fst (wal_Get alist_bt s' ''ns'' ''k'') = Inr (''A'', True)" by code_simp
  ultimately show ?thesis using conc_end_reached by blast
qed

end
