(* ===== verification/Iam_Match.thy ===== *)
theory Iam_Match
  imports Prelude
begin

text \<open>
  Wildcard patterns and policy variables, \<^verbatim>\<open>internal/iampolicy/match.go\<close>.

  \<open>globMatch\<close> is the two-pointer walk of the source with its four loop variables; the
  fuel counts loop iterations and \<open>glob_loop_terminates\<close> shows that the amount given is
  always enough.  \<open>glob_spec\<close> is the reference reading of a pattern: a star stands for any
  sequence, a question mark for any one byte, any other byte for itself.
\<close>

section \<open>Patterns\<close>

record Pattern =
  pat_raw :: string
  pat_wild :: bool
  pat_vars :: bool
  pat_all :: bool

type_synonym ctx_map = "(string \<rightharpoonup> string) option"

definition NewPattern :: "string \<Rightarrow> Pattern" where
  "NewPattern raw = \<lparr>pat_raw = raw, pat_wild = ContainsAny raw ''*?'',
     pat_vars = Contains raw ''${'', pat_all = (raw = ''*'')\<rparr>"

definition byteEqual :: "char \<Rightarrow> char \<Rightarrow> bool \<Rightarrow> bool" where
  "byteEqual a b fld = (if a = b then True else if \<not> fld then False else lowerASCII a = lowerASCII b)"

text \<open>The final loop skips trailing stars and accepts at the end of the pattern.\<close>

fun skip_stars :: "string \<Rightarrow> nat \<Rightarrow> nat \<Rightarrow> nat" where
  "skip_stars pattern 0 p = p"
| "skip_stars pattern (Suc n) p =
     (if p < length pattern \<and> pattern ! p = CHR ''*'' then skip_stars pattern n (Suc p) else p)"

text \<open>The main loop: \<open>star = None\<close> is Go's \<^verbatim>\<open>star == -1\<close>.\<close>

fun glob_loop :: "nat \<Rightarrow> string \<Rightarrow> string \<Rightarrow> bool \<Rightarrow> nat \<Rightarrow> nat \<Rightarrow> nat option \<Rightarrow> nat \<Rightarrow> bool option" where
  "glob_loop 0 pattern value fld p v star starValueIdx = None"
| "glob_loop (Suc n) pattern value fld p v star starValueIdx =
     (if v < length value then
        (if p < length pattern \<and> (pattern ! p = CHR ''?'' \<or> byteEqual (pattern ! p) (value ! v) fld)
         then glob_loop n pattern value fld (p + 1) (v + 1) star starValueIdx
         else if p < length pattern \<and> pattern ! p = CHR ''*''
         then glob_loop n pattern value fld (p + 1) v (Some p) v
         else (case star of
                 Some s \<Rightarrow> glob_loop n pattern value fld (s + 1) (starValueIdx + 1) star (starValueIdx + 1)
               | None \<Rightarrow> Some False))
      else Some (skip_stars pattern (length pattern) p = length pattern))"

definition glob_fuel :: "string \<Rightarrow> string \<Rightarrow> nat" where
  "glob_fuel pattern value = (length pattern + 2) * (length value + 2) * (length value + 2)"

definition globMatch :: "string \<Rightarrow> string \<Rightarrow> bool \<Rightarrow> bool" where
  "globMatch pattern value fld =
     (glob_loop (glob_fuel pattern value) pattern value fld 0 0 None 0 = Some True)"

section \<open>Policy variables\<close>

text \<open>
  The loop of \<open>expandPolicyVariables\<close> on what is left of the string.  An unclosed
  reference is written out and the scan goes on behind it.
\<close>

function expand_loop :: "string \<Rightarrow> (string \<rightharpoonup> string) \<Rightarrow> string" where
  "expand_loop s ctx =
     (case str_index s ''${'' of
        None \<Rightarrow> s
      | Some start \<Rightarrow>
          (let r = drop (start + 2) s in
           case str_index r ''}'' of
             None \<Rightarrow> take start s @ ''${'' @ expand_loop r ctx
           | Some e \<Rightarrow>
               (let rawName = take e r; rest = drop (e + 1) r in
                take start s
                @ (case ctx (ToLower rawName) of Some val \<Rightarrow> val | None \<Rightarrow> ''${'' @ rawName @ ''}'')
                @ expand_loop rest ctx)))"
  by pat_completeness auto
termination
  by (relation "measure (\<lambda>(s, _). length s)") (auto dest!: str_index_Some)

declare expand_loop.simps [simp del]

definition expandPolicyVariables :: "string \<Rightarrow> (string \<rightharpoonup> string) \<Rightarrow> string" where
  "expandPolicyVariables s ctx = (if \<not> Contains s ''${'' then s else expand_loop s ctx)"

definition ctx_lookup :: "ctx_map \<Rightarrow> string \<rightharpoonup> string" where
  "ctx_lookup ctx = (case ctx of None \<Rightarrow> Map.empty | Some m \<Rightarrow> m)"

definition expandPolicyVariablesList :: "string list \<Rightarrow> ctx_map \<Rightarrow> string list" where
  "expandPolicyVariablesList values ctx =
     (if \<not> list_ex (\<lambda>v. Contains v ''${'') values then values
      else map (\<lambda>v. expandPolicyVariables v (ctx_lookup ctx)) values)"

section \<open>Matching a value\<close>

definition pat_match :: "Pattern \<Rightarrow> string \<Rightarrow> ctx_map \<Rightarrow> bool \<Rightarrow> bool" where
  "pat_match p value ctx fld =
     (if pat_all p then True
      else let pattern = (case ctx of
                            Some m \<Rightarrow> if pat_vars p then expandPolicyVariables (pat_raw p) m else pat_raw p
                          | None \<Rightarrow> pat_raw p)
           in if \<not> pat_wild p \<and> \<not> pat_vars p
              then (if fld then EqualFold pattern value else pattern = value)
              else globMatch pattern value fld)"

definition Match :: "Pattern \<Rightarrow> string \<Rightarrow> bool" where
  "Match p value = pat_match p value None False"

definition MatchFold :: "Pattern \<Rightarrow> string \<Rightarrow> bool" where
  "MatchFold p value = pat_match p value None True"

definition MatchContext :: "Pattern \<Rightarrow> string \<Rightarrow> ctx_map \<Rightarrow> bool" where
  "MatchContext p value ctx = pat_match p value ctx False"

fun matchAny :: "Pattern list \<Rightarrow> string \<Rightarrow> ctx_map \<Rightarrow> bool \<Rightarrow> bool" where
  "matchAny [] value ctx fld = False"
| "matchAny (p # ps) value ctx fld = (if pat_match p value ctx fld then True else matchAny ps value ctx fld)"

lemma matchAny_iff: "matchAny ps value ctx fld \<longleftrightarrow> (\<exists>p \<in> set ps. pat_match p value ctx fld)"
  by (induction ps) auto

section \<open>The reference reading of a pattern\<close>

fun glob_spec :: "bool \<Rightarrow> string \<Rightarrow> string \<Rightarrow> bool" where
  "glob_spec fld [] vs = (vs = [])"
| "glob_spec fld (c # ps) vs =
     (if c = CHR ''*'' then list_ex (glob_spec fld ps) (suffixes vs)
      else (case vs of [] \<Rightarrow> False | v # vs' \<Rightarrow> (c = CHR ''?'' \<or> byteEqual c v fld) \<and> glob_spec fld ps vs'))"

lemma glob_star: "glob_spec fld (CHR ''*'' # ps) vs \<longleftrightarrow> (\<exists>j. glob_spec fld ps (drop j vs))"
proof -
  have "suffix ws vs \<longleftrightarrow> (\<exists>j. ws = drop j vs)" for ws
    by (metis suffix_def suffix_drop append_eq_conv_conj)
  then show ?thesis by (auto simp: list_ex_iff set_suffixes_eq)
qed

lemma glob_star_from:
  "glob_spec fld (CHR ''*'' # ps) (drop v vs) \<longleftrightarrow> (\<exists>j \<ge> v. glob_spec fld ps (drop j vs))"
proof -
  have "(\<exists>j. glob_spec fld ps (drop (j + v) vs)) \<longleftrightarrow> (\<exists>j \<ge> v. glob_spec fld ps (drop j vs))"
    by (metis le_add2 le_add_diff_inverse2)
  then show ?thesis unfolding glob_star drop_drop .
qed

lemma glob_star_Nil: "glob_spec fld ps [] \<longleftrightarrow> list_all ((=) CHR ''*'') ps"
  by (induction ps) auto

lemma skip_stars_eq:
  "length pattern \<le> n + p \<Longrightarrow> p \<le> length pattern \<Longrightarrow>
     skip_stars pattern n p = length pattern \<longleftrightarrow> list_all ((=) CHR ''*'') (drop p pattern)"
proof (induction n arbitrary: p)
  case (Suc n)
  then show ?case
    by (cases "p < length pattern") (auto simp: Cons_nth_drop_Suc [symmetric])
qed auto

lemma byteEqual_star: "byteEqual (CHR ''*'') b fld \<longleftrightarrow> b = CHR ''*''"
proof -
  have "(of_char (lowerASCII (CHR ''*'')) :: nat) = of_char (lowerASCII b) \<longleftrightarrow> b = CHR ''*''"
    unfolding of_char_lowerASCII using of_char_nat_inject [of b "CHR ''*''"] by auto
  then have "lowerASCII (CHR ''*'') = lowerASCII b \<longleftrightarrow> b = CHR ''*''"
    by (metis of_char_nat_inject)
  then show ?thesis by (auto simp: byteEqual_def)
qed

section \<open>The walk terminates\<close>

text \<open>
  Every iteration consumes a byte, retries one byte later, or moves to a later star:
  a lexicographic descent, flattened to a number.
\<close>

definition glob_rank :: "string \<Rightarrow> string \<Rightarrow> nat \<Rightarrow> nat \<Rightarrow> nat option \<Rightarrow> nat \<Rightarrow> nat" where
  "glob_rank pattern value p v star sv =
     (case star of
        None \<Rightarrow> (length pattern + 1) * (length value + 2) * (length value + 2)
      | Some s \<Rightarrow> (length pattern - s) * (length value + 2) * (length value + 2)
                  + (length value + 1 - sv) * (length value + 2)) + (length value + 1 - v)"

definition glob_bound :: "nat \<Rightarrow> nat \<Rightarrow> nat option \<Rightarrow> nat \<Rightarrow> bool" where
  "glob_bound p v star sv \<longleftrightarrow> (case star of None \<Rightarrow> True | Some s \<Rightarrow> s < p \<and> sv \<le> v)"

lemma rank_star:
  assumes "glob_bound p v star sv" "p < length pattern" "v \<le> length value"
  shows "glob_rank pattern value (p + 1) v (Some p) v < glob_rank pattern value p v star sv"
proof -
  let ?n = "length pattern" and ?m = "length value + 2"
  have small: "(length value + 1 - v) * ?m < ?m * ?m"
    by (intro mult_strict_right_mono) auto
  show ?thesis
  proof (cases star)
    case None
    have "(?n - p) * ?m * ?m + ?m * ?m = (?n - p + 1) * ?m * ?m" by (simp add: algebra_simps)
    also have "\<dots> \<le> (?n + 1) * ?m * ?m" by (intro mult_right_mono) auto
    finally show ?thesis using small None by (simp add: glob_rank_def)
  next
    case (Some s)
    have "(?n - p) * ?m * ?m + ?m * ?m = (?n - p + 1) * ?m * ?m" by (simp add: algebra_simps)
    also have "\<dots> \<le> (?n - s) * ?m * ?m"
      using assms(1,2) Some by (intro mult_right_mono) (auto simp: glob_bound_def)
    finally show ?thesis using small Some by (simp add: glob_rank_def)
  qed
qed

lemma rank_retry:
  assumes "glob_bound p v (Some s) sv" "v < length value"
  shows "glob_rank pattern value (s + 1) (sv + 1) (Some s) (sv + 1) < glob_rank pattern value p v (Some s) sv"
proof -
  define m where "m = length value + 2"
  define a where "a = length value - sv"
  have "a < m" "length value + 1 - (sv + 1) = a" "length value + 1 - sv = Suc a"
    using assms by (auto simp: glob_bound_def m_def a_def)
  moreover have "Suc a * m = a * m + m" by simp
  ultimately show ?thesis
    unfolding glob_rank_def option.case m_def [symmetric] by (simp only:)
qed

lemma glob_loop_enough:
  assumes "glob_bound p v star sv" "glob_rank pattern value p v star sv < fuel" "v \<le> length value"
  shows "\<exists>b. glob_loop fuel pattern value fld p v star sv = Some b"
  using assms
proof (induction fuel arbitrary: p v star sv)
  case (Suc fuel)
  show ?case
  proof (cases "v < length value")
    case True
    have eat: "glob_rank pattern value (p + 1) (v + 1) star sv < glob_rank pattern value p v star sv"
      using True unfolding glob_rank_def by (intro add_strict_left_mono) simp
    have step1: "\<exists>b. glob_loop fuel pattern value fld (p + 1) (v + 1) star sv = Some b"
      using Suc.IH Suc.prems eat True by (cases star) (auto simp: glob_bound_def)
    have step2: "\<exists>b. glob_loop fuel pattern value fld (p + 1) v (Some p) v = Some b" if "p < length pattern"
      using rank_star [OF Suc.prems(1) that Suc.prems(3)] Suc.prems
      by (intro Suc.IH) (auto simp: glob_bound_def)
    have step3: "\<exists>b. glob_loop fuel pattern value fld (s + 1) (sv + 1) (Some s) (sv + 1) = Some b" if "star = Some s" for s
      using rank_retry [of p v s sv "value" pattern] Suc.prems that True
      by (intro Suc.IH) (auto simp: glob_bound_def)
    show ?thesis using step1 step2 step3 True by (auto split: option.split)
  qed auto
qed simp

lemma glob_loop_terminates:
  "\<exists>b. glob_loop (glob_fuel pattern value) pattern value fld 0 0 None 0 = Some b"
  by (rule glob_loop_enough) (auto simp: glob_bound_def glob_rank_def glob_fuel_def algebra_simps)

section \<open>Correctness of the walk\<close>

text \<open>What the walk has established about the pattern when it is at \<open>(p, v)\<close>.\<close>

definition glob_sound_inv :: "bool \<Rightarrow> string \<Rightarrow> string \<Rightarrow> nat \<Rightarrow> nat \<Rightarrow> nat option \<Rightarrow> nat \<Rightarrow> bool" where
  "glob_sound_inv fld pattern value p v star sv \<longleftrightarrow>
     (glob_spec fld (drop p pattern) (drop v value) \<longrightarrow> glob_spec fld pattern value)
     \<and> (\<forall>s. star = Some s \<longrightarrow>
          (\<forall>j \<ge> sv. glob_spec fld (drop (s + 1) pattern) (drop j value) \<longrightarrow> glob_spec fld pattern value))"

lemma drop_nth: "i < length xs \<Longrightarrow> drop i xs = xs ! i # drop (i + 1) xs"
  by (simp add: Cons_nth_drop_Suc)

lemma glob_eat:
  assumes "p < length pattern" "v < length value"
    "pattern ! p = CHR ''?'' \<or> byteEqual (pattern ! p) (value ! v) fld"
    "glob_spec fld (drop (p + 1) pattern) (drop (v + 1) value)"
  shows "glob_spec fld (drop p pattern) (drop v value)"
proof (cases "pattern ! p = CHR ''*''")
  case True
  then show ?thesis
    using assms(4) unfolding drop_nth [OF assms(1)] True glob_star_from by (meson le_add1)
next
  case False
  then show ?thesis
    using assms by (simp add: drop_nth del: drop_Suc_Cons)
qed

lemma sound_inv_eat:
  assumes "glob_sound_inv fld pattern value p v star sv" "p < length pattern" "v < length value"
    "pattern ! p = CHR ''?'' \<or> byteEqual (pattern ! p) (value ! v) fld"
  shows "glob_sound_inv fld pattern value (p + 1) (v + 1) star sv"
  using assms glob_eat [OF assms(2-4)] unfolding glob_sound_inv_def by blast

lemma sound_inv_star:
  assumes "glob_sound_inv fld pattern value p v star sv" "p < length pattern" "pattern ! p = CHR ''*''"
  shows "glob_sound_inv fld pattern value (p + 1) v (Some p) v"
proof -
  have "glob_spec fld (drop p pattern) (drop v value)
      \<longleftrightarrow> (\<exists>j \<ge> v. glob_spec fld (drop (p + 1) pattern) (drop j value))"
    unfolding drop_nth [OF assms(2)] assms(3) by (rule glob_star_from)
  then show ?thesis using assms(1) unfolding glob_sound_inv_def by (metis option.inject order_refl)
qed

lemma sound_inv_retry:
  assumes "glob_sound_inv fld pattern value p v (Some s) sv"
  shows "glob_sound_inv fld pattern value (s + 1) (sv + 1) (Some s) (sv + 1)"
  using assms unfolding glob_sound_inv_def by (metis add_leD1 le_add1 option.inject)

lemma glob_loop_sound:
  assumes "glob_sound_inv fld pattern value p v star sv" "glob_bound p v star sv"
    "p \<le> length pattern" "v \<le> length value"
    "glob_loop fuel pattern value fld p v star sv = Some True"
  shows "glob_spec fld pattern value"
  using assms
proof (induction fuel arbitrary: p v star sv)
  case (Suc fuel)
  show ?case
  proof (cases "v < length value")
    case False
    with Suc.prems have "glob_spec fld (drop p pattern) (drop v value)"
      by (simp add: glob_star_Nil skip_stars_eq)
    with Suc.prems(1) show ?thesis by (simp add: glob_sound_inv_def)
  next
    case True
    let ?eat = "p < length pattern \<and> (pattern ! p = CHR ''?'' \<or> byteEqual (pattern ! p) (value ! v) fld)"
    let ?star = "p < length pattern \<and> pattern ! p = CHR ''*''"
    consider (eat) ?eat | (star) "\<not> ?eat" ?star | (retry) s where "\<not> ?eat" "\<not> ?star" "star = Some s"
      using Suc.prems(5) True by (cases star) (auto split: if_splits)
    then show ?thesis
    proof cases
      case eat
      then have "glob_loop fuel pattern value fld (p + 1) (v + 1) star sv = Some True"
        using Suc.prems(5) True by simp
      then show ?thesis
        using Suc.IH sound_inv_eat [OF Suc.prems(1)] eat True Suc.prems(2)
        by (cases star) (auto simp: glob_bound_def)
    next
      case star
      then have "glob_loop fuel pattern value fld (p + 1) v (Some p) v = Some True"
        using Suc.prems(5) True by (simp split: if_splits)
      then show ?thesis
        using Suc.IH sound_inv_star [OF Suc.prems(1)] star True by (auto simp: glob_bound_def)
    next
      case retry
      then have "glob_loop fuel pattern value fld (s + 1) (sv + 1) (Some s) (sv + 1) = Some True"
        using Suc.prems(5) True by (simp split: if_splits)
      moreover have "s < p" "sv \<le> v" using Suc.prems(2) retry(3) by (auto simp: glob_bound_def)
      ultimately show ?thesis
        using sound_inv_retry Suc.prems(1,3) retry(3) True
        by (intro Suc.IH [of "s + 1" "sv + 1" "Some s" "sv + 1"]) (auto simp: glob_bound_def)
    qed
  qed
qed simp

text \<open>
  The other direction needs that the value holds no star: the walk tries a pattern byte as a
  literal before it reads it as a wildcard, so a star of the value is matched by a star of
  the pattern one for one.
\<close>

lemma glob_literals:
  assumes "list_all (\<lambda>c. c \<noteq> CHR ''*'') lits" "glob_spec fld (lits @ ps) vs"
  shows "glob_spec fld ps (drop (length lits) vs)"
  using assms by (induction lits arbitrary: vs) (auto split: list.splits)

lemma glob_mismatch:
  assumes "v < length value"
    "\<not> (p < length pattern \<and> (pattern ! p = CHR ''?'' \<or> byteEqual (pattern ! p) (value ! v) fld))"
    "\<not> (p < length pattern \<and> pattern ! p = CHR ''*'')"
  shows "\<not> glob_spec fld (drop p pattern) (drop v value)"
  using assms by (cases "p < length pattern") (auto simp: drop_nth simp del: drop_Suc_Cons)

lemma glob_eat_rev:
  assumes "p < length pattern" "v < length value" "pattern ! p \<noteq> CHR ''*''"
    "glob_spec fld (drop p pattern) (drop v value)"
  shows "glob_spec fld (drop (p + 1) pattern) (drop (v + 1) value)"
  using assms by (simp add: drop_nth del: drop_Suc_Cons)

text \<open>
  Since the last star the walk has passed only literal bytes, in step in the pattern and
  in the value.
\<close>

definition glob_in_step :: "string \<Rightarrow> nat \<Rightarrow> nat \<Rightarrow> nat option \<Rightarrow> nat \<Rightarrow> bool" where
  "glob_in_step pattern p v star sv \<longleftrightarrow>
     (\<forall>s. star = Some s \<longrightarrow> s < p \<and> v + (s + 1) = sv + p
        \<and> list_all (\<lambda>c. c \<noteq> CHR ''*'') (take (p - (s + 1)) (drop (s + 1) pattern)))"

definition glob_complete_inv :: "bool \<Rightarrow> string \<Rightarrow> string \<Rightarrow> nat \<Rightarrow> nat \<Rightarrow> nat option \<Rightarrow> nat \<Rightarrow> bool" where
  "glob_complete_inv fld pattern value p v star sv \<longleftrightarrow>
     (case star of
        None \<Rightarrow> glob_spec fld (drop p pattern) (drop v value)
      | Some s \<Rightarrow> (\<exists>j \<ge> sv. glob_spec fld (drop (s + 1) pattern) (drop j value)))"

lemma glob_after_literals:
  assumes "glob_in_step pattern p v (Some s) sv" "p \<le> length pattern"
    "glob_spec fld (drop (s + 1) pattern) (drop j value)"
  shows "glob_spec fld (drop p pattern) (drop (j + (p - (s + 1))) value)"
proof -
  let ?k = "p - (s + 1)"
  have "drop (s + 1) pattern = take ?k (drop (s + 1) pattern) @ drop p pattern"
    using assms(1) by (simp add: glob_in_step_def) (metis Suc_leI append_take_drop_id drop_drop le_add_diff_inverse2)
  moreover have "length (take ?k (drop (s + 1) pattern)) = ?k" using assms(2) by simp
  ultimately show ?thesis
    using glob_literals [of "take ?k (drop (s + 1) pattern)" fld "drop p pattern" "drop j value"] assms
    by (simp add: glob_in_step_def add.commute)
qed

lemma in_step_eat:
  assumes "glob_in_step pattern p v star sv" "p < length pattern" "pattern ! p \<noteq> CHR ''*''"
  shows "glob_in_step pattern (p + 1) (v + 1) star sv"
proof -
  have "take (p + 1 - (s + 1)) (drop (s + 1) pattern) = take (p - (s + 1)) (drop (s + 1) pattern) @ [pattern ! p]"
    if "s < p" for s
    using that assms(2) by (simp add: take_Suc_conv_app_nth Suc_diff_Suc [symmetric] del: take_Suc drop_Suc)
  then show ?thesis using assms by (auto simp: glob_in_step_def simp del: take_Suc)
qed

lemma in_step_star: "glob_in_step pattern (p + 1) v (Some p) v"
  by (simp add: glob_in_step_def)

lemma complete_inv_eat:
  assumes "glob_complete_inv fld pattern value p v star sv"
    "p < length pattern" "v < length value" "pattern ! p \<noteq> CHR ''*''"
  shows "glob_complete_inv fld pattern value (p + 1) (v + 1) star sv"
  using assms glob_eat_rev [OF assms(2-4)] by (simp add: glob_complete_inv_def split: option.splits)

lemma complete_inv_star:
  assumes "glob_complete_inv fld pattern value p v star sv" "glob_in_step pattern p v star sv"
    "p < length pattern" "pattern ! p = CHR ''*''"
  shows "glob_complete_inv fld pattern value (p + 1) v (Some p) v"
proof -
  obtain w where "v \<le> w" "glob_spec fld (drop p pattern) (drop w value)"
  proof (cases star)
    case None
    with assms(1) that show ?thesis by (auto simp: glob_complete_inv_def)
  next
    case (Some s)
    then obtain j where j: "sv \<le> j" "glob_spec fld (drop (s + 1) pattern) (drop j value)"
      using assms(1) by (auto simp: glob_complete_inv_def)
    have "v \<le> j + (p - (s + 1))" using assms(2) Some j(1) by (auto simp: glob_in_step_def)
    with glob_after_literals [OF assms(2) [unfolded Some] _ j(2)] assms(3) that show ?thesis by simp
  qed
  then have "\<exists>j \<ge> w. glob_spec fld (drop (p + 1) pattern) (drop j value)" "v \<le> w"
    unfolding drop_nth [OF assms(3)] assms(4) glob_star_from by auto
  then show ?thesis by (auto simp: glob_complete_inv_def intro: order_trans)
qed

lemma complete_inv_retry:
  assumes "glob_complete_inv fld pattern value p v (Some s) sv" "glob_in_step pattern p v (Some s) sv"
    "p \<le> length pattern" "\<not> glob_spec fld (drop p pattern) (drop v value)"
  shows "glob_complete_inv fld pattern value (s + 1) (sv + 1) (Some s) (sv + 1)"
proof -
  obtain j where j: "sv \<le> j" "glob_spec fld (drop (s + 1) pattern) (drop j value)"
    using assms(1) by (auto simp: glob_complete_inv_def)
  have "v = sv + (p - (s + 1))" using assms(2) by (auto simp: glob_in_step_def)
  then have "j \<noteq> sv" using glob_after_literals [OF assms(2,3) j(2)] assms(4) by auto
  with j show ?thesis by (auto simp: glob_complete_inv_def intro!: exI [of _ j])
qed

lemma complete_inv_end:
  assumes "glob_complete_inv fld pattern value p v star sv" "glob_in_step pattern p v star sv"
    "p \<le> length pattern" "v = length value"
  shows "list_all ((=) CHR ''*'') (drop p pattern)"
proof (cases star)
  case None
  with assms show ?thesis by (simp add: glob_complete_inv_def glob_star_Nil)
next
  case (Some s)
  then obtain j where j: "sv \<le> j" "glob_spec fld (drop (s + 1) pattern) (drop j value)"
    using assms(1) by (auto simp: glob_complete_inv_def)
  have "length value \<le> j + (p - (s + 1))" using assms(2,4) Some j(1) by (auto simp: glob_in_step_def)
  then show ?thesis
    using glob_after_literals [OF assms(2) [unfolded Some] assms(3) j(2)] by (simp add: glob_star_Nil)
qed

lemma glob_loop_complete:
  assumes "CHR ''*'' \<notin> set value" "glob_complete_inv fld pattern value p v star sv"
    "glob_in_step pattern p v star sv" "p \<le> length pattern" "v \<le> length value"
  shows "glob_loop fuel pattern value fld p v star sv \<noteq> Some False"
  using assms(2-5)
proof (induction fuel arbitrary: p v star sv)
  case (Suc fuel)
  show ?case
  proof (cases "v < length value")
    case False
    then show ?thesis
      using complete_inv_end [OF Suc.prems(1-3)] Suc.prems(3,4) by (simp add: skip_stars_eq)
  next
    case True
    let ?eat = "p < length pattern \<and> (pattern ! p = CHR ''?'' \<or> byteEqual (pattern ! p) (value ! v) fld)"
    let ?star = "p < length pattern \<and> pattern ! p = CHR ''*''"
    have vstar: "value ! v \<noteq> CHR ''*''" using assms(1) True by (metis nth_mem)
    consider (eat) ?eat | (star) "\<not> ?eat" ?star | (none) "\<not> ?eat" "\<not> ?star" by blast
    then show ?thesis
    proof cases
      case eat
      then have "pattern ! p \<noteq> CHR ''*''" using vstar by (auto simp: byteEqual_star)
      with eat True show ?thesis
        using Suc.IH complete_inv_eat [OF Suc.prems(1)] in_step_eat [OF Suc.prems(2)] by simp
    next
      case star
      then have "glob_complete_inv fld pattern value (p + 1) v (Some p) v"
        using complete_inv_star Suc.prems(1,2) by blast
      with star True show ?thesis
        using Suc.IH [OF _ in_step_star] Suc.prems(4) by (auto split: if_splits)
    next
      case none
      from glob_mismatch [OF True none] have no: "\<not> glob_spec fld (drop p pattern) (drop v value)" .
      show ?thesis
      proof (cases star)
        case None
        with Suc.prems(1) no show ?thesis by (simp add: glob_complete_inv_def)
      next
        case (Some s)
        have "s < p" "sv \<le> v" using Suc.prems(2) Some by (auto simp: glob_in_step_def)
        moreover have "glob_in_step pattern (s + 1) (sv + 1) (Some s) (sv + 1)"
          by (rule in_step_star)
        ultimately have "glob_loop fuel pattern value fld (s + 1) (sv + 1) (Some s) (sv + 1) \<noteq> Some False"
          using complete_inv_retry [OF _ _ Suc.prems(3) no] Suc.prems(1-3) Some True
          by (intro Suc.IH) auto
        with none True Some show ?thesis by auto
      qed
    qed
  qed
qed simp

section \<open>Properties of policy variables\<close>

lemma expand_loop_unknown: "(\<And>k. ctx k = None) \<Longrightarrow> expand_loop s ctx = s"
proof (induction s ctx rule: expand_loop.induct)
  case (1 s ctx)
  show ?case
  proof (cases "str_index s ''${''")
    case None
    then show ?thesis by (simp add: expand_loop.simps [of s])
  next
    case (Some st)
    note st = Some
    let ?r = "drop (st + 2) s"
    have "take 2 (drop st s) = ''${''" using str_index_Some [OF Some] by (simp add: HasPrefix_def numeral_2_eq_2)
    then have s: "s = take st s @ ''${'' @ ?r"
      by (metis append_take_drop_id drop_drop add.commute)
    show ?thesis
    proof (cases "str_index ?r ''}''")
      case None
      then show ?thesis
        using "1.IH"(1) [OF Some refl None "1.prems"] s by (simp add: expand_loop.simps [of s] Some)
    next
      case (Some e)
      have "take 1 (drop e ?r) = ''}''" using str_index_Some [OF Some] by (simp add: HasPrefix_def)
      then have r: "?r = take e ?r @ ''}'' @ drop (e + 1) ?r"
        by (metis append_take_drop_id drop_drop add.commute)
      have "expand_loop s ctx = take st s @ ''${'' @ (take e ?r @ ''}'' @ expand_loop (drop (e + 1) ?r) ctx)"
        using "1.prems" by (subst expand_loop.simps) (simp add: st Some [simplified] Let_def)
      also have "expand_loop (drop (e + 1) ?r) ctx = drop (e + 1) ?r"
        by (rule "1.IH"(2) [OF st refl Some refl refl "1.prems"])
      finally show ?thesis using s r by metis
    qed
  qed
qed

lemma str_index_append:
  assumes "str_index pre sub = None" "sub = [a, b]" "\<not> (pre \<noteq> [] \<and> last pre = a)"
  shows "str_index (pre @ sub @ rest) sub = Some (length pre)"
  using assms
proof (induction pre)
  case Nil
  then show ?case by (simp add: str_index.simps HasPrefix_def)
next
  case (Cons x pre)
  then show ?case
    by (cases pre) (auto simp: str_index.simps [of "x # _"] HasPrefix_def split: if_splits)
qed

lemma str_index_char: "c \<notin> set pre \<Longrightarrow> str_index (pre @ c # rest) [c] = Some (length pre)"
  by (induction pre) (auto simp: str_index.simps HasPrefix_def)

section \<open>Properties\<close>

text \<open>
  C12. The two-pointer wildcard walk always stops, and on every value without a star byte it
  decides exactly the reference reading of the pattern: a star stands for any sequence of
  bytes, slashes and colons included, a question mark for any one byte, with or without
  ASCII case folding.
\<close>

theorem globMatch_correct:
  assumes "CHR ''*'' \<notin> set value"
  shows "(\<exists>b. glob_loop (glob_fuel pattern value) pattern value fld 0 0 None 0 = Some b)
         \<and> globMatch pattern value fld = glob_spec fld pattern value"
proof -
  obtain b where b: "glob_loop (glob_fuel pattern value) pattern value fld 0 0 None 0 = Some b"
    using glob_loop_terminates by blast
  have "glob_spec fld pattern value" if b
    using glob_loop_sound [of fld pattern "value" 0 0 None 0] b that
    by (simp add: glob_sound_inv_def glob_bound_def)
  moreover have "\<not> glob_spec fld pattern value" if "\<not> b"
    using glob_loop_complete [OF assms, of fld pattern 0 0 None 0] b that
    by (auto simp: glob_complete_inv_def glob_in_step_def)
  ultimately show ?thesis using b by (auto simp: globMatch_def)
qed

theorem globMatch_correct_witness:
  "globMatch ''arn:aws:s3:::b?/*'' ''arn:aws:s3:::b1/k/x'' False
   \<and> \<not> globMatch ''arn:aws:s3:::b?/*'' ''arn:aws:s3:::b/x'' False"
  by (simp add: globMatch_correct [THEN conjunct2] byteEqual_def)

text \<open>
  Whatever the value, a match the walk reports is a match of the reference reading: the
  walk never accepts a value the pattern does not describe.
\<close>

theorem globMatch_sound:
  assumes "globMatch pattern value fld"
  shows "glob_spec fld pattern value"
  using assms glob_loop_sound [of fld pattern "value" 0 0 None 0]
  by (simp add: globMatch_def glob_sound_inv_def glob_bound_def)

theorem globMatch_sound_witness: "glob_spec True ''S3:get*'' ''s3:GetObject''"
  by (rule globMatch_sound) code_simp

text \<open>
  The walk is not complete for values that contain a star.  The resource
  \<^verbatim>\<open>b/*x\<close> is described by the pattern \<^verbatim>\<open>b/*\<close> and is not matched by it,
  because the star of the pattern is consumed as a literal against the star of the value.
\<close>

theorem globMatch_literal_star_incomplete:
  "glob_spec False ''b/*'' ''b/*x'' \<and> \<not> globMatch ''b/*'' ''b/*x'' False"
  by code_simp

text \<open>
  A policy variable whose name the request context does not carry is left in the text as
  it was written, and so is an unclosed reference: expansion with no known variable is the
  identity.
\<close>

theorem expandPolicyVariables_unknown:
  assumes "\<forall>k. ctx k = None"
  shows "expandPolicyVariables s ctx = s"
  using assms expand_loop_unknown by (simp add: expandPolicyVariables_def)

theorem expandPolicyVariables_unknown_witness:
  "expandPolicyVariables ''home/${aws:username}/${x'' Map.empty = ''home/${aws:username}/${x''"
  by (rule expandPolicyVariables_unknown) simp

text \<open>
  A policy variable the context carries is replaced by its value, the name being looked
  up in lower case, and expansion goes on behind the closing brace; the value itself is not
  expanded again.
\<close>

theorem expandPolicyVariables_known:
  assumes "\<not> Contains pre ''${''" "pre = [] \<or> last pre \<noteq> CHR ''$''" "CHR ''}'' \<notin> set name"
    "ctx (ToLower name) = Some val"
  shows "expandPolicyVariables (pre @ ''${'' @ name @ ''}'' @ rest) ctx = pre @ val @ expand_loop rest ctx"
proof -
  have i: "str_index (pre @ ''${'' @ name @ ''}'' @ rest) ''${'' = Some (length pre)"
    using str_index_append [of pre "''${''" "CHR ''$''" "CHR ''{''"] assms(1,2) by (auto simp: Contains_def)
  have "str_index (name @ ''}'' @ rest) ''}'' = Some (length name)"
    using str_index_char [OF assms(3)] by simp
  then show ?thesis
    using i assms(4)
    by (simp add: expandPolicyVariables_def Contains_def expand_loop.simps [of "pre @ _"] Let_def)
qed

theorem expandPolicyVariables_known_witness:
  "expandPolicyVariables ''home/${aws:UserName}/*'' [''aws:username'' \<mapsto> ''bob''] = ''home/bob/*''"
proof -
  have "expand_loop ''/*'' [''aws:username'' \<mapsto> ''bob''] = ''/*''"
    by (simp add: expand_loop.simps str_index.simps HasPrefix_def)
  moreover have "\<not> Contains ''home/'' ''${''" "ToLower ''aws:UserName'' = ''aws:username''" by code_simp+
  ultimately show ?thesis
    using expandPolicyVariables_known [of "''home/''" "''aws:UserName''" "[''aws:username'' \<mapsto> ''bob'']" "''bob''" "''/*''"]
    by simp
qed

end
