(* ===== verification/Iam_Condition.thy ===== *)
theory Iam_Condition
  imports Iam_Match
begin

text \<open>
  Condition blocks, \<^verbatim>\<open>internal/iampolicy/condition.go\<close>.

  A condition block maps operators to condition keys to values.  Go maps have no order;
  they are association lists here, whose order stands for one possible iteration order.
  Reading a number, a timestamp or an address is work of Go's standard library
  (\<^verbatim>\<open>strconv\<close>, \<^verbatim>\<open>time\<close>, \<^verbatim>\<open>net\<close>); those readers and the comparisons on
  what they return are the fields of the record \<open>go_lib\<close>, over which every definition
  and theorem is stated.
\<close>

section \<open>What could not be resolved\<close>

record conditionReport =
  rep_missing :: "string list"
  rep_unsupported :: "string list"

definition empty_report :: conditionReport where
  "empty_report = \<lparr>rep_missing = [], rep_unsupported = []\<rparr>"

definition addMissing :: "string \<Rightarrow> conditionReport \<Rightarrow> conditionReport" where
  "addMissing key r =
     (if list_ex (\<lambda>existing. EqualFold existing key) (rep_missing r) then r
      else r\<lparr>rep_missing := rep_missing r @ [key]\<rparr>)"

definition addUnsupported :: "string \<Rightarrow> conditionReport \<Rightarrow> conditionReport" where
  "addUnsupported msg r =
     (if list_ex (\<lambda>existing. existing = msg) (rep_unsupported r) then r
      else r\<lparr>rep_unsupported := rep_unsupported r @ [msg]\<rparr>)"

section \<open>Operators\<close>

record ('f, 'ip, 'net) go_lib =
  parse_float :: "string \<Rightarrow> 'f option"
  float_eq :: "'f \<Rightarrow> 'f \<Rightarrow> bool"
  float_lt :: "'f \<Rightarrow> 'f \<Rightarrow> bool"
  float_le :: "'f \<Rightarrow> 'f \<Rightarrow> bool"
  parse_rfc3339 :: "string \<Rightarrow> int option"
  parse_ip :: "string \<Rightarrow> 'ip option"
  parse_cidr :: "string \<Rightarrow> 'net option"
  net_contains :: "'net \<Rightarrow> 'ip \<Rightarrow> bool"
  ip_equal :: "'ip \<Rightarrow> 'ip \<Rightarrow> bool"

type_synonym condition_block = "(string \<times> (string \<times> string list) list) list"

definition isNegatedOperator :: "string \<Rightarrow> bool" where
  "isNegatedOperator operator \<longleftrightarrow> operator \<noteq> ''Null'' \<and> Contains operator ''Not''"

definition numericCompareMatches :: "('f, 'ip, 'net) go_lib \<Rightarrow> string \<Rightarrow> 'f \<Rightarrow> 'f \<Rightarrow> bool" where
  "numericCompareMatches lib operator left right =
     (if operator = ''NumericEquals'' then float_eq lib left right
      else if operator = ''NumericLessThan'' then float_lt lib left right
      else if operator = ''NumericLessThanEquals'' then float_le lib left right
      else if operator = ''NumericGreaterThan'' then float_lt lib right left
      else if operator = ''NumericGreaterThanEquals'' then float_le lib right left
      else False)"

definition dateCompareMatches :: "string \<Rightarrow> int \<Rightarrow> int \<Rightarrow> bool" where
  "dateCompareMatches operator left right =
     (if operator = ''DateEquals'' \<or> operator = ''DateNotEquals'' then left = right
      else if operator = ''DateLessThan'' then left < right
      else if operator = ''DateLessThanEquals'' then left < right \<or> left = right
      else if operator = ''DateGreaterThan'' then left > right
      else if operator = ''DateGreaterThanEquals'' then left > right \<or> left = right
      else False)"

definition parseIAMTime :: "('f, 'ip, 'net) go_lib \<Rightarrow> string \<Rightarrow> int option" where
  "parseIAMTime lib raw = (let ts = TrimSpace raw in if ts = [] then None else parse_rfc3339 lib ts)"

definition applyNumericCondition ::
  "('f, 'ip, 'net) go_lib \<Rightarrow> string \<Rightarrow> string \<Rightarrow> string list \<Rightarrow> bool \<times> bool"
where
  "applyNumericCondition lib operator ctxVal policyVals =
     (case parse_float lib ctxVal of
        None \<Rightarrow> (False, True)
      | Some ctxNum \<Rightarrow>
          (if operator = ''NumericNotEquals'' then
             (if list_ex (\<lambda>v. case parse_float lib v of None \<Rightarrow> False | Some pv \<Rightarrow> float_eq lib ctxNum pv) policyVals
              then (False, True) else (True, True))
           else if list_ex (\<lambda>v. case parse_float lib v of None \<Rightarrow> False
                    | Some pv \<Rightarrow> numericCompareMatches lib operator ctxNum pv) policyVals
           then (True, True) else (False, True)))"

definition applyDateCondition ::
  "('f, 'ip, 'net) go_lib \<Rightarrow> string \<Rightarrow> string \<Rightarrow> string list \<Rightarrow> bool \<times> bool"
where
  "applyDateCondition lib operator ctxVal policyVals =
     (case parseIAMTime lib ctxVal of
        None \<Rightarrow> (False, True)
      | Some ctxTime \<Rightarrow>
          (if operator = ''DateNotEquals'' then
             (if list_ex (\<lambda>v. case parseIAMTime lib v of None \<Rightarrow> False | Some t \<Rightarrow> ctxTime = t) policyVals
              then (False, True) else (True, True))
           else if list_ex (\<lambda>v. case parseIAMTime lib v of None \<Rightarrow> False
                    | Some t \<Rightarrow> dateCompareMatches operator ctxTime t) policyVals
           then (True, True) else (False, True)))"

text \<open>\<open>ipMatchesCIDR\<close>: a block when there is a slash, else a single address.\<close>

definition ipMatchesCIDR :: "('f, 'ip, 'net) go_lib \<Rightarrow> string \<Rightarrow> string \<Rightarrow> bool" where
  "ipMatchesCIDR lib ipStr cidrOrIP =
     (case parse_ip lib ipStr of
        None \<Rightarrow> False
      | Some ip \<Rightarrow>
          (if Contains cidrOrIP ''/''
           then (case parse_cidr lib cidrOrIP of None \<Rightarrow> False | Some ipNet \<Rightarrow> net_contains lib ipNet ip)
           else (case parse_ip lib cidrOrIP of None \<Rightarrow> False | Some peer \<Rightarrow> ip_equal lib ip peer)))"

text \<open>Returns whether the values match and whether the operator is known.\<close>

definition applyConditionOperator ::
  "('f, 'ip, 'net) go_lib \<Rightarrow> string \<Rightarrow> string \<Rightarrow> string list \<Rightarrow> bool \<times> bool"
where
  "applyConditionOperator lib operator ctxVal policyVals =
     (if operator = ''StringEquals'' then (list_ex (\<lambda>v. ctxVal = v) policyVals, True)
      else if operator = ''StringNotEquals'' then (\<not> list_ex (\<lambda>v. ctxVal = v) policyVals, True)
      else if operator = ''StringEqualsIgnoreCase'' then (list_ex (EqualFold ctxVal) policyVals, True)
      else if operator = ''StringNotEqualsIgnoreCase'' then (\<not> list_ex (EqualFold ctxVal) policyVals, True)
      else if operator = ''StringLike'' then (list_ex (\<lambda>v. globMatch v ctxVal False) policyVals, True)
      else if operator = ''StringNotLike'' then (\<not> list_ex (\<lambda>v. globMatch v ctxVal False) policyVals, True)
      else if operator = ''ArnEquals'' \<or> operator = ''ArnLike''
        then (list_ex (\<lambda>v. globMatch v ctxVal False) policyVals, True)
      else if operator = ''ArnNotEquals'' \<or> operator = ''ArnNotLike''
        then (\<not> list_ex (\<lambda>v. globMatch v ctxVal False) policyVals, True)
      else if operator = ''Bool'' then (list_ex (EqualFold ctxVal) policyVals, True)
      else if operator = ''IpAddress'' then (list_ex (ipMatchesCIDR lib ctxVal) policyVals, True)
      else if operator = ''NotIpAddress'' then (\<not> list_ex (ipMatchesCIDR lib ctxVal) policyVals, True)
      else if operator \<in> {''NumericEquals'', ''NumericNotEquals'', ''NumericLessThan'', ''NumericLessThanEquals'',
                         ''NumericGreaterThan'', ''NumericGreaterThanEquals''}
        then applyNumericCondition lib operator ctxVal policyVals
      else if operator \<in> {''DateEquals'', ''DateNotEquals'', ''DateLessThan'', ''DateLessThanEquals'',
                         ''DateGreaterThan'', ''DateGreaterThanEquals''}
        then applyDateCondition lib operator ctxVal policyVals
      else (False, False))"

definition applyNullCondition :: "bool \<Rightarrow> string list \<Rightarrow> bool" where
  "applyNullCondition keyPresent policyVals =
     list_ex (\<lambda>v. let lit = ToLower (TrimSpace v) in
                  (lit = ''true'' \<and> \<not> keyPresent) \<or> (lit = ''false'' \<and> keyPresent)) policyVals"

section \<open>Evaluating a block\<close>

definition unsupported_operator :: "string \<Rightarrow> string" where
  "unsupported_operator operator =
     ''condition operator '' @ go_quote operator @ '' is not implemented by the Overcast policy evaluator''"

text \<open>
  One key of one operator: whether it leaves the condition met, and the report afterwards.
\<close>

definition eval_pair ::
  "('f, 'ip, 'net) go_lib \<Rightarrow> ctx_map \<Rightarrow> string \<Rightarrow> string \<times> string list \<Rightarrow> conditionReport \<Rightarrow> bool \<times> conditionReport"
where
  "eval_pair lib ctx operator kv rep =
     (let (key, values) = kv;
          expandedValues = expandPolicyVariablesList values ctx;
          ctxVal = ctx_lookup ctx (ToLower key);
          ifExists = HasSuffix operator ''IfExists'';
          effectiveOperator = (if ifExists then TrimSuffix operator ''IfExists'' else operator)
      in if ifExists \<and> ctxVal = None then (True, rep)
         else if effectiveOperator = ''Null'' then (applyNullCondition (ctxVal \<noteq> None) expandedValues, rep)
         else (case ctxVal of
                 None \<Rightarrow> (isNegatedOperator effectiveOperator, addMissing key rep)
               | Some cv \<Rightarrow>
                   (let (matched, known) = applyConditionOperator lib effectiveOperator cv expandedValues
                    in if \<not> known then (False, addUnsupported (unsupported_operator operator) rep)
                       else (matched, rep))))"

fun eval_keys ::
  "('f, 'ip, 'net) go_lib \<Rightarrow> ctx_map \<Rightarrow> string \<Rightarrow> (string \<times> string list) list \<Rightarrow> bool \<times> conditionReport
    \<Rightarrow> bool \<times> conditionReport"
where
  "eval_keys lib ctx operator [] (met, rep) = (met, rep)"
| "eval_keys lib ctx operator (kv # kvs) (met, rep) =
     (let (ok, rep') = eval_pair lib ctx operator kv rep in eval_keys lib ctx operator kvs (met \<and> ok, rep'))"

fun eval_operators ::
  "('f, 'ip, 'net) go_lib \<Rightarrow> ctx_map \<Rightarrow> condition_block \<Rightarrow> bool \<times> conditionReport \<Rightarrow> bool \<times> conditionReport"
where
  "eval_operators lib ctx [] acc = acc"
| "eval_operators lib ctx ((operator, kvs) # ops) acc = eval_operators lib ctx ops (eval_keys lib ctx operator kvs acc)"

definition evaluateConditions ::
  "('f, 'ip, 'net) go_lib \<Rightarrow> condition_block \<Rightarrow> ctx_map \<Rightarrow> conditionReport \<Rightarrow> bool \<times> conditionReport"
where
  "evaluateConditions lib cond ctx rep =
     (if cond = [] then (True, rep) else eval_operators lib ctx cond (True, rep))"

section \<open>Whether a block is met does not depend on the order or the report\<close>

definition pair_met :: "('f, 'ip, 'net) go_lib \<Rightarrow> ctx_map \<Rightarrow> string \<Rightarrow> string \<times> string list \<Rightarrow> bool" where
  "pair_met lib ctx operator kv = fst (eval_pair lib ctx operator kv empty_report)"

definition conditions_met :: "('f, 'ip, 'net) go_lib \<Rightarrow> ctx_map \<Rightarrow> condition_block \<Rightarrow> bool" where
  "conditions_met lib ctx cond \<longleftrightarrow> (\<forall>(operator, kvs) \<in> set cond. \<forall>kv \<in> set kvs. pair_met lib ctx operator kv)"

lemma eval_pair_met: "fst (eval_pair lib ctx operator kv rep) = pair_met lib ctx operator kv"
  by (cases kv; cases "ctx_lookup ctx (ToLower (fst kv))")
    (auto simp: eval_pair_def pair_met_def Let_def split: prod.split)

lemma eval_keys_met:
  "fst (eval_keys lib ctx operator kvs (met, rep)) = (met \<and> (\<forall>kv \<in> set kvs. pair_met lib ctx operator kv))"
proof (induction kvs arbitrary: met rep)
  case (Cons kv kvs)
  then show ?case
    using eval_pair_met [of lib ctx operator kv rep] by (auto simp: Let_def split: prod.split)
qed simp

lemma eval_operators_met:
  "fst (eval_operators lib ctx cond (met, rep)) = (met \<and> conditions_met lib ctx cond)"
proof (induction cond arbitrary: met rep)
  case (Cons c cond)
  obtain operator kvs where c: "c = (operator, kvs)" by (cases c)
  obtain met' rep' where e: "eval_keys lib ctx operator kvs (met, rep) = (met', rep')"
    by (cases "eval_keys lib ctx operator kvs (met, rep)")
  show ?case
    using Cons.IH [of met' rep'] eval_keys_met [of lib ctx operator kvs met rep]
    by (auto simp: c e conditions_met_def)
qed (simp add: conditions_met_def)

lemma evaluateConditions_met: "fst (evaluateConditions lib cond ctx rep) = conditions_met lib ctx cond"
  by (simp add: evaluateConditions_def eval_operators_met conditions_met_def)

section \<open>What is reported as unsupported\<close>

text \<open>
  A pair is unsupported when its key is present and its operator is not one the evaluator
  implements.
\<close>

definition pair_unsupported :: "('f, 'ip, 'net) go_lib \<Rightarrow> ctx_map \<Rightarrow> string \<Rightarrow> string \<times> string list \<Rightarrow> bool" where
  "pair_unsupported lib ctx operator kv \<longleftrightarrow>
     rep_unsupported (snd (eval_pair lib ctx operator kv empty_report)) \<noteq> []"

definition block_unsupported :: "('f, 'ip, 'net) go_lib \<Rightarrow> ctx_map \<Rightarrow> condition_block \<Rightarrow> string set" where
  "block_unsupported lib ctx cond =
     {unsupported_operator operator |operator kvs kv. (operator, kvs) \<in> set cond \<and> kv \<in> set kvs
        \<and> pair_unsupported lib ctx operator kv}"

lemma set_addUnsupported [simp]: "set (rep_unsupported (addUnsupported msg r)) = insert msg (set (rep_unsupported r))"
  by (auto simp: addUnsupported_def list_ex_iff)

lemma distinct_addUnsupported [simp]:
  "distinct (rep_unsupported (addUnsupported msg r)) = distinct (rep_unsupported r)"
  by (auto simp: addUnsupported_def list_ex_iff)

lemma unsupported_addMissing [simp]: "rep_unsupported (addMissing k r) = rep_unsupported r"
  by (simp add: addMissing_def)

lemma eval_pair_unsupported:
  "rep_unsupported (snd (eval_pair lib ctx operator kv rep)) =
     (if pair_unsupported lib ctx operator kv
      then rep_unsupported (addUnsupported (unsupported_operator operator) rep) else rep_unsupported rep)"
  by (cases kv; cases "ctx_lookup ctx (ToLower (fst kv))")
    (auto simp: eval_pair_def pair_unsupported_def Let_def empty_report_def addUnsupported_def split: prod.split)

lemma eval_keys_unsupported:
  "set (rep_unsupported (snd (eval_keys lib ctx operator kvs (met, rep)))) =
     set (rep_unsupported rep) \<union> {unsupported_operator operator |kv. kv \<in> set kvs \<and> pair_unsupported lib ctx operator kv}"
proof (induction kvs arbitrary: met rep)
  case (Cons kv kvs)
  obtain ok rep' where e: "eval_pair lib ctx operator kv rep = (ok, rep')"
    by (cases "eval_pair lib ctx operator kv rep")
  then have "rep_unsupported rep' = (if pair_unsupported lib ctx operator kv
      then rep_unsupported (addUnsupported (unsupported_operator operator) rep) else rep_unsupported rep)"
    using eval_pair_unsupported [of lib ctx operator kv rep] by simp
  then have "set (rep_unsupported rep') = set (rep_unsupported rep)
      \<union> (if pair_unsupported lib ctx operator kv then {unsupported_operator operator} else {})"
    by simp
  moreover have "snd (eval_keys lib ctx operator (kv # kvs) (met, rep)) = snd (eval_keys lib ctx operator kvs (met \<and> ok, rep'))"
    by (simp add: e)
  moreover have "{unsupported_operator operator |k. k \<in> set (kv # kvs) \<and> pair_unsupported lib ctx operator k}
      = (if pair_unsupported lib ctx operator kv then {unsupported_operator operator} else {})
        \<union> {unsupported_operator operator |k. k \<in> set kvs \<and> pair_unsupported lib ctx operator k}"
    by (auto simp del: split_paired_Ex)
  ultimately show ?case by (simp only: Cons.IH Un_assoc)
qed simp

lemma eval_keys_distinct:
  "distinct (rep_unsupported (snd (eval_keys lib ctx operator kvs (met, rep)))) = distinct (rep_unsupported rep)"
proof (induction kvs arbitrary: met rep)
  case (Cons kv kvs)
  then show ?case
    using eval_pair_unsupported [of lib ctx operator kv rep]
    by (cases "eval_pair lib ctx operator kv rep") auto
qed simp

lemma eval_operators_unsupported:
  "set (rep_unsupported (snd (eval_operators lib ctx cond (met, rep)))) =
     set (rep_unsupported rep) \<union> block_unsupported lib ctx cond"
proof (induction cond arbitrary: met rep)
  case (Cons c cond)
  obtain operator kvs where c: "c = (operator, kvs)" by (cases c)
  obtain met' rep' where e: "eval_keys lib ctx operator kvs (met, rep) = (met', rep')"
    by (cases "eval_keys lib ctx operator kvs (met, rep)")
  have "block_unsupported lib ctx (c # cond) = block_unsupported lib ctx cond
      \<union> {unsupported_operator operator |kv. kv \<in> set kvs \<and> pair_unsupported lib ctx operator kv}"
    by (auto simp: block_unsupported_def c)
  then show ?case
    using Cons.IH [of met' rep'] eval_keys_unsupported [of lib ctx operator kvs met rep] by (auto simp: c e)
qed (simp add: block_unsupported_def)

lemma eval_operators_distinct:
  "distinct (rep_unsupported (snd (eval_operators lib ctx cond (met, rep)))) = distinct (rep_unsupported rep)"
proof (induction cond arbitrary: met rep)
  case (Cons c cond)
  then show ?case
    using eval_keys_distinct [of lib ctx "fst c" "snd c" met rep]
    by (cases c; cases "eval_keys lib ctx (fst c) (snd c) (met, rep)") auto
qed simp

lemma evaluateConditions_unsupported:
  "set (rep_unsupported (snd (evaluateConditions lib cond ctx rep))) =
     set (rep_unsupported rep) \<union> block_unsupported lib ctx cond"
  "distinct (rep_unsupported (snd (evaluateConditions lib cond ctx rep))) = distinct (rep_unsupported rep)"
  by (auto simp: evaluateConditions_def eval_operators_unsupported eval_operators_distinct block_unsupported_def)

section \<open>An executable instance of the readers\<close>

text \<open>
  Decimal integers for numbers and timestamps, single addresses by their text: enough to run
  concrete policies.
\<close>

definition read_digits :: "string \<Rightarrow> int option" where
  "read_digits s = (if s \<noteq> [] \<and> list_all (\<lambda>c. CHR ''0'' \<le> c \<and> c \<le> CHR ''9'') s
     then Some (foldl (\<lambda>n c. 10 * n + (int (of_char c) - 48)) 0 s) else None)"

definition sample_lib :: "(int, string, string) go_lib" where
  "sample_lib = \<lparr>parse_float = read_digits, float_eq = (=), float_lt = (<), float_le = (\<le>),
     parse_rfc3339 = read_digits, parse_ip = Some, parse_cidr = Some,
     net_contains = (\<lambda>n ip. HasPrefix n ip), ip_equal = (=)\<rparr>"

section \<open>Properties\<close>

text \<open>
  A condition key the request does not carry decides a positive operator against the
  statement and a negated one for it, and is reported as missing; the \<^verbatim>\<open>IfExists\<close>
  form of any operator is satisfied.
\<close>

theorem eval_pair_missing_key:
  assumes "ctx_lookup ctx (ToLower key) = None" "\<not> HasSuffix operator ''IfExists''" "operator \<noteq> ''Null''"
  shows "eval_pair lib ctx operator (key, values) rep = (Contains operator ''Not'', addMissing key rep)
         \<and> eval_pair lib ctx (operator @ ''IfExists'') (key, values) rep = (True, rep)"
  using assms by (simp add: eval_pair_def Let_def isNegatedOperator_def)

theorem eval_pair_missing_key_witness:
  "eval_pair sample_lib None ''StringNotEquals'' (''aws:SourceVpc'', [''vpc-1'']) empty_report
     = (True, \<lparr>rep_missing = [''aws:SourceVpc''], rep_unsupported = []\<rparr>)"
proof -
  have "\<not> HasSuffix ''StringNotEquals'' ''IfExists''" "Contains ''StringNotEquals'' ''Not''" by code_simp+
  then show ?thesis
    using eval_pair_missing_key [of None "''aws:SourceVpc''" "''StringNotEquals''" sample_lib "[''vpc-1'']" empty_report]
    by (simp add: ctx_lookup_def addMissing_def empty_report_def)
qed

text \<open>
  For a key that is present, each negated operator is exactly the negation of its positive
  counterpart, over every list of policy values.
\<close>

theorem negated_operators_complement:
  "applyConditionOperator lib ''StringNotEquals'' v ps = (\<not> fst (applyConditionOperator lib ''StringEquals'' v ps), True)
   \<and> applyConditionOperator lib ''StringNotEqualsIgnoreCase'' v ps
       = (\<not> fst (applyConditionOperator lib ''StringEqualsIgnoreCase'' v ps), True)
   \<and> applyConditionOperator lib ''StringNotLike'' v ps = (\<not> fst (applyConditionOperator lib ''StringLike'' v ps), True)
   \<and> applyConditionOperator lib ''ArnNotLike'' v ps = (\<not> fst (applyConditionOperator lib ''ArnLike'' v ps), True)
   \<and> applyConditionOperator lib ''NotIpAddress'' v ps = (\<not> fst (applyConditionOperator lib ''IpAddress'' v ps), True)"
  by (simp add: applyConditionOperator_def)

text \<open>
  An operator the evaluator does not implement can still resolve a statement: when its key
  is missing and its name contains \<^verbatim>\<open>Not\<close>, the block counts as met and nothing is
  reported as unsupported.
\<close>

theorem unknown_operator_resolves_statement:
  "evaluateConditions lib [(''ForAnyValue:StringNotEquals'', [(''aws:TagKeys'', [''x''])])] None empty_report
     = (True, \<lparr>rep_missing = [''aws:TagKeys''], rep_unsupported = []\<rparr>)
   \<and> snd (applyConditionOperator lib ''ForAnyValue:StringNotEquals'' v ps) = False"
proof -
  have "\<not> HasSuffix ''ForAnyValue:StringNotEquals'' ''IfExists''" "Contains ''ForAnyValue:StringNotEquals'' ''Not''"
    by code_simp+
  then show ?thesis
    by (simp add: evaluateConditions_def eval_pair_def Let_def ctx_lookup_def isNegatedOperator_def addMissing_def
        empty_report_def applyConditionOperator_def)
qed

end
