(* ===== verification/Iam_Evaluate.thy ===== *)
theory Iam_Evaluate
  imports Iam_Condition
begin

text \<open>
  The evaluation algorithm and the denial it explains,
  \<^verbatim>\<open>internal/iampolicy/evaluate.go\<close>, \<^verbatim>\<open>denial.go\<close> and the statement data of
  \<^verbatim>\<open>policy.go\<close>.

  \<open>Evaluate\<close> runs the identity statements and then the statements of the
  resource-based policy through the same loop, collecting matches, the report and the two
  flags, and finally caps the outcome with the permissions boundary.  \<open>authorized\<close> is the
  declarative reading of a decision; the theorems relate the two.
\<close>

section \<open>Statements and requests\<close>

record SourceRef =
  src_ID :: string
  src_Type :: string

record Position =
  pos_Line :: int
  pos_Column :: int

record PrincipalSet =
  ps_Anonymous :: bool
  ps_AWS :: "Pattern list"
  ps_Service :: "string list"
  ps_Federated :: "string list"
  ps_Unsupported :: "string list"

record Statement =
  s_Sid :: string
  s_Effect :: string
  s_Source :: SourceRef
  s_Index :: int
  s_StartPosition :: "Position option"
  s_EndPosition :: "Position option"
  s_Action :: "Pattern list"
  s_NotAction :: "Pattern list"
  s_Resource :: "Pattern list"
  s_NotResource :: "Pattern list"
  s_ResourceSpecified :: bool
  s_Principal :: "PrincipalSet option"
  s_NotPrincipal :: "PrincipalSet option"
  s_Condition :: condition_block

datatype Decision = DecisionAllowed | DecisionExplicitDeny | DecisionImplicitDeny

record Request =
  rq_Action :: string
  rq_Resource :: string
  rq_Context :: ctx_map
  rq_PrincipalARN :: string
  rq_PrincipalAccount :: string
  rq_ServicePrincipal :: string
  rq_Federated :: "string list"

record Boundary =
  b_Statements :: "Statement list"

record Input =
  in_Request :: Request
  in_Identity :: "Statement list"
  in_ResourcePolicy :: "Statement list"
  in_Boundary :: "Boundary option"

record MatchRec =
  m_Source :: SourceRef
  m_Sid :: string
  m_Effect :: string
  m_Index :: int
  m_StartPosition :: "Position option"
  m_EndPosition :: "Position option"

record Result =
  r_Decision :: Decision
  r_Matched :: "MatchRec list"
  r_MissingContextKeys :: "string list"
  r_Unsupported :: "string list"
  r_BoundaryApplied :: bool
  r_AllowedByBoundary :: bool


fun containsString :: "string list \<Rightarrow> string \<Rightarrow> bool" where
  "containsString [] want = False"
| "containsString (value # values) want = (if value = want then True else containsString values want)"

section \<open>Which statements apply\<close>

definition matchesAction :: "Statement \<Rightarrow> string \<Rightarrow> bool" where
  "matchesAction s action =
     (if s_Action s \<noteq> [] then matchAny (s_Action s) action None True
      else if s_NotAction s \<noteq> [] then \<not> matchAny (s_NotAction s) action None True
      else False)"

definition matchesResource :: "Statement \<Rightarrow> string \<Rightarrow> ctx_map \<Rightarrow> bool" where
  "matchesResource s resource ctx =
     (if s_Resource s = [] \<and> s_NotResource s = [] then s_Principal s \<noteq> None \<or> s_NotPrincipal s \<noteq> None
      else if s_Resource s \<noteq> [] then matchAny (s_Resource s) resource ctx False
      else \<not> matchAny (s_NotResource s) resource ctx False)"

text \<open>A bare account number or the account root names every principal of the account.\<close>

definition aws_principal_matches :: "string \<Rightarrow> string \<Rightarrow> Pattern \<Rightarrow> bool" where
  "aws_principal_matches arn account p =
     (if arn \<noteq> [] \<and> Match p arn then True
      else if account = [] then False
      else pat_raw p = account \<or> pat_raw p = ''arn:aws:iam::'' @ account @ '':root'')"

definition principalSetMatches :: "PrincipalSet \<Rightarrow> Request \<Rightarrow> bool" where
  "principalSetMatches ps req =
     (if ps_Anonymous ps then True
      else let sp = TrimSpace (rq_ServicePrincipal req) in
        if sp \<noteq> [] then list_ex (\<lambda>svc. EqualFold (TrimSpace svc) sp) (ps_Service ps)
        else let arn = TrimSpace (rq_PrincipalARN req); account = TrimSpace (rq_PrincipalAccount req) in
          if list_ex (aws_principal_matches arn account) (ps_AWS ps) then True
          else list_ex (\<lambda>provider. containsString (rq_Federated req) (TrimSpace provider)) (ps_Federated ps))"

definition reportPrincipalGaps :: "PrincipalSet \<Rightarrow> conditionReport \<Rightarrow> conditionReport" where
  "reportPrincipalGaps ps rep = fold addUnsupported (ps_Unsupported ps) rep"

definition matchesPrincipal :: "Statement \<Rightarrow> Request \<Rightarrow> conditionReport \<Rightarrow> bool \<times> conditionReport" where
  "matchesPrincipal s req rep =
     (case s_NotPrincipal s of
        Some np \<Rightarrow> (\<not> principalSetMatches np req, reportPrincipalGaps np rep)
      | None \<Rightarrow>
          (case s_Principal s of
             None \<Rightarrow> (False, rep)
           | Some p \<Rightarrow> (principalSetMatches p req, reportPrincipalGaps p rep)))"

definition appliesTo :: "Statement \<Rightarrow> Request \<Rightarrow> bool \<Rightarrow> conditionReport \<Rightarrow> bool \<times> conditionReport" where
  "appliesTo s req resourceBased rep =
     (if \<not> matchesAction s (rq_Action req) then (False, rep)
      else if \<not> matchesResource s (rq_Resource req) (rq_Context req) then (False, rep)
      else if resourceBased then matchesPrincipal s req rep
      else (True, rep))"

section \<open>The evaluation loop\<close>

text \<open>What the closure \<^verbatim>\<open>evaluateSet\<close> captures and updates.\<close>

record eval_state =
  es_matched :: "MatchRec list"
  es_rep :: conditionReport
  es_allowed :: bool
  es_deny :: bool

definition to_match :: "Statement \<Rightarrow> MatchRec" where
  "to_match s = \<lparr>m_Source = s_Source s, m_Sid = s_Sid s, m_Effect = s_Effect s, m_Index = s_Index s,
     m_StartPosition = s_StartPosition s, m_EndPosition = s_EndPosition s\<rparr>"

definition eval_statement ::
  "('f, 'ip, 'net) go_lib \<Rightarrow> Request \<Rightarrow> bool \<Rightarrow> Statement \<Rightarrow> eval_state \<Rightarrow> eval_state"
where
  "eval_statement lib req resourceBased stmt st =
     (let (applies, rep1) = appliesTo stmt req resourceBased (es_rep st) in
      if \<not> applies then st\<lparr>es_rep := rep1\<rparr>
      else let (met, rep2) = evaluateConditions lib (s_Condition stmt) (rq_Context req) rep1 in
        if \<not> met then st\<lparr>es_rep := rep2\<rparr>
        else let st' = st\<lparr>es_rep := rep2, es_matched := es_matched st @ [to_match stmt]\<rparr> in
          if s_Effect stmt = ''Deny'' then st'\<lparr>es_deny := True\<rparr> else st'\<lparr>es_allowed := True\<rparr>)"

definition evaluateSet ::
  "('f, 'ip, 'net) go_lib \<Rightarrow> Request \<Rightarrow> Statement list \<Rightarrow> bool \<Rightarrow> eval_state \<Rightarrow> eval_state"
where
  "evaluateSet lib req stmts resourceBased st = fold (eval_statement lib req resourceBased) stmts st"

definition eval_init :: eval_state where
  "eval_init = \<lparr>es_matched = [], es_rep = empty_report, es_allowed = False, es_deny = False\<rparr>"

definition eval_final :: "('f, 'ip, 'net) go_lib \<Rightarrow> Input \<Rightarrow> eval_state" where
  "eval_final lib inp =
     evaluateSet lib (in_Request inp) (in_ResourcePolicy inp) True
       (evaluateSet lib (in_Request inp) (in_Identity inp) False eval_init)"

text \<open>\<open>Evaluate\<close> up to the test for a boundary: what it returns when there is none.\<close>

definition evaluate_unbounded :: "('f, 'ip, 'net) go_lib \<Rightarrow> Input \<Rightarrow> Result" where
  "evaluate_unbounded lib inp =
     (let st = eval_final lib inp in
      \<lparr>r_Decision = (if es_deny st then DecisionExplicitDeny
                     else if es_allowed st then DecisionAllowed else DecisionImplicitDeny),
       r_Matched = es_matched st,
       r_MissingContextKeys = sort (rep_missing (es_rep st)),
       r_Unsupported = sort (rep_unsupported (es_rep st)),
       r_BoundaryApplied = False, r_AllowedByBoundary = False\<rparr>)"

definition capWithBoundary :: "('f, 'ip, 'net) go_lib \<Rightarrow> Result \<Rightarrow> Request \<Rightarrow> Boundary \<Rightarrow> Result" where
  "capWithBoundary lib res req boundary =
     (let boundaryRes = evaluate_unbounded lib
            \<lparr>in_Request = req, in_Identity = b_Statements boundary, in_ResourcePolicy = [], in_Boundary = None\<rparr>;
          unsupported = fold (\<lambda>msg acc. if containsString acc msg then acc else acc @ [msg])
            (r_Unsupported boundaryRes) (r_Unsupported res);
          allowed = (r_Decision boundaryRes = DecisionAllowed)
      in res\<lparr>r_Unsupported := unsupported, r_BoundaryApplied := True, r_AllowedByBoundary := allowed,
             r_Decision :=
               (if r_Decision boundaryRes = DecisionExplicitDeny then DecisionExplicitDeny
                else if \<not> allowed \<and> r_Decision res = DecisionAllowed then DecisionImplicitDeny
                else r_Decision res)\<rparr>)"

definition Evaluate :: "('f, 'ip, 'net) go_lib \<Rightarrow> Input \<Rightarrow> Result" where
  "Evaluate lib inp =
     (let res = evaluate_unbounded lib inp in
      case in_Boundary inp of None \<Rightarrow> res | Some b \<Rightarrow> capWithBoundary lib res (in_Request inp) b)"

section \<open>Explaining a denial\<close>

datatype PolicyType = PolicyTypeIdentityBased | PolicyTypeResourceBased | PolicyTypePermissionsBoundary

fun policy_type_name :: "PolicyType \<Rightarrow> string" where
  "policy_type_name PolicyTypeIdentityBased = ''identity-based policy''"
| "policy_type_name PolicyTypeResourceBased = ''resource-based policy''"
| "policy_type_name PolicyTypePermissionsBoundary = ''permissions boundary''"

record Denial =
  d_Principal :: string
  d_Action :: string
  d_Resource :: string
  d_QuoteResource :: bool
  d_Policy :: PolicyType
  d_Explicit :: bool

definition indefiniteArticle :: "string \<Rightarrow> string" where
  "indefiniteArticle word = (if word \<noteq> [] \<and> hd word \<in> set ''aeiou'' then ''an'' else ''a'')"

definition Message :: "Denial \<Rightarrow> string" where
  "Message d =
     (let head = ''User: '' @ d_Principal d @ '' is not authorized to perform: '' @ d_Action d;
          res = (if d_Resource d \<noteq> [] \<and> d_Resource d \<noteq> ''*''
                 then '' on resource: ''
                   @ (if d_QuoteResource d then [CHR 0x22] @ d_Resource d @ [CHR 0x22] else d_Resource d)
                 else []);
          pol = policy_type_name (d_Policy d)
      in if d_Explicit d then head @ res @ '' with an explicit deny in '' @ indefiniteArticle pol @ '' '' @ pol
         else head @ res @ '' because no '' @ pol @ '' allows the '' @ d_Action d @ '' action'')"

fun firstMatch :: "MatchRec list \<Rightarrow> string \<Rightarrow> MatchRec option" where
  "firstMatch [] eff = None"
| "firstMatch (m # ms) eff = (if m_Effect m = eff then Some m else firstMatch ms eff)"



section \<open>The declarative reading\<close>

definition principal_ok :: "Statement \<Rightarrow> Request \<Rightarrow> bool" where
  "principal_ok s req = fst (matchesPrincipal s req empty_report)"

text \<open>A statement is applicable when all its elements select the request.\<close>

definition applicable :: "('f, 'ip, 'net) go_lib \<Rightarrow> Request \<Rightarrow> bool \<Rightarrow> Statement \<Rightarrow> bool" where
  "applicable lib req resourceBased s \<longleftrightarrow>
     matchesAction s (rq_Action req) \<and> matchesResource s (rq_Resource req) (rq_Context req)
     \<and> (resourceBased \<longrightarrow> principal_ok s req) \<and> conditions_met lib (rq_Context req) (s_Condition s)"

definition some_deny :: "('f, 'ip, 'net) go_lib \<Rightarrow> Request \<Rightarrow> Statement list \<Rightarrow> Statement list \<Rightarrow> bool" where
  "some_deny lib req ident res \<longleftrightarrow>
     (\<exists>s \<in> set ident. applicable lib req False s \<and> s_Effect s = ''Deny'')
     \<or> (\<exists>s \<in> set res. applicable lib req True s \<and> s_Effect s = ''Deny'')"

definition some_allow :: "('f, 'ip, 'net) go_lib \<Rightarrow> Request \<Rightarrow> Statement list \<Rightarrow> Statement list \<Rightarrow> bool" where
  "some_allow lib req ident res \<longleftrightarrow>
     (\<exists>s \<in> set ident. applicable lib req False s \<and> s_Effect s \<noteq> ''Deny'')
     \<or> (\<exists>s \<in> set res. applicable lib req True s \<and> s_Effect s \<noteq> ''Deny'')"

definition authorized :: "('f, 'ip, 'net) go_lib \<Rightarrow> Input \<Rightarrow> bool" where
  "authorized lib inp \<longleftrightarrow>
     \<not> some_deny lib (in_Request inp) (in_Identity inp) (in_ResourcePolicy inp)
     \<and> some_allow lib (in_Request inp) (in_Identity inp) (in_ResourcePolicy inp)
     \<and> (case in_Boundary inp of None \<Rightarrow> True
        | Some b \<Rightarrow> \<not> some_deny lib (in_Request inp) (b_Statements b) []
                    \<and> some_allow lib (in_Request inp) (b_Statements b) [])"

definition stmt_unsupported :: "('f, 'ip, 'net) go_lib \<Rightarrow> Request \<Rightarrow> bool \<Rightarrow> Statement \<Rightarrow> string set" where
  "stmt_unsupported lib req resourceBased s =
     (if matchesAction s (rq_Action req) \<and> matchesResource s (rq_Resource req) (rq_Context req)
      then (if resourceBased then set (rep_unsupported (snd (matchesPrincipal s req empty_report))) else {})
         \<union> (if resourceBased \<longrightarrow> principal_ok s req
            then block_unsupported lib (rq_Context req) (s_Condition s) else {})
      else {})"

lemma matchesPrincipal_fst: "fst (matchesPrincipal s req rep) = principal_ok s req"
  by (simp add: matchesPrincipal_def principal_ok_def split: option.split)

lemma reportPrincipalGaps_unsupported:
  "set (rep_unsupported (reportPrincipalGaps p rep)) = set (rep_unsupported rep) \<union> set (ps_Unsupported p)"
  "distinct (rep_unsupported (reportPrincipalGaps p rep)) = distinct (rep_unsupported rep)"
proof -
  have "set (rep_unsupported (fold addUnsupported ms r)) = set (rep_unsupported r) \<union> set ms"
    "distinct (rep_unsupported (fold addUnsupported ms r)) = distinct (rep_unsupported r)" for ms r
    by (induction ms arbitrary: r) auto
  then show
    "set (rep_unsupported (reportPrincipalGaps p rep)) = set (rep_unsupported rep) \<union> set (ps_Unsupported p)"
    "distinct (rep_unsupported (reportPrincipalGaps p rep)) = distinct (rep_unsupported rep)"
    unfolding reportPrincipalGaps_def by blast+
qed

lemma matchesPrincipal_unsupported:
  "set (rep_unsupported (snd (matchesPrincipal s req rep)))
     = set (rep_unsupported rep) \<union> set (rep_unsupported (snd (matchesPrincipal s req empty_report)))"
  "distinct (rep_unsupported (snd (matchesPrincipal s req rep))) = distinct (rep_unsupported rep)"
  by (auto simp: matchesPrincipal_def reportPrincipalGaps_unsupported empty_report_def split: option.split)

lemma eval_statement_flags:
  "es_deny (eval_statement lib req rb s st) = (es_deny st \<or> applicable lib req rb s \<and> s_Effect s = ''Deny'')"
  "es_allowed (eval_statement lib req rb s st) = (es_allowed st \<or> applicable lib req rb s \<and> s_Effect s \<noteq> ''Deny'')"
  "es_matched (eval_statement lib req rb s st)
     = es_matched st @ (if applicable lib req rb s then [to_match s] else [])"
  by (auto simp: eval_statement_def appliesTo_def applicable_def Let_def case_prod_unfold
      matchesPrincipal_fst evaluateConditions_met)

lemma eval_statement_unsupported:
  "set (rep_unsupported (es_rep (eval_statement lib req rb s st)))
     = set (rep_unsupported (es_rep st)) \<union> stmt_unsupported lib req rb s"
  "distinct (rep_unsupported (es_rep (eval_statement lib req rb s st))) = distinct (rep_unsupported (es_rep st))"
proof -
  obtain ap rep1 where a: "appliesTo s req rb (es_rep st) = (ap, rep1)" by (cases "appliesTo s req rb (es_rep st)")
  obtain met rep2 where c: "evaluateConditions lib (s_Condition s) (rq_Context req) rep1 = (met, rep2)"
    by (cases "evaluateConditions lib (s_Condition s) (rq_Context req) rep1")
  have rep: "es_rep (eval_statement lib req rb s st) = (if ap then rep2 else rep1)"
    by (simp add: eval_statement_def a c Let_def)
  have 1: "ap \<longleftrightarrow> matchesAction s (rq_Action req) \<and> matchesResource s (rq_Resource req) (rq_Context req)
      \<and> (rb \<longrightarrow> principal_ok s req)"
    "set (rep_unsupported rep1) = set (rep_unsupported (es_rep st)) \<union>
       (if matchesAction s (rq_Action req) \<and> matchesResource s (rq_Resource req) (rq_Context req) \<and> rb
        then set (rep_unsupported (snd (matchesPrincipal s req empty_report))) else {})"
    "distinct (rep_unsupported rep1) = distinct (rep_unsupported (es_rep st))"
    using a matchesPrincipal_fst [of s req "es_rep st"] matchesPrincipal_unsupported [of s req "es_rep st"]
    by (auto simp: appliesTo_def split: if_splits)
  have 2: "set (rep_unsupported rep2) = set (rep_unsupported rep1) \<union> block_unsupported lib (rq_Context req) (s_Condition s)"
    "distinct (rep_unsupported rep2) = distinct (rep_unsupported rep1)"
    using evaluateConditions_unsupported [of lib "s_Condition s" "rq_Context req" rep1] c by auto
  show "set (rep_unsupported (es_rep (eval_statement lib req rb s st)))
     = set (rep_unsupported (es_rep st)) \<union> stmt_unsupported lib req rb s"
    unfolding rep using 1 2 by (auto simp: stmt_unsupported_def)
  show "distinct (rep_unsupported (es_rep (eval_statement lib req rb s st))) = distinct (rep_unsupported (es_rep st))"
    unfolding rep using 1 2 by auto
qed

lemma evaluateSet_flags:
  "es_deny (evaluateSet lib req ss rb st)
     = (es_deny st \<or> (\<exists>s \<in> set ss. applicable lib req rb s \<and> s_Effect s = ''Deny''))"
  "es_allowed (evaluateSet lib req ss rb st)
     = (es_allowed st \<or> (\<exists>s \<in> set ss. applicable lib req rb s \<and> s_Effect s \<noteq> ''Deny''))"
  "es_matched (evaluateSet lib req ss rb st) = es_matched st @ map to_match (filter (applicable lib req rb) ss)"
  by (induction ss arbitrary: st) (auto simp: evaluateSet_def eval_statement_flags)

lemma evaluateSet_unsupported:
  "set (rep_unsupported (es_rep (evaluateSet lib req ss rb st)))
     = set (rep_unsupported (es_rep st)) \<union> (\<Union>s \<in> set ss. stmt_unsupported lib req rb s)"
  "distinct (rep_unsupported (es_rep (evaluateSet lib req ss rb st))) = distinct (rep_unsupported (es_rep st))"
  by (induction ss arbitrary: st) (auto simp: evaluateSet_def eval_statement_unsupported)

lemma eval_final_flags:
  "es_deny (eval_final lib inp) = some_deny lib (in_Request inp) (in_Identity inp) (in_ResourcePolicy inp)"
  "es_allowed (eval_final lib inp) = some_allow lib (in_Request inp) (in_Identity inp) (in_ResourcePolicy inp)"
  by (auto simp: eval_final_def evaluateSet_flags eval_init_def some_deny_def some_allow_def)

lemma unbounded_decision:
  "r_Decision (evaluate_unbounded lib inp) =
     (if some_deny lib (in_Request inp) (in_Identity inp) (in_ResourcePolicy inp) then DecisionExplicitDeny
      else if some_allow lib (in_Request inp) (in_Identity inp) (in_ResourcePolicy inp) then DecisionAllowed
      else DecisionImplicitDeny)"
  by (simp add: evaluate_unbounded_def Let_def eval_final_flags)

lemma Evaluate_decision:
  "r_Decision (Evaluate lib inp) =
     (let deny = some_deny lib (in_Request inp) (in_Identity inp) (in_ResourcePolicy inp);
          allow = some_allow lib (in_Request inp) (in_Identity inp) (in_ResourcePolicy inp) in
      case in_Boundary inp of
        None \<Rightarrow> if deny then DecisionExplicitDeny else if allow then DecisionAllowed else DecisionImplicitDeny
      | Some b \<Rightarrow>
          if deny \<or> some_deny lib (in_Request inp) (b_Statements b) [] then DecisionExplicitDeny
          else if allow \<and> some_allow lib (in_Request inp) (b_Statements b) [] then DecisionAllowed
          else DecisionImplicitDeny)"
  by (auto simp: Evaluate_def capWithBoundary_def Let_def unbounded_decision split: option.split)

lemma unbounded_unsupported:
  "r_Unsupported (evaluate_unbounded lib inp) =
     sorted_list_of_set ((\<Union>s \<in> set (in_Identity inp). stmt_unsupported lib (in_Request inp) False s)
       \<union> (\<Union>s \<in> set (in_ResourcePolicy inp). stmt_unsupported lib (in_Request inp) True s))"
proof -
  let ?u = "rep_unsupported (es_rep (eval_final lib inp))"
  have d: "distinct ?u" by (simp add: eval_final_def evaluateSet_unsupported(2) eval_init_def empty_report_def)
  have "set ?u = (\<Union>s \<in> set (in_Identity inp). stmt_unsupported lib (in_Request inp) False s)
      \<union> (\<Union>s \<in> set (in_ResourcePolicy inp). stmt_unsupported lib (in_Request inp) True s)"
    by (simp add: eval_final_def evaluateSet_unsupported(1) eval_init_def empty_report_def)
  with d show ?thesis
    by (simp add: evaluate_unbounded_def Let_def sorted_list_of_set_sort_remdups distinct_remdups_id flip: \<open>set ?u = _\<close>)
qed

section \<open>The denial that is explained\<close>


lemma firstMatch_in: "firstMatch ms eff = Some m \<Longrightarrow> m \<in> set ms \<and> m_Effect m = eff"
  by (induction ms) (auto split: if_splits)

lemma Evaluate_matched:
  "r_Matched (Evaluate lib inp) =
     map to_match (filter (applicable lib (in_Request inp) False) (in_Identity inp))
     @ map to_match (filter (applicable lib (in_Request inp) True) (in_ResourcePolicy inp))"
  by (simp add: Evaluate_def capWithBoundary_def evaluate_unbounded_def Let_def eval_final_def evaluateSet_flags
      eval_init_def split: option.split)







section \<open>Sample statements\<close>

definition sample_statement :: "string \<Rightarrow> string \<Rightarrow> string \<Rightarrow> condition_block \<Rightarrow> Statement" where
  "sample_statement eff action resource cond =
     \<lparr>s_Sid = eff, s_Effect = eff, s_Source = \<lparr>src_ID = ''p'', src_Type = ''IAM Policy''\<rparr>, s_Index = 0,
      s_StartPosition = None, s_EndPosition = None, s_Action = [NewPattern action], s_NotAction = [],
      s_Resource = [NewPattern resource], s_NotResource = [], s_ResourceSpecified = True,
      s_Principal = None, s_NotPrincipal = None, s_Condition = cond\<rparr>"

definition sample_request :: Request where
  "sample_request = \<lparr>rq_Action = ''s3:GetObject'', rq_Resource = ''arn:aws:s3:::b/k'', rq_Context = Some Map.empty,
     rq_PrincipalARN = ''arn:aws:iam::1:user/u'', rq_PrincipalAccount = ''1'', rq_ServicePrincipal = [],
     rq_Federated = []\<rparr>"

definition sample_input :: "Statement list \<Rightarrow> Statement list option \<Rightarrow> Input" where
  "sample_input ident boundary = \<lparr>in_Request = sample_request, in_Identity = ident, in_ResourcePolicy = [],
     in_Boundary = map_option (\<lambda>ss. \<lparr>b_Statements = ss\<rparr>) boundary\<rparr>"

definition allow_all :: Statement where
  "allow_all = sample_statement ''Allow'' ''*'' ''*'' []"

definition deny_get :: Statement where
  "deny_get = sample_statement ''Deny'' ''s3:Get*'' ''arn:aws:s3:::b/*'' []"


lemma sample_applicable:
  "applicable sample_lib sample_request False allow_all" "applicable sample_lib sample_request False deny_get"
  by code_simp+

section \<open>Properties\<close>

text \<open>
  C4. The decision is exactly AWS's evaluation logic: a request is allowed if and only if no
  applicable statement of the identity policies or of the resource policy denies it, some
  applicable statement allows it, and the permissions boundary, when there is one, also
  allows it and does not deny it.
\<close>

theorem Evaluate_allowed_iff:
  "r_Decision (Evaluate lib inp) = DecisionAllowed \<longleftrightarrow> authorized lib inp"
  by (auto simp: Evaluate_decision authorized_def Let_def split: option.split)

text \<open>
  C25. An explicit deny wins: one applicable Deny statement among the identity policies, the
  resource policy or the permissions boundary makes the decision an explicit deny, whatever
  the other statements say and wherever it stands.
\<close>

theorem Evaluate_explicit_deny_wins:
  assumes "s_Effect s = ''Deny''"
    and "s \<in> set (in_Identity inp) \<and> applicable lib (in_Request inp) False s
       \<or> s \<in> set (in_ResourcePolicy inp) \<and> applicable lib (in_Request inp) True s
       \<or> (\<exists>b. in_Boundary inp = Some b \<and> s \<in> set (b_Statements b) \<and> applicable lib (in_Request inp) False s)"
  shows "r_Decision (Evaluate lib inp) = DecisionExplicitDeny"
  using assms by (auto simp: Evaluate_decision Let_def some_deny_def split: option.split)

theorem Evaluate_explicit_deny_wins_witness:
  "r_Decision (Evaluate sample_lib (sample_input [allow_all, deny_get, allow_all] None)) = DecisionExplicitDeny"
  by (rule Evaluate_explicit_deny_wins [of deny_get])
    (simp_all add: sample_input_def sample_applicable deny_get_def [THEN arg_cong, of s_Effect] sample_statement_def)

text \<open>
  A permissions boundary never grants: whatever is allowed with a boundary is allowed
  without it, and a boundary without statements, which is what an unreadable boundary
  document becomes, allows nothing.
\<close>

theorem boundary_only_restricts:
  "(r_Decision (Evaluate lib inp) = DecisionAllowed
      \<longrightarrow> r_Decision (Evaluate lib (inp\<lparr>in_Boundary := None\<rparr>)) = DecisionAllowed)
   \<and> r_Decision (Evaluate lib (inp\<lparr>in_Boundary := Some \<lparr>b_Statements = []\<rparr>\<rparr>)) \<noteq> DecisionAllowed"
  by (auto simp: Evaluate_decision Let_def some_deny_def some_allow_def split: option.splits if_splits)

theorem boundary_only_restricts_witness:
  "r_Decision (Evaluate sample_lib (sample_input [allow_all] None)) = DecisionAllowed
   \<and> r_Decision (Evaluate sample_lib (sample_input [allow_all] (Some []))) \<noteq> DecisionAllowed"
proof -
  have "r_Decision (Evaluate sample_lib (sample_input [allow_all] (Some [allow_all]))) = DecisionAllowed" by code_simp
  with boundary_only_restricts [of sample_lib "sample_input [allow_all] (Some [allow_all])"] show ?thesis
    by (simp add: sample_input_def)
qed

text \<open>
  Neither the order of the policies nor repeated statements matter: two inputs with the
  same sets of statements get the same decision and the same list of unsupported
  constructs.
\<close>

theorem Evaluate_order_independent:
  assumes "set ident = set ident'" "set res = set res'"
  shows "let inp = \<lparr>in_Request = req, in_Identity = ident, in_ResourcePolicy = res, in_Boundary = b\<rparr>;
             inp' = \<lparr>in_Request = req, in_Identity = ident', in_ResourcePolicy = res', in_Boundary = b\<rparr>
         in r_Decision (Evaluate lib inp) = r_Decision (Evaluate lib inp')
            \<and> r_Unsupported (Evaluate lib inp) = r_Unsupported (Evaluate lib inp')"
proof -
  have "some_deny lib req ident res = some_deny lib req ident' res'"
    and "some_allow lib req ident res = some_allow lib req ident' res'"
    using assms by (simp_all add: some_deny_def some_allow_def)
  then show ?thesis
    using assms by (simp add: Evaluate_def capWithBoundary_def Let_def unbounded_decision unbounded_unsupported
        split: option.split)
qed

theorem Evaluate_order_independent_witness:
  "r_Decision (Evaluate sample_lib (sample_input [allow_all, deny_get] None))
   = r_Decision (Evaluate sample_lib (sample_input [deny_get, allow_all, deny_get] None))"
  using Evaluate_order_independent [of "[allow_all, deny_get]" "[deny_get, allow_all, deny_get]" "[]" "[]"
      sample_request None sample_lib]
  by (auto simp: Let_def sample_input_def)



text \<open>
  The matched statements are reported in the order they were evaluated, identity policies
  first, and are not regrouped by effect: an allow that stands before a deny is listed
  before it.
\<close>

theorem Evaluate_matched_in_policy_order:
  "r_Matched (Evaluate lib inp) =
     map to_match (filter (applicable lib (in_Request inp) False) (in_Identity inp))
     @ map to_match (filter (applicable lib (in_Request inp) True) (in_ResourcePolicy inp))
   \<and> map m_Effect (r_Matched (Evaluate sample_lib (sample_input [allow_all, deny_get] None))) = [''Allow'', ''Deny'']"
  by (simp add: Evaluate_matched sample_input_def sample_applicable)
    (simp add: to_match_def allow_all_def deny_get_def sample_statement_def)

text \<open>
  The list of missing context keys does depend on the iteration order of a condition
  block: two keys that differ only in case are one missing key, and which spelling is
  reported is decided by the order in which the two operators are visited.
\<close>

theorem missing_keys_order_dependent:
  "let c1 = (''StringEquals'', [(''aws:TagKey'', [''x''])]); c2 = (''StringLike'', [(''aws:tagkey'', [''x''])])
   in r_MissingContextKeys (Evaluate sample_lib (sample_input [sample_statement ''Allow'' ''*'' ''*'' [c1, c2]] None))
        = [''aws:TagKey'']
      \<and> r_MissingContextKeys (Evaluate sample_lib (sample_input [sample_statement ''Allow'' ''*'' ''*'' [c2, c1]] None))
        = [''aws:tagkey'']"
  by code_simp

end
