(* ===== verification/Iam_Policy.thy ===== *)
theory Iam_Policy
  imports Iam_Evaluate Go_Json "HOL-Library.AList"
begin

text \<open>
  Reading policy documents, \<^verbatim>\<open>internal/iampolicy/policy.go\<close>, \<^verbatim>\<open>position.go\<close> and
  \<^verbatim>\<open>validate.go\<close>: from the bytes of a JSON document to compiled statements with
  their positions, every structural check and every error branch included.

  A \<^verbatim>\<open>json.RawMessage\<close> is its bytes, the empty string standing for a nil one.
  Decoded JSON objects are association lists in which the last of several equal keys
  wins.  An error is the message the code formats; when it wraps an error of the JSON
  package with \<^verbatim>\<open>%w\<close> the text of the latter is left out.  How a JSON number prints
  (its conversion to and from \<^verbatim>\<open>float64\<close>) is the parameter \<open>num\<close>, with \<open>None\<close> for
  a number out of range.
\<close>

section \<open>Decoding JSON into Go values\<close>

type_synonym raw_message = string
type_synonym number_format = "string \<Rightarrow> string option"

definition unmarshal_string :: "raw_message \<Rightarrow> string option" where
  "unmarshal_string raw =
     (case json_parse raw of Some (JStr s) \<Rightarrow> Some s | Some JNull \<Rightarrow> Some [] | _ \<Rightarrow> None)"

fun json_strings :: "(string \<times> json) list \<Rightarrow> string list option" where
  "json_strings [] = Some []"
| "json_strings ((_, v) # xs) =
     (case v of
        JStr s \<Rightarrow> map_option ((#) s) (json_strings xs)
      | JNull \<Rightarrow> map_option ((#) []) (json_strings xs)
      | _ \<Rightarrow> None)"

definition unmarshal_strings :: "raw_message \<Rightarrow> string list option" where
  "unmarshal_strings raw =
     (case json_parse raw of Some (JArr xs) \<Rightarrow> json_strings xs | Some JNull \<Rightarrow> Some [] | _ \<Rightarrow> None)"

text \<open>Decoding an object into a \<^verbatim>\<open>map[string]json.RawMessage\<close>; a map that exists is extended.\<close>

definition merge_members :: "(string \<times> string \<times> json) list \<Rightarrow> (string \<times> raw_message) list \<Rightarrow> (string \<times> raw_message) list" where
  "merge_members ms m = fold (\<lambda>(k, raw, _). AList.update k raw) ms m"

definition unmarshal_map :: "raw_message \<Rightarrow> (string \<times> raw_message) list option" where
  "unmarshal_map raw =
     (case json_parse raw of Some (JObj ms) \<Rightarrow> Some (merge_members ms []) | Some JNull \<Rightarrow> Some [] | _ \<Rightarrow> None)"

definition join_space :: "string list \<Rightarrow> string" where
  "join_space xs = (case xs of [] \<Rightarrow> [] | y # ys \<Rightarrow> y @ concat (map (\<lambda>z. CHR '' '' # z) ys))"

text \<open>
  \<^verbatim>\<open>fmt.Sprintf("%v")\<close> of what \<^verbatim>\<open>json.Unmarshal\<close> stores in an interface value: maps
  print with their keys sorted.
\<close>

fun any_string :: "number_format \<Rightarrow> json \<Rightarrow> string option" where
  "any_string num JNull = Some ''<nil>''"
| "any_string num (JBool b) = Some (if b then ''true'' else ''false'')"
| "any_string num (JNum l) = num l"
| "any_string num (JStr s) = Some s"
| "any_string num (JArr xs) =
     map_option (\<lambda>ss. ''['' @ join_space ss @ '']'') (those (map (\<lambda>(_, v). any_string num v) xs))"
| "any_string num (JObj ms) =
     map_option
       (\<lambda>kvs. let m = fold (\<lambda>(k, v). AList.update k v) kvs [] in
              ''map['' @ join_space (map (\<lambda>k. k @ '':'' @ the (map_of m k)) (sort (map fst m))) @ '']'')
       (those (map (\<lambda>(k, _, v). map_option (Pair k) (any_string num v)) ms))"

definition unmarshal_any_strings :: "number_format \<Rightarrow> raw_message \<Rightarrow> string list option" where
  "unmarshal_any_strings num raw =
     (case json_parse raw of
        Some (JArr xs) \<Rightarrow> those (map (\<lambda>(_, v). any_string num v) xs)
      | Some JNull \<Rightarrow> Some []
      | _ \<Rightarrow> None)"

definition unmarshal_any_string :: "number_format \<Rightarrow> raw_message \<Rightarrow> string option" where
  "unmarshal_any_string num raw = (case json_parse raw of Some v \<Rightarrow> any_string num v | None \<Rightarrow> None)"

section \<open>Documents on the wire\<close>

record SourcedDocument =
  sd_Source :: SourceRef
  sd_Document :: string

record ParseOptions =
  po_AllowMissingAction :: bool
  po_RequireVersion :: bool
  po_AllowedVersions :: "string list"
  po_RequireStatements :: bool
  po_RequirePrincipal :: bool
  po_RejectEmptyElements :: bool
  po_StrictEffect :: bool

definition default_options :: ParseOptions where
  "default_options = \<lparr>po_AllowMissingAction = False, po_RequireVersion = False, po_AllowedVersions = [],
     po_RequireStatements = False, po_RequirePrincipal = False, po_RejectEmptyElements = False, po_StrictEffect = False\<rparr>"

record wireStatement =
  ws_Sid :: string
  ws_Effect :: string
  ws_Action :: raw_message
  ws_NotAction :: raw_message
  ws_Resource :: raw_message
  ws_NotResource :: raw_message
  ws_Principal :: raw_message
  ws_NotPrincipal :: raw_message
  ws_Condition :: "(string \<times> raw_message) list"

definition zero_wire :: wireStatement where
  "zero_wire = \<lparr>ws_Sid = [], ws_Effect = [], ws_Action = [], ws_NotAction = [], ws_Resource = [], ws_NotResource = [],
     ws_Principal = [], ws_NotPrincipal = [], ws_Condition = []\<rparr>"

record wireDocument =
  wd_Version :: string
  wd_Statement :: raw_message

definition json_string_into :: "json \<Rightarrow> string \<Rightarrow> string option" where
  "json_string_into v old = (case v of JStr s \<Rightarrow> Some s | JNull \<Rightarrow> Some old | _ \<Rightarrow> None)"

fun wire_member :: "string \<times> string \<times> json \<Rightarrow> wireStatement option \<Rightarrow> wireStatement option" where
  "wire_member _ None = None"
| "wire_member (name, raw, v) (Some w) =
     (if EqualFold name ''Sid'' then map_option (\<lambda>s. w\<lparr>ws_Sid := s\<rparr>) (json_string_into v (ws_Sid w))
      else if EqualFold name ''Effect'' then map_option (\<lambda>s. w\<lparr>ws_Effect := s\<rparr>) (json_string_into v (ws_Effect w))
      else if EqualFold name ''Action'' then Some (w\<lparr>ws_Action := raw\<rparr>)
      else if EqualFold name ''NotAction'' then Some (w\<lparr>ws_NotAction := raw\<rparr>)
      else if EqualFold name ''Resource'' then Some (w\<lparr>ws_Resource := raw\<rparr>)
      else if EqualFold name ''NotResource'' then Some (w\<lparr>ws_NotResource := raw\<rparr>)
      else if EqualFold name ''Principal'' then Some (w\<lparr>ws_Principal := raw\<rparr>)
      else if EqualFold name ''NotPrincipal'' then Some (w\<lparr>ws_NotPrincipal := raw\<rparr>)
      else if EqualFold name ''Condition'' then
        (case v of
           JObj ms \<Rightarrow> Some (w\<lparr>ws_Condition := merge_members ms (ws_Condition w)\<rparr>)
         | JNull \<Rightarrow> Some (w\<lparr>ws_Condition := []\<rparr>)
         | _ \<Rightarrow> None)
      else Some w)"

definition json_wire :: "json \<Rightarrow> wireStatement option" where
  "json_wire v =
     (case v of JObj ms \<Rightarrow> fold wire_member ms (Some zero_wire) | JNull \<Rightarrow> Some zero_wire | _ \<Rightarrow> None)"

definition unmarshal_wire :: "raw_message \<Rightarrow> wireStatement option" where
  "unmarshal_wire raw = (case json_parse raw of Some v \<Rightarrow> json_wire v | None \<Rightarrow> None)"

definition unmarshal_wires :: "raw_message \<Rightarrow> wireStatement list option" where
  "unmarshal_wires raw =
     (case json_parse raw of
        Some (JArr xs) \<Rightarrow> those (map (\<lambda>(_, v). json_wire v) xs)
      | Some JNull \<Rightarrow> Some []
      | _ \<Rightarrow> None)"

definition unmarshal_raws :: "raw_message \<Rightarrow> raw_message list option" where
  "unmarshal_raws raw =
     (case json_parse raw of Some (JArr xs) \<Rightarrow> Some (map fst xs) | Some JNull \<Rightarrow> Some [] | _ \<Rightarrow> None)"

fun document_member :: "string \<times> string \<times> json \<Rightarrow> wireDocument option \<Rightarrow> wireDocument option" where
  "document_member _ None = None"
| "document_member (name, raw, v) (Some d) =
     (if EqualFold name ''Version'' then map_option (\<lambda>s. d\<lparr>wd_Version := s\<rparr>) (json_string_into v (wd_Version d))
      else if EqualFold name ''Statement'' then Some (d\<lparr>wd_Statement := raw\<rparr>)
      else Some d)"

definition unmarshal_document :: "string \<Rightarrow> wireDocument option" where
  "unmarshal_document raw =
     (case json_parse raw of
        Some (JObj ms) \<Rightarrow> fold document_member ms (Some \<lparr>wd_Version = [], wd_Statement = []\<rparr>)
      | Some JNull \<Rightarrow> Some \<lparr>wd_Version = [], wd_Statement = []\<rparr>
      | _ \<Rightarrow> None)"

section \<open>Positions\<close>

fun line_column :: "string \<Rightarrow> nat \<Rightarrow> int \<Rightarrow> int \<Rightarrow> Position" where
  "line_column (c # cs) (Suc i) line col =
     (if c = CHR 0x0A then line_column cs i (line + 1) 1 else line_column cs i line (col + 1))"
| "line_column _ _ line col = \<lparr>pos_Line = line, pos_Column = col\<rparr>"

definition lineColumn :: "string \<Rightarrow> nat \<Rightarrow> Position" where
  "lineColumn doc offset = line_column doc offset 1 1"

record positionPair =
  pp_Start :: Position
  pp_End :: Position

definition no_position :: positionPair where
  "no_position = \<lparr>pp_Start = \<lparr>pos_Line = 0, pos_Column = 0\<rparr>, pp_End = \<lparr>pos_Line = 0, pos_Column = 0\<rparr>\<rparr>"

fun statement_positions :: "string \<Rightarrow> nat \<Rightarrow> raw_message list \<Rightarrow> positionPair list" where
  "statement_positions doc cursor [] = []"
| "statement_positions doc cursor (text # raws) =
     (if text = [] then no_position # statement_positions doc cursor raws
      else
        (case (case str_index (drop cursor doc) text of Some i \<Rightarrow> Some (i + cursor) | None \<Rightarrow> str_index doc text) of
           None \<Rightarrow> no_position # statement_positions doc cursor raws
         | Some idx \<Rightarrow>
             \<lparr>pp_Start = lineColumn doc idx, pp_End = lineColumn doc (idx + length text - 1)\<rparr>
               # statement_positions doc (idx + length text) raws))"

definition computeStatementPositions :: "string \<Rightarrow> raw_message list \<Rightarrow> positionPair list" where
  "computeStatementPositions doc raws = statement_positions doc 0 raws"

section \<open>Elements\<close>

datatype policy_error = Plain string | Wrapped string

definition docLabel :: "SourceRef \<Rightarrow> string" where
  "docLabel src = (if TrimSpace (src_ID src) = [] then ''the policy document'' else ''policy '' @ src_ID src)"

definition statementLabel :: "SourceRef \<Rightarrow> nat \<Rightarrow> string" where
  "statementLabel src index =
     (if TrimSpace (src_ID src) = [] then ''statement '' @ show_nat (index + 1)
      else ''policy '' @ src_ID src @ '' statement '' @ show_nat (index + 1))"

definition canonicalEffect :: "string \<Rightarrow> string" where
  "canonicalEffect effect = (if EqualFold effect ''Deny'' then ''Deny'' else ''Allow'')"

definition principalHasValues :: "PrincipalSet option \<Rightarrow> bool" where
  "principalHasValues p =
     (case p of None \<Rightarrow> False
      | Some s \<Rightarrow> ps_Anonymous s \<or> ps_AWS s \<noteq> [] \<or> ps_Service s \<noteq> [] \<or> ps_Federated s \<noteq> [] \<or> ps_Unsupported s \<noteq> [])"

definition patternsHaveValues :: "Pattern list \<Rightarrow> bool" where
  "patternsHaveValues patterns \<longleftrightarrow> patterns \<noteq> [] \<and> list_all (\<lambda>p. TrimSpace (pat_raw p) \<noteq> []) patterns"

text \<open>\<open>None\<close> is an error; otherwise the values and whether the element was present.\<close>

definition parseStringOrStringArray :: "raw_message \<Rightarrow> (string list \<times> bool) option" where
  "parseStringOrStringArray raw =
     (if raw = [] \<or> raw = ''null'' then Some ([], False)
      else (case unmarshal_string raw of
         Some single \<Rightarrow> Some ([single], True)
       | None \<Rightarrow> map_option (\<lambda>arr. (arr, True)) (unmarshal_strings raw)))"

definition parsePatterns :: "raw_message \<Rightarrow> string \<Rightarrow> string \<Rightarrow> policy_error + (Pattern list \<times> bool)" where
  "parsePatterns raw loc field =
     (case parseStringOrStringArray raw of
        None \<Rightarrow> Inl (Wrapped (loc @ '': '' @ field @ '' must be a string or a list of strings''))
      | Some (values, present) \<Rightarrow> if present then Inr (map NewPattern values, True) else Inr ([], False))"

text \<open>One entry of a principal block.\<close>

definition principal_entry ::
  "string \<Rightarrow> string \<Rightarrow> string \<times> raw_message \<Rightarrow> PrincipalSet \<Rightarrow> policy_error + PrincipalSet"
where
  "principal_entry loc field kv ps =
     (let (key, valueRaw) = kv in
      case parseStringOrStringArray valueRaw of
        None \<Rightarrow> Inl (Wrapped (loc @ '': '' @ field @ ''.'' @ key @ '' must be a string or a list of strings''))
      | Some (values, _) \<Rightarrow>
          (let kind = ToLower (TrimSpace key) in
           if kind = ''aws'' then
             Inr (fold (\<lambda>v s. if TrimSpace v = ''*'' then s\<lparr>ps_Anonymous := True\<rparr>
                              else s\<lparr>ps_AWS := ps_AWS s @ [NewPattern v]\<rparr>) values ps)
           else if kind = ''service'' then Inr (ps\<lparr>ps_Service := ps_Service ps @ values\<rparr>)
           else if kind = ''federated'' then Inr (ps\<lparr>ps_Federated := ps_Federated ps @ values\<rparr>)
           else Inr (ps\<lparr>ps_Unsupported := ps_Unsupported ps @
                  [loc @ '': '' @ field @ '' type '' @ go_quote key @ '' is not evaluated'']\<rparr>)))"

fun fold_result :: "('a \<Rightarrow> 'b \<Rightarrow> 'e + 'b) \<Rightarrow> 'a list \<Rightarrow> 'b \<Rightarrow> 'e + 'b" where
  "fold_result f [] b = Inr b"
| "fold_result f (x # xs) b = (case f x b of Inl e \<Rightarrow> Inl e | Inr b' \<Rightarrow> fold_result f xs b')"

definition empty_principals :: PrincipalSet where
  "empty_principals = \<lparr>ps_Anonymous = False, ps_AWS = [], ps_Service = [], ps_Federated = [], ps_Unsupported = []\<rparr>"

definition parsePrincipal :: "raw_message \<Rightarrow> string \<Rightarrow> string \<Rightarrow> policy_error + PrincipalSet option" where
  "parsePrincipal raw loc field =
     (if raw = [] \<or> raw = ''null'' then Inr None
      else (case unmarshal_string raw of
         Some wildcard \<Rightarrow>
           if TrimSpace wildcard \<noteq> ''*''
           then Inl (Plain (loc @ '': '' @ field @ '' as a bare string must be '' @ go_quote ''*'' @ '', got '' @ go_quote wildcard))
           else Inr (Some (empty_principals\<lparr>ps_Anonymous := True\<rparr>))
       | None \<Rightarrow>
           (case unmarshal_map raw of
              None \<Rightarrow> Inl (Wrapped (loc @ '': '' @ field @ '' must be '' @ go_quote ''*'' @ '' or an object''))
            | Some block \<Rightarrow>
                (case fold_result (principal_entry loc field) block empty_principals of
                   Inl e \<Rightarrow> Inl e | Inr ps \<Rightarrow> Inr (Some ps)))))"

text \<open>The values of one condition key: \<open>Inr None\<close> when the key is skipped.\<close>

definition condition_values ::
  "number_format \<Rightarrow> string \<Rightarrow> string \<Rightarrow> string \<Rightarrow> raw_message \<Rightarrow> policy_error + string list option"
where
  "condition_values num loc op k vRaw =
     (case parseStringOrStringArray vRaw of
        Some (vals, present) \<Rightarrow> Inr (if present then Some vals else None)
      | None \<Rightarrow>
          (case unmarshal_any_strings num vRaw of
             Some vals \<Rightarrow> Inr (if vals \<noteq> [] then Some vals else None)
           | None \<Rightarrow>
               (case unmarshal_any_string num vRaw of
                  Some v \<Rightarrow> Inr (Some [v])
                | None \<Rightarrow> Inl (Wrapped (loc @ '': Condition '' @ go_quote op @ '' key '' @ go_quote k
                                      @ '' has an unreadable value'')))))"

definition condition_key ::
  "number_format \<Rightarrow> string \<Rightarrow> string \<Rightarrow> string \<times> raw_message \<Rightarrow> (string \<times> string list) list
    \<Rightarrow> policy_error + (string \<times> string list) list"
where
  "condition_key num loc op kv keyMap =
     (case condition_values num loc op (fst kv) (snd kv) of
        Inl e \<Rightarrow> Inl e
      | Inr None \<Rightarrow> Inr keyMap
      | Inr (Some vals) \<Rightarrow> Inr (keyMap @ [(fst kv, vals)]))"

definition condition_operator ::
  "number_format \<Rightarrow> string \<Rightarrow> string \<times> raw_message \<Rightarrow> condition_block \<Rightarrow> policy_error + condition_block"
where
  "condition_operator num loc ok out =
     (let (op, keyRaw) = ok in
      case unmarshal_map keyRaw of
        None \<Rightarrow> Inl (Wrapped (loc @ '': Condition '' @ go_quote op @ '' must be an object of condition keys''))
      | Some pairs \<Rightarrow>
          (case fold_result (condition_key num loc op) pairs [] of
             Inl e \<Rightarrow> Inl e
           | Inr keyMap \<Rightarrow> Inr (if keyMap \<noteq> [] then out @ [(op, keyMap)] else out)))"

definition parseConditionBlock :: "number_format \<Rightarrow> (string \<times> raw_message) list \<Rightarrow> string \<Rightarrow> policy_error + condition_block" where
  "parseConditionBlock num raw loc = fold_result (condition_operator num loc) raw []"

section \<open>Statements and documents\<close>

definition effect_check :: "ParseOptions \<Rightarrow> string \<Rightarrow> string \<Rightarrow> policy_error option" where
  "effect_check opts loc raw =
     (let effect = TrimSpace raw in
      if po_StrictEffect opts then
        (if effect \<noteq> ''Allow'' \<and> effect \<noteq> ''Deny''
         then Some (Plain (loc @ '': Effect must be exactly '' @ go_quote ''Allow'' @ '' or '' @ go_quote ''Deny''
                           @ '', got '' @ go_quote raw)) else None)
      else if \<not> EqualFold effect ''Allow'' \<and> \<not> EqualFold effect ''Deny''
      then Some (Plain (loc @ '': Effect must be Allow or Deny, got '' @ go_quote raw)) else None)"

fun empty_element :: "(string \<times> Pattern list \<times> bool) list \<Rightarrow> string option" where
  "empty_element [] = None"
| "empty_element ((field, values, present) # es) =
     (if present \<and> \<not> patternsHaveValues values then Some field else empty_element es)"

definition compileStatement ::
  "number_format \<Rightarrow> wireStatement \<Rightarrow> SourceRef \<Rightarrow> nat \<Rightarrow> ParseOptions \<Rightarrow> policy_error + Statement"
where
  "compileStatement num ws src index opts =
     (let loc = statementLabel src index in
      case effect_check opts loc (ws_Effect ws) of Some e \<Rightarrow> Inl e | None \<Rightarrow>
      (case parsePatterns (ws_Action ws) loc ''Action'' of Inl e \<Rightarrow> Inl e | Inr (actions, hasAction) \<Rightarrow>
      (case parsePatterns (ws_NotAction ws) loc ''NotAction'' of Inl e \<Rightarrow> Inl e | Inr (notActions, hasNotAction) \<Rightarrow>
      (case parsePatterns (ws_Resource ws) loc ''Resource'' of Inl e \<Rightarrow> Inl e | Inr (resources, hasResource) \<Rightarrow>
      (case parsePatterns (ws_NotResource ws) loc ''NotResource'' of Inl e \<Rightarrow> Inl e | Inr (notResources, hasNotResource) \<Rightarrow>
      if hasAction \<and> hasNotAction then Inl (Plain (loc @ '': has both Action and NotAction''))
      else if \<not> hasAction \<and> \<not> hasNotAction \<and> \<not> po_AllowMissingAction opts
      then Inl (Plain (loc @ '': has neither Action nor NotAction''))
      else if hasResource \<and> hasNotResource then Inl (Plain (loc @ '': has both Resource and NotResource''))
      else
        (case (if po_RejectEmptyElements opts
               then empty_element [(''Action'', actions, hasAction), (''NotAction'', notActions, hasNotAction),
                 (''Resource'', resources, hasResource), (''NotResource'', notResources, hasNotResource)]
               else None) of
           Some field \<Rightarrow> Inl (Plain (loc @ '': '' @ field @ '' has no values''))
         | None \<Rightarrow>
      (case parsePrincipal (ws_Principal ws) loc ''Principal'' of Inl e \<Rightarrow> Inl e | Inr princ \<Rightarrow>
      (case parsePrincipal (ws_NotPrincipal ws) loc ''NotPrincipal'' of Inl e \<Rightarrow> Inl e | Inr notPrincipal \<Rightarrow>
      if po_RequirePrincipal opts \<and> princ = None then Inl (Plain (loc @ '': has no Principal''))
      else if po_RequirePrincipal opts \<and> \<not> principalHasValues princ
      then Inl (Plain (loc @ '': Principal has no values''))
      else
      (case parseConditionBlock num (ws_Condition ws) loc of Inl e \<Rightarrow> Inl e | Inr cond \<Rightarrow>
      Inr \<lparr>s_Sid = TrimSpace (ws_Sid ws), s_Effect = canonicalEffect (TrimSpace (ws_Effect ws)), s_Source = src,
           s_Index = int index, s_StartPosition = None, s_EndPosition = None,
           s_Action = actions, s_NotAction = notActions, s_Resource = resources, s_NotResource = notResources,
           s_ResourceSpecified = (hasResource \<or> hasNotResource), s_Principal = princ,
           s_NotPrincipal = notPrincipal, s_Condition = cond\<rparr>)))))))))"

text \<open>The loop over the statements of a document.\<close>

fun compile_all ::
  "number_format \<Rightarrow> SourceRef \<Rightarrow> ParseOptions \<Rightarrow> positionPair list \<Rightarrow> nat \<Rightarrow> wireStatement list \<Rightarrow> policy_error + Statement list"
where
  "compile_all num src opts positions i [] = Inr []"
| "compile_all num src opts positions i (ws # wires) =
     (case compileStatement num ws src i opts of
        Inl e \<Rightarrow> Inl e
      | Inr stmt \<Rightarrow>
          let stmt' = (if i < length positions \<and> 0 < pos_Line (pp_Start (positions ! i))
                       then stmt\<lparr>s_StartPosition := Some (pp_Start (positions ! i)),
                                 s_EndPosition := Some (pp_End (positions ! i))\<rparr>
                       else stmt)
          in (case compile_all num src opts positions (i + 1) wires of Inl e \<Rightarrow> Inl e | Inr out \<Rightarrow> Inr (stmt' # out)))"

text \<open>A list of statements, or a single one; with the bytes of each.\<close>

definition wire_statements :: "raw_message \<Rightarrow> (wireStatement list \<times> raw_message list) option" where
  "wire_statements raw =
     (case unmarshal_wires raw of
        None \<Rightarrow> map_option (\<lambda>single. ([single], [raw])) (unmarshal_wire raw)
      | Some wires \<Rightarrow>
          (case unmarshal_raws raw of
             Some raws \<Rightarrow> Some (wires, if length raws \<noteq> length wires then [] else raws)
           | None \<Rightarrow> Some (wires, [])))"

definition ParseDocumentWithOptions ::
  "number_format \<Rightarrow> string \<Rightarrow> SourceRef \<Rightarrow> ParseOptions \<Rightarrow> policy_error + Statement list"
where
  "ParseDocumentWithOptions num raw src opts =
     (case unmarshal_document raw of
        None \<Rightarrow> Inl (Wrapped (docLabel src @ '' is not valid JSON''))
      | Some wd \<Rightarrow>
          if wd_Statement wd = [] then Inl (Plain (docLabel src @ '' has no Statement element''))
          else
            let version = TrimSpace (wd_Version wd) in
            if po_RequireVersion opts \<and> version = [] then Inl (Plain (docLabel src @ '' has no Version element''))
            else if version \<noteq> [] \<and> po_AllowedVersions opts \<noteq> [] \<and> \<not> containsString (po_AllowedVersions opts) version
            then Inl (Plain (docLabel src @ '' has an unsupported Version '' @ go_quote (wd_Version wd)))
            else
              (case wire_statements (wd_Statement wd) of
                 None \<Rightarrow> Inl (Wrapped (docLabel src @
                      '' has a Statement that is neither a statement nor a list of statements''))
               | Some (wires, rawStmts) \<Rightarrow>
                   if po_RequireStatements opts \<and> wires = [] then Inl (Plain (docLabel src @ '' has an empty Statement list''))
                   else
                     let positions = (if length rawStmts = length wires then computeStatementPositions raw rawStmts else [])
                     in compile_all num src opts positions 0 wires))"

definition ParseDocument :: "number_format \<Rightarrow> string \<Rightarrow> SourceRef \<Rightarrow> policy_error + Statement list" where
  "ParseDocument num raw src = ParseDocumentWithOptions num raw src default_options"

fun Compile :: "number_format \<Rightarrow> SourcedDocument list \<Rightarrow> policy_error + Statement list" where
  "Compile num [] = Inr []"
| "Compile num (doc # docs) =
     (case ParseDocument num (sd_Document doc) (sd_Source doc) of
        Inl e \<Rightarrow> Inl e
      | Inr stmts \<Rightarrow> (case Compile num docs of Inl e \<Rightarrow> Inl e | Inr out \<Rightarrow> Inr (stmts @ out)))"

definition NewBoundary :: "number_format \<Rightarrow> string \<Rightarrow> SourceRef \<Rightarrow> Boundary \<times> policy_error option" where
  "NewBoundary num document src =
     (case ParseDocument num document src of
        Inl e \<Rightarrow> (\<lparr>b_Statements = []\<rparr>, Some e)
      | Inr stmts \<Rightarrow> (\<lparr>b_Statements = stmts\<rparr>, None))"

definition boundaryOptions :: ParseOptions where
  "boundaryOptions = default_options\<lparr>po_RequireStatements := True, po_StrictEffect := True,
     po_AllowedVersions := [''2008-10-17'', ''2012-10-17'']\<rparr>"

text \<open>
  \<open>ValidateDocument\<close>: \<open>None\<close> is Go's nil error.  The probe into an interface value fails
  on text that is not JSON and on numbers out of range.
\<close>

definition ValidateDocument :: "number_format \<Rightarrow> string \<Rightarrow> policy_error option" where
  "ValidateDocument num raw =
     (case json_parse raw of
        None \<Rightarrow> Some (Wrapped ''the policy document is not valid JSON'')
      | Some probe \<Rightarrow>
          if any_string num probe = None then Some (Wrapped ''the policy document is not valid JSON'')
          else (case probe of
             JObj _ \<Rightarrow>
               (case ParseDocumentWithOptions num raw \<lparr>src_ID = [], src_Type = []\<rparr> boundaryOptions of
                  Inl e \<Rightarrow> Some e | Inr _ \<Rightarrow> None)
           | _ \<Rightarrow> Some (Plain ''the policy document must be a JSON object'')))"

section \<open>What a compiled statement satisfies\<close>

lemma compileStatement_InrE:
  assumes "compileStatement num ws src i opts = Inr s"
  obtains actions hasAction notActions hasNotAction resources hasResource notResources hasNotResource pr npr cond where
    "effect_check opts (statementLabel src i) (ws_Effect ws) = None"
    "parsePatterns (ws_Action ws) (statementLabel src i) ''Action'' = Inr (actions, hasAction)"
    "parsePatterns (ws_NotAction ws) (statementLabel src i) ''NotAction'' = Inr (notActions, hasNotAction)"
    "parsePatterns (ws_Resource ws) (statementLabel src i) ''Resource'' = Inr (resources, hasResource)"
    "parsePatterns (ws_NotResource ws) (statementLabel src i) ''NotResource'' = Inr (notResources, hasNotResource)"
    "\<not> (hasAction \<and> hasNotAction)" "hasAction \<or> hasNotAction \<or> po_AllowMissingAction opts" "\<not> (hasResource \<and> hasNotResource)"
    "parsePrincipal (ws_Principal ws) (statementLabel src i) ''Principal'' = Inr pr"
    "parsePrincipal (ws_NotPrincipal ws) (statementLabel src i) ''NotPrincipal'' = Inr npr"
    "po_RequirePrincipal opts \<longrightarrow> principalHasValues pr"
    "parseConditionBlock num (ws_Condition ws) (statementLabel src i) = Inr cond"
    "s = \<lparr>s_Sid = TrimSpace (ws_Sid ws), s_Effect = canonicalEffect (TrimSpace (ws_Effect ws)), s_Source = src,
           s_Index = int i, s_StartPosition = None, s_EndPosition = None,
           s_Action = actions, s_NotAction = notActions, s_Resource = resources, s_NotResource = notResources,
           s_ResourceSpecified = (hasResource \<or> hasNotResource), s_Principal = pr,
           s_NotPrincipal = npr, s_Condition = cond\<rparr>"
  using assms unfolding compileStatement_def Let_def
  by (auto split: option.split_asm sum.split_asm prod.split_asm if_split_asm)

lemma parsePatterns_absent: "parsePatterns raw loc f = Inr (ps, False) \<Longrightarrow> ps = []"
  by (auto simp: parsePatterns_def split: option.splits if_splits)

definition wf_statement :: "Statement \<Rightarrow> bool" where
  "wf_statement s \<longleftrightarrow> s_Effect s \<in> {''Allow'', ''Deny''} \<and> (s_Action s = [] \<or> s_NotAction s = [])
     \<and> (s_Resource s = [] \<or> s_NotResource s = [])
     \<and> (\<not> s_ResourceSpecified s \<longrightarrow> s_Resource s = [] \<and> s_NotResource s = [])"

lemma compileStatement_wf:
  assumes "compileStatement num ws src i opts = Inr s"
  shows "wf_statement s \<and> s_Source s = src \<and> s_Index s = int i"
  using assms
proof (cases rule: compileStatement_InrE)
  case (1 actions hasAction notActions hasNotAction resources hasResource notResources hasNotResource pr npr cond)
  have "\<not> hasAction \<Longrightarrow> actions = []" "\<not> hasNotAction \<Longrightarrow> notActions = []" "\<not> hasResource \<Longrightarrow> resources = []"
    "\<not> hasNotResource \<Longrightarrow> notResources = []" using 1(2-5) parsePatterns_absent by force+
  with 1 show ?thesis by (auto simp: wf_statement_def canonicalEffect_def)
qed

lemma compile_all_nth:
  assumes "compile_all num src opts positions i wires = Inr out"
  shows "length out = length wires \<and> (\<forall>k < length out. wf_statement (out ! k) \<and> s_Source (out ! k) = src
    \<and> s_Index (out ! k) = int (i + k))"
  using assms
proof (induction wires arbitrary: i out)
  case (Cons ws wires)
  obtain st where st: "compileStatement num ws src i opts = Inr st" using Cons.prems by (auto split: sum.splits)
  obtain out' where out': "compile_all num src opts positions (i + 1) wires = Inr out'"
    using Cons.prems st by (auto simp: Let_def split: sum.splits)
  obtain st' where out: "out = st' # out'" and st': "wf_statement st' = wf_statement st" "s_Source st' = s_Source st"
    "s_Index st' = s_Index st"
    using Cons.prems st out' by (auto simp: Let_def wf_statement_def)
  show ?case
    using Cons.IH [OF out'] compileStatement_wf [OF st] st' by (auto simp: out nth_Cons split: nat.split)
qed simp

lemma ParseDocumentWithOptions_compile:
  assumes "ParseDocumentWithOptions num raw src opts = Inr stmts"
  obtains wd wires raws positions where "unmarshal_document raw = Some wd" "wd_Statement wd \<noteq> []"
    "wire_statements (wd_Statement wd) = Some (wires, raws)"
    "positions = (if length raws = length wires then computeStatementPositions raw raws else [])"
    "compile_all num src opts positions 0 wires = Inr stmts" "po_RequireStatements opts \<longrightarrow> wires \<noteq> []"
  using assms unfolding ParseDocumentWithOptions_def Let_def
  by (auto split: option.split_asm prod.split_asm if_split_asm)

section \<open>The boundary check and the evaluator read the same documents\<close>

lemma fold_result_mono:
  assumes "\<And>x b r. f x b = Inr r \<Longrightarrow> g x b = Inr r" "fold_result f xs b = Inr r"
  shows "fold_result g xs b = Inr r"
  using assms(2)
proof (induction xs arbitrary: b)
  case (Cons x xs)
  then show ?case using assms(1) by (auto split: sum.splits)
qed simp

lemma fold_result_succeeds:
  assumes "\<And>x b. (\<exists>r. f x b = Inr r) \<longleftrightarrow> P x"
  shows "(\<exists>r. fold_result f xs b = Inr r) \<longleftrightarrow> (\<forall>x \<in> set xs. P x)"
proof (induction xs arbitrary: b)
  case (Cons x xs)
  show ?case using Cons.IH assms [of x b] by (cases "f x b") auto
qed simp

lemma parsePatterns_loc: "parsePatterns raw loc f = Inr x \<Longrightarrow> parsePatterns raw loc' f' = Inr x"
  by (auto simp: parsePatterns_def split: option.splits if_splits)

lemma principal_entry_succeeds:
  "(\<exists>r. principal_entry loc f kv ps = Inr r) \<longleftrightarrow> parseStringOrStringArray (snd kv) \<noteq> None"
  by (cases kv) (auto simp: principal_entry_def Let_def split: option.split)

lemma parsePrincipal_loc:
  assumes "parsePrincipal raw loc f = Inr p"
  shows "\<exists>p'. parsePrincipal raw loc' f' = Inr p'"
proof (cases "raw = [] \<or> raw = ''null''")
  case False
  show ?thesis
  proof (cases "unmarshal_string raw")
    case None
    then obtain block where b: "unmarshal_map raw = Some block"
      and "\<exists>r. fold_result (principal_entry loc f) block empty_principals = Inr r"
      using assms False by (auto simp: parsePrincipal_def split: option.splits sum.splits)
    moreover have "(\<exists>r. fold_result (principal_entry l g) block empty_principals = Inr r)
        \<longleftrightarrow> (\<forall>x \<in> set block. parseStringOrStringArray (snd x) \<noteq> None)" for l g
      by (rule fold_result_succeeds) (rule principal_entry_succeeds)
    ultimately obtain r where "fold_result (principal_entry loc' f') block empty_principals = Inr r" by blast
    then show ?thesis using False None b by (auto simp: parsePrincipal_def)
  qed (use assms False in \<open>auto simp: parsePrincipal_def split: if_splits\<close>)
qed (simp add: parsePrincipal_def)

lemma parseConditionBlock_loc:
  assumes "parseConditionBlock num raw loc = Inr c"
  shows "parseConditionBlock num raw loc' = Inr c"
proof -
  have v: "condition_values num loc op k vr = Inr r \<Longrightarrow> condition_values num loc' op k vr = Inr r" for op k vr r
    by (auto simp: condition_values_def split: option.splits)
  have k: "condition_key num loc op kv b = Inr r \<Longrightarrow> condition_key num loc' op kv b = Inr r" for op kv b r
    using v by (force simp: condition_key_def split: sum.splits option.splits)
  have "condition_operator num loc x b = Inr r \<Longrightarrow> condition_operator num loc' x b = Inr r" for x b r
    using fold_result_mono [OF k] by (cases x) (force simp: condition_operator_def split: option.splits sum.splits)
  from fold_result_mono [OF this] assms show ?thesis by (simp add: parseConditionBlock_def)
qed

lemma EqualFold_effect: "effect_check boundaryOptions loc raw = None \<Longrightarrow> effect_check default_options loc' raw = None"
  by (auto simp: effect_check_def Let_def boundaryOptions_def default_options_def split: if_splits)

lemma compileStatement_default:
  assumes "compileStatement num ws src i boundaryOptions = Inr s"
  shows "\<exists>s'. compileStatement num ws src' i default_options = Inr s'"
  using assms
proof (cases rule: compileStatement_InrE)
  case (1 actions hasAction notActions hasNotAction resources hasResource notResources hasNotResource pr npr cond)
  let ?l = "statementLabel src' i"
  obtain pr' npr' where "parsePrincipal (ws_Principal ws) ?l ''Principal'' = Inr pr'"
    "parsePrincipal (ws_NotPrincipal ws) ?l ''NotPrincipal'' = Inr npr'"
    using parsePrincipal_loc [OF 1(9)] parsePrincipal_loc [OF 1(10)] by blast
  moreover have "hasAction \<or> hasNotAction" using 1(7) by (simp add: boundaryOptions_def default_options_def)
  moreover note EqualFold_effect [OF 1(1), of ?l] 1(2-5) [THEN parsePatterns_loc, of ?l] 1(6,8)
    parseConditionBlock_loc [OF 1(12), of ?l]
  ultimately show ?thesis
    unfolding compileStatement_def Let_def by (auto simp: default_options_def)
qed

lemma compile_all_default:
  assumes "compile_all num src boundaryOptions positions i wires = Inr out"
  shows "\<exists>out'. compile_all num src' default_options positions i wires = Inr out'"
  using assms
proof (induction wires arbitrary: i out)
  case (Cons ws wires)
  obtain st where st: "compileStatement num ws src i boundaryOptions = Inr st" using Cons.prems by (auto split: sum.splits)
  obtain out1 where "compile_all num src boundaryOptions positions (i + 1) wires = Inr out1"
    using Cons.prems st by (auto simp: Let_def split: sum.splits)
  from Cons.IH [OF this] compileStatement_default [OF st, of src'] show ?case by (auto simp: Let_def)
qed simp

lemma ParseDocument_of_boundary:
  assumes "ParseDocumentWithOptions num raw src boundaryOptions = Inr stmts"
  shows "\<exists>stmts'. ParseDocument num raw src' = Inr stmts' \<and> length stmts' = length stmts \<and> stmts' \<noteq> []"
  using assms
proof (cases rule: ParseDocumentWithOptions_compile)
  case (1 wd wires raws positions)
  obtain out where out: "compile_all num src' default_options positions 0 wires = Inr out"
    using compile_all_default [OF 1(5)] by blast
  have "length stmts = length wires" "length out = length wires"
    using compile_all_nth [OF 1(5)] compile_all_nth [OF out] by auto
  moreover have "wires \<noteq> []" using 1(6) by (simp add: boundaryOptions_def)
  moreover have "ParseDocument num raw src' = Inr out"
    using 1(1-4) out by (simp add: ParseDocument_def ParseDocumentWithOptions_def default_options_def Let_def split: if_split)
  ultimately show ?thesis by auto
qed

section \<open>Positions point at the statement\<close>

lemma statement_positions_length [simp]: "length (statement_positions doc cursor raws) = length raws"
  by (induction raws arbitrary: cursor) (auto split: option.split)

lemma line_column_pos: "0 < line \<Longrightarrow> 0 < pos_Line (line_column s i line col)"
  by (induction s i line col rule: line_column.induct) auto

lemma statement_positions_correct:
  assumes "k < length raws" "0 < pos_Line (pp_Start (statement_positions doc cursor raws ! k))"
  shows "\<exists>i. HasPrefix (drop i doc) (raws ! k) \<and> i + length (raws ! k) \<le> length doc
    \<and> pp_Start (statement_positions doc cursor raws ! k) = lineColumn doc i
    \<and> pp_End (statement_positions doc cursor raws ! k) = lineColumn doc (i + length (raws ! k) - 1)"
  using assms
proof (induction raws arbitrary: cursor k)
  case (Cons tx raws)
  let ?idx = "case str_index (drop cursor doc) tx of Some i \<Rightarrow> Some (i + cursor) | None \<Rightarrow> str_index doc tx"
  show ?case
  proof (cases k)
    case 0
    then obtain idx where t: "tx \<noteq> []" "?idx = Some idx"
      using Cons.prems(2) by (auto simp: no_position_def split: if_splits option.split_asm)
    have "HasPrefix (drop idx doc) tx \<and> idx + length tx \<le> length doc"
    proof (cases "str_index (drop cursor doc) tx")
      case (Some i)
      have "0 < length tx" "i + length tx \<le> length doc - cursor" using t(1) str_index_Some [OF Some] by auto
      then have "i + cursor + length tx \<le> length doc" by linarith
      then show ?thesis using str_index_Some [OF Some] t(2) Some by (auto simp: add.commute)
    qed (use t str_index_Some in auto)
    with t 0 show ?thesis by (intro exI [of _ idx]) simp
  next
    case (Suc k')
    then show ?thesis using Cons.IH [of k'] Cons.prems by (auto split: if_splits option.splits)
  qed
qed simp

section \<open>Sample documents\<close>

text \<open>A tilde stands for a double quote, to keep the samples readable.\<close>

definition dquote :: "string \<Rightarrow> string" where
  "dquote s = map (\<lambda>c. if c = CHR ''~'' then CHR 0x22 else c) s"

definition sample_num :: number_format where
  "sample_num l = Some l"

definition sample_src :: SourceRef where
  "sample_src = \<lparr>src_ID = ''p'', src_Type = ''IAM Policy''\<rparr>"

definition sample_doc :: string where
  "sample_doc = dquote ''{~Version~:~2012-10-17~,~Statement~:[{~Effect~:~Deny~,~Action~:~s3:*~,~Resource~:~*~}]}''"

lemma sample_doc_valid: "ValidateDocument sample_num sample_doc = None"
  by code_simp

section \<open>Properties\<close>

text \<open>
  C27. The boundary check and the evaluator cannot disagree: a document that
  \<open>ValidateDocument\<close> accepts is one the evaluator can read, under every source, and it
  yields at least one statement, every one with a canonical effect.
\<close>

theorem validated_document_parses:
  assumes "ValidateDocument num raw = None"
  shows "\<exists>stmts. ParseDocument num raw src = Inr stmts \<and> stmts \<noteq> []
    \<and> (\<forall>s \<in> set stmts. s_Effect s \<in> {''Allow'', ''Deny''} \<and> s_Source s = src)"
proof -
  obtain st where "ParseDocumentWithOptions num raw \<lparr>src_ID = [], src_Type = []\<rparr> boundaryOptions = Inr st"
    using assms by (auto simp: ValidateDocument_def split: option.splits if_splits json.splits sum.splits)
  from ParseDocument_of_boundary [OF this, of src] obtain stmts where
    st: "ParseDocument num raw src = Inr stmts" "stmts \<noteq> []" by blast
  from st(1) have "\<forall>k < length stmts. wf_statement (stmts ! k) \<and> s_Source (stmts ! k) = src"
    unfolding ParseDocument_def by (cases rule: ParseDocumentWithOptions_compile) (auto dest: compile_all_nth)
  then have "\<forall>s \<in> set stmts. s_Effect s \<in> {''Allow'', ''Deny''} \<and> s_Source s = src"
    by (auto simp: in_set_conv_nth wf_statement_def)
  with st show ?thesis by blast
qed

theorem validated_document_parses_witness:
  "\<exists>stmts. ParseDocument sample_num sample_doc sample_src = Inr stmts \<and> stmts \<noteq> []"
  using validated_document_parses [OF sample_doc_valid] by blast

text \<open>
  C28. Every statement a document compiles to, under any options, has exactly the shape the
  evaluator relies on: a canonical effect, never both Action and NotAction nor both
  Resource and NotResource, no resource patterns unless the element was present, its
  source, and its position in the document as index.
\<close>

theorem parsed_statements_wf:
  assumes "ParseDocumentWithOptions num raw src opts = Inr stmts" "k < length stmts"
  shows "wf_statement (stmts ! k) \<and> s_Source (stmts ! k) = src \<and> s_Index (stmts ! k) = int k"
  using assms(1)
proof (cases rule: ParseDocumentWithOptions_compile)
  case (1 wd wires raws positions)
  with compile_all_nth [OF 1(5)] assms(2) show ?thesis by simp
qed

theorem parsed_statements_wf_witness:
  "wf_statement (projr (ParseDocumentWithOptions sample_num sample_doc sample_src default_options) ! 0)"
proof -
  have "\<exists>s. ParseDocumentWithOptions sample_num sample_doc sample_src default_options = Inr [s]"
  proof -
    have "map_sum id length (ParseDocumentWithOptions sample_num sample_doc sample_src default_options) = Inr 1" by code_simp
    then show ?thesis
      by (cases "ParseDocumentWithOptions sample_num sample_doc sample_src default_options") (auto simp: length_Suc_conv)
  qed
  then obtain s where "ParseDocumentWithOptions sample_num sample_doc sample_src default_options = Inr [s]" by blast
  from parsed_statements_wf [OF this, of 0] this show ?thesis by simp
qed

text \<open>
  Compiling a set of policies drops nothing: it succeeds exactly when every document
  can be read, and then the result is all their statements, in order.
\<close>

theorem Compile_complete:
  "Compile num docs = Inr out \<longleftrightarrow>
     (\<exists>parts. list_all2 (\<lambda>doc stmts. ParseDocument num (sd_Document doc) (sd_Source doc) = Inr stmts) docs parts
       \<and> out = concat parts)"
proof (induction docs arbitrary: out)
  case (Cons doc docs)
  show ?case
  proof (cases "ParseDocument num (sd_Document doc) (sd_Source doc)")
    case (Inr stmts)
    then have "Compile num (doc # docs) = Inr out \<longleftrightarrow> (\<exists>rest. Compile num docs = Inr rest \<and> out = stmts @ rest)"
      by (auto split: sum.split)
    with Inr Cons.IH show ?thesis by (auto simp: list_all2_Cons1)
  qed (auto simp: list_all2_Cons1)
qed auto

text \<open>
  C29. An unreadable permissions boundary fails closed: the boundary made of a document that
  does not parse allows no request, whatever the identity and resource policies grant.
\<close>

theorem unreadable_boundary_denies:
  assumes "snd (NewBoundary num document src) \<noteq> None"
  shows "r_Decision (Evaluate lib (inp\<lparr>in_Boundary := Some (fst (NewBoundary num document src))\<rparr>)) \<noteq> DecisionAllowed"
  using assms
  by (auto simp: NewBoundary_def Evaluate_decision Let_def some_allow_def some_deny_def split: sum.splits)

theorem unreadable_boundary_denies_witness:
  "r_Decision (Evaluate sample_lib ((sample_input [allow_all] None)
     \<lparr>in_Boundary := Some (fst (NewBoundary sample_num ''not json'' sample_src))\<rparr>)) \<noteq> DecisionAllowed"
proof -
  have "snd (NewBoundary sample_num ''not json'' sample_src) \<noteq> None" by code_simp
  then show ?thesis by (rule unreadable_boundary_denies)
qed

text \<open>
  A reported position is one of the statement's own text: the bytes of the document
  that start there are the statement, and the end position is that of its last byte.
\<close>

theorem statement_position_correct:
  assumes "k < length raws" "0 < pos_Line (pp_Start (computeStatementPositions doc raws ! k))"
  shows "\<exists>i. HasPrefix (drop i doc) (raws ! k)
    \<and> pp_Start (computeStatementPositions doc raws ! k) = lineColumn doc i
    \<and> pp_End (computeStatementPositions doc raws ! k) = lineColumn doc (i + length (raws ! k) - 1)"
  using statement_positions_correct [OF assms [unfolded computeStatementPositions_def]]
  by (auto simp: computeStatementPositions_def)

theorem statement_position_correct_witness:
  "\<exists>i. HasPrefix (drop i ''[{},{}]'') ''{}''
    \<and> pp_Start (computeStatementPositions ''[{},{}]'' [''{}'', ''{}''] ! 1) = lineColumn ''[{},{}]'' i"
proof -
  have "0 < pos_Line (pp_Start (computeStatementPositions ''[{},{}]'' [''{}'', ''{}''] ! 1))" by code_simp
  from statement_position_correct [OF _ this] show ?thesis by auto
qed

text \<open>
  The position search can nevertheless find the wrong occurrence: a document that
  carries the same bytes earlier, here in an element the grammar does not know, has its
  statement reported at the copy.
\<close>

theorem statement_position_earlier_copy:
  "map_sum id (map (map_option pos_Column \<circ> s_StartPosition))
     (ParseDocument sample_num
       (dquote ''{~X~:{~Effect~:~Deny~,~Action~:~*~},~Statement~:{~Effect~:~Deny~,~Action~:~*~}}'') sample_src)
   = Inr [Some 6]"
  by code_simp

text \<open>
  The check at the API boundary accepts a statement with both Principal and
  NotPrincipal, and the evaluator then reads it as well.
\<close>

theorem principal_and_notprincipal_accepted:
  "ValidateDocument sample_num
     (dquote ''{~Statement~:{~Effect~:~Allow~,~Action~:~*~,~Principal~:~*~,~NotPrincipal~:~*~}}'') = None"
  by code_simp

text \<open>
  A document whose Statement is null is read by the evaluator as a policy without
  statements, not refused.
\<close>

theorem null_statement_is_empty_policy:
  "ParseDocument num (dquote ''{~Statement~:null}'') src = Inr []
   \<and> ValidateDocument sample_num (dquote ''{~Statement~:null}'') \<noteq> None"
proof
  have "unmarshal_document (dquote ''{~Statement~:null}'') = Some \<lparr>wd_Version = [], wd_Statement = ''null''\<rparr>" by code_simp
  moreover have "wire_statements ''null'' = Some ([], [])" by code_simp
  ultimately show "ParseDocument num (dquote ''{~Statement~:null}'') src = Inr []"
    by (simp add: ParseDocument_def ParseDocumentWithOptions_def default_options_def TrimSpace_def)
  show "ValidateDocument sample_num (dquote ''{~Statement~:null}'') \<noteq> None" by code_simp
qed

end
