(* ===== verification/Civil_Time.thy ===== *)
theory Civil_Time
  imports Main
begin

text \<open>
  The proleptic Gregorian calendar behind Go's \<^verbatim>\<open>time\<close> package, in UTC: the fields of an
  instant and \<^verbatim>\<open>time.Date\<close>, which normalises months and days that are out of range.  An
  instant is the number of nanoseconds since 1970-01-01T00:00:00Z, a day the number of
  days since then.
\<close>

section \<open>Years\<close>

definition leap :: "int \<Rightarrow> bool" where
  "leap y \<longleftrightarrow> (y mod 4 = 0 \<and> y mod 100 \<noteq> 0) \<or> y mod 400 = 0"

definition year_len :: "int \<Rightarrow> int" where
  "year_len y = (if leap y then 366 else 365)"

definition leaps_before :: "int \<Rightarrow> int" where
  "leaps_before y = (y - 1) div 4 - (y - 1) div 100 + (y - 1) div 400"

text \<open>The day of 1 January; 477 leap years precede 1970.\<close>

definition year_start :: "int \<Rightarrow> int" where
  "year_start y = 365 * (y - 1970) + leaps_before y - 477"

lemma div_step: "0 < k \<Longrightarrow> y div k = (y - 1) div k + (if y mod k = 0 then 1 else 0)" for y k :: int
proof -
  assume k: "0 < k"
  have y: "y = k * (y div k) + y mod k" by simp
  show ?thesis
  proof (cases "y mod k = 0")
    case True
    then have "y - 1 = k * (y div k - 1) + (k - 1)" using y by (simp add: algebra_simps)
    then have "(y - 1) div k = y div k - 1" by (rule int_div_pos_eq) (use k in auto)
    then show ?thesis using True by simp
  next
    case False
    then have "y - 1 = k * (y div k) + (y mod k - 1)" by simp
    then have "(y - 1) div k = y div k"
      by (rule int_div_pos_eq) (use False k pos_mod_sign [OF k, of y] pos_mod_bound [OF k, of y] in linarith)+
    then show ?thesis using False by simp
  qed
qed

lemma year_start_next: "year_start (y + 1) = year_start y + year_len y"
proof -
  define a b c where "a = y div 4" and "b = y div 100" and "c = y div 400"
  define a' b' c' where "a' = (y - 1) div 4" and "b' = (y - 1) div 100" and "c' = (y - 1) div 400"
  have "y mod 100 = 0 \<Longrightarrow> y mod 4 = 0" "y mod 400 = 0 \<Longrightarrow> y mod 100 = 0" by presburger+
  moreover have "a = a' + (if y mod 4 = 0 then 1 else 0)" "b = b' + (if y mod 100 = 0 then 1 else 0)"
    "c = c' + (if y mod 400 = 0 then 1 else 0)"
    unfolding a_def b_def c_def a'_def b'_def c'_def by (rule div_step, simp)+
  moreover have "year_start (y + 1) = 365 * (y - 1969) + (a - b + c) - 477"
    by (simp add: year_start_def leaps_before_def a_def b_def c_def)
  moreover have "year_start y = 365 * (y - 1970) + (a' - b' + c') - 477"
    by (simp add: year_start_def leaps_before_def a'_def b'_def c'_def)
  ultimately show ?thesis by (auto simp: year_len_def leap_def)
qed

lemma year_len_bounds: "365 \<le> year_len y \<and> year_len y \<le> 366"
  by (simp add: year_len_def)

lemma year_start_mono: "y \<le> z \<Longrightarrow> year_start y + 365 * (z - y) \<le> year_start z"
proof (induction z rule: int_ge_induct)
  case (step z)
  then show ?case using year_start_next [of z] year_len_bounds [of z] by (simp add: algebra_simps)
qed simp

lemma year_start_upper: "y \<le> z \<Longrightarrow> year_start z \<le> year_start y + 366 * (z - y)"
proof (induction z rule: int_ge_induct)
  case (step z)
  then show ?case using year_start_next [of z] year_len_bounds [of z] by (simp add: algebra_simps)
qed simp

lemma year_start_1970 [simp]: "year_start 1970 = 0"
  by (simp add: year_start_def leaps_before_def)

lemma year_start_less: "year_start y \<le> d \<Longrightarrow> d < year_start z \<Longrightarrow> y < z"
  using year_start_mono [of z y] by (cases "z \<le> y") auto

function find_year :: "int \<Rightarrow> int \<Rightarrow> int" where
  "find_year y d = (if year_start (y + 1) \<le> d then find_year (y + 1) d else y)"
  by pat_completeness auto
termination
proof (relation "measure (\<lambda>(y, d). nat (d + 1 - year_start y))")
  show "((y + 1, d), y, d) \<in> measure (\<lambda>(y, d). nat (d + 1 - year_start y))" if "year_start (y + 1) \<le> d" for y d
    using that year_start_next [of y] year_len_bounds [of y] by simp
qed simp

declare find_year.simps [simp del]

definition year_of_day :: "int \<Rightarrow> int" where
  "year_of_day d = find_year (1970 + (if 0 \<le> d then d div 366 else d div 365)) d"

lemma find_year_spec:
  "year_start y \<le> d \<Longrightarrow> year_start (find_year y d) \<le> d \<and> d < year_start (find_year y d + 1)"
proof (induction y d rule: find_year.induct)
  case (1 y d)
  then show ?case by (cases "year_start (y + 1) \<le> d") (simp_all add: find_year.simps [of y d])
qed

lemma year_guess: "year_start (1970 + (if 0 \<le> d then d div 366 else d div 365)) \<le> d"
proof (cases "0 \<le> d")
  case True
  then have "0 \<le> d div 366" by simp
  then have "year_start (1970 + d div 366) \<le> 366 * (d div 366)"
    using year_start_upper [of 1970 "1970 + d div 366"] by simp
  then show ?thesis using True mult_div_mod_eq [of 366 d] pos_mod_sign [of 366 d] by simp
next
  case False
  then have "d div 365 \<le> 0" by (simp add: div_nonpos_pos_le0)
  then have "year_start (1970 + d div 365) \<le> 365 * (d div 365)"
    using year_start_mono [of "1970 + d div 365" 1970] by simp
  then show ?thesis using False mult_div_mod_eq [of 365 d] pos_mod_sign [of 365 d] by simp
qed

lemma year_of_day_spec: "year_start (year_of_day d) \<le> d" "d < year_start (year_of_day d + 1)"
  using find_year_spec [OF year_guess] by (simp_all add: year_of_day_def)

lemma year_of_day_eq: "year_of_day d = y \<longleftrightarrow> year_start y \<le> d \<and> d < year_start (y + 1)"
proof
  assume "year_start y \<le> d \<and> d < year_start (y + 1)"
  then have "y < year_of_day d + 1" "year_of_day d < y + 1"
    using year_of_day_spec [of d] year_start_less by blast+
  then show "year_of_day d = y" by simp
qed (use year_of_day_spec in auto)

lemma year_of_day_mono: "d \<le> e \<Longrightarrow> year_of_day d \<le> year_of_day e"
  using year_start_less [of "year_of_day d" d "year_of_day e + 1"] year_of_day_spec [of d] year_of_day_spec [of e]
  by linarith

lemma year_of_day_less: "d < year_start y \<longleftrightarrow> year_of_day d < y"
proof
  assume "year_of_day d < y"
  then show "d < year_start y"
    using year_start_mono [of "year_of_day d + 1" y] year_of_day_spec(2) [of d] by simp
qed (use year_start_less year_of_day_spec(1) in blast)

section \<open>Months and days\<close>

definition month_len :: "int \<Rightarrow> int \<Rightarrow> int" where
  "month_len y m =
     (if m = 2 then (if leap y then 29 else 28) else if m = 4 \<or> m = 6 \<or> m = 9 \<or> m = 11 then 30 else 31)"

definition month_off :: "int \<Rightarrow> int \<Rightarrow> int" where
  "month_off y m = sum_list (map (month_len y) [1..m - 1])"

lemma month_off_1 [simp]: "month_off y 1 = 0"
  by (simp add: month_off_def)

lemma month_off_next: "1 \<le> m \<Longrightarrow> month_off y (m + 1) = month_off y m + month_len y m"
  by (simp add: month_off_def upto_rec2)

lemma month_len_bounds: "28 \<le> month_len y m \<and> month_len y m \<le> 31"
  by (simp add: month_len_def)

lemma month_off_mono: "m \<le> n \<Longrightarrow> 1 \<le> m \<Longrightarrow> month_off y m + 28 * (n - m) \<le> month_off y n"
proof (induction n rule: int_ge_induct)
  case (step n)
  then show ?case using month_off_next [of n y] month_len_bounds [of y n] by (simp add: algebra_simps)
qed simp

lemma month_off_13: "month_off y 13 = year_len y"
  by (simp add: month_off_def upto.simps month_len_def year_len_def)

function find_month :: "int \<Rightarrow> int \<Rightarrow> int \<Rightarrow> int" where
  "find_month y m doy = (if m < 12 \<and> month_off y (m + 1) \<le> doy then find_month y (m + 1) doy else m)"
  by pat_completeness auto
termination
  by (relation "measure (\<lambda>(y, m, doy). nat (12 - m))") auto

declare find_month.simps [simp del]

definition month_of_day :: "int \<Rightarrow> int" where
  "month_of_day d = find_month (year_of_day d) 1 (d - year_start (year_of_day d))"

definition day_of_month :: "int \<Rightarrow> int" where
  "day_of_month d = d - year_start (year_of_day d) - month_off (year_of_day d) (month_of_day d) + 1"

lemma find_month_spec:
  "1 \<le> m \<Longrightarrow> m \<le> 12 \<Longrightarrow> month_off y m \<le> doy \<Longrightarrow> doy < year_len y \<Longrightarrow>
     1 \<le> find_month y m doy \<and> find_month y m doy \<le> 12 \<and> month_off y (find_month y m doy) \<le> doy
     \<and> doy < month_off y (find_month y m doy + 1)"
proof (induction y m doy rule: find_month.induct)
  case (1 y m doy)
  show ?case
  proof (cases "m < 12 \<and> month_off y (m + 1) \<le> doy")
    case True
    with 1 show ?thesis by (simp add: find_month.simps [of y m])
  next
    case False
    then have "m < 12 \<and> doy < month_off y (m + 1) \<or> m = 12" using "1.prems" by auto
    with "1.prems" month_off_13 [of y] False show ?thesis by (auto simp: find_month.simps [of y m])
  qed
qed

lemma month_of_day_spec:
  "1 \<le> month_of_day d" "month_of_day d \<le> 12"
  "year_start (year_of_day d) + month_off (year_of_day d) (month_of_day d) \<le> d"
  "d < year_start (year_of_day d) + month_off (year_of_day d) (month_of_day d + 1)"
  using find_month_spec [of 1 "year_of_day d" "d - year_start (year_of_day d)"] year_of_day_spec [of d]
    year_start_next [of "year_of_day d"]
  by (simp_all add: month_of_day_def)

lemma day_of_month_bounds:
  "1 \<le> day_of_month d" "day_of_month d \<le> month_len (year_of_day d) (month_of_day d)"
  using month_of_day_spec [of d] month_off_next [of "month_of_day d" "year_of_day d"] by (simp_all add: day_of_month_def)

text \<open>\<^verbatim>\<open>time.Date\<close> at midnight, with its normalisation of the month and of the day.\<close>

definition date_day :: "int \<Rightarrow> int \<Rightarrow> int \<Rightarrow> int" where
  "date_day y m d =
     (let y' = y + (m - 1) div 12; m' = (m - 1) mod 12 + 1 in year_start y' + month_off y' m' + d - 1)"

lemma date_day_in_range: "1 \<le> m \<Longrightarrow> m \<le> 12 \<Longrightarrow> date_day y m d = year_start y + month_off y m + d - 1"
  by (simp add: date_day_def Let_def div_pos_pos_trivial mod_pos_pos_trivial)

lemma date_day_fields: "date_day (year_of_day d) (month_of_day d) (day_of_month d) = d"
  using month_of_day_spec [of d] by (simp add: date_day_in_range day_of_month_def)

lemma date_day_next_month:
  assumes "1 \<le> m" "m \<le> 12"
  shows "date_day y (m + 1) d = year_start y + month_off y (m + 1) + d - 1"
proof (cases "m = 12")
  case True
  then show ?thesis using month_off_13 [of y] year_start_next [of y] by (simp add: date_day_def Let_def)
qed (use assms in \<open>simp add: date_day_in_range\<close>)

lemma fields_of_date:
  assumes "1 \<le> m" "m \<le> 12" "1 \<le> d" "d \<le> month_len y m"
  shows "year_of_day (date_day y m d) = y" "month_of_day (date_day y m d) = m" "day_of_month (date_day y m d) = d"
proof -
  let ?D = "date_day y m d"
  have D: "?D = year_start y + month_off y m + d - 1" using assms by (simp add: date_day_in_range)
  have off: "0 \<le> month_off y m" "month_off y (m + 1) \<le> year_len y"
    using month_off_mono [of 1 m y] month_off_mono [of "m + 1" 13 y] assms month_off_13 [of y] by auto
  have nxt: "month_off y (m + 1) = month_off y m + month_len y m" using assms month_off_next by simp
  show y: "year_of_day ?D = y"
    unfolding year_of_day_eq using D off nxt assms year_start_next [of y] by linarith
  show m: "month_of_day ?D = m"
  proof (rule ccontr)
    assume ne: "month_of_day ?D \<noteq> m"
    note sp = month_of_day_spec [of ?D, unfolded y]
    show False
    proof (cases "month_of_day ?D < m")
      case True
      then have "month_off y (month_of_day ?D + 1) \<le> month_off y m"
        using month_off_mono [of "month_of_day ?D + 1" m y] sp(1) by simp
      then show False using sp(4) D assms by linarith
    next
      case False
      then have "month_off y (m + 1) \<le> month_off y (month_of_day ?D)"
        using ne month_off_mono [of "m + 1" "month_of_day ?D" y] assms by simp
      then show False using sp(3) D assms nxt by linarith
    qed
  qed
  show "day_of_month ?D = d" using D m y by (simp add: day_of_month_def)
qed

text \<open>Within one year the month never decreases, and a month starts at its first day.\<close>

lemma month_of_day_mono:
  assumes "d \<le> e" "year_of_day d = year_of_day e"
  shows "month_of_day d \<le> month_of_day e"
proof (rule ccontr)
  assume "\<not> ?thesis"
  then have "month_off (year_of_day d) (month_of_day e + 1) \<le> month_off (year_of_day d) (month_of_day d)"
    using month_off_mono [of "month_of_day e + 1" "month_of_day d" "year_of_day d"] month_of_day_spec(1) [of e] by simp
  then show False
    using month_of_day_spec(3) [of d] month_of_day_spec(4) [of e, folded assms(2)] assms(1) by linarith
qed

lemma before_month:
  assumes "1 \<le> m" "m \<le> 12" "year_of_day d = y" "d < date_day y m 1"
  shows "month_of_day d < m"
proof (rule ccontr)
  assume "\<not> ?thesis"
  then have "month_off y m \<le> month_off y (month_of_day d)"
    using month_off_mono [of m "month_of_day d" y] assms by simp
  then show False using month_of_day_spec(3) [of d] assms by (simp add: date_day_in_range)
qed

text \<open>The weekday, Sunday being 0; the first of January 1970 was a Thursday.\<close>

definition weekday_of_day :: "int \<Rightarrow> int" where
  "weekday_of_day d = (d + 4) mod 7"

lemma weekday_bounds: "0 \<le> weekday_of_day d" "weekday_of_day d \<le> 6"
  by (simp_all add: weekday_of_day_def)

end
