(* ===== verification/Aws_Cron.thy ===== *)
theory Aws_Cron
  imports Prelude Civil_Time "HOL-Library.Word"
begin

text \<open>
  The six-field cron dialect, \<^verbatim>\<open>internal/awscron/cron.go\<close>: the parser with all its error
  branches, the bitmask fields at their machine width, the day specifiers and the
  field-by-field walk \<open>Next\<close> on a wall clock, that is in UTC; \<^theory_text>\<open>Cron_Zone\<close> has the walk in
  a location.  Go's \<^verbatim>\<open>int\<close> is 64 bits wide; the
  places where an expression can make it wrap around are written with \<open>wrap64\<close>.
\<close>

unbundle bit_operations_syntax

section \<open>Instants\<close>

definition minute_ns :: int where "minute_ns = 60000000000"
definition hour_ns :: int where "hour_ns = 3600000000000"
definition day_ns :: int where "day_ns = 86400000000000"

definition t_Year :: "int \<Rightarrow> int" where "t_Year t = year_of_day (t div day_ns)"
definition t_Month :: "int \<Rightarrow> int" where "t_Month t = month_of_day (t div day_ns)"
definition t_Day :: "int \<Rightarrow> int" where "t_Day t = day_of_month (t div day_ns)"
definition t_Weekday :: "int \<Rightarrow> int" where "t_Weekday t = weekday_of_day (t div day_ns)"
definition t_Hour :: "int \<Rightarrow> int" where "t_Hour t = t mod day_ns div hour_ns"
definition t_Minute :: "int \<Rightarrow> int" where "t_Minute t = t mod hour_ns div minute_ns"

definition time_Date :: "int \<Rightarrow> int \<Rightarrow> int \<Rightarrow> int \<Rightarrow> int \<Rightarrow> int" where
  "time_Date y m d h mi = date_day y m d * day_ns + h * hour_ns + mi * minute_ns"

definition startOfDay :: "int \<Rightarrow> int" where
  "startOfDay t = time_Date (t_Year t) (t_Month t) (t_Day t) 0 0"

text \<open>\<^verbatim>\<open>AddDate(0, 0, 1)\<close> on a midnight.\<close>

definition next_midnight :: "int \<Rightarrow> int" where
  "next_midnight t = time_Date (t_Year t) (t_Month t) (t_Day t + 1) 0 0"

definition awsWeekday :: "int \<Rightarrow> int" where
  "awsWeekday d = d + 1"

section \<open>Fields\<close>

definition fieldWords :: nat where
  "fieldWords = 4"

record cron_field =
  f_min :: int
  f_max :: int
  f_any :: bool
  f_bits :: "64 word list"

definition new_field :: "int \<Rightarrow> int \<Rightarrow> cron_field" where
  "new_field lo hi = \<lparr>f_min = lo, f_max = hi, f_any = False, f_bits = replicate fieldWords 0\<rparr>"

definition field_add :: "int \<Rightarrow> cron_field \<Rightarrow> cron_field" where
  "field_add v f =
     (if v < f_min f \<or> f_max f < v then f
      else let i = nat (v - f_min f) in
           f\<lparr>f_bits := (f_bits f)[i div 64 := f_bits f ! (i div 64) OR push_bit (i mod 64) 1]\<rparr>)"

definition field_matches :: "cron_field \<Rightarrow> int \<Rightarrow> bool" where
  "field_matches f v =
     (if v < f_min f \<or> f_max f < v then False
      else if f_any f then True
      else let i = nat (v - f_min f) in f_bits f ! (i div 64) AND push_bit (i mod 64) 1 \<noteq> 0)"

definition trailing_zeros :: "64 word \<Rightarrow> nat" where
  "trailing_zeros w = length (takeWhile (\<lambda>n. \<not> bit w n) [0..<64])"

text \<open>The loop of \<open>nextAtOrAfter\<close> over the words from \<open>word\<close> on; \<open>i\<close> is the offset of the value.\<close>

fun next_word :: "cron_field \<Rightarrow> nat \<Rightarrow> nat \<Rightarrow> 64 word list \<Rightarrow> int option" where
  "next_word f i word [] = None"
| "next_word f i word (b # bs) =
     (let w = (if word = i div 64 then b AND NOT (push_bit (i mod 64) 1 - 1) else b) in
      if w \<noteq> 0 then Some (f_min f + int word * 64 + int (trailing_zeros w))
      else next_word f i (word + 1) bs)"

definition nextAtOrAfter :: "cron_field \<Rightarrow> int \<Rightarrow> int option" where
  "nextAtOrAfter f v0 =
     (let v = (if v0 < f_min f then f_min f else v0) in
      if f_max f < v then None
      else if f_any f then Some v
      else let i = nat (v - f_min f) in next_word f i (i div 64) (drop (i div 64) (f_bits f)))"

section \<open>Reading values\<close>

datatype names = NoNames | MonthNames | DayNames

record fieldSpec =
  fs_name :: string
  fs_min :: int
  fs_max :: int
  fs_names :: names

fun name_list :: "names \<Rightarrow> string list" where
  "name_list NoNames = []"
| "name_list MonthNames =
     [''JAN'', ''FEB'', ''MAR'', ''APR'', ''MAY'', ''JUN'', ''JUL'', ''AUG'', ''SEP'', ''OCT'', ''NOV'', ''DEC'']"
| "name_list DayNames = [''SUN'', ''MON'', ''TUE'', ''WED'', ''THU'', ''FRI'', ''SAT'']"

fun name_index :: "string list \<Rightarrow> int \<Rightarrow> string \<Rightarrow> int option" where
  "name_index [] n s = None"
| "name_index (x # xs) n s = (if x = s then Some n else name_index xs (n + 1) s)"

definition name_value :: "names \<Rightarrow> string \<Rightarrow> int option" where
  "name_value ns s = name_index (name_list ns) 1 s"

definition minuteSpec :: fieldSpec where
  "minuteSpec = \<lparr>fs_name = ''minute'', fs_min = 0, fs_max = 59, fs_names = NoNames\<rparr>"
definition hourSpec :: fieldSpec where
  "hourSpec = \<lparr>fs_name = ''hour'', fs_min = 0, fs_max = 23, fs_names = NoNames\<rparr>"
definition domSpec :: fieldSpec where
  "domSpec = \<lparr>fs_name = ''day-of-month'', fs_min = 1, fs_max = 31, fs_names = NoNames\<rparr>"
definition monthSpec :: fieldSpec where
  "monthSpec = \<lparr>fs_name = ''month'', fs_min = 1, fs_max = 12, fs_names = MonthNames\<rparr>"
definition dowSpec :: fieldSpec where
  "dowSpec = \<lparr>fs_name = ''day-of-week'', fs_min = 1, fs_max = 7, fs_names = DayNames\<rparr>"
definition yearSpec :: fieldSpec where
  "yearSpec = \<lparr>fs_name = ''year'', fs_min = 1970, fs_max = 2199, fs_names = NoNames\<rparr>"

definition fieldSpecs :: "fieldSpec list" where
  "fieldSpecs = [minuteSpec, hourSpec, domSpec, monthSpec, dowSpec, yearSpec]"

definition join_comma :: "string list \<Rightarrow> string" where
  "join_comma xs = (case xs of [] \<Rightarrow> [] | y # ys \<Rightarrow> y @ concat (map (\<lambda>z. '', '' @ z) ys))"

definition parseValue :: "string \<Rightarrow> fieldSpec \<Rightarrow> string + int" where
  "parseValue text0 spec =
     (let s = TrimSpace text0 in
      case name_value (fs_names spec) (ToUpper s) of
        Some v \<Rightarrow> Inr v
      | None \<Rightarrow>
          (case Atoi s of
             Some v \<Rightarrow> Inr v
           | None \<Rightarrow>
               if fs_names spec \<noteq> NoNames
               then Inl (go_quote s @ '' is not a number or one of '' @ join_comma (name_list (fs_names spec)))
               else Inl (go_quote s @ '' is not a number'')))"

text \<open>\<open>Inr None\<close>: the text is not a range.\<close>

definition cutRange :: "string \<Rightarrow> fieldSpec \<Rightarrow> string + (int \<times> int) option" where
  "cutRange part spec =
     (let (loText, hiText, found) = Cut part (CHR ''-'') in
      if \<not> found then Inr None
      else (case parseValue loText spec of Inl e \<Rightarrow> Inl e | Inr lo \<Rightarrow>
           (case parseValue hiText spec of Inl e \<Rightarrow> Inl e | Inr hi \<Rightarrow> Inr (Some (lo, hi)))))"

text \<open>Go's integer division, which truncates towards zero.\<close>

definition go_div :: "int \<Rightarrow> int \<Rightarrow> int" where
  "go_div a b = (if 0 \<le> a then a div b else - ((- a) div b))"

definition part_bounds :: "string \<Rightarrow> fieldSpec \<Rightarrow> string + (int \<times> int)" where
  "part_bounds base spec =
     (if base = ''*'' \<or> base = ''?'' then Inr (fs_min spec, fs_max spec)
      else (case cutRange base spec of
         Inl e \<Rightarrow> Inl e
       | Inr (Some (lo, hi)) \<Rightarrow> Inr (lo, hi)
       | Inr None \<Rightarrow> (case parseValue base spec of Inl e \<Rightarrow> Inl e | Inr v \<Rightarrow> Inr (v, fs_max spec))))"

definition parsePart :: "string \<Rightarrow> fieldSpec \<Rightarrow> string + (int \<times> int \<times> int)" where
  "parsePart part0 spec =
     (let part = TrimSpace part0;
          (base, stepText, isStep) = Cut part (CHR ''/'');
          bounds =
            (if isStep then
               (case Atoi (TrimSpace stepText) of
                  None \<Rightarrow> Inl (''invalid step '' @ go_quote part)
                | Some step \<Rightarrow>
                    if step \<le> 0 then Inl (''invalid step '' @ go_quote part)
                    else (case part_bounds (TrimSpace base) spec of Inl e \<Rightarrow> Inl e | Inr (a, b) \<Rightarrow> Inr (a, b, step)))
             else (case cutRange part spec of
                Inl e \<Rightarrow> Inl e
              | Inr (Some (lo, hi)) \<Rightarrow> Inr (lo, hi, 1)
              | Inr None \<Rightarrow> (case parseValue part spec of Inl e \<Rightarrow> Inl e | Inr v \<Rightarrow> Inr (v, v, 1))))
      in case bounds of
           Inl e \<Rightarrow> Inl e
         | Inr (first0, last0, step) \<Rightarrow>
             let first = (if first0 < fs_min spec
                          then wrap64 (first0 + wrap64 (go_div (wrap64 (wrap64 (fs_min spec - first0 + step) - 1)) step * step))
                          else first0);
                 lst = (if fs_max spec < last0 then fs_max spec else last0)
             in Inr (first, lst, step))"

section \<open>Day specifiers\<close>

datatype dayMode = dayAlways | dayByMonthDay | dayByWeekday | dayByEither

datatype dayRule =
    ruleLastDayOfMonth
  | ruleLastWeekdayOfMonth
  | ruleNearestWeekday int
  | ruleLastWeekdayInMonth int
  | ruleNthWeekday int int

definition maxDayRules :: nat where
  "maxDayRules = 4"

definition isDaySpecifier :: "string \<Rightarrow> bool" where
  "isDaySpecifier part = ContainsAny (ToUpper (TrimSpace part)) ''LW#''"

definition isDayField :: "fieldSpec \<Rightarrow> bool" where
  "isDayField spec \<longleftrightarrow> fs_name spec = ''day-of-month'' \<or> fs_name spec = ''day-of-week''"

definition resolveDayMode :: "string \<Rightarrow> string \<Rightarrow> dayMode" where
  "resolveDayMode domText dowText =
     (let domWild = domText = ''*'' \<or> domText = ''?''; dowWild = dowText = ''*'' \<or> dowText = ''?'' in
      if domWild \<and> dowWild then dayAlways
      else if domText = ''?'' then dayByWeekday
      else if dowText = ''?'' then dayByMonthDay
      else dayByEither)"

definition rules_add :: "dayRule \<Rightarrow> dayRule list \<Rightarrow> string + dayRule list" where
  "rules_add r rules =
     (if maxDayRules \<le> length rules then Inl ''more than 4 day specifiers'' else Inr (rules @ [r]))"

definition parseMonthDayRule :: "string \<Rightarrow> string + dayRule" where
  "parseMonthDayRule part =
     (let s = ToUpper (TrimSpace part) in
      if s = ''L'' then Inr ruleLastDayOfMonth
      else if s = ''LW'' then Inr ruleLastWeekdayOfMonth
      else if HasSuffix s ''W'' then
        (case Atoi (TrimSuffix s ''W'') of
           None \<Rightarrow> Inl (go_quote part @ '' is not a day of the month followed by W'')
         | Some day \<Rightarrow>
             if day < 1 \<or> 31 < day then Inl (go_quote part @ '' is not a day of the month followed by W'')
             else Inr (ruleNearestWeekday day))
      else Inl (go_quote part @ '' is not one of L, LW or <day>W''))"

definition parseWeekdayValue :: "string \<Rightarrow> string + int" where
  "parseWeekdayValue s = parseValue s dowSpec"

definition parseWeekdayRule :: "string \<Rightarrow> string + dayRule" where
  "parseWeekdayRule part =
     (let s = ToUpper (TrimSpace part) in
      if s = ''L'' then Inr (ruleLastWeekdayInMonth 7)
      else if HasSuffix s ''L'' then
        (case parseWeekdayValue (TrimSuffix s ''L'') of Inl e \<Rightarrow> Inl e | Inr w \<Rightarrow> Inr (ruleLastWeekdayInMonth w))
      else
        (let (base, nth, ok) = Cut s (CHR ''#'') in
         if ok then
           (case parseWeekdayValue base of
              Inl e \<Rightarrow> Inl e
            | Inr w \<Rightarrow>
                (case Atoi (TrimSpace nth) of
                   None \<Rightarrow> Inl (go_quote part @ '' must name an occurrence from 1 to 5 after #'')
                 | Some n \<Rightarrow>
                     if n < 1 \<or> 5 < n then Inl (go_quote part @ '' must name an occurrence from 1 to 5 after #'')
                     else Inr (ruleNthWeekday w n)))
         else Inl (go_quote part @ '' is not one of L, <day>L or <day>#<n>'')))"

text \<open>The parts of a list, as repeated \<^verbatim>\<open>strings.Cut\<close> at commas yields them.\<close>

function comma_parts :: "string \<Rightarrow> string list" where
  "comma_parts rest = (case Cut rest (CHR '','') of (part, after, again) \<Rightarrow> if again then part # comma_parts after else [part])"
  by pat_completeness auto
termination
  by (relation "measure length") (auto dest!: sym [of "(_, _, True)"] Cut_length)

declare comma_parts.simps [simp del]

text \<open>
  The specifiers of one day field.  The loop of \<open>parseDayRules\<close> stops when nothing is left
  after a comma.
\<close>

fun add_rules :: "(string \<Rightarrow> string + dayRule) \<Rightarrow> string list \<Rightarrow> dayRule list \<Rightarrow> string + dayRule list" where
  "add_rules parse [] rules = Inr rules"
| "add_rules parse (part # parts) rules =
     (if isDaySpecifier part then
        (case parse part of Inl e \<Rightarrow> Inl e | Inr r \<Rightarrow>
        (case rules_add r rules of Inl e \<Rightarrow> Inl e | Inr rules' \<Rightarrow> add_rules parse parts rules'))
      else add_rules parse parts rules)"

definition field_rules :: "(string \<Rightarrow> string + dayRule) \<Rightarrow> string \<Rightarrow> dayRule list \<Rightarrow> string + dayRule list" where
  "field_rules parse s rules = (let s' = TrimSpace s in if s' = [] then Inr rules else add_rules parse (comma_parts s') rules)"

definition parseDayRules :: "string \<Rightarrow> string \<Rightarrow> (string \<times> string) + dayRule list" where
  "parseDayRules domText dowText =
     (case field_rules parseMonthDayRule domText [] of
        Inl e \<Rightarrow> Inl (''day-of-month'', e)
      | Inr rules \<Rightarrow>
          (case field_rules parseWeekdayRule dowText rules of
             Inl e \<Rightarrow> Inl (''day-of-week'', e)
           | Inr rules' \<Rightarrow> Inr rules'))"

section \<open>Parsing a field\<close>

text \<open>
  The loop \<^verbatim>\<open>for v := first; v <= last; v += step\<close>, whose increment wraps around at 64
  bits.  Its guards hold for everything \<open>parsePart\<close> returns (\<open>parsePart_bounds\<close>); they make
  it a terminating function also where the increment does wrap.
\<close>

definition seq_ok :: "int \<Rightarrow> int \<Rightarrow> int \<Rightarrow> bool" where
  "seq_ok v lst step \<longleftrightarrow> - 9223372036854775808 \<le> v \<and> v \<le> 9223372036854775807 \<and> lst \<le> 2199
     \<and> 0 < step \<and> step \<le> 9223372036854775807"

definition seq_rank :: "int \<Rightarrow> int \<Rightarrow> int \<Rightarrow> nat" where
  "seq_rank v lst step =
     (if lst < v then 0
      else if lst + step < 9223372036854775808 then nat (lst + 1 - v)
      else if - 4611686018427387904 \<le> v then nat (1 + 2 * (v + 9223372036854775808))
      else nat (2 + 2 * (v + step + 9223372036854775808)))"

lemma wrap64_over: "9223372036854775808 \<le> x \<Longrightarrow> x < 27670116110564327424 \<Longrightarrow> wrap64 x = x - 18446744073709551616"
proof -
  assume "9223372036854775808 \<le> x" "x < 27670116110564327424"
  then have "(x - 9223372036854775808 + 18446744073709551616) mod 18446744073709551616 = x - 9223372036854775808"
    by (simp only: mod_add_self2) simp
  then show ?thesis by (simp add: wrap64_def add.commute)
qed

lemma seq_rank_decreases:
  assumes "seq_ok v lst step" "v \<le> lst"
  shows "seq_rank (wrap64 (v + step)) lst step < seq_rank v lst step"
proof (cases "v + step \<le> 9223372036854775807")
  case True
  then have "wrap64 (v + step) = v + step" using assms by (intro wrap64_id) (auto simp: seq_ok_def)
  then show ?thesis using assms True by (auto simp: seq_rank_def seq_ok_def)
next
  case False
  then have "wrap64 (v + step) = v + step - 18446744073709551616"
    using assms by (intro wrap64_over) (auto simp: seq_ok_def)
  then show ?thesis using assms False by (auto simp: seq_rank_def seq_ok_def)
qed

function add_seq :: "int \<Rightarrow> int \<Rightarrow> int \<Rightarrow> cron_field \<Rightarrow> cron_field" where
  "add_seq v lst step f =
     (if seq_ok v lst step \<and> v \<le> lst then add_seq (wrap64 (v + step)) lst step (field_add v f) else f)"
  by pat_completeness auto
termination
  by (relation "measure (\<lambda>(v, lst, step, f). seq_rank v lst step)") (use seq_rank_decreases in auto)

declare add_seq.simps [simp del]

fun add_parts :: "fieldSpec \<Rightarrow> string list \<Rightarrow> cron_field \<Rightarrow> string + cron_field" where
  "add_parts spec [] f = Inr f"
| "add_parts spec (part # parts) f =
     (if isDaySpecifier part then
        (if \<not> isDayField spec
         then Inl (go_quote (TrimSpace part) @ '' is only valid in the day-of-month and day-of-week fields'')
         else add_parts spec parts f)
      else (case parsePart part spec of
         Inl e \<Rightarrow> Inl e
       | Inr (first, lst, step) \<Rightarrow> add_parts spec parts (add_seq first lst step f)))"

definition parseField :: "string \<Rightarrow> fieldSpec \<Rightarrow> string + cron_field" where
  "parseField text0 spec =
     (let f = new_field (fs_min spec) (fs_max spec); s = TrimSpace text0 in
      if s = ''*'' \<or> s = ''?'' then Inr (f\<lparr>f_any := True\<rparr>)
      else if s = [] then Inl ''empty field''
      else add_parts spec (comma_parts s) f)"

section \<open>Parsing an expression\<close>

text \<open>The fields between white space; the array of six is the list cut to its first six.\<close>

function split_fields :: "string \<Rightarrow> string list" where
  "split_fields inner =
     (let s = dropWhile is_space inner in
      if s = [] then [] else takeWhile (\<lambda>c. \<not> is_space c) s # split_fields (dropWhile (\<lambda>c. \<not> is_space c) s))"
  by pat_completeness auto
termination
proof (relation "measure length")
  show "(dropWhile (\<lambda>c. \<not> is_space c) s, inner) \<in> measure length" if a: "s = dropWhile is_space inner" and b: "s \<noteq> []" for s inner
  proof -
    obtain c t where s: "s = c # t" using b by (cases s) auto
    then have "\<not> is_space c" using a by (metis dropWhile_eq_Cons_conv)
    then have "length (dropWhile (\<lambda>c. \<not> is_space c) s) \<le> length t" using s by (simp add: length_dropWhile_le)
    also have "length t < length s" by (simp add: s)
    also have "length s \<le> length inner" using a by (simp add: length_dropWhile_le)
    finally show ?thesis by simp
  qed
qed simp

declare split_fields.simps [simp del]

record Schedule =
  sc_minute :: cron_field
  sc_hour :: cron_field
  sc_dom :: cron_field
  sc_month :: cron_field
  sc_dow :: cron_field
  sc_year :: cron_field
  sc_dayMode :: dayMode
  sc_days :: "dayRule list"

fun parse_fields :: "string \<Rightarrow> (string \<times> fieldSpec) list \<Rightarrow> string + cron_field list" where
  "parse_fields expr [] = Inr []"
| "parse_fields expr ((s, spec) # rest) =
     (case parseField s spec of
        Inl e \<Rightarrow> Inl (''invalid '' @ fs_name spec @ '' field in cron expression '' @ go_quote expr @ '': '' @ e)
      | Inr f \<Rightarrow> (case parse_fields expr rest of Inl e \<Rightarrow> Inl e | Inr fs \<Rightarrow> Inr (f # fs)))"

definition Parse :: "string \<Rightarrow> string + Schedule" where
  "Parse expr =
     (let inner0 = TrimSpace expr;
          prefixed = HasPrefix inner0 ''cron('';
          after = drop 5 inner0
      in if prefixed \<and> \<not> HasSuffix after '')''
         then Inl (''cron expression '' @ go_quote expr @ '' is missing its closing parenthesis'')
         else
           let inner = (if prefixed then TrimSuffix after '')'' else inner0);
               fields = split_fields inner
           in if length fields \<noteq> 6
              then Inl (''cron expression '' @ go_quote expr @ '' has '' @ show_nat (length fields)
                     @ '' fields; AWS cron takes 6: minute hour day-of-month month day-of-week year (for example, every five minutes is `cron(*/5 * * * ? *)`)'')
              else (case parse_fields expr (zip fields fieldSpecs) of
                 Inl e \<Rightarrow> Inl e
               | Inr parsed \<Rightarrow>
                   (case parseDayRules (fields ! 2) (fields ! 4) of
                      Inl (field, e) \<Rightarrow> Inl (''invalid '' @ field @ '' field in cron expression '' @ go_quote expr @ '': '' @ e)
                    | Inr rules \<Rightarrow>
                        Inr \<lparr>sc_minute = parsed ! 0, sc_hour = parsed ! 1, sc_dom = parsed ! 2, sc_month = parsed ! 3,
                             sc_dow = parsed ! 4, sc_year = parsed ! 5,
                             sc_dayMode = resolveDayMode (fields ! 2) (fields ! 4), sc_days = rules\<rparr>)))"

section \<open>Dates that qualify\<close>

definition lastDayOfMonth :: "int \<Rightarrow> int" where
  "lastDayOfMonth t = t_Day (time_Date (t_Year t) (t_Month t + 1) 0 0 0)"

definition isWeekday :: "int \<Rightarrow> bool" where
  "isWeekday d \<longleftrightarrow> d \<noteq> 6 \<and> d \<noteq> 0"

text \<open>The loop of \<open>lastWeekdayOfMonth\<close>, which walks back from the last day.\<close>

fun last_weekday :: "nat \<Rightarrow> int \<Rightarrow> int \<Rightarrow> int option" where
  "last_weekday 0 t day = None"
| "last_weekday (Suc fuel) t day =
     (if isWeekday (t_Weekday (time_Date (t_Year t) (t_Month t) day 0 0)) then Some day
      else last_weekday fuel t (day - 1))"

definition lastWeekdayOfMonth :: "int \<Rightarrow> int option" where
  "lastWeekdayOfMonth t = last_weekday 3 t (lastDayOfMonth t)"

definition nearestWeekday :: "int \<Rightarrow> int \<Rightarrow> int" where
  "nearestWeekday t day0 =
     (let lst = lastDayOfMonth t;
          day = (if lst < day0 then lst else day0);
          wd = t_Weekday (time_Date (t_Year t) (t_Month t) day 0 0)
      in if wd = 6 then (if 1 < day then day - 1 else day + 2)
         else if wd = 0 then (if day < lst then day + 1 else day - 2)
         else day)"

fun rule_month_day :: "int \<Rightarrow> dayRule \<Rightarrow> bool" where
  "rule_month_day t ruleLastDayOfMonth = (t_Day t = lastDayOfMonth t)"
| "rule_month_day t ruleLastWeekdayOfMonth = (Some (t_Day t) = lastWeekdayOfMonth t)"
| "rule_month_day t (ruleNearestWeekday day) = (t_Day t = nearestWeekday t day)"
| "rule_month_day t _ = False"

fun rule_weekday :: "int \<Rightarrow> dayRule \<Rightarrow> bool" where
  "rule_weekday t (ruleLastWeekdayInMonth w) = (awsWeekday (t_Weekday t) = w \<and> lastDayOfMonth t < t_Day t + 7)"
| "rule_weekday t (ruleNthWeekday w n) = (awsWeekday (t_Weekday t) = w \<and> (t_Day t - 1) div 7 + 1 = n)"
| "rule_weekday t _ = False"

definition rules_match_month_day :: "dayRule list \<Rightarrow> int \<Rightarrow> bool" where
  "rules_match_month_day rules t = list_ex (rule_month_day t) rules"

definition rules_match_weekday :: "dayRule list \<Rightarrow> int \<Rightarrow> bool" where
  "rules_match_weekday rules t = list_ex (rule_weekday t) rules"

definition matchesMonthDay :: "Schedule \<Rightarrow> int \<Rightarrow> bool" where
  "matchesMonthDay s t \<longleftrightarrow> field_matches (sc_dom s) (t_Day t) \<or> rules_match_month_day (sc_days s) t"

definition matchesWeekday :: "Schedule \<Rightarrow> int \<Rightarrow> bool" where
  "matchesWeekday s t \<longleftrightarrow> field_matches (sc_dow s) (awsWeekday (t_Weekday t)) \<or> rules_match_weekday (sc_days s) t"

definition matchesDay :: "Schedule \<Rightarrow> int \<Rightarrow> bool" where
  "matchesDay s t =
     (case sc_dayMode s of
        dayAlways \<Rightarrow> True
      | dayByWeekday \<Rightarrow> matchesWeekday s t
      | dayByMonthDay \<Rightarrow> matchesMonthDay s t
      | dayByEither \<Rightarrow> matchesMonthDay s t \<or> matchesWeekday s t)"

section \<open>The walk\<close>

datatype next_step = Stop | Jump int | Found

definition step_next :: "Schedule \<Rightarrow> int \<Rightarrow> next_step" where
  "step_next s t =
     (case nextAtOrAfter (sc_year s) (t_Year t) of
        None \<Rightarrow> Stop
      | Some year \<Rightarrow>
          if year \<noteq> t_Year t then Jump (time_Date year 1 1 0 0)
          else (case nextAtOrAfter (sc_month s) (t_Month t) of
             None \<Rightarrow> Jump (time_Date (t_Year t + 1) 1 1 0 0)
           | Some month \<Rightarrow>
               if month \<noteq> t_Month t then Jump (time_Date (t_Year t) month 1 0 0)
               else if \<not> matchesDay s t then Jump (next_midnight (startOfDay t))
               else (case nextAtOrAfter (sc_hour s) (t_Hour t) of
                  None \<Rightarrow> Jump (next_midnight (startOfDay t))
                | Some hour \<Rightarrow>
                    if hour \<noteq> t_Hour t then Jump (time_Date (t_Year t) (t_Month t) (t_Day t) hour 0)
                    else (case nextAtOrAfter (sc_minute s) (t_Minute t) of
                       None \<Rightarrow> Jump (time_Date (t_Year t) (t_Month t) (t_Day t) (t_Hour t) 0 + hour_ns)
                     | Some minute \<Rightarrow>
                         if minute \<noteq> t_Minute t
                         then Jump (time_Date (t_Year t) (t_Month t) (t_Day t) (t_Hour t) minute)
                         else Found))))"

text \<open>
  The test that a jump moves forward serves the termination proof; \<open>step_jump\<close> below shows
  that it never fails.
\<close>

function next_loop :: "Schedule \<Rightarrow> int \<Rightarrow> int \<Rightarrow> int option" where
  "next_loop s limit t =
     (if t < limit then
        (case step_next s t of
           Stop \<Rightarrow> None
         | Found \<Rightarrow> Some t
         | Jump t' \<Rightarrow> if t < t' then next_loop s limit t' else None)
      else None)"
  by pat_completeness auto
termination
  by (relation "measure (\<lambda>(s, limit, t). nat (limit - t))") auto

declare next_loop.simps [simp del]

definition Next :: "Schedule \<Rightarrow> int \<Rightarrow> int \<Rightarrow> int option" where
  "Next s from limit =
     (let start0 = from - from mod minute_ns;
          start = (if start0 < from then start0 + minute_ns else start0)
      in next_loop s limit start)"

section \<open>Fields are sets of values\<close>

text \<open>The invariant of a field: four words, and no bit beyond the maximum.\<close>

definition wf_field :: "cron_field \<Rightarrow> bool" where
  "wf_field f \<longleftrightarrow> length (f_bits f) = fieldWords \<and> f_min f \<le> f_max f \<and> f_max f - f_min f < 256
     \<and> (\<forall>j < 256. bit (f_bits f ! (j div 64)) (j mod 64) \<longrightarrow> int j \<le> f_max f - f_min f)"

lemma and_push_bit: "(w AND push_bit n 1 \<noteq> 0) \<longleftrightarrow> bit w n" for w :: "64 word"
  by (simp add: push_bit_eq_mult and_exp_eq_0_iff_not_bit)

lemma field_matches_iff:
  "field_matches f v \<longleftrightarrow> f_min f \<le> v \<and> v \<le> f_max f
     \<and> (f_any f \<or> bit (f_bits f ! (nat (v - f_min f) div 64)) (nat (v - f_min f) mod 64))"
  by (auto simp: field_matches_def and_exp_eq_0_iff_not_bit Let_def)

lemma trailing_zeros_spec:
  assumes "w \<noteq> 0"
  shows "trailing_zeros w < 64 \<and> bit w (trailing_zeros w) \<and> (\<forall>n < trailing_zeros w. \<not> bit w n)"
proof -
  let ?P = "\<lambda>n. \<not> bit w n"
  obtain n where n: "bit w n" using assms bit_eq_iff [of w 0] by auto
  then have "n < 64" using bit_imp_le_length [of w n] by simp
  then have "dropWhile ?P [0..<64] \<noteq> []" using n by (auto simp: dropWhile_eq_Nil_conv)
  then have "0 < length (dropWhile ?P [0..<64])" by (simp only: length_greater_0_conv not_False_eq_True)
  moreover have "length (takeWhile ?P [0..<64]) + length (dropWhile ?P [0..<64]) = 64"
    by (metis length_append takeWhile_dropWhile_id length_upt diff_zero)
  ultimately have "trailing_zeros w < 64" unfolding trailing_zeros_def by linarith
  then have lt: "trailing_zeros w < 64" by simp
  have "\<not> ?P ([0..<64] ! trailing_zeros w)"
    unfolding trailing_zeros_def by (rule nth_length_takeWhile) (use lt in \<open>simp add: trailing_zeros_def\<close>)
  moreover have "?P ([0..<64] ! k)" if "k < trailing_zeros w" for k
    using that unfolding trailing_zeros_def by (metis nth_mem set_takeWhileD takeWhile_nth)
  ultimately show ?thesis using lt by auto
qed

lemma bit_cleared_below:
  "bit (b AND NOT (push_bit k 1 - 1)) n \<longleftrightarrow> bit b n \<and> k \<le> n" for b :: "64 word"
proof -
  have "push_bit k 1 - 1 = (mask k :: 64 word)" by (simp add: mask_eq_exp_minus_1 push_bit_eq_mult)
  then show ?thesis
    using bit_imp_le_length [of b n] by (auto simp: bit_and_iff bit_not_iff bit_mask_iff possible_bit_def)
qed

lemma bit_beyond: "bit w n \<Longrightarrow> n < 64" for w :: "64 word"
  using bit_imp_le_length [of w n] by simp

text \<open>The search over the words finds the least value from \<open>i\<close> on.\<close>

lemma next_word_None:
  assumes "next_word f i w bs = None" "i div 64 \<le> w" "i \<le> j" "64 * w \<le> j" "j < 64 * (w + length bs)"
  shows "\<not> bit (bs ! (j div 64 - w)) (j mod 64)"
  using assms
proof (induction bs arbitrary: w)
  case (Cons b bs)
  let ?w = "if w = i div 64 then b AND NOT (push_bit (i mod 64) 1 - 1) else b"
  have z: "?w = 0" and rec: "next_word f i (w + 1) bs = None"
    using Cons.prems(1) by (auto simp: Let_def split: if_splits)
  show ?case
  proof (cases "j div 64 = w")
    case True
    have "w = i div 64 \<Longrightarrow> i mod 64 \<le> j mod 64" using Cons.prems(3) True by (metis div_mult_mod_eq add_le_cancel_left)
    then have "\<not> bit b (j mod 64)"
      using z bit_cleared_below [of b "i mod 64" "j mod 64"] by (auto split: if_splits)
    with True show ?thesis by simp
  next
    case False
    then have "w + 1 \<le> j div 64" using Cons.prems(4) by (metis Suc_eq_plus1 Suc_leI le_neq_implies_less div_le_mono
          nonzero_mult_div_cancel_left zero_neq_numeral)
    moreover from this have "64 * (w + 1) \<le> j" by (metis le_trans mult_le_mono2 times_div_less_eq_dividend)
    ultimately show ?thesis
      using Cons.IH [OF rec] Cons.prems False by (simp add: nth_Cons' )
  qed
qed simp

lemma next_word_Some:
  assumes "next_word f i w bs = Some v" "i div 64 \<le> w"
  shows "\<exists>j. v = f_min f + int j \<and> i \<le> j \<and> 64 * w \<le> j \<and> j < 64 * (w + length bs) \<and> bit (bs ! (j div 64 - w)) (j mod 64)
    \<and> (\<forall>k. i \<le> k \<and> 64 * w \<le> k \<and> k < j \<longrightarrow> \<not> bit (bs ! (k div 64 - w)) (k mod 64))"
  using assms
proof (induction bs arbitrary: w)
  case (Cons b bs)
  let ?w = "if w = i div 64 then b AND NOT (push_bit (i mod 64) 1 - 1) else b"
  show ?case
  proof (cases "?w = 0")
    case False
    let ?z = "trailing_zeros ?w" and ?j = "64 * w + trailing_zeros ?w"
    have z: "?z < 64" "bit ?w ?z" "\<forall>n < ?z. \<not> bit ?w n" using trailing_zeros_spec [OF False] by auto
    have v: "v = f_min f + int ?j" using Cons.prems(1) False by (simp add: Let_def)
    have dm: "?j div 64 = w" "?j mod 64 = ?z" using z(1) by auto
    have bz: "bit b ?z" "w = i div 64 \<longrightarrow> i mod 64 \<le> ?z" using z(2) bit_cleared_below by (auto split: if_splits)
    have "i \<le> ?j"
    proof (cases "w = i div 64")
      case True
      then show ?thesis using bz(2) by (metis add_le_cancel_left mult_div_mod_eq)
    next
      case False
      then have "i div 64 + 1 \<le> w" using Cons.prems(2) by simp
      then have "i < 64 * w" by (metis Suc_eq_plus1 Suc_le_eq div_less_iff_less_mult mult.commute zero_less_numeral)
      then show ?thesis by simp
    qed
    moreover have "\<not> bit ((b # bs) ! (k div 64 - w)) (k mod 64)" if k: "i \<le> k" "64 * w \<le> k" "k < ?j" for k
    proof -
      have kd: "k div 64 = w" using k(2,3) z(1) by (intro div_nat_eqI) auto
      have "k mod 64 < ?z" using k(3) kd by (metis add_less_cancel_left mult_div_mod_eq)
      then have "\<not> bit ?w (k mod 64)" using z(3) by blast
      moreover have "w = i div 64 \<Longrightarrow> i mod 64 \<le> k mod 64" using k(1) kd by (metis add_le_cancel_left mult_div_mod_eq)
      ultimately show ?thesis using kd bit_cleared_below [of b "i mod 64" "k mod 64"] by (auto split: if_splits)
    qed
    ultimately show ?thesis using v dm bz(1) z(1) by (intro exI [of _ ?j]) auto
  next
    case True
    then have rec: "next_word f i (w + 1) bs = Some v" using Cons.prems(1) by (simp add: Let_def)
    obtain j where j: "v = f_min f + int j" "i \<le> j" "64 * (w + 1) \<le> j" "j < 64 * (w + 1 + length bs)"
      "bit (bs ! (j div 64 - (w + 1))) (j mod 64)"
      "\<forall>k. i \<le> k \<and> 64 * (w + 1) \<le> k \<and> k < j \<longrightarrow> \<not> bit (bs ! (k div 64 - (w + 1))) (k mod 64)"
      using Cons.IH [OF rec] Cons.prems(2) by auto
    have big: "w + 1 \<le> k div 64" if "64 * (w + 1) \<le> k" for k using div_le_mono [OF that, of 64] by simp
    have "\<not> bit ((b # bs) ! (k div 64 - w)) (k mod 64)" if k: "i \<le> k" "64 * w \<le> k" "k < j" for k
    proof (cases "64 * (w + 1) \<le> k")
      case True
      then show ?thesis using j(6) k big [OF True] by (simp add: nth_Cons')
    next
      case False
      then have kd: "k div 64 = w" using k(2) by (intro div_nat_eqI) auto
      have "w = i div 64 \<Longrightarrow> i mod 64 \<le> k mod 64" using k(1) kd by (metis add_le_cancel_left mult_div_mod_eq)
      then show ?thesis
        using kd True bit_cleared_below [of b "i mod 64" "k mod 64"] by (auto split: if_splits)
    qed
    then show ?thesis using j big [OF j(3)] by (intro exI [of _ j]) (auto simp: nth_Cons')
  qed
qed simp

lemma nextAtOrAfter_Some:
  assumes "wf_field f" "nextAtOrAfter f v = Some u"
  shows "v \<le> u \<and> field_matches f u \<and> (\<forall>x. v \<le> x \<and> x < u \<longrightarrow> \<not> field_matches f x)"
proof -
  define v' where "v' = (if v < f_min f then f_min f else v)"
  have v': "v \<le> v'" "f_min f \<le> v'" "v' \<le> f_max f" "\<forall>x. v \<le> x \<and> x < v' \<longrightarrow> \<not> field_matches f x"
    using assms by (auto simp: nextAtOrAfter_def v'_def Let_def field_matches_def split: if_splits)
  show ?thesis
  proof (cases "f_any f")
    case True
    then have "u = v'" using assms(2) v' by (auto simp: nextAtOrAfter_def v'_def Let_def split: if_splits)
    with True v' show ?thesis by (simp add: field_matches_iff)
  next
    case False
    define i where "i = nat (v' - f_min f)"
    have i: "int i = v' - f_min f" using v' by (simp add: i_def)
    have len: "length (f_bits f) = 4" "f_max f - f_min f < 256" using assms(1) by (auto simp: wf_field_def fieldWords_def)
    have i256: "i < 256" using i v' len by linarith
    have "next_word f i (i div 64) (drop (i div 64) (f_bits f)) = Some u"
      using assms(2) False v' by (simp add: nextAtOrAfter_def v'_def [symmetric] Let_def i_def)
    from next_word_Some [OF this] obtain j where j: "u = f_min f + int j" "i \<le> j"
      "j < 64 * (i div 64 + length (drop (i div 64) (f_bits f)))"
      "bit (drop (i div 64) (f_bits f) ! (j div 64 - i div 64)) (j mod 64)"
      "\<forall>k. i \<le> k \<and> 64 * (i div 64) \<le> k \<and> k < j \<longrightarrow> \<not> bit (drop (i div 64) (f_bits f) ! (k div 64 - i div 64)) (k mod 64)"
      by auto
    have nth: "drop (i div 64) (f_bits f) ! (k div 64 - i div 64) = f_bits f ! (k div 64)" if "i \<le> k" for k
      using div_le_mono [OF that, of 64] len i256 by (simp add: nth_drop)
    have "i div 64 < 4" using i256 by (simp add: div_less_iff_less_mult)
    then have j256: "j < 256" using j(3) len by simp
    have bj: "bit (f_bits f ! (j div 64)) (j mod 64)" using j(4) nth [OF j(2)] by simp
    then have "int j \<le> f_max f - f_min f" using assms(1) j256 by (auto simp: wf_field_def)
    then have "field_matches f u" using bj j(1) by (simp add: field_matches_iff)
    moreover have "\<not> field_matches f x" if "v' \<le> x" "x < u" for x
    proof -
      let ?k = "nat (x - f_min f)"
      have k: "i \<le> ?k" "?k < j" using that j(1) i v' by linarith+
      then have "64 * (i div 64) \<le> ?k" by (metis le_trans times_div_less_eq_dividend)
      then have "\<not> bit (f_bits f ! (?k div 64)) (?k mod 64)" using j(5) k nth [OF k(1)] by auto
      with False show ?thesis by (simp add: field_matches_iff)
    qed
    moreover have "v \<le> u" using v' j(1,2) i by linarith
    ultimately show ?thesis using v'(4) by (metis linorder_not_less)
  qed
qed

lemma nextAtOrAfter_None:
  assumes "wf_field f" "nextAtOrAfter f v = None" "v \<le> x"
  shows "\<not> field_matches f x"
proof
  assume m: "field_matches f x"
  define v' where "v' = (if v < f_min f then f_min f else v)"
  have v': "v' \<le> x" "f_min f \<le> v'" "x \<le> f_max f" using m assms(3) by (auto simp: v'_def field_matches_iff)
  then have na: "\<not> f_any f" using assms(2) by (auto simp: nextAtOrAfter_def v'_def [symmetric] Let_def split: if_splits)
  define i k where "i = nat (v' - f_min f)" and "k = nat (x - f_min f)"
  have ik: "i \<le> k" "int k = x - f_min f" using v' by (auto simp: i_def k_def)
  have len: "length (f_bits f) = 4" "f_max f - f_min f < 256" using assms(1) by (auto simp: wf_field_def fieldWords_def)
  have k256: "k < 256" using ik v' len by linarith
  have "next_word f i (i div 64) (drop (i div 64) (f_bits f)) = None"
    using assms(2) na v' by (simp add: nextAtOrAfter_def v'_def [symmetric] Let_def i_def split: if_splits)
  moreover have "64 * (i div 64) \<le> k" using ik(1) by (metis le_trans times_div_less_eq_dividend)
  moreover have id: "i div 64 \<le> k div 64" "k div 64 < 4" using div_le_mono [OF ik(1)] k256 by (auto simp: div_less_iff_less_mult)
  ultimately have "\<not> bit (drop (i div 64) (f_bits f) ! (k div 64 - i div 64)) (k mod 64)"
    using ik(1) len k256 by (intro next_word_None [of f i "i div 64"]) auto
  then have "\<not> bit (f_bits f ! (k div 64)) (k mod 64)" using id len by (simp add: nth_drop)
  with m na show False by (simp add: field_matches_iff k_def)
qed

text \<open>Adding values keeps the invariant and adds exactly those in range.\<close>

lemma bits_add:
  assumes "length (f_bits f) = fieldWords" "i < 256" "j < 256"
  shows "bit ((f_bits f)[i div 64 := f_bits f ! (i div 64) OR push_bit (i mod 64) 1] ! (j div 64)) (j mod 64)
    \<longleftrightarrow> i = j \<or> bit (f_bits f ! (j div 64)) (j mod 64)"
proof -
  have l: "i div 64 < length (f_bits f)" "j div 64 < length (f_bits f)"
    using assms by (auto simp: fieldWords_def div_less_iff_less_mult)
  have one: "bit (push_bit (i mod 64) 1 :: 64 word) n \<longleftrightarrow> n = i mod 64" for n
    by (auto simp: bit_exp_iff possible_bit_def)
  show ?thesis
  proof (cases "i div 64 = j div 64")
    case True
    then have "(j mod 64 = i mod 64) = (i = j)" by (metis div_mult_mod_eq)
    with True l show ?thesis by (simp only: nth_list_update_eq bit_or_iff one) auto
  next
    case False
    then show ?thesis using l by auto
  qed
qed

lemma field_add_wf:
  assumes "wf_field f"
  shows "wf_field (field_add v f)" "f_min (field_add v f) = f_min f" "f_max (field_add v f) = f_max f"
    "f_any (field_add v f) = f_any f"
    "field_matches (field_add v f) x \<longleftrightarrow> field_matches f x \<or> (x = v \<and> f_min f \<le> v \<and> v \<le> f_max f)"
proof -
  let ?i = "nat (v - f_min f)"
  have base: "f_min (field_add v f) = f_min f" "f_max (field_add v f) = f_max f" "f_any (field_add v f) = f_any f"
    by (auto simp: field_add_def Let_def)
  then show "f_min (field_add v f) = f_min f" "f_max (field_add v f) = f_max f" "f_any (field_add v f) = f_any f" by auto
  have wf: "length (f_bits f) = fieldWords" "f_min f \<le> f_max f" "f_max f - f_min f < 256"
    "\<And>j. j < 256 \<Longrightarrow> bit (f_bits f ! (j div 64)) (j mod 64) \<Longrightarrow> int j \<le> f_max f - f_min f"
    using assms by (auto simp: wf_field_def)
  show "wf_field (field_add v f)"
  proof (cases "v < f_min f \<or> f_max f < v")
    case False
    then have i: "?i < 256" using wf(3) by linarith
    from False wf bits_add [OF wf(1) i] show ?thesis by (auto simp: wf_field_def field_add_def Let_def)
  qed (use assms in \<open>simp add: field_add_def\<close>)
  show "field_matches (field_add v f) x \<longleftrightarrow> field_matches f x \<or> (x = v \<and> f_min f \<le> v \<and> v \<le> f_max f)"
  proof (cases "v < f_min f \<or> f_max f < v")
    case False
    then have i: "?i < 256" using wf(3) by linarith
    show ?thesis
    proof (cases "f_min f \<le> x \<and> x \<le> f_max f")
      case True
      then have k: "nat (x - f_min f) < 256" using wf(3) by linarith
      have "(?i = nat (x - f_min f)) = (x = v)" using True False by auto
      with True False bits_add [OF wf(1) i k] base show ?thesis
        by (auto simp: field_matches_iff field_add_def Let_def)
    qed (use False base in \<open>auto simp: field_matches_iff\<close>)
  qed (use base in \<open>auto simp: field_add_def\<close>)
qed

lemma new_field_wf: "lo \<le> hi \<Longrightarrow> hi - lo < 256 \<Longrightarrow> wf_field (new_field lo hi)"
  by (auto simp: wf_field_def new_field_def fieldWords_def)

lemma add_seq_wf: "wf_field f \<Longrightarrow> wf_field (add_seq v l st f)"
proof (induction v l st f rule: add_seq.induct)
  case (1 v l st f)
  then show ?case by (simp add: add_seq.simps [of v] field_add_wf(1))
qed

lemma add_parts_wf: "wf_field f \<Longrightarrow> add_parts spec parts f = Inr g \<Longrightarrow> wf_field g"
  by (induction spec parts f rule: add_parts.induct) (auto simp: add_seq_wf split: if_splits sum.splits)

lemma parseField_wf:
  assumes "fs_min spec \<le> fs_max spec" "fs_max spec - fs_min spec < 256" "parseField s spec = Inr f"
  shows "wf_field f"
proof -
  have nf: "wf_field (new_field (fs_min spec) (fs_max spec))" using assms by (intro new_field_wf) auto
  moreover from nf have "wf_field (new_field (fs_min spec) (fs_max spec)\<lparr>f_any := True\<rparr>)" by (simp add: wf_field_def)
  ultimately show ?thesis using assms(3) add_parts_wf [OF nf] by (auto simp: parseField_def Let_def split: if_splits)
qed

definition in_spec :: "cron_field \<Rightarrow> fieldSpec \<Rightarrow> bool" where
  "in_spec f spec \<longleftrightarrow> wf_field f \<and> f_min f = fs_min spec \<and> f_max f = fs_max spec"

definition wf_schedule :: "Schedule \<Rightarrow> bool" where
  "wf_schedule s \<longleftrightarrow> in_spec (sc_minute s) minuteSpec \<and> in_spec (sc_hour s) hourSpec \<and> in_spec (sc_dom s) domSpec
     \<and> in_spec (sc_month s) monthSpec \<and> in_spec (sc_dow s) dowSpec \<and> in_spec (sc_year s) yearSpec
     \<and> length (sc_days s) \<le> maxDayRules"

section \<open>Parsed expressions are well formed\<close>

lemma add_seq_bounds: "wf_field f \<Longrightarrow> f_min (add_seq v l st f) = f_min f \<and> f_max (add_seq v l st f) = f_max f"
proof (induction v l st f rule: add_seq.induct)
  case (1 v l st f)
  then show ?case by (simp add: add_seq.simps [of v] field_add_wf)
qed

lemma add_parts_bounds:
  "wf_field f \<Longrightarrow> add_parts spec parts f = Inr g \<Longrightarrow> f_min g = f_min f \<and> f_max g = f_max f"
  by (induction spec parts f rule: add_parts.induct)
    (auto simp: add_seq_wf add_seq_bounds split: if_splits sum.splits)

lemma parseField_in_spec:
  assumes "spec \<in> set fieldSpecs" "parseField s spec = Inr f"
  shows "in_spec f spec"
proof -
  have sp: "fs_min spec \<le> fs_max spec" "fs_max spec - fs_min spec < 256"
    using assms(1)
    by (auto simp: fieldSpecs_def minuteSpec_def hourSpec_def domSpec_def monthSpec_def dowSpec_def yearSpec_def)
  have nf: "wf_field (new_field (fs_min spec) (fs_max spec))" using sp by (intro new_field_wf) auto
  have "f_min f = fs_min spec \<and> f_max f = fs_max spec"
    using assms(2) add_parts_bounds [OF nf, of spec]
    by (auto simp: parseField_def Let_def new_field_def split: if_splits)
  with parseField_wf [OF sp assms(2)] show ?thesis by (simp add: in_spec_def)
qed

lemma parse_fields_in_spec:
  "parse_fields expr xs = Inr fs \<Longrightarrow> set (map snd xs) \<subseteq> set fieldSpecs \<Longrightarrow>
     length fs = length xs \<and> (\<forall>i < length xs. in_spec (fs ! i) (snd (xs ! i)))"
  by (induction expr xs arbitrary: fs rule: parse_fields.induct)
    (auto split: sum.splits simp: nth_Cons parseField_in_spec split: nat.splits)

lemma add_rules_length: "add_rules p parts rules = Inr r \<Longrightarrow> length rules \<le> maxDayRules \<Longrightarrow> length r \<le> maxDayRules"
  by (induction p parts rules rule: add_rules.induct) (auto simp: rules_add_def split: if_splits sum.splits)

lemma parseDayRules_length: "parseDayRules d w = Inr r \<Longrightarrow> length r \<le> maxDayRules"
  by (auto simp: parseDayRules_def field_rules_def Let_def maxDayRules_def
      dest!: add_rules_length [unfolded maxDayRules_def] split: sum.splits if_splits)

lemma Parse_wf:
  assumes "Parse expr = Inr s"
  shows "wf_schedule s"
proof -
  obtain fields fs rules where f: "length fields = 6" "parse_fields expr (zip fields fieldSpecs) = Inr fs"
    "parseDayRules (fields ! 2) (fields ! 4) = Inr rules"
    "s = \<lparr>sc_minute = fs ! 0, sc_hour = fs ! 1, sc_dom = fs ! 2, sc_month = fs ! 3, sc_dow = fs ! 4, sc_year = fs ! 5,
          sc_dayMode = resolveDayMode (fields ! 2) (fields ! 4), sc_days = rules\<rparr>"
    using assms unfolding Parse_def Let_def by (auto split: if_split_asm sum.split_asm prod.split_asm)
  have l: "length fieldSpecs = 6" by (simp add: fieldSpecs_def)
  have "set (map snd (zip fields fieldSpecs)) \<subseteq> set fieldSpecs" using f(1) l by simp
  from parse_fields_in_spec [OF f(2) this] have "\<forall>i < 6. in_spec (fs ! i) (fieldSpecs ! i)" using f(1) l by simp
  then have "in_spec (fs ! 0) minuteSpec" "in_spec (fs ! 1) hourSpec" "in_spec (fs ! 2) domSpec" "in_spec (fs ! 3) monthSpec"
    "in_spec (fs ! 4) dowSpec" "in_spec (fs ! 5) yearSpec"
    by (auto simp: fieldSpecs_def dest: spec [of _ 0] spec [of _ 1] spec [of _ 2] spec [of _ 3] spec [of _ 4] spec [of _ 5])
  with parseDayRules_length [OF f(3)] f(4) show ?thesis by (simp add: wf_schedule_def)
qed

end
