(* ===== verification/Cron_Next.thy ===== *)
theory Cron_Next
  imports Aws_Cron
begin

text \<open>
  The walk \<open>Next\<close> of \<^verbatim>\<open>internal/awscron/cron.go\<close> on a wall clock (the reading of an instant
  in UTC) against its specification: it returns
  the first whole minute at or after the given instant at which every field of the
  expression admits the instant's fields, and nothing when there is none before the
  limit.  The proof shows for each kind of jump that it moves forward and passes over no
  instant that fires; the day specifiers W and LW are related to the calendar.
\<close>

section \<open>Instants as minutes\<close>

lemma div_less_mult: "0 < k \<Longrightarrow> u div k < d \<longleftrightarrow> u < d * k" for u k d :: int
proof -
  assume k: "0 < k"
  have u: "u = k * (u div k) + u mod k" "0 \<le> u mod k" "u mod k < k" using k by simp_all
  show ?thesis
  proof
    assume "u div k < d"
    then have "k * (u div k + 1) \<le> k * d" using k by (intro mult_left_mono) auto
    then have "k * (u div k) + k \<le> d * k" by (simp add: algebra_simps)
    then show "u < d * k" using u by linarith
  next
    assume "u < d * k"
    then have "k * (u div k) < d * k" using u by linarith
    then have "k * (u div k) < k * d" by (simp add: mult.commute)
    then show "u div k < d" using k by simp
  qed
qed

lemma ns_pos [simp]: "0 < minute_ns" "0 < hour_ns" "0 < day_ns"
  by (simp_all add: minute_ns_def hour_ns_def day_ns_def)

lemma ns_units: "hour_ns = minute_ns * 60" "day_ns = minute_ns * 1440" "day_ns = hour_ns * 24"
  by (simp_all add: minute_ns_def hour_ns_def day_ns_def)

lemma minute_fields:
  "t div day_ns = t div minute_ns div 1440" "t_Hour t = t div minute_ns div 60 mod 24" "t_Minute t = t div minute_ns mod 60"
proof -
  show "t div day_ns = t div minute_ns div 1440" by (simp add: ns_units(2) zdiv_zmult2_eq)
  have "t mod day_ns = hour_ns * (t div hour_ns mod 24) + t mod hour_ns" by (simp add: ns_units(3) zmod_zmult2_eq)
  then have "t_Hour t = t div hour_ns mod 24"
    unfolding t_Hour_def by (intro int_div_pos_eq) (auto simp: pos_mod_bound)
  then show "t_Hour t = t div minute_ns div 60 mod 24" by (simp add: ns_units(1) zdiv_zmult2_eq)
  have "t mod hour_ns = minute_ns * (t div minute_ns mod 60) + t mod minute_ns" by (simp add: ns_units(1) zmod_zmult2_eq)
  then show "t_Minute t = t div minute_ns mod 60"
    unfolding t_Minute_def by (intro int_div_pos_eq) (auto simp: pos_mod_bound)
qed

lemma time_Date_minutes: "time_Date y m d h mi = (1440 * date_day y m d + 60 * h + mi) * minute_ns"
  by (simp add: time_Date_def ns_units algebra_simps)

lemma time_Date_dvd [simp]: "minute_ns dvd time_Date y m d h mi"
  by (simp add: time_Date_minutes)

lemma same_date: "date_day (t_Year t) (t_Month t) (t_Day t) = t div day_ns"
  by (simp add: t_Year_def t_Month_def t_Day_def date_day_fields)

lemma next_day: "date_day (t_Year t) (t_Month t) (t_Day t + 1) = t div day_ns + 1"
  using same_date [of t] by (simp add: date_day_def Let_def)

lemma startOfDay_div: "startOfDay t div day_ns = t div day_ns"
  by (simp add: startOfDay_def time_Date_def same_date)

lemma next_midnight_startOfDay: "next_midnight (startOfDay t) = (t div day_ns + 1) * day_ns"
  using next_day [of "startOfDay t"] by (simp add: next_midnight_def time_Date_def startOfDay_div)

text \<open>Whether a date qualifies depends on the date alone.\<close>

lemma same_day_fields:
  assumes "u div day_ns = t div day_ns"
  shows "t_Year u = t_Year t" "t_Month u = t_Month t" "t_Day u = t_Day t" "t_Weekday u = t_Weekday t"
    "lastDayOfMonth u = lastDayOfMonth t" "nearestWeekday u d = nearestWeekday t d"
    "lastWeekdayOfMonth u = lastWeekdayOfMonth t"
proof -
  show f: "t_Year u = t_Year t" "t_Month u = t_Month t" "t_Day u = t_Day t" "t_Weekday u = t_Weekday t"
    using assms by (simp_all add: t_Year_def t_Month_def t_Day_def t_Weekday_def)
  then show "lastDayOfMonth u = lastDayOfMonth t" "nearestWeekday u d = nearestWeekday t d"
    by (simp_all add: lastDayOfMonth_def nearestWeekday_def)
  have "last_weekday n u x = last_weekday n t x" for n x
    by (induction n arbitrary: x) (simp_all add: f)
  then show "lastWeekdayOfMonth u = lastWeekdayOfMonth t" using f by (simp add: lastWeekdayOfMonth_def lastDayOfMonth_def)
qed

lemma matchesDay_same_day:
  assumes "u div day_ns = t div day_ns"
  shows "matchesDay s u = matchesDay s t"
proof -
  note f = same_day_fields [OF assms]
  have "rule_month_day u = rule_month_day t" "rule_weekday u = rule_weekday t"
    by (rule ext, rename_tac r, case_tac r; simp add: f)+
  then show ?thesis
    by (simp add: matchesDay_def matchesMonthDay_def matchesWeekday_def rules_match_month_day_def
        rules_match_weekday_def f cong: if_cong split: dayMode.split)
qed

section \<open>The walk finds the first match\<close>

text \<open>What it means for an expression to fire at an instant, read field by field.\<close>

definition fires_at :: "Schedule \<Rightarrow> int \<Rightarrow> bool" where
  "fires_at s t \<longleftrightarrow> minute_ns dvd t \<and> field_matches (sc_year s) (t_Year t) \<and> field_matches (sc_month s) (t_Month t)
     \<and> matchesDay s t \<and> field_matches (sc_hour s) (t_Hour t) \<and> field_matches (sc_minute s) (t_Minute t)"

lemma next_in_spec:
  assumes "in_spec f spec" "nextAtOrAfter f v = Some u"
  shows "v \<le> u" "fs_min spec \<le> u" "u \<le> fs_max spec" "field_matches f u" "\<And>x. v \<le> x \<Longrightarrow> x < u \<Longrightarrow> \<not> field_matches f x"
  using nextAtOrAfter_Some [of f v u] assms by (auto simp: in_spec_def field_matches_iff)

lemma year_before: "u < time_Date y 1 1 0 0 \<longleftrightarrow> t_Year u < y"
proof -
  have "time_Date y 1 1 0 0 = year_start y * day_ns" by (simp add: time_Date_def date_day_in_range)
  then show ?thesis using div_less_mult [of day_ns u "year_start y"] by (simp add: t_Year_def year_of_day_less)
qed

lemma year_mono: "t \<le> u \<Longrightarrow> t_Year t \<le> t_Year u"
  unfolding t_Year_def by (intro year_of_day_mono zdiv_mono1) simp_all

lemma month_mono: "t \<le> u \<Longrightarrow> t_Year t = t_Year u \<Longrightarrow> t_Month t \<le> t_Month u"
  unfolding t_Year_def t_Month_def by (intro month_of_day_mono zdiv_mono1) simp_all

lemma month_before:
  assumes "1 \<le> m" "m \<le> 12" "t_Year u = y" "u < time_Date y m 1 0 0"
  shows "t_Month u < m"
  using assms div_less_mult [of day_ns u "date_day y m 1"] before_month [of m "u div day_ns" y]
  by (simp add: time_Date_def t_Year_def t_Month_def)

lemma year_before_month:
  assumes "1 \<le> m" "m \<le> 12" "u < time_Date y m 1 0 0"
  shows "t_Year u \<le> y"
proof -
  have "month_off y m \<le> month_off y 13" using month_off_mono [of m 13 y] assms by simp
  then have "date_day y m 1 \<le> year_start (y + 1)"
    using assms by (simp add: date_day_in_range month_off_13 year_start_next)
  then have "u div day_ns < year_start (y + 1)"
    using assms(3) div_less_mult [of day_ns u "date_day y m 1"] by (simp add: time_Date_def)
  then show ?thesis by (simp add: t_Year_def year_of_day_less)
qed

lemma t_Month_bounds: "1 \<le> t_Month t" "t_Month t \<le> 12"
  using month_of_day_spec by (simp_all add: t_Month_def)

lemma step_found: "step_next s t = Found \<Longrightarrow> wf_schedule s \<Longrightarrow> minute_ns dvd t \<Longrightarrow> fires_at s t"
  unfolding step_next_def fires_at_def wf_schedule_def
  by (auto split: option.split_asm if_split_asm dest: next_in_spec(4))

lemma step_stop: "step_next s t = Stop \<Longrightarrow> wf_schedule s \<Longrightarrow> t \<le> u \<Longrightarrow> \<not> fires_at s u"
  using year_mono [of t u] nextAtOrAfter_None [of "sc_year s" "t_Year t" "t_Year u"]
  by (auto simp: step_next_def fires_at_def wf_schedule_def in_spec_def split: option.splits if_splits)

text \<open>Each kind of jump moves forward and passes over no instant that fires.\<close>

definition safe_jump :: "Schedule \<Rightarrow> int \<Rightarrow> int \<Rightarrow> bool" where
  "safe_jump s t t' \<longleftrightarrow> t < t' \<and> minute_ns dvd t' \<and> (\<forall>u. t \<le> u \<and> u < t' \<longrightarrow> \<not> fires_at s u)"

lemma jump_year:
  assumes "wf_schedule s" "nextAtOrAfter (sc_year s) (t_Year t) = Some y" "y \<noteq> t_Year t"
  shows "safe_jump s t (time_Date y 1 1 0 0)"
proof -
  have sp: "in_spec (sc_year s) yearSpec" using assms by (simp add: wf_schedule_def)
  note n = next_in_spec [OF sp assms(2)]
  have "t < time_Date y 1 1 0 0" using n(1) assms(3) by (simp add: year_before)
  moreover have "\<not> fires_at s u" if "t \<le> u" "u < time_Date y 1 1 0 0" for u
    using n(5) [of "t_Year u"] year_mono [OF that(1)] that(2) by (auto simp: fires_at_def year_before)
  ultimately show ?thesis by (simp add: safe_jump_def)
qed

lemma jump_next_year:
  assumes "wf_schedule s" "nextAtOrAfter (sc_month s) (t_Month t) = None"
  shows "safe_jump s t (time_Date (t_Year t + 1) 1 1 0 0)"
proof -
  have "\<not> fires_at s u" if u: "t \<le> u" "u < time_Date (t_Year t + 1) 1 1 0 0" for u
  proof -
    have "t_Year t = t_Year u" using year_mono [OF u(1)] u(2) by (simp add: year_before)
    then have "t_Month t \<le> t_Month u" using month_mono [OF u(1)] by simp
    then show ?thesis
      using nextAtOrAfter_None [OF _ assms(2)] assms(1) by (auto simp: fires_at_def wf_schedule_def in_spec_def)
  qed
  moreover have "t < time_Date (t_Year t + 1) 1 1 0 0" by (simp add: year_before)
  ultimately show ?thesis by (simp add: safe_jump_def)
qed

lemma jump_month:
  assumes "wf_schedule s" "nextAtOrAfter (sc_month s) (t_Month t) = Some m" "m \<noteq> t_Month t"
  shows "safe_jump s t (time_Date (t_Year t) m 1 0 0)"
proof -
  have sp: "in_spec (sc_month s) monthSpec" using assms by (simp add: wf_schedule_def)
  note n = next_in_spec [OF sp assms(2)]
  have m: "1 \<le> m" "m \<le> 12" "t_Month t < m" using n assms(3) by (auto simp: monthSpec_def)
  have "\<not> fires_at s u" if u: "t \<le> u" "u < time_Date (t_Year t) m 1 0 0" for u
  proof -
    have y: "t_Year u = t_Year t" using year_mono [OF u(1)] year_before_month [OF m(1,2) u(2)] by simp
    then have "t_Month t \<le> t_Month u" "t_Month u < m"
      using month_mono [OF u(1)] month_before [OF m(1,2) y u(2)] by simp_all
    then show ?thesis using n(5) by (auto simp: fires_at_def)
  qed
  moreover have "t < time_Date (t_Year t) m 1 0 0"
  proof -
    have "month_off (t_Year t) (t_Month t + 1) \<le> month_off (t_Year t) m"
      using month_off_mono [of "t_Month t + 1" m "t_Year t"] m(3) t_Month_bounds(1) [of t] by simp
    then have "t div day_ns < date_day (t_Year t) m 1"
      using month_of_day_spec(4) [of "t div day_ns"] m(1,2) by (simp add: date_day_in_range t_Year_def t_Month_def)
    then show ?thesis using div_less_mult [of day_ns t] by (simp add: time_Date_def)
  qed
  ultimately show ?thesis by (simp add: safe_jump_def)
qed

lemma same_day_between:
  assumes "t \<le> u" "u < (t div day_ns + 1) * day_ns"
  shows "u div day_ns = t div day_ns"
  using zdiv_mono1 [OF assms(1), of day_ns] div_less_mult [of day_ns u "t div day_ns + 1"] assms(2) by simp

lemma next_midnight_later: "t < (t div day_ns + 1) * day_ns"
  using div_less_mult [of day_ns t "t div day_ns + 1"] by simp

lemma jump_day:
  assumes "\<And>u. t \<le> u \<Longrightarrow> u div day_ns = t div day_ns \<Longrightarrow> \<not> fires_at s u"
  shows "safe_jump s t (next_midnight (startOfDay t))"
proof -
  have "minute_ns dvd day_ns" by (simp add: ns_units(2))
  then have "minute_ns dvd (t div day_ns + 1) * day_ns" by (rule dvd_mult)
  then show ?thesis
    using assms same_day_between [of t] next_midnight_later [of t]
    unfolding safe_jump_def next_midnight_startOfDay by blast
qed

text \<open>Within a day and within an hour, by counting minutes.\<close>

lemma minute_of: "minute_ns dvd t \<Longrightarrow> t = t div minute_ns * minute_ns"
  by simp

lemma less_minutes: "minute_ns dvd t \<Longrightarrow> t < k * minute_ns \<longleftrightarrow> t div minute_ns < k"
  by (metis div_less_mult ns_pos(1))

lemma div_same: "1440 * (T div 1440) \<le> U \<Longrightarrow> U < 1440 * (T div 1440) + 1440 \<Longrightarrow> U div 1440 = T div 1440" for T U :: int
  using int_div_pos_eq [of U 1440 "T div 1440" "U - 1440 * (T div 1440)"] by simp

lemma hour_arith:
  fixes m n :: int
  assumes "m \<le> n" "m div 1440 = n div 1440"
  shows "m div 60 mod 24 \<le> n div 60 mod 24"
    "m div 60 mod 24 = n div 60 mod 24 \<Longrightarrow> m mod 60 \<le> n mod 60"
proof -
  define M N where "M = m div 60" and "N = n div 60"
  have e: "x div 1440 = x div 60 div 24" for x :: int by (simp add: zdiv_zmult2_eq [symmetric])
  have "M div 24 = N div 24" using assms(2) unfolding e M_def N_def .
  moreover have "24 * (M div 24) + M mod 24 = M" "24 * (N div 24) + N mod 24 = N" by simp_all
  moreover have "M \<le> N" unfolding M_def N_def using assms(1) by (rule zdiv_mono1) simp
  ultimately have "M mod 24 \<le> N mod 24" "M mod 24 = N mod 24 \<longrightarrow> M = N" by linarith+
  moreover have "60 * M + m mod 60 = m" "60 * N + n mod 60 = n" by (simp_all add: M_def N_def)
  ultimately show "m div 60 mod 24 \<le> n div 60 mod 24" "m div 60 mod 24 = n div 60 mod 24 \<Longrightarrow> m mod 60 \<le> n mod 60"
    using assms(1) unfolding M_def [symmetric] N_def [symmetric] by linarith+
qed

lemma hour_split:
  fixes m :: int
  shows "m = 1440 * (m div 1440) + 60 * (m div 60 mod 24) + m mod 60" "0 \<le> m div 60 mod 24" "m div 60 mod 24 \<le> 23"
    "0 \<le> m mod 60" "m mod 60 \<le> 59"
proof -
  have "m div 1440 = m div 60 div 24" by (simp add: zdiv_zmult2_eq [symmetric])
  then show "m = 1440 * (m div 1440) + 60 * (m div 60 mod 24) + m mod 60"
    using mult_div_mod_eq [of 60 m] mult_div_mod_eq [of 24 "m div 60"] by linarith
qed simp_all

lemma jump_hour:
  assumes "wf_schedule s" "minute_ns dvd t" "nextAtOrAfter (sc_hour s) (t_Hour t) = Some h" "h \<noteq> t_Hour t"
  shows "safe_jump s t (time_Date (t_Year t) (t_Month t) (t_Day t) h 0)"
proof -
  have sp: "in_spec (sc_hour s) hourSpec" using assms by (simp add: wf_schedule_def)
  note n = next_in_spec [OF sp assms(3)]
  have h: "0 \<le> h" "h \<le> 23" "t_Hour t < h" using n assms(4) by (auto simp: hourSpec_def)
  define T where "T = t div minute_ns"
  have D: "t div day_ns = T div 1440" "t_Hour t = T div 60 mod 24" by (simp_all add: T_def minute_fields)
  have tgt: "time_Date (t_Year t) (t_Month t) (t_Day t) h 0 = (1440 * (T div 1440) + 60 * h) * minute_ns"
    by (simp add: time_Date_minutes same_date D)
  have "T < 1440 * (T div 1440) + 60 * h" using hour_split [of T] h(3) D(2) by linarith
  then have later: "t < time_Date (t_Year t) (t_Month t) (t_Day t) h 0" unfolding tgt using less_minutes [OF assms(2)] by (simp add: T_def)
  have "\<not> fires_at s u" if u: "t \<le> u" "u < time_Date (t_Year t) (t_Month t) (t_Day t) h 0" for u
  proof
    assume f: "fires_at s u"
    define U where "U = u div minute_ns"
    have "U < 1440 * (T div 1440) + 60 * h" using u(2) f less_minutes [of u] by (simp add: tgt fires_at_def U_def)
    moreover have TU: "T \<le> U" using u(1) by (simp add: T_def U_def zdiv_mono1)
    moreover have "1440 * (T div 1440) \<le> T" "T < 1440 * (T div 1440) + 1440" using hour_split [of T] by linarith+
    ultimately have eq: "T div 1440 = U div 1440" using h(2) by (intro div_same [symmetric]) linarith+
    then have "T div 60 mod 24 \<le> U div 60 mod 24" "U div 60 mod 24 < h"
      using hour_arith(1) [OF TU] hour_split [of U] \<open>U < _\<close> by linarith+
    then have "t_Hour t \<le> t_Hour u" "t_Hour u < h" by (simp_all only: minute_fields(2) U_def T_def)
    then show False using n(5) f unfolding fires_at_def by blast
  qed
  with later show ?thesis by (simp add: safe_jump_def)
qed

lemma jump_next_hour:
  assumes "wf_schedule s" "minute_ns dvd t" "nextAtOrAfter (sc_minute s) (t_Minute t) = None"
    and "field_matches (sc_hour s) (t_Hour t)"
  shows "safe_jump s t (time_Date (t_Year t) (t_Month t) (t_Day t) (t_Hour t) 0 + hour_ns)"
proof -
  define T where "T = t div minute_ns"
  have D: "t div day_ns = T div 1440" "t_Hour t = T div 60 mod 24" "t_Minute t = T mod 60"
    by (simp_all add: T_def minute_fields)
  let ?h = "T div 60 mod 24"
  have tgt: "time_Date (t_Year t) (t_Month t) (t_Day t) (t_Hour t) 0 + hour_ns = (1440 * (T div 1440) + 60 * ?h + 60) * minute_ns"
    unfolding time_Date_minutes same_date D ns_units(1) by (simp add: algebra_simps)
  have sT: "T = 1440 * (T div 1440) + 60 * ?h + T mod 60" "0 \<le> T mod 60" "T mod 60 \<le> 59" "?h \<le> 23" "0 \<le> ?h"
    using hour_split [of T] by blast+
  then have "T < 1440 * (T div 1440) + 60 * ?h + 60" by linarith
  then have later: "t < (1440 * (T div 1440) + 60 * ?h + 60) * minute_ns" using less_minutes [OF assms(2)] by (simp add: T_def)
  have "\<not> fires_at s u" if u: "t \<le> u" "u < (1440 * (T div 1440) + 60 * ?h + 60) * minute_ns" for u
  proof
    assume f: "fires_at s u"
    define U where "U = u div minute_ns"
    have Ub: "U < 1440 * (T div 1440) + 60 * ?h + 60" using u(2) f less_minutes [of u] by (simp add: fires_at_def U_def)
    have TU: "T \<le> U" using u(1) by (simp add: T_def U_def zdiv_mono1)
    have eq: "U div 1440 = T div 1440" by (rule div_same) (use Ub TU sT in linarith)+
    have sU: "U = 1440 * (T div 1440) + 60 * (U div 60 mod 24) + U mod 60" "0 \<le> U mod 60"
      using hour_split [of U] unfolding eq by blast+
    have hle: "?h \<le> U div 60 mod 24" using hour_arith(1) [OF TU eq [symmetric]] .
    have "U div 60 mod 24 = ?h" using sU Ub hle by linarith
    then have "T mod 60 \<le> U mod 60" using hour_arith(2) [OF TU eq [symmetric]] by simp
    moreover have "wf_field (sc_minute s)" using assms(1) by (simp add: wf_schedule_def in_spec_def)
    moreover have "t_Minute u = U mod 60" by (simp only: minute_fields(3) U_def)
    ultimately show False
      using nextAtOrAfter_None [OF _ assms(3), of "t_Minute u"] f D(3) unfolding fires_at_def by simp
  qed
  with later show ?thesis unfolding tgt by (simp add: safe_jump_def)
qed

lemma jump_minute:
  assumes "wf_schedule s" "minute_ns dvd t" "nextAtOrAfter (sc_minute s) (t_Minute t) = Some mi" "mi \<noteq> t_Minute t"
  shows "safe_jump s t (time_Date (t_Year t) (t_Month t) (t_Day t) (t_Hour t) mi)"
proof -
  have sp: "in_spec (sc_minute s) minuteSpec" using assms by (simp add: wf_schedule_def)
  note n = next_in_spec [OF sp assms(3)]
  have mi: "mi \<le> 59" "t_Minute t < mi" using n assms(4) by (auto simp: minuteSpec_def)
  define T where "T = t div minute_ns"
  have D: "t div day_ns = T div 1440" "t_Hour t = T div 60 mod 24" "t_Minute t = T mod 60"
    by (simp_all add: T_def minute_fields)
  let ?h = "T div 60 mod 24"
  have tgt: "time_Date (t_Year t) (t_Month t) (t_Day t) (t_Hour t) mi = (1440 * (T div 1440) + 60 * ?h + mi) * minute_ns"
    unfolding time_Date_minutes same_date D ..
  have sT: "T = 1440 * (T div 1440) + 60 * ?h + T mod 60" "0 \<le> T mod 60" "?h \<le> 23" "0 \<le> ?h"
    using hour_split [of T] by blast+
  then have "T < 1440 * (T div 1440) + 60 * ?h + mi" using mi(2) D(3) by linarith
  then have later: "t < (1440 * (T div 1440) + 60 * ?h + mi) * minute_ns" using less_minutes [OF assms(2)] by (simp add: T_def)
  have "\<not> fires_at s u" if u: "t \<le> u" "u < (1440 * (T div 1440) + 60 * ?h + mi) * minute_ns" for u
  proof
    assume f: "fires_at s u"
    define U where "U = u div minute_ns"
    have Ub: "U < 1440 * (T div 1440) + 60 * ?h + mi" using u(2) f less_minutes [of u] by (simp add: fires_at_def U_def)
    have TU: "T \<le> U" using u(1) by (simp add: T_def U_def zdiv_mono1)
    have eq: "U div 1440 = T div 1440" by (rule div_same) (use Ub TU sT mi in linarith)+
    have sU: "U = 1440 * (T div 1440) + 60 * (U div 60 mod 24) + U mod 60" "0 \<le> U mod 60"
      using hour_split [of U] unfolding eq by blast+
    have hle: "?h \<le> U div 60 mod 24" using hour_arith(1) [OF TU eq [symmetric]] .
    have h: "U div 60 mod 24 = ?h" using sU Ub hle mi(1) by linarith
    then have "T mod 60 \<le> U mod 60" using hour_arith(2) [OF TU eq [symmetric]] by simp
    moreover have "U mod 60 < mi" using sU(1) Ub unfolding h by linarith
    ultimately have "t_Minute t \<le> t_Minute u" "t_Minute u < mi" by (simp_all only: minute_fields(3) U_def T_def)
    then show False using n(5) f unfolding fires_at_def by blast
  qed
  with later show ?thesis unfolding tgt by (simp add: safe_jump_def)
qed

lemma step_jump:
  assumes "wf_schedule s" "minute_ns dvd t" "step_next s t = Jump t'"
  shows "safe_jump s t t'"
proof -
  have wf: "wf_field (sc_hour s)" using assms(1) by (simp add: wf_schedule_def in_spec_def)
  have day: "safe_jump s t (next_midnight (startOfDay t))" if "\<not> matchesDay s t"
  proof (rule jump_day)
    show "\<not> fires_at s u" if "t \<le> u" "u div day_ns = t div day_ns" for u
      using \<open>\<not> matchesDay s t\<close> matchesDay_same_day [OF that(2), of s] by (simp add: fires_at_def)
  qed
  have hours: "safe_jump s t (next_midnight (startOfDay t))" if "nextAtOrAfter (sc_hour s) (t_Hour t) = None"
  proof (rule jump_day)
    show "\<not> fires_at s u" if u: "t \<le> u" "u div day_ns = t div day_ns" for u
    proof -
      have "t_Hour t \<le> t_Hour u"
        using hour_arith(1) [of "t div minute_ns" "u div minute_ns"] u by (simp add: minute_fields zdiv_mono1)
      then show ?thesis
        using nextAtOrAfter_None [OF wf \<open>nextAtOrAfter (sc_hour s) (t_Hour t) = None\<close>] by (auto simp: fires_at_def)
    qed
  qed
  have hm: "field_matches (sc_hour s) (t_Hour t)" if "nextAtOrAfter (sc_hour s) (t_Hour t) = Some (t_Hour t)"
    using nextAtOrAfter_Some [OF wf that] by simp
  consider (year) y where "nextAtOrAfter (sc_year s) (t_Year t) = Some y" "y \<noteq> t_Year t" "t' = time_Date y 1 1 0 0"
    | (next_year) "nextAtOrAfter (sc_month s) (t_Month t) = None" "t' = time_Date (t_Year t + 1) 1 1 0 0"
    | (month) m where "nextAtOrAfter (sc_month s) (t_Month t) = Some m" "m \<noteq> t_Month t" "t' = time_Date (t_Year t) m 1 0 0"
    | (day) "\<not> matchesDay s t" "t' = next_midnight (startOfDay t)"
    | (hours) "nextAtOrAfter (sc_hour s) (t_Hour t) = None" "t' = next_midnight (startOfDay t)"
    | (hour) h where "nextAtOrAfter (sc_hour s) (t_Hour t) = Some h" "h \<noteq> t_Hour t"
        "t' = time_Date (t_Year t) (t_Month t) (t_Day t) h 0"
    | (next_hour) "nextAtOrAfter (sc_hour s) (t_Hour t) = Some (t_Hour t)" "nextAtOrAfter (sc_minute s) (t_Minute t) = None"
        "t' = time_Date (t_Year t) (t_Month t) (t_Day t) (t_Hour t) 0 + hour_ns"
    | (minute) mi where "nextAtOrAfter (sc_minute s) (t_Minute t) = Some mi" "mi \<noteq> t_Minute t"
        "t' = time_Date (t_Year t) (t_Month t) (t_Day t) (t_Hour t) mi"
    using assms(3) unfolding step_next_def by (auto split: option.split_asm if_split_asm)
  then show ?thesis
  proof cases
    case year then show ?thesis using jump_year [OF assms(1)] by simp
  next
    case next_year then show ?thesis using jump_next_year [OF assms(1)] by simp
  next
    case month then show ?thesis using jump_month [OF assms(1)] by simp
  next
    case day then show ?thesis using \<open>\<not> matchesDay s t \<Longrightarrow> _\<close> by simp
  next
    case hours then show ?thesis using \<open>nextAtOrAfter (sc_hour s) (t_Hour t) = None \<Longrightarrow> _\<close> by simp
  next
    case hour then show ?thesis using jump_hour [OF assms(1,2)] by simp
  next
    case next_hour then show ?thesis using jump_next_hour [OF assms(1,2)] hm by simp
  next
    case minute then show ?thesis using jump_minute [OF assms(1,2)] by simp
  qed
qed

lemma next_loop_spec:
  assumes "wf_schedule s" "minute_ns dvd t"
  shows "case next_loop s limit t of
      None \<Rightarrow> \<forall>u. t \<le> u \<and> u < limit \<longrightarrow> \<not> fires_at s u
    | Some r \<Rightarrow> t \<le> r \<and> r < limit \<and> fires_at s r \<and> (\<forall>u. t \<le> u \<and> u < r \<longrightarrow> \<not> fires_at s u)"
  using assms
proof (induction s limit t rule: next_loop.induct)
  case (1 s limit t)
  show ?case
  proof (cases "t < limit")
    case lim: True
    show ?thesis
    proof (cases "step_next s t")
      case Stop
      then have "next_loop s limit t = None" by (simp add: next_loop.simps)
      with step_stop [OF Stop "1.prems"(1)] show ?thesis by simp
    next
      case Found
      then have "next_loop s limit t = Some t" using lim by (simp add: next_loop.simps)
      with step_found [OF Found "1.prems"] lim show ?thesis by auto
    next
      case (Jump t')
      have j: "t < t'" "minute_ns dvd t'" "\<And>u. t \<le> u \<Longrightarrow> u < t' \<Longrightarrow> \<not> fires_at s u"
        using step_jump [OF "1.prems" Jump] by (auto simp: safe_jump_def)
      have eq: "next_loop s limit t = next_loop s limit t'" using lim Jump j(1) by (simp add: next_loop.simps [of s limit t])
      have IH: "case next_loop s limit t' of
          None \<Rightarrow> \<forall>u. t' \<le> u \<and> u < limit \<longrightarrow> \<not> fires_at s u
        | Some r \<Rightarrow> t' \<le> r \<and> r < limit \<and> fires_at s r \<and> (\<forall>u. t' \<le> u \<and> u < r \<longrightarrow> \<not> fires_at s u)"
        by (rule "1.IH" [OF lim Jump j(1) "1.prems"(1) j(2)])
      show ?thesis
      proof (cases "next_loop s limit t'")
        case None
        with IH eq j(3) show ?thesis by simp (metis linorder_not_less)
      next
        case (Some r)
        with IH eq j show ?thesis by simp (metis less_imp_le linorder_not_less order_trans)
      qed
    qed
  qed (auto simp: next_loop.simps)
qed

text \<open>The start of the walk is the first whole minute.\<close>

lemma fires_at_minute: "fires_at s u \<Longrightarrow> from \<le> u \<Longrightarrow> from - from mod minute_ns + (if from mod minute_ns = 0 then 0 else minute_ns) \<le> u"
proof -
  assume "fires_at s u" and le: "from \<le> u"
  then have "minute_ns dvd u" by (simp add: fires_at_def)
  then obtain k where k: "u = minute_ns * k" by blast
  define q where "q = from div minute_ns"
  have f: "from = minute_ns * q + from mod minute_ns" "0 \<le> from mod minute_ns" by (simp_all add: q_def)
  show ?thesis
  proof (cases "from mod minute_ns = 0")
    case False
    then have "minute_ns * q < minute_ns * k" using le k f by linarith
    then have "q + 1 \<le> k" by simp
    then have "minute_ns * (q + 1) \<le> minute_ns * k" by (intro mult_left_mono) (simp_all add: less_imp_le)
    then show ?thesis using False k f(1) by (simp add: algebra_simps)
  qed (use le f in simp)
qed

section \<open>The weekday specifiers\<close>

definition month_weekday :: "int \<Rightarrow> int \<Rightarrow> int" where
  "month_weekday t d = t_Weekday (time_Date (t_Year t) (t_Month t) d 0 0)"

lemma month_weekday_eq: "month_weekday t d = (date_day (t_Year t) (t_Month t) 1 + d + 3) mod 7"
  by (simp add: month_weekday_def t_Weekday_def time_Date_def weekday_of_day_def date_day_def Let_def day_ns_def
      algebra_simps)

lemma lastDayOfMonth_eq: "lastDayOfMonth t = month_len (t_Year t) (t_Month t)"
proof -
  let ?y = "t_Year t" and ?m = "t_Month t"
  have "date_day ?y (?m + 1) 0 = date_day ?y ?m (month_len ?y ?m)"
    using t_Month_bounds [of t] by (simp add: date_day_next_month date_day_in_range month_off_next)
  then show ?thesis
    using fields_of_date(3) [of ?m "month_len ?y ?m" ?y] t_Month_bounds [of t] month_len_bounds [of ?y ?m]
    by (simp add: lastDayOfMonth_def t_Day_def time_Date_def day_ns_def)
qed

lemma lastDayOfMonth_bounds: "28 \<le> lastDayOfMonth t" "lastDayOfMonth t \<le> 31"
  using month_len_bounds by (simp_all add: lastDayOfMonth_eq)

lemma nearest_weekday_arith:
  fixes b c L :: int
  assumes "1 \<le> c" "c \<le> L" "28 \<le> L" and wd: "\<And>d. wd d = (b + d + 3) mod 7"
    and r: "r = (if wd c = 6 then (if 1 < c then c - 1 else c + 2) else if wd c = 0 then (if c < L then c + 1 else c - 2) else c)"
  shows "1 \<le> r \<and> r \<le> L \<and> isWeekday (wd r) \<and> (\<forall>d. 1 \<le> d \<and> d \<le> L \<and> isWeekday (wd d) \<longrightarrow> \<bar>r - c\<bar> \<le> \<bar>d - c\<bar>)"
proof -
  consider (sat) "wd c = 6" "1 < c" | (sat1) "wd c = 6" "c = 1" | (sun) "wd c = 0" "c < L" | (sunL) "wd c = 0" "c = L"
    | (week) "wd c \<noteq> 6" "wd c \<noteq> 0" using assms(1,2) by linarith
  then show ?thesis
  proof cases
    case sat
    then have "wd (c - 1) = 5" unfolding wd by presburger
    moreover have "d \<noteq> c" if "isWeekday (wd d)" for d using that sat by (auto simp: isWeekday_def)
    ultimately show ?thesis using sat assms(1-3) by (force simp: r isWeekday_def)
  next
    case sat1
    then have "wd 3 = 1" "wd 2 = 0" unfolding wd by presburger+
    then have "d \<noteq> 1 \<and> d \<noteq> 2" if "isWeekday (wd d)" for d using that sat1 by (auto simp: isWeekday_def)
    with sat1 \<open>wd 3 = 1\<close> assms(3) show ?thesis by (force simp: r isWeekday_def)
  next
    case sun
    then have "wd (c + 1) = 1" unfolding wd by presburger
    moreover have "d \<noteq> c" if "isWeekday (wd d)" for d using that sun by (auto simp: isWeekday_def)
    ultimately show ?thesis using sun assms(1-3) by (force simp: r isWeekday_def)
  next
    case sunL
    then have "wd (c - 2) = 5" "wd (c - 1) = 6" unfolding wd by presburger+
    then have "d \<noteq> c \<and> d \<noteq> c - 1" if "isWeekday (wd d)" for d using that sunL by (auto simp: isWeekday_def)
    with sunL \<open>wd (c - 2) = 5\<close> assms(1-3) show ?thesis by (force simp: r isWeekday_def)
  qed (use assms(1,2) in \<open>simp add: r isWeekday_def\<close>)
qed

lemma last_weekday_arith:
  fixes b L :: int
  assumes wd: "\<And>d. wd d = (b + d + 3) mod 7"
  shows "isWeekday (wd L) \<or> isWeekday (wd (L - 1)) \<or> isWeekday (wd (L - 2))"
proof -
  have "wd L = 6 \<Longrightarrow> wd (L - 1) = 5" "wd L = 0 \<Longrightarrow> wd (L - 2) = 5" unfolding wd by presburger+
  then show ?thesis by (auto simp: isWeekday_def)
qed

section \<open>Properties\<close>

text \<open>
  On the wall clock \<open>Next\<close> is correct for every expression the parser accepts: it returns \<open>t\<close>
  exactly when \<open>t\<close> is the first whole minute at or after \<open>from\<close>, and before \<open>limit\<close>, whose
  year, month, day, hour and minute the expression admits.  \<^theory_text>\<open>Cron_Zone\<close> carries it over to
  the walk as the code has it, in the location of its argument.
\<close>

theorem Next_wall_correct:
  assumes "Parse expr = Inr s"
  shows "Next s from limit = Some t \<longleftrightarrow>
    from \<le> t \<and> t < limit \<and> fires_at s t \<and> (\<forall>u. from \<le> u \<and> u < t \<longrightarrow> \<not> fires_at s u)"
proof -
  define st where "st = from - from mod minute_ns + (if from mod minute_ns = 0 then 0 else minute_ns)"
  have wf: "wf_schedule s" using assms by (rule Parse_wf)
  have m: "0 \<le> from mod minute_ns" "from mod minute_ns < minute_ns" by simp_all
  have dvd: "minute_ns dvd st" by (auto simp: st_def minus_mod_eq_mult_div)
  have le: "from \<le> st" using m less_imp_le [OF m(2)] by (simp add: st_def)
  have nx: "Next s from limit = next_loop s limit st"
  proof (cases "from mod minute_ns = 0")
    case False
    then have "from - from mod minute_ns < from" using m(1) by linarith
    then show ?thesis using False by (simp only: Next_def st_def Let_def if_True if_False)
  qed (simp add: Next_def st_def Let_def)
  have ge: "st \<le> u" if "fires_at s u" "from \<le> u" for u using fires_at_minute [OF that] by (simp add: st_def)
  note sp = next_loop_spec [OF wf dvd, of limit]
  show ?thesis
  proof
    assume "Next s from limit = Some t"
    then have "st \<le> t \<and> t < limit \<and> fires_at s t \<and> (\<forall>u. st \<le> u \<and> u < t \<longrightarrow> \<not> fires_at s u)" using sp nx by simp
    then show "from \<le> t \<and> t < limit \<and> fires_at s t \<and> (\<forall>u. from \<le> u \<and> u < t \<longrightarrow> \<not> fires_at s u)"
      using le ge by (meson order_trans)
  next
    assume t: "from \<le> t \<and> t < limit \<and> fires_at s t \<and> (\<forall>u. from \<le> u \<and> u < t \<longrightarrow> \<not> fires_at s u)"
    then have "st \<le> t" using ge by blast
    show "Next s from limit = Some t"
    proof (cases "next_loop s limit st")
      case None
      then have "\<forall>u. st \<le> u \<and> u < limit \<longrightarrow> \<not> fires_at s u" using sp by simp
      then show ?thesis using t \<open>st \<le> t\<close> by blast
    next
      case (Some r)
      then have r: "st \<le> r" "fires_at s r" "\<forall>u. st \<le> u \<and> u < r \<longrightarrow> \<not> fires_at s u" using sp by simp_all
      have "\<not> r < t" using r t le by (meson order_trans)
      moreover have "\<not> t < r" using r t \<open>st \<le> t\<close> by blast
      ultimately have "r = t" by simp
      then show ?thesis using Some nx by simp
    qed
  qed
qed

text \<open>
  A field is a set of values kept in four 64-bit words: \<open>nextAtOrAfter\<close> returns the least
  admitted value from \<open>v\<close> on, and nothing exactly when there is none.
\<close>

theorem nextAtOrAfter_least:
  assumes "wf_field f"
  shows "case nextAtOrAfter f v of
      Some u \<Rightarrow> v \<le> u \<and> field_matches f u \<and> (\<forall>x. v \<le> x \<and> x < u \<longrightarrow> \<not> field_matches f x)
    | None \<Rightarrow> (\<forall>x. v \<le> x \<longrightarrow> \<not> field_matches f x)"
  using nextAtOrAfter_Some [OF assms, of v] nextAtOrAfter_None [OF assms, of v] by (auto split: option.split)

theorem nextAtOrAfter_least_witness:
  "let f = field_add 2100 (field_add 1999 (new_field 1970 2199)) in
     wf_field f \<and> nextAtOrAfter f 2000 = Some 2100 \<and> {x. 2000 \<le> x \<and> x < 2100 \<and> field_matches f x} = {}"
proof -
  let ?f = "field_add 2100 (field_add 1999 (new_field 1970 2199))"
  have wf: "wf_field ?f" by (intro field_add_wf(1) new_field_wf) simp_all
  have n: "nextAtOrAfter ?f 2000 = Some 2100" by code_simp
  with nextAtOrAfter_least [OF wf, of 2000] have "\<forall>x. 2000 \<le> x \<and> x < 2100 \<longrightarrow> \<not> field_matches ?f x" by simp
  with wf n show ?thesis unfolding Let_def by blast
qed

text \<open>
  Whatever the parser accepts is a well-formed schedule: every field is within its range
  and its bitmask within its words, and there are at most four day specifiers.
\<close>

theorem Parse_wf_schedule:
  assumes "Parse expr = Inr s"
  shows "wf_schedule s"
  using assms by (rule Parse_wf)

theorem Parse_wf_schedule_witness:
  "\<exists>s. Parse ''0/15 9-17 ? JAN,DEC 6#3 2026'' = Inr s \<and> wf_schedule s"
proof -
  have "isl (Parse ''0/15 9-17 ? JAN,DEC 6#3 2026'') = False" by code_simp
  then obtain s where "Parse ''0/15 9-17 ? JAN,DEC 6#3 2026'' = Inr s" by (cases "Parse ''0/15 9-17 ? JAN,DEC 6#3 2026''") auto
  with Parse_wf_schedule [OF this] show ?thesis by blast
qed

text \<open>
  The specifier W: \<open>nearestWeekday\<close> stays in the month, is a day from Monday to Friday, and
  no such day of the month is nearer to the requested one (the last day standing for days
  the month does not have).
\<close>

theorem nearestWeekday_nearest:
  assumes "1 \<le> day"
  shows "let r = nearestWeekday t day; c = min day (lastDayOfMonth t) in
     1 \<le> r \<and> r \<le> lastDayOfMonth t \<and> isWeekday (month_weekday t r)
     \<and> (\<forall>d. 1 \<le> d \<and> d \<le> lastDayOfMonth t \<and> isWeekday (month_weekday t d) \<longrightarrow> \<bar>r - c\<bar> \<le> \<bar>d - c\<bar>)"
proof -
  let ?L = "lastDayOfMonth t" and ?c = "min day (lastDayOfMonth t)"
  have "(if ?L < day then ?L else day) = ?c" by simp
  then have "nearestWeekday t day =
      (if month_weekday t ?c = 6 then (if 1 < ?c then ?c - 1 else ?c + 2)
       else if month_weekday t ?c = 0 then (if ?c < ?L then ?c + 1 else ?c - 2) else ?c)"
    by (simp only: nearestWeekday_def Let_def month_weekday_def)
  from nearest_weekday_arith [OF _ _ _ month_weekday_eq this] assms lastDayOfMonth_bounds [of t]
  show ?thesis unfolding Let_def by simp
qed

theorem nearestWeekday_nearest_witness:
  "nearestWeekday (time_Date 2026 8 1 0 0) 15 = 14 \<and> isWeekday (month_weekday (time_Date 2026 8 1 0 0) 14)"
proof -
  have "nearestWeekday (time_Date 2026 8 1 0 0) 15 = 14" by code_simp
  with nearestWeekday_nearest [of 15 "time_Date 2026 8 1 0 0"] show ?thesis by (simp add: Let_def)
qed

text \<open>
  The specifier LW: the walk back from the end of the month always ends, within three
  days, at the last Monday-to-Friday day of the month.
\<close>

theorem lastWeekdayOfMonth_last:
  "\<exists>d. lastWeekdayOfMonth t = Some d \<and> 1 \<le> d \<and> d \<le> lastDayOfMonth t \<and> isWeekday (month_weekday t d)
     \<and> (\<forall>e. d < e \<and> e \<le> lastDayOfMonth t \<longrightarrow> \<not> isWeekday (month_weekday t e))"
proof -
  let ?L = "lastDayOfMonth t"
  have un: "lastWeekdayOfMonth t = (if isWeekday (month_weekday t ?L) then Some ?L
      else if isWeekday (month_weekday t (?L - 1)) then Some (?L - 1)
      else if isWeekday (month_weekday t (?L - 2)) then Some (?L - 2) else None)"
    by (simp add: lastWeekdayOfMonth_def numeral_3_eq_3 month_weekday_def)
  have "isWeekday (month_weekday t ?L) \<or> isWeekday (month_weekday t (?L - 1)) \<or> isWeekday (month_weekday t (?L - 2))"
    by (rule last_weekday_arith) (rule month_weekday_eq)
  then consider (a) "isWeekday (month_weekday t ?L)"
    | (b) "\<not> isWeekday (month_weekday t ?L)" "isWeekday (month_weekday t (?L - 1))"
    | (c) "\<not> isWeekday (month_weekday t ?L)" "\<not> isWeekday (month_weekday t (?L - 1))" "isWeekday (month_weekday t (?L - 2))"
    by blast
  then show ?thesis
  proof cases
    case a
    then show ?thesis using lastDayOfMonth_bounds [of t] by (intro exI [of _ ?L]) (auto simp: un)
  next
    case b
    have "\<forall>e. ?L - 1 < e \<and> e \<le> ?L \<longrightarrow> \<not> isWeekday (month_weekday t e)"
    proof -
      have "\<forall>e. ?L - 1 < e \<and> e \<le> ?L \<longrightarrow> e = ?L" by linarith
      then show ?thesis using b(1) by metis
    qed
    with b show ?thesis using lastDayOfMonth_bounds [of t] by (intro exI [of _ "?L - 1"]) (simp add: un)
  next
    case c
    have "\<forall>e. ?L - 2 < e \<and> e \<le> ?L \<longrightarrow> e = ?L \<or> e = ?L - 1" by linarith
    then have "\<forall>e. ?L - 2 < e \<and> e \<le> ?L \<longrightarrow> \<not> isWeekday (month_weekday t e)" using c(1,2) by metis
    with c show ?thesis using lastDayOfMonth_bounds [of t] by (intro exI [of _ "?L - 2"]) (simp add: un)
  qed
qed

theorem lastWeekdayOfMonth_last_witness:
  "\<exists>d. lastWeekdayOfMonth (time_Date 2026 5 7 0 0) = Some d \<and> d = 29
     \<and> {e. d < e \<and> e \<le> lastDayOfMonth (time_Date 2026 5 7 0 0) \<and> isWeekday (month_weekday (time_Date 2026 5 7 0 0) e)} = {}"
proof -
  have n: "lastWeekdayOfMonth (time_Date 2026 5 7 0 0) = Some 29" by code_simp
  with lastWeekdayOfMonth_last [of "time_Date 2026 5 7 0 0"]
  have "\<forall>e. 29 < e \<and> e \<le> lastDayOfMonth (time_Date 2026 5 7 0 0)
    \<longrightarrow> \<not> isWeekday (month_weekday (time_Date 2026 5 7 0 0) e)" by auto
  with n show ?thesis by blast
qed

text \<open>
  Names that contain the letters L or W are taken for day specifiers: the month JUL and
  the weekday WED, both of which the dialect documents, are refused.
\<close>

theorem names_with_L_or_W_refused:
  "Parse ''cron(0 8 1 JUL ? *)'' = Inl (''invalid month field in cron expression '' @ go_quote ''cron(0 8 1 JUL ? *)''
      @ '': '' @ go_quote ''JUL'' @ '' is only valid in the day-of-month and day-of-week fields'')
   \<and> Parse ''cron(0 8 ? * WED *)'' = Inl (''invalid day-of-week field in cron expression '' @ go_quote ''cron(0 8 ? * WED *)''
      @ '': '' @ go_quote ''WED'' @ '' is not one of L, <day>L or <day>#<n>'')"
  by code_simp

text \<open>
  A bare L in the day-of-week field fires on the last Saturday of the month only: on
  Saturday 1 August 2026 the expression with 7 fires, the one with L waits until the 29th.
\<close>

theorem bare_L_is_last_saturday:
  "map_sum id (\<lambda>s. Next s (time_Date 2026 8 1 0 0) (time_Date 2030 1 1 0 0)) (Parse ''cron(0 0 ? * 7 *)'')
     = Inr (Some (time_Date 2026 8 1 0 0))
   \<and> map_sum id (\<lambda>s. Next s (time_Date 2026 8 1 0 0) (time_Date 2030 1 1 0 0)) (Parse ''cron(0 0 ? * L *)'')
     = Inr (Some (time_Date 2026 8 29 0 0))"
  by code_simp

text \<open>
  A step that makes the loop variable overflow 64 bits leaves the grid of the sequence:
  stepping from minute 5 by the largest step also admits the minutes 3 and 1.
\<close>

theorem step_overflow_wraps:
  "map_sum id (\<lambda>s. filter (field_matches (sc_minute s)) [0..59]) (Parse ''cron(5/9223372036854775807 * * * ? *)'')
   = Inr [1, 3, 5]"
  by code_simp

end
