(* ===== verification/Cron_Zone.thy ===== *)
theory Cron_Zone
  imports Cron_Next
begin

text \<open>
  \<open>Next\<close> of \<^verbatim>\<open>internal/awscron/cron.go\<close> as it is written, in the location of its argument.

  An instant is a number of nanoseconds since the epoch; a location is what the time zone
  lookup of Go's \<^verbatim>\<open>time\<close> package answers for an instant in seconds: the offset from UTC
  and the interval in which it holds.  The fields of a time are those of its wall clock,
  and \<^verbatim>\<open>time.Date\<close> finds an instant for a wall clock the way the package does, so a wall
  clock that a daylight saving change skips gives an instant that reads differently.

  In a location with one offset the walk is the one of \<^theory_text>\<open>Cron_Next\<close> on the wall clock,
  and it is correct and ends.  Where the clock is put forward it need not end: a walk that
  runs forever is the value \<^term>\<open>None\<close> of the loop.
\<close>

section \<open>Locations\<close>

type_synonym location = "int \<Rightarrow> int \<times> int \<times> int"

definition second_ns :: int where "second_ns = 1000000000"

definition zone_offset :: "location \<Rightarrow> int \<Rightarrow> int" where
  "zone_offset loc t = fst (loc (t div second_ns)) * second_ns"

text \<open>The wall clock of an instant, as the instant at which a clock in UTC shows the same.\<close>

definition wall :: "location \<Rightarrow> int \<Rightarrow> int" where
  "wall loc t = t + zone_offset loc t"

text \<open>
  The end of \<^verbatim>\<open>time.Date\<close>: the offset at the wall clock read as UTC is tried first; when
  the instant it gives lies outside the interval of that offset, the offset at that instant
  is used.
\<close>

definition unwall :: "location \<Rightarrow> int \<Rightarrow> int" where
  "unwall loc w =
     (case loc (w div second_ns) of (off, start, stop) \<Rightarrow>
        if off = 0 then w
        else let utc = w div second_ns - off;
                 off' = (if utc < start \<or> stop \<le> utc then fst (loc utc) else off)
             in w - off' * second_ns)"

definition Date_in :: "location \<Rightarrow> int \<Rightarrow> int \<Rightarrow> int \<Rightarrow> int \<Rightarrow> int \<Rightarrow> int" where
  "Date_in loc y m d h mi = unwall loc (time_Date y m d h mi)"

abbreviation Year_in :: "location \<Rightarrow> int \<Rightarrow> int" where "Year_in loc t \<equiv> t_Year (wall loc t)"
abbreviation Month_in :: "location \<Rightarrow> int \<Rightarrow> int" where "Month_in loc t \<equiv> t_Month (wall loc t)"
abbreviation Day_in :: "location \<Rightarrow> int \<Rightarrow> int" where "Day_in loc t \<equiv> t_Day (wall loc t)"
abbreviation Weekday_in :: "location \<Rightarrow> int \<Rightarrow> int" where "Weekday_in loc t \<equiv> t_Weekday (wall loc t)"
abbreviation Hour_in :: "location \<Rightarrow> int \<Rightarrow> int" where "Hour_in loc t \<equiv> t_Hour (wall loc t)"
abbreviation Minute_in :: "location \<Rightarrow> int \<Rightarrow> int" where "Minute_in loc t \<equiv> t_Minute (wall loc t)"

definition startOfDay_in :: "location \<Rightarrow> int \<Rightarrow> int" where
  "startOfDay_in loc t = Date_in loc (Year_in loc t) (Month_in loc t) (Day_in loc t) 0 0"

text \<open>\<^verbatim>\<open>AddDate(0, 0, 1)\<close>: the next date with the same wall clock.\<close>

definition AddDay_in :: "location \<Rightarrow> int \<Rightarrow> int" where
  "AddDay_in loc t =
     unwall loc (date_day (Year_in loc t) (Month_in loc t) (Day_in loc t + 1) * day_ns + wall loc t mod day_ns)"

section \<open>Dates that qualify\<close>

definition lastDayOfMonth_in :: "location \<Rightarrow> int \<Rightarrow> int" where
  "lastDayOfMonth_in loc t = Day_in loc (Date_in loc (Year_in loc t) (Month_in loc t + 1) 0 0 0)"

text \<open>
  The loop of \<open>lastWeekdayOfMonth\<close> goes back from the last day of the month; a month of
  fuel is more than it needs.
\<close>

fun last_weekday_in :: "nat \<Rightarrow> location \<Rightarrow> int \<Rightarrow> int \<Rightarrow> int option" where
  "last_weekday_in 0 loc t day = None"
| "last_weekday_in (Suc fuel) loc t day =
     (if isWeekday (Weekday_in loc (Date_in loc (Year_in loc t) (Month_in loc t) day 0 0)) then Some day
      else last_weekday_in fuel loc t (day - 1))"

definition lastWeekdayOfMonth_in :: "location \<Rightarrow> int \<Rightarrow> int option" where
  "lastWeekdayOfMonth_in loc t = last_weekday_in 31 loc t (lastDayOfMonth_in loc t)"

definition nearestWeekday_in :: "location \<Rightarrow> int \<Rightarrow> int \<Rightarrow> int" where
  "nearestWeekday_in loc t day0 =
     (let lst = lastDayOfMonth_in loc t;
          day = (if lst < day0 then lst else day0);
          wd = Weekday_in loc (Date_in loc (Year_in loc t) (Month_in loc t) day 0 0)
      in if wd = 6 then (if 1 < day then day - 1 else day + 2)
         else if wd = 0 then (if day < lst then day + 1 else day - 2)
         else day)"

fun rule_month_day_in :: "location \<Rightarrow> int \<Rightarrow> dayRule \<Rightarrow> bool" where
  "rule_month_day_in loc t ruleLastDayOfMonth = (Day_in loc t = lastDayOfMonth_in loc t)"
| "rule_month_day_in loc t ruleLastWeekdayOfMonth = (Some (Day_in loc t) = lastWeekdayOfMonth_in loc t)"
| "rule_month_day_in loc t (ruleNearestWeekday day) = (Day_in loc t = nearestWeekday_in loc t day)"
| "rule_month_day_in loc t _ = False"

fun rule_weekday_in :: "location \<Rightarrow> int \<Rightarrow> dayRule \<Rightarrow> bool" where
  "rule_weekday_in loc t (ruleLastWeekdayInMonth w) =
     (awsWeekday (Weekday_in loc t) = w \<and> lastDayOfMonth_in loc t < Day_in loc t + 7)"
| "rule_weekday_in loc t (ruleNthWeekday w n) =
     (awsWeekday (Weekday_in loc t) = w \<and> (Day_in loc t - 1) div 7 + 1 = n)"
| "rule_weekday_in loc t _ = False"

definition rules_match_month_day_in :: "location \<Rightarrow> dayRule list \<Rightarrow> int \<Rightarrow> bool" where
  "rules_match_month_day_in loc rules t = list_ex (rule_month_day_in loc t) rules"

definition rules_match_weekday_in :: "location \<Rightarrow> dayRule list \<Rightarrow> int \<Rightarrow> bool" where
  "rules_match_weekday_in loc rules t = list_ex (rule_weekday_in loc t) rules"

definition matchesMonthDay_in :: "location \<Rightarrow> Schedule \<Rightarrow> int \<Rightarrow> bool" where
  "matchesMonthDay_in loc s t \<longleftrightarrow>
     field_matches (sc_dom s) (Day_in loc t) \<or> rules_match_month_day_in loc (sc_days s) t"

definition matchesWeekday_in :: "location \<Rightarrow> Schedule \<Rightarrow> int \<Rightarrow> bool" where
  "matchesWeekday_in loc s t \<longleftrightarrow>
     field_matches (sc_dow s) (awsWeekday (Weekday_in loc t)) \<or> rules_match_weekday_in loc (sc_days s) t"

definition matchesDay_in :: "location \<Rightarrow> Schedule \<Rightarrow> int \<Rightarrow> bool" where
  "matchesDay_in loc s t =
     (case sc_dayMode s of
        dayAlways \<Rightarrow> True
      | dayByWeekday \<Rightarrow> matchesWeekday_in loc s t
      | dayByMonthDay \<Rightarrow> matchesMonthDay_in loc s t
      | dayByEither \<Rightarrow> matchesMonthDay_in loc s t \<or> matchesWeekday_in loc s t)"

section \<open>The walk\<close>

definition step_in :: "location \<Rightarrow> Schedule \<Rightarrow> int \<Rightarrow> next_step" where
  "step_in loc s t =
     (case nextAtOrAfter (sc_year s) (Year_in loc t) of
        None \<Rightarrow> Stop
      | Some year \<Rightarrow>
          if year \<noteq> Year_in loc t then Jump (Date_in loc year 1 1 0 0)
          else (case nextAtOrAfter (sc_month s) (Month_in loc t) of
             None \<Rightarrow> Jump (Date_in loc (Year_in loc t + 1) 1 1 0 0)
           | Some month \<Rightarrow>
               if month \<noteq> Month_in loc t then Jump (Date_in loc (Year_in loc t) month 1 0 0)
               else if \<not> matchesDay_in loc s t then Jump (AddDay_in loc (startOfDay_in loc t))
               else (case nextAtOrAfter (sc_hour s) (Hour_in loc t) of
                  None \<Rightarrow> Jump (AddDay_in loc (startOfDay_in loc t))
                | Some hour \<Rightarrow>
                    if hour \<noteq> Hour_in loc t
                    then Jump (Date_in loc (Year_in loc t) (Month_in loc t) (Day_in loc t) hour 0)
                    else (case nextAtOrAfter (sc_minute s) (Minute_in loc t) of
                       None \<Rightarrow>
                         Jump (Date_in loc (Year_in loc t) (Month_in loc t) (Day_in loc t) (Hour_in loc t) 0 + hour_ns)
                     | Some minute \<Rightarrow>
                         if minute \<noteq> Minute_in loc t
                         then Jump (Date_in loc (Year_in loc t) (Month_in loc t) (Day_in loc t) (Hour_in loc t) minute)
                         else Found))))"

text \<open>The loop: \<^term>\<open>None\<close> when it never returns, otherwise what it returns.\<close>

partial_function (option) walk_in :: "location \<Rightarrow> Schedule \<Rightarrow> int \<Rightarrow> int \<Rightarrow> int option option" where
  "walk_in loc s limit t =
     (if t < limit then
        (case step_in loc s t of
           Stop \<Rightarrow> Some None
         | Found \<Rightarrow> Some (Some t)
         | Jump t' \<Rightarrow> walk_in loc s limit t')
      else Some None)"

definition Next_in :: "location \<Rightarrow> Schedule \<Rightarrow> int \<Rightarrow> int \<Rightarrow> int option option" where
  "Next_in loc s from limit =
     (let start0 = from - from mod minute_ns;
          start = (if start0 < from then start0 + minute_ns else start0)
      in walk_in loc s limit start)"

section \<open>Locations with one offset\<close>

definition fixed_zone :: "location \<Rightarrow> int \<Rightarrow> bool" where
  "fixed_zone loc off \<longleftrightarrow> (\<forall>u. fst (loc u) = off)"

text \<open>What it means for an expression to fire at an instant, in a location.\<close>

definition fires_in :: "location \<Rightarrow> Schedule \<Rightarrow> int \<Rightarrow> bool" where
  "fires_in loc s t \<longleftrightarrow> minute_ns dvd t \<and> field_matches (sc_year s) (Year_in loc t)
     \<and> field_matches (sc_month s) (Month_in loc t) \<and> matchesDay_in loc s t
     \<and> field_matches (sc_hour s) (Hour_in loc t) \<and> field_matches (sc_minute s) (Minute_in loc t)"

lemma fixed_wall: "fixed_zone loc off \<Longrightarrow> wall loc t = t + off * second_ns"
  by (simp add: wall_def zone_offset_def fixed_zone_def)

lemma fixed_unwall: "fixed_zone loc off \<Longrightarrow> unwall loc w = w - off * second_ns"
  by (cases "loc (w div second_ns)") (auto simp: unwall_def fixed_zone_def Let_def dest: spec [of _ "w div second_ns"])

lemma wall_unwall: "fixed_zone loc off \<Longrightarrow> wall loc (unwall loc w) = w"
  by (simp add: fixed_wall fixed_unwall)

lemma lastDayOfMonth_wall: "fixed_zone loc off \<Longrightarrow> lastDayOfMonth_in loc t = lastDayOfMonth (wall loc t)"
  by (simp add: lastDayOfMonth_in_def lastDayOfMonth_def Date_in_def wall_unwall)

lemma last_weekday_wall:
  "fixed_zone loc off \<Longrightarrow> last_weekday_in n loc t day = last_weekday n (wall loc t) day"
  by (induction n arbitrary: day) (simp_all add: Date_in_def wall_unwall)

lemma last_weekday_more: "last_weekday n t day = Some d \<Longrightarrow> n \<le> m \<Longrightarrow> last_weekday m t day = Some d"
proof (induction n arbitrary: m day)
  case (Suc n)
  then show ?case by (cases m) (auto split: if_split_asm)
qed simp

lemma lastWeekdayOfMonth_wall:
  assumes "fixed_zone loc off"
  shows "lastWeekdayOfMonth_in loc t = lastWeekdayOfMonth (wall loc t)"
proof -
  obtain d where "lastWeekdayOfMonth (wall loc t) = Some d"
    using lastWeekdayOfMonth_last [of "wall loc t"] by blast
  then show ?thesis
    using last_weekday_more [of 3 "wall loc t" "lastDayOfMonth (wall loc t)" d 31]
    by (simp add: lastWeekdayOfMonth_in_def lastWeekdayOfMonth_def last_weekday_wall [OF assms]
        lastDayOfMonth_wall [OF assms] del: last_weekday.simps)
qed

lemma nearestWeekday_wall: "fixed_zone loc off \<Longrightarrow> nearestWeekday_in loc t d = nearestWeekday (wall loc t) d"
  by (simp add: nearestWeekday_in_def nearestWeekday_def lastDayOfMonth_wall Date_in_def wall_unwall)

lemma matchesDay_wall:
  assumes "fixed_zone loc off"
  shows "matchesDay_in loc s t = matchesDay s (wall loc t)"
proof -
  note w = lastDayOfMonth_wall [OF assms] lastWeekdayOfMonth_wall [OF assms] nearestWeekday_wall [OF assms]
  have "rule_month_day_in loc t = rule_month_day (wall loc t)" "rule_weekday_in loc t = rule_weekday (wall loc t)"
    by (rule ext, rename_tac r, case_tac r; simp add: w)+
  then show ?thesis
    by (simp add: matchesDay_in_def matchesDay_def matchesMonthDay_in_def matchesMonthDay_def matchesWeekday_in_def
        matchesWeekday_def rules_match_month_day_in_def rules_match_month_day_def rules_match_weekday_in_def
        rules_match_weekday_def split: dayMode.split)
qed

fun step_shift :: "int \<Rightarrow> next_step \<Rightarrow> next_step" where
  "step_shift k (Jump t) = Jump (t - k)"
| "step_shift k st = st"

lemma next_day_wall:
  assumes "fixed_zone loc off"
  shows "AddDay_in loc (startOfDay_in loc t) = next_midnight (startOfDay (wall loc t)) - off * second_ns"
proof -
  have "wall loc (startOfDay_in loc t) = startOfDay (wall loc t)"
    by (simp add: startOfDay_in_def startOfDay_def Date_in_def wall_unwall [OF assms])
  moreover have "startOfDay u mod day_ns = 0" for u by (simp add: startOfDay_def time_Date_def)
  ultimately show ?thesis
    by (simp add: AddDay_in_def next_midnight_def time_Date_def fixed_unwall [OF assms])
qed

lemma step_wall:
  assumes "fixed_zone loc off"
  shows "step_in loc s t = step_shift (off * second_ns) (step_next s (wall loc t))"
  by (simp add: step_in_def step_next_def matchesDay_wall [OF assms] next_day_wall [OF assms] Date_in_def
      fixed_unwall [OF assms] split: option.split)

lemma fires_wall:
  assumes "fixed_zone loc off" "off mod 60 = 0"
  shows "fires_in loc s t = fires_at s (wall loc t)"
proof -
  obtain k where "off = 60 * k" using assms(2) by auto
  then have "off * second_ns = minute_ns * k" by (simp add: second_ns_def minute_ns_def)
  then have "minute_ns dvd t \<longleftrightarrow> minute_ns dvd wall loc t"
    unfolding fixed_wall [OF assms(1)] by (metis dvd_add_left_iff dvd_triv_left)
  then show ?thesis by (simp add: fires_in_def fires_at_def matchesDay_wall [OF assms(1)])
qed

lemma walk_wall:
  assumes "wf_schedule s" "minute_ns dvd w" "fixed_zone loc off"
  shows "walk_in loc s (limit - off * second_ns) (w - off * second_ns)
    = Some (map_option (\<lambda>r. r - off * second_ns) (next_loop s limit w))"
  using assms
proof (induction s limit w rule: next_loop.induct)
  case (1 s limit w)
  let ?k = "off * second_ns"
  have w: "wall loc (w - ?k) = w" by (simp add: fixed_wall [OF "1.prems"(3)])
  show ?case
  proof (cases "w < limit")
    case False
    then show ?thesis by (simp add: walk_in.simps next_loop.simps)
  next
    case lim: True
    note st = step_wall [OF "1.prems"(3), of s "w - ?k", unfolded w]
    show ?thesis
    proof (cases "step_next s w")
      case (Jump w')
      have j: "w < w'" "minute_ns dvd w'" using step_jump [OF "1.prems"(1,2) Jump] by (auto simp: safe_jump_def)
      have "walk_in loc s (limit - ?k) (w - ?k) = walk_in loc s (limit - ?k) (w' - ?k)"
        using lim st Jump by (subst walk_in.simps) simp
      also have "\<dots> = Some (map_option (\<lambda>r. r - ?k) (next_loop s limit w'))"
        by (rule "1.IH" [OF lim Jump j(1) "1.prems"(1) j(2) "1.prems"(3)])
      finally show ?thesis using lim Jump j(1) by (simp add: next_loop.simps [of s limit w])
    qed (use lim st in \<open>simp_all add: walk_in.simps [of loc s "limit - ?k" "w - ?k"] next_loop.simps [of s limit w]\<close>)
  qed
qed

lemma Next_wall:
  assumes "wf_schedule s" "fixed_zone loc off" "off mod 60 = 0"
  shows "Next_in loc s from limit = Some (map_option (\<lambda>r. r - off * second_ns)
    (Next s (wall loc from) (wall loc limit)))"
proof -
  let ?k = "off * second_ns"
  obtain q where "off = 60 * q" using assms(3) by auto
  then have k: "?k = q * minute_ns" by (simp add: second_ns_def minute_ns_def)
  have m: "(from + ?k) mod minute_ns = from mod minute_ns" by (simp add: k)
  define st where "st = (if from - from mod minute_ns < from then from - from mod minute_ns + minute_ns
      else from - from mod minute_ns)"
  have st': "(if from + ?k - (from + ?k) mod minute_ns < from + ?k
        then from + ?k - (from + ?k) mod minute_ns + minute_ns
        else from + ?k - (from + ?k) mod minute_ns) = st + ?k"
    unfolding m st_def by auto
  have "minute_ns dvd from - from mod minute_ns" by (simp add: minus_mod_eq_mult_div)
  then have "minute_ns dvd st + ?k" unfolding st_def k by auto
  from walk_wall [OF assms(1) this assms(2), of "limit + ?k"] show ?thesis
    unfolding Next_in_def Next_def Let_def fixed_wall [OF assms(2)] st' st_def [symmetric] by simp
qed

section \<open>Properties\<close>

text \<open>
  C5. In a location with one offset from UTC, a whole number of minutes, \<open>Next\<close> is correct for
  every expression the parser accepts: the walk ends, and it returns \<open>t\<close> exactly when \<open>t\<close> is
  the first whole minute at or after \<open>from\<close>, and before \<open>limit\<close>, whose year, month, day, hour
  and minute in that location the expression admits; in particular it never skips a firing.
  UTC is such a location; one with daylight saving is not, and there the walk need not end
  (\<open>dst_gap_never_returns\<close>).
\<close>

theorem Next_correct:
  assumes "Parse expr = Inr s" "fixed_zone loc off" "off mod 60 = 0"
  shows "\<exists>r. Next_in loc s from limit = Some r \<and> (\<forall>t. r = Some t \<longleftrightarrow>
    from \<le> t \<and> t < limit \<and> fires_in loc s t \<and> (\<forall>u. from \<le> u \<and> u < t \<longrightarrow> \<not> fires_in loc s u))"
proof -
  let ?k = "off * second_ns"
  define r where "r = Next s (from + ?k) (limit + ?k)"
  have n: "Next_in loc s from limit = Some (map_option (\<lambda>r. r - ?k) r)"
    using Next_wall [OF Parse_wf [OF assms(1)] assms(2,3)] by (simp add: r_def fixed_wall [OF assms(2)])
  have f: "fires_in loc s u = fires_at s (u + ?k)" for u
    using fires_wall [OF assms(2,3)] by (simp add: fixed_wall [OF assms(2)])
  have "map_option (\<lambda>r. r - ?k) r = Some t \<longleftrightarrow>
      from \<le> t \<and> t < limit \<and> fires_in loc s t \<and> (\<forall>u. from \<le> u \<and> u < t \<longrightarrow> \<not> fires_in loc s u)" for t
  proof -
    have "map_option (\<lambda>r. r - ?k) r = Some t \<longleftrightarrow> r = Some (t + ?k)" by auto
    also have "\<dots> \<longleftrightarrow> from + ?k \<le> t + ?k \<and> t + ?k < limit + ?k \<and> fires_at s (t + ?k)
        \<and> (\<forall>u. from + ?k \<le> u \<and> u < t + ?k \<longrightarrow> \<not> fires_at s u)"
      unfolding r_def by (rule Next_wall_correct [OF assms(1)])
    also have "(\<forall>u. from + ?k \<le> u \<and> u < t + ?k \<longrightarrow> \<not> fires_at s u)
        \<longleftrightarrow> (\<forall>u. from \<le> u \<and> u < t \<longrightarrow> \<not> fires_in loc s u)"
    proof
      assume a: "\<forall>u. from + ?k \<le> u \<and> u < t + ?k \<longrightarrow> \<not> fires_at s u"
      show "\<forall>u. from \<le> u \<and> u < t \<longrightarrow> \<not> fires_in loc s u" using a f by simp
    next
      assume a: "\<forall>u. from \<le> u \<and> u < t \<longrightarrow> \<not> fires_in loc s u"
      show "\<forall>u. from + ?k \<le> u \<and> u < t + ?k \<longrightarrow> \<not> fires_at s u"
      proof (intro allI impI)
        fix u assume "from + ?k \<le> u \<and> u < t + ?k"
        then show "\<not> fires_at s u" using a f [of "u - ?k"] by (auto dest: spec [of _ "u - ?k"])
      qed
    qed
    finally show ?thesis by (simp add: f)
  qed
  then show ?thesis using n by blast
qed

text \<open>Noon on Mondays in a location five hours behind UTC.\<close>

definition five_behind :: location where
  "five_behind u = (- 18000, - 9223372036854775808, 9223372036854775807)"

theorem Next_correct_witness:
  "\<exists>s. Parse ''cron(0 12 ? * 2 *)'' = Inr s \<and> fires_in five_behind s (time_Date 2026 8 17 17 0)
     \<and> (\<forall>u. time_Date 2026 8 11 21 20 \<le> u \<and> u < time_Date 2026 8 17 17 0 \<longrightarrow> \<not> fires_in five_behind s u)"
proof -
  have z: "fixed_zone five_behind (- 18000)" and m: "- 18000 mod 60 = (0 :: int)"
    by (simp_all add: fixed_zone_def five_behind_def)
  have n: "map_sum id (\<lambda>s. Next s (time_Date 2026 8 11 16 20) (time_Date 2030 1 1 0 0)) (Parse ''cron(0 12 ? * 2 *)'')
      = Inr (Some (time_Date 2026 8 17 12 0))" by code_simp
  then obtain s where s: "Parse ''cron(0 12 ? * 2 *)'' = Inr s"
    "Next s (time_Date 2026 8 11 16 20) (time_Date 2030 1 1 0 0) = Some (time_Date 2026 8 17 12 0)"
    by (cases "Parse ''cron(0 12 ? * 2 *)''") auto
  have d: "time_Date 2026 8 11 21 20 + - 18000 * second_ns = time_Date 2026 8 11 16 20"
    "time_Date 2030 1 1 5 0 + - 18000 * second_ns = time_Date 2030 1 1 0 0"
    "time_Date 2026 8 17 12 0 - - 18000 * second_ns = time_Date 2026 8 17 17 0" by code_simp+
  have "Next_in five_behind s (time_Date 2026 8 11 21 20) (time_Date 2030 1 1 5 0) = Some (Some (time_Date 2026 8 17 17 0))"
    unfolding Next_wall [OF Parse_wf [OF s(1)] z m] fixed_wall [OF z] d s(2) option.map ..
  with Next_correct [OF s(1) z m, of "time_Date 2026 8 11 21 20" "time_Date 2030 1 1 5 0"] s(1) show ?thesis by auto
qed

section \<open>Daylight saving\<close>

text \<open>
  New York in 2026: the clock goes from 2:00 to 3:00 on 8 March (7:00 UTC) and back on
  1 November (6:00 UTC).
\<close>

definition new_york :: location where
  "new_york u =
     (if u < 1772953200 then (- 18000, - 9223372036854775808, 1772953200)
      else if u < 1793512800 then (- 14400, 1772953200, 1793512800)
      else (- 18000, 1793512800, 9223372036854775807))"

text \<open>
  A jump to 2:00 of the day the hour is skipped lands on 1:00, from where the same jump is
  taken again: the walk never returns, against the comment that every jump moves strictly
  forward.
\<close>

lemma walk_returns: "walk_in loc s limit t = Some r \<Longrightarrow> \<not> (step_in loc s t = Jump t \<and> t < limit)"
  by (rule walk_in.raw_induct [where P = "\<lambda>loc s limit t r. \<not> (step_in loc s t = Jump t \<and> t < limit)"]) auto

lemma walk_stuck: "step_in loc s t = Jump t \<Longrightarrow> t < limit \<Longrightarrow> walk_in loc s limit t = None"
  using walk_returns [of loc s limit t] by (cases "walk_in loc s limit t") auto

theorem dst_gap_never_returns:
  "\<exists>s. Parse ''cron(0 2 8 3 ? *)'' = Inr s
    \<and> Next_in new_york s (time_Date 2026 3 8 5 0) (time_Date 2030 1 1 0 0) = None"
proof -
  let ?t0 = "time_Date 2026 3 8 5 0" and ?t1 = "time_Date 2026 3 8 6 0" and ?lim = "time_Date 2030 1 1 0 0"
  have "map_sum id (\<lambda>s. (step_in new_york s ?t0, step_in new_york s ?t1)) (Parse ''cron(0 2 8 3 ? *)'')
      = Inr (Jump ?t1, Jump ?t1)" by code_simp
  then obtain s where s: "Parse ''cron(0 2 8 3 ? *)'' = Inr s" "step_in new_york s ?t0 = Jump ?t1"
    "step_in new_york s ?t1 = Jump ?t1"
    by (cases "Parse ''cron(0 2 8 3 ? *)''") auto
  have c: "?t0 < ?lim" "?t1 < ?lim" "?t0 mod minute_ns = 0" by code_simp+
  have "walk_in new_york s ?lim ?t0 = walk_in new_york s ?lim ?t1"
    using s(2) c(1) by (subst walk_in.simps) simp
  then have "Next_in new_york s ?t0 ?lim = None"
    using walk_stuck [OF s(3) c(2)] by (simp only: Next_in_def Let_def c(3)) simp
  with s(1) show ?thesis by blast
qed

end
