(* ===== verification/Sqs_Message.thy ===== *)
theory Sqs_Message
  imports Go_Codec Civil_Time "HOL-Library.Product_Lexorder" "HOL-Library.Multiset"
begin

text \<open>
  The records of the SQS service (\<^verbatim>\<open>internal/services/sqs/store.go\<close>) and its dedicated
  message storage (\<^verbatim>\<open>message_backend.go\<close>): the interface \<^verbatim>\<open>messageBackend\<close> as a record of
  operations with the locale \<open>message_backend\<close> for what its documentation promises, and
  the in-process backend that keeps the promise.

  Instants are nanoseconds since 1970, \<^verbatim>\<open>UnixMilli\<close> is \<open>unix_milli\<close>.  A stored message is a
  copy made by a JSON round trip; \<open>cloneMessage\<close> is what that round trip does.
\<close>

section \<open>Records\<close>

record AWSError =
  err_Code :: string
  err_Message :: string
  err_HTTPStatus :: int

record MessageAttribute =
  ma_DataType :: string
  ma_StringValue :: string
  ma_BinaryValue :: string

record Message =
  msg_MessageID :: string
  msg_ReceiptHandle :: string
  msg_Body :: string
  msg_Attributes :: "string gomap"
  msg_MessageAttributes :: "MessageAttribute gomap"
  msg_MD5OfBody :: string
  msg_SentTimestamp :: int
  msg_ApproximateReceiveCount :: int
  msg_VisibleAfter :: int
  msg_MessageGroupId :: string
  msg_MessageDeduplicationId :: string
  msg_SequenceNumber :: string
  msg_VisibilityVersion :: int

definition unix_milli :: "int \<Rightarrow> int" where
  "unix_milli t = t div 1000000"

definition messageVisibleAt :: "Message \<Rightarrow> int \<Rightarrow> bool" where
  "messageVisibleAt msg now \<longleftrightarrow> \<not> now < msg_VisibleAfter msg"

definition parseSequenceNumber :: "string \<Rightarrow> int" where
  "parseSequenceNumber s = (if s = [] then 0 else case Atoi s of None \<Rightarrow> 0 | Some n \<Rightarrow> n)"

section \<open>Copies\<close>

text \<open>
  \<open>cloneMessage\<close> marshals and unmarshals.  Every string comes back with invalid UTF-8
  replaced (\<open>to_valid\<close>; the bytes of a binary attribute travel as base64 and are kept), a
  map is written in key order, so that of keys that become equal the last one stays, and
  \<^verbatim>\<open>time.Time\<close> refuses to marshal a year outside 0 to 9999.
\<close>

definition clean_map :: "('v \<Rightarrow> 'v) \<Rightarrow> 'v gomap \<Rightarrow> 'v gomap" where
  "clean_map f m = fold (\<lambda>(k, v) acc. map_put (to_valid k) (f v) acc) m []"

definition clean_attribute :: "MessageAttribute \<Rightarrow> MessageAttribute" where
  "clean_attribute a = a\<lparr>ma_DataType := to_valid (ma_DataType a), ma_StringValue := to_valid (ma_StringValue a)\<rparr>"

definition clean_message :: "Message \<Rightarrow> Message" where
  "clean_message msg =
     \<lparr>msg_MessageID = to_valid (msg_MessageID msg),
      msg_ReceiptHandle = to_valid (msg_ReceiptHandle msg),
      msg_Body = to_valid (msg_Body msg),
      msg_Attributes = clean_map to_valid (msg_Attributes msg),
      msg_MessageAttributes = clean_map clean_attribute (msg_MessageAttributes msg),
      msg_MD5OfBody = to_valid (msg_MD5OfBody msg),
      msg_SentTimestamp = msg_SentTimestamp msg,
      msg_ApproximateReceiveCount = msg_ApproximateReceiveCount msg,
      msg_VisibleAfter = msg_VisibleAfter msg,
      msg_MessageGroupId = to_valid (msg_MessageGroupId msg),
      msg_MessageDeduplicationId = to_valid (msg_MessageDeduplicationId msg),
      msg_SequenceNumber = to_valid (msg_SequenceNumber msg),
      msg_VisibilityVersion = msg_VisibilityVersion msg\<rparr>"

definition marshal_year_ok :: "int \<Rightarrow> bool" where
  "marshal_year_ok t \<longleftrightarrow> (let y = year_of_day (t div 86400000000000) in 0 \<le> y \<and> y \<le> 9999)"

definition cloneMessage :: "Message \<Rightarrow> string + Message" where
  "cloneMessage msg =
     (if marshal_year_ok (msg_VisibleAfter msg) then Inr (clean_message msg)
      else Inl ''clone message: marshal: Time.MarshalJSON: year outside of range [0,9999]'')"

text \<open>The messages a copy leaves alone.\<close>

definition clean_strings :: "string gomap \<Rightarrow> bool" where
  "clean_strings m \<longleftrightarrow> wf_map m \<and> list_all (\<lambda>(k, v). valid_utf8 k \<and> valid_utf8 v) m"

definition clean_attributes :: "MessageAttribute gomap \<Rightarrow> bool" where
  "clean_attributes m \<longleftrightarrow> wf_map m
     \<and> list_all (\<lambda>(k, a). valid_utf8 k \<and> valid_utf8 (ma_DataType a) \<and> valid_utf8 (ma_StringValue a)) m"

definition storable :: "Message \<Rightarrow> bool" where
  "storable msg \<longleftrightarrow> marshal_year_ok (msg_VisibleAfter msg)
     \<and> valid_utf8 (msg_MessageID msg) \<and> valid_utf8 (msg_ReceiptHandle msg) \<and> valid_utf8 (msg_Body msg)
     \<and> clean_strings (msg_Attributes msg) \<and> clean_attributes (msg_MessageAttributes msg)
     \<and> valid_utf8 (msg_MD5OfBody msg) \<and> valid_utf8 (msg_MessageGroupId msg)
     \<and> valid_utf8 (msg_MessageDeduplicationId msg) \<and> valid_utf8 (msg_SequenceNumber msg)"

lemma map_put_append:
  "\<forall>p \<in> set acc. fst p < k \<Longrightarrow> map_put k v acc = acc @ [(k, v)]"
proof (induction acc)
  case (Cons p acc)
  then show ?case by (cases p) auto
qed simp

lemma clean_map_id_acc:
  assumes "wf_map (acc @ m)" "list_all (\<lambda>(k, v). valid_utf8 k \<and> f v = v) m"
  shows "fold (\<lambda>(k, v) acc. map_put (to_valid k) (f v) acc) m acc = acc @ m"
  using assms
proof (induction m arbitrary: acc)
  case (Cons p m)
  obtain k v where p: "p = (k, v)" by (cases p)
  have "\<forall>q \<in> set acc. fst q < k" using Cons.prems(1) p by (auto simp: wf_map_def sorted_wrt_append)
  then have "map_put k v acc = acc @ [(k, v)]" by (rule map_put_append)
  with Cons p to_valid_id [of k] show ?case by simp
qed simp

lemma clean_map_id: "wf_map m \<Longrightarrow> list_all (\<lambda>(k, v). valid_utf8 k \<and> f v = v) m \<Longrightarrow> clean_map f m = m"
  using clean_map_id_acc [of "[]" m f] by (simp add: clean_map_def)

lemma clean_message_id: "storable msg \<Longrightarrow> clean_message msg = msg"
proof -
  assume s: "storable msg"
  have "clean_map to_valid (msg_Attributes msg) = msg_Attributes msg"
    using s by (intro clean_map_id) (auto simp: storable_def clean_strings_def list_all_iff to_valid_id)
  moreover have "clean_map clean_attribute (msg_MessageAttributes msg) = msg_MessageAttributes msg"
    using s
    by (intro clean_map_id) (auto simp: storable_def clean_attributes_def list_all_iff to_valid_id clean_attribute_def)
  ultimately show ?thesis
    using s by (simp add: clean_message_def storable_def to_valid_id)
qed

lemma cloneMessage_storable: "storable msg \<Longrightarrow> cloneMessage msg = Inr msg"
  by (simp add: cloneMessage_def clean_message_id) (simp add: storable_def)

lemma clean_map_entries:
  assumes "list_all (\<lambda>(k, v). valid_utf8 k \<and> P v) acc" "wf_map acc" "\<And>v. P (f v)"
  shows "wf_map (fold (\<lambda>(k, v) acc. map_put (to_valid k) (f v) acc) m acc)
    \<and> list_all (\<lambda>(k, v). valid_utf8 k \<and> P v) (fold (\<lambda>(k, v) acc. map_put (to_valid k) (f v) acc) m acc)"
  using assms(1,2)
proof (induction m arbitrary: acc)
  case (Cons p m)
  obtain k v where p: "p = (k, v)" by (cases p)
  have "list_all (\<lambda>(k, v). valid_utf8 k \<and> P v) (map_put (to_valid k) (f v) acc)"
    using Cons.prems(1) assms(3) valid_to_valid by (induction acc) auto
  with Cons p show ?case by simp
qed simp

lemma storable_clean: "marshal_year_ok (msg_VisibleAfter msg) \<Longrightarrow> storable (clean_message msg)"
  using clean_map_entries [of valid_utf8 "[]" to_valid "msg_Attributes msg"]
    clean_map_entries [of "\<lambda>a. valid_utf8 (ma_DataType a) \<and> valid_utf8 (ma_StringValue a)" "[]" clean_attribute
      "msg_MessageAttributes msg"]
  by (simp add: storable_def clean_message_def clean_strings_def clean_attributes_def clean_map_def clean_attribute_def
      valid_to_valid)

lemma cloneMessage_Inr: "cloneMessage msg = Inr c \<Longrightarrow> storable c \<and> c = clean_message msg"
  by (auto simp: cloneMessage_def storable_clean split: if_split_asm)

section \<open>The interface\<close>

text \<open>
  A set of message groups is the list of its members.  Reads leave the backend as it is.
\<close>

record messageCounts =
  mc_Visible :: int
  mc_Delayed :: int
  mc_Total :: int

definition NotVisible :: "messageCounts \<Rightarrow> int" where
  "NotVisible c = mc_Total c - mc_Visible c - mc_Delayed c"

record 'b messageBackend =
  mb_putMessage :: "'b \<Rightarrow> string \<Rightarrow> string \<Rightarrow> Message \<Rightarrow> (string + unit) \<times> 'b"
  mb_getMessage :: "'b \<Rightarrow> string \<Rightarrow> string \<Rightarrow> string \<Rightarrow> string + Message option"
  mb_deleteMessage :: "'b \<Rightarrow> string \<Rightarrow> string \<Rightarrow> string \<Rightarrow> (string + unit) \<times> 'b"
  mb_deleteQueueMessages :: "'b \<Rightarrow> string \<Rightarrow> string \<Rightarrow> (string + unit) \<times> 'b"
  mb_listMessages :: "'b \<Rightarrow> string \<Rightarrow> string \<Rightarrow> string + Message list"
  mb_receiveCandidates :: "'b \<Rightarrow> string \<Rightarrow> string \<Rightarrow> int \<Rightarrow> int \<Rightarrow> bool \<Rightarrow> string + Message list"
  mb_blockedGroups :: "'b \<Rightarrow> string \<Rightarrow> string \<Rightarrow> int \<Rightarrow> string + string list"
  mb_countMessages :: "'b \<Rightarrow> string \<Rightarrow> string \<Rightarrow> int \<Rightarrow> string + messageCounts"

section \<open>The in-process backend\<close>

type_synonym memMessageBackend = "Message gomap gomap"

definition newMemMessageBackend :: memMessageBackend where
  "newMemMessageBackend = []"

definition memQueueKey :: "string \<Rightarrow> string \<Rightarrow> string" where
  "memQueueKey region queueName = region @ ''/'' @ queueName"

text \<open>Reading a missing queue of the map gives the nil map, which has no entries.\<close>

definition mem_queue :: "memMessageBackend \<Rightarrow> string \<Rightarrow> Message gomap" where
  "mem_queue b key = (case map_of b key of None \<Rightarrow> [] | Some q \<Rightarrow> q)"

definition mem_putMessage ::
  "memMessageBackend \<Rightarrow> string \<Rightarrow> string \<Rightarrow> Message \<Rightarrow> (string + unit) \<times> memMessageBackend"
where
  "mem_putMessage b region queueName msg =
     (case cloneMessage msg of
        Inl err \<Rightarrow> (Inl err, b)
      | Inr clone \<Rightarrow>
          (let key = memQueueKey region queueName
           in (Inr (), map_put key (map_put (msg_MessageID clone) clone (mem_queue b key)) b)))"

definition mem_getMessage ::
  "memMessageBackend \<Rightarrow> string \<Rightarrow> string \<Rightarrow> string \<Rightarrow> string + Message option"
where
  "mem_getMessage b region queueName messageID =
     (case map_of b (memQueueKey region queueName) of
        None \<Rightarrow> Inr None
      | Some q \<Rightarrow>
          (case map_of q messageID of
             None \<Rightarrow> Inr None
           | Some msg \<Rightarrow> map_sum id Some (cloneMessage msg)))"

definition mem_deleteMessage ::
  "memMessageBackend \<Rightarrow> string \<Rightarrow> string \<Rightarrow> string \<Rightarrow> (string + unit) \<times> memMessageBackend"
where
  "mem_deleteMessage b region queueName messageID =
     (let key = memQueueKey region queueName in
      case map_of b key of
        None \<Rightarrow> (Inr (), b)
      | Some q \<Rightarrow> (Inr (), map_put key (map_del messageID q) b))"

definition mem_deleteQueueMessages ::
  "memMessageBackend \<Rightarrow> string \<Rightarrow> string \<Rightarrow> (string + unit) \<times> memMessageBackend"
where
  "mem_deleteQueueMessages b region queueName = (Inr (), map_del (memQueueKey region queueName) b)"

text \<open>The loop that clones every message of a list, stopping at the first error.\<close>

fun clone_all :: "Message list \<Rightarrow> string + Message list" where
  "clone_all [] = Inr []"
| "clone_all (msg # msgs) =
     (case cloneMessage msg of
        Inl err \<Rightarrow> Inl err
      | Inr clone \<Rightarrow> map_sum id ((#) clone) (clone_all msgs))"

definition mem_listMessages :: "memMessageBackend \<Rightarrow> string \<Rightarrow> string \<Rightarrow> string + Message list" where
  "mem_listMessages b region queueName = clone_all (map snd (mem_queue b (memQueueKey region queueName)))"

definition fifo_key :: "Message \<Rightarrow> int \<times> string" where
  "fifo_key msg = (parseSequenceNumber (msg_SequenceNumber msg), msg_MessageID msg)"

definition mem_receiveCandidates ::
  "memMessageBackend \<Rightarrow> string \<Rightarrow> string \<Rightarrow> int \<Rightarrow> int \<Rightarrow> bool \<Rightarrow> string + Message list"
where
  "mem_receiveCandidates b region queueName now limit fifo =
     (let candidates = filter (\<lambda>msg. messageVisibleAt msg now) (map snd (mem_queue b (memQueueKey region queueName)));
          ordered = (if fifo then sort_key fifo_key candidates else candidates)
      in clone_all (if 0 < limit \<and> limit < int (length ordered) then take (nat limit) ordered else ordered))"

definition mem_blockedGroups :: "memMessageBackend \<Rightarrow> string \<Rightarrow> string \<Rightarrow> int \<Rightarrow> string + string list" where
  "mem_blockedGroups b region queueName now =
     Inr (remdups (map msg_MessageGroupId
       (filter (\<lambda>msg. msg_MessageGroupId msg \<noteq> [] \<and> \<not> messageVisibleAt msg now)
         (map snd (mem_queue b (memQueueKey region queueName))))))"

definition count_step :: "int \<Rightarrow> Message \<Rightarrow> messageCounts \<Rightarrow> messageCounts" where
  "count_step now msg c =
     (if messageVisibleAt msg now then c\<lparr>mc_Visible := mc_Visible c + 1\<rparr>
      else if msg_ApproximateReceiveCount msg = 0 then c\<lparr>mc_Delayed := mc_Delayed c + 1\<rparr>
      else c)"

definition mem_countMessages :: "memMessageBackend \<Rightarrow> string \<Rightarrow> string \<Rightarrow> int \<Rightarrow> string + messageCounts" where
  "mem_countMessages b region queueName now =
     (let q = map snd (mem_queue b (memQueueKey region queueName))
      in Inr (fold (count_step now) q \<lparr>mc_Visible = 0, mc_Delayed = 0, mc_Total = int (length q)\<rparr>))"

definition mem_debugDeleteAll :: "memMessageBackend \<Rightarrow> (string + unit) \<times> memMessageBackend" where
  "mem_debugDeleteAll b = (Inr (), [])"

definition memMessageBackend_ops :: "memMessageBackend messageBackend" where
  "memMessageBackend_ops =
     \<lparr>mb_putMessage = mem_putMessage, mb_getMessage = mem_getMessage, mb_deleteMessage = mem_deleteMessage,
      mb_deleteQueueMessages = mem_deleteQueueMessages, mb_listMessages = mem_listMessages,
      mb_receiveCandidates = mem_receiveCandidates, mb_blockedGroups = mem_blockedGroups,
      mb_countMessages = mem_countMessages\<rparr>"

section \<open>The contract\<close>

text \<open>
  The contents of a backend: for each region and queue, a map from message IDs to
  messages.  Queue names never contain a slash, and the contract speaks of such names.
\<close>

type_synonym queues_view = "string \<times> string \<Rightarrow> (string \<rightharpoonup> Message)"

abbreviation queue_ok :: "string \<Rightarrow> bool" where
  "queue_ok q \<equiv> CHR ''/'' \<notin> set q"

definition put_view :: "queues_view \<Rightarrow> string \<times> string \<Rightarrow> Message \<Rightarrow> queues_view" where
  "put_view w rq msg = w(rq := (w rq)(msg_MessageID msg \<mapsto> msg))"

definition del_view :: "queues_view \<Rightarrow> string \<times> string \<Rightarrow> string \<Rightarrow> queues_view" where
  "del_view w rq mid = w(rq := (w rq)(mid := None))"

definition is_listing :: "(string \<rightharpoonup> Message) \<Rightarrow> (Message \<Rightarrow> bool) \<Rightarrow> Message list \<Rightarrow> bool" where
  "is_listing m P ms \<longleftrightarrow> distinct (map msg_MessageID ms) \<and> set ms = {msg \<in> ran m. P msg}"

locale message_backend =
  fixes ops :: "'b messageBackend"
    and view :: "'b \<Rightarrow> queues_view"
    and invar :: "'b \<Rightarrow> bool"
  assumes stored_law: "invar b \<Longrightarrow> view b rq mid = Some msg \<Longrightarrow> msg_MessageID msg = mid \<and> storable msg"
    and put_law: "invar b \<Longrightarrow> queue_ok q \<Longrightarrow> storable msg \<Longrightarrow>
      fst (mb_putMessage ops b r q msg) = Inr ()
      \<and> view (snd (mb_putMessage ops b r q msg)) = put_view (view b) (r, q) msg
      \<and> invar (snd (mb_putMessage ops b r q msg))"
    and get_law: "invar b \<Longrightarrow> queue_ok q \<Longrightarrow> mb_getMessage ops b r q mid = Inr (view b (r, q) mid)"
    and delete_law: "invar b \<Longrightarrow> queue_ok q \<Longrightarrow>
      fst (mb_deleteMessage ops b r q mid) = Inr ()
      \<and> view (snd (mb_deleteMessage ops b r q mid)) = del_view (view b) (r, q) mid
      \<and> invar (snd (mb_deleteMessage ops b r q mid))"
    and deleteQueue_law: "invar b \<Longrightarrow> queue_ok q \<Longrightarrow>
      fst (mb_deleteQueueMessages ops b r q) = Inr ()
      \<and> view (snd (mb_deleteQueueMessages ops b r q)) = (view b)((r, q) := Map.empty)
      \<and> invar (snd (mb_deleteQueueMessages ops b r q))"
    and list_law: "invar b \<Longrightarrow> queue_ok q \<Longrightarrow>
      \<exists>ms. mb_listMessages ops b r q = Inr ms \<and> is_listing (view b (r, q)) (\<lambda>_. True) ms"
    and candidates_law: "invar b \<Longrightarrow> queue_ok q \<Longrightarrow>
      \<exists>ms. is_listing (view b (r, q)) (\<lambda>msg. messageVisibleAt msg now) ms
        \<and> (fifo \<longrightarrow> sorted (map fifo_key ms))
        \<and> mb_receiveCandidates ops b r q now limit fifo = Inr (if 0 < limit then take (nat limit) ms else ms)"
    and blocked_law: "invar b \<Longrightarrow> queue_ok q \<Longrightarrow>
      \<exists>gs. mb_blockedGroups ops b r q now = Inr gs
        \<and> set gs = {g. g \<noteq> [] \<and> (\<exists>msg \<in> ran (view b (r, q)). msg_MessageGroupId msg = g \<and> \<not> messageVisibleAt msg now)}"
    and count_law: "invar b \<Longrightarrow> queue_ok q \<Longrightarrow> is_listing (view b (r, q)) (\<lambda>_. True) ms \<Longrightarrow>
      mb_countMessages ops b r q now =
        Inr \<lparr>mc_Visible = int (length (filter (\<lambda>msg. messageVisibleAt msg now) ms)),
             mc_Delayed = int (length (filter (\<lambda>msg. \<not> messageVisibleAt msg now \<and> msg_ApproximateReceiveCount msg = 0) ms)),
             mc_Total = int (length ms)\<rparr>"
begin

text \<open>In a FIFO queue the order of the visible messages is determined.\<close>

lemma listing_sorted_unique:
  assumes "is_listing m P ms" "is_listing m P ms'" "sorted (map fifo_key ms)" "sorted (map fifo_key ms')"
  shows "ms = ms'"
proof -
  have inj: "inj_on fifo_key (set ms)"
    using assms(1) by (auto simp: is_listing_def fifo_key_def inj_on_def distinct_map)
  have "distinct (map fifo_key ms)" "distinct (map fifo_key ms')"
    using assms(1,2) by (auto simp: is_listing_def fifo_key_def distinct_map inj_on_def)
  moreover have "set ms = set ms'" using assms(1,2) by (simp add: is_listing_def)
  ultimately have "map fifo_key ms = map fifo_key ms'"
    using assms(3,4) by (metis set_map sorted_distinct_set_unique)
  with inj \<open>set ms = set ms'\<close> show ?thesis by (simp add: map_inj_on)
qed

text \<open>The three counts split the queue: what is neither visible nor delayed is in flight.\<close>

lemma counts_partition:
  assumes "invar b" "queue_ok q" "mb_countMessages ops b r q now = Inr c"
    "is_listing (view b (r, q)) (\<lambda>_. True) ms"
  shows "NotVisible c = int (length (filter (\<lambda>msg. \<not> messageVisibleAt msg now \<and> msg_ApproximateReceiveCount msg \<noteq> 0) ms))"
proof -
  have "length (filter P xs) + length (filter (\<lambda>x. \<not> P x \<and> Q x) xs) + length (filter (\<lambda>x. \<not> P x \<and> \<not> Q x) xs) = length xs"
    for P Q and xs :: "Message list" by (induction xs) auto
  from this [of "\<lambda>msg. messageVisibleAt msg now" ms "\<lambda>msg. msg_ApproximateReceiveCount msg = 0"]
    count_law [OF assms(1,2,4), of now] assms(3)
  show ?thesis by (auto simp: NotVisible_def)
qed

end

section \<open>The in-process backend keeps the contract\<close>

definition mem_messages_view :: "memMessageBackend \<Rightarrow> queues_view" where
  "mem_messages_view b = (\<lambda>(r, q). if queue_ok q then map_of (mem_queue b (memQueueKey r q)) else Map.empty)"

definition mem_queue_invar :: "Message gomap \<Rightarrow> bool" where
  "mem_queue_invar q \<longleftrightarrow> wf_map q \<and> (\<forall>(mid, msg) \<in> set q. msg_MessageID msg = mid \<and> storable msg)"

definition mem_messages_invar :: "memMessageBackend \<Rightarrow> bool" where
  "mem_messages_invar b \<longleftrightarrow> wf_map b \<and> (\<forall>(key, q) \<in> set b. mem_queue_invar q)"

lemma memQueueKey_inject: "queue_ok q \<Longrightarrow> queue_ok q' \<Longrightarrow> memQueueKey r q = memQueueKey r' q' \<longleftrightarrow> r = r' \<and> q = q'"
proof
  assume ok: "queue_ok q" "queue_ok q'" and eq: "memQueueKey r q = memQueueKey r' q'"
  have last: "takeWhile (\<lambda>c. c \<noteq> CHR ''/'') (rev (memQueueKey r q)) = rev q" if "queue_ok q" for r q
  proof -
    have "takeWhile (\<lambda>c. c \<noteq> CHR ''/'') (rev q @ CHR ''/'' # rev r) = rev q @ takeWhile (\<lambda>c. c \<noteq> CHR ''/'') (CHR ''/'' # rev r)"
      by (rule takeWhile_append2) (use that in auto)
    then show ?thesis by (simp add: memQueueKey_def)
  qed
  from last [OF ok(1), of r] last [OF ok(2), of r'] eq have "q = q'" by simp
  with eq show "r = r' \<and> q = q'" by (simp add: memQueueKey_def)
qed simp

lemma mem_queue_ok: "mem_messages_invar b \<Longrightarrow> mem_queue_invar (mem_queue b key)"
  by (auto simp: mem_messages_invar_def mem_queue_def mem_queue_invar_def split: option.splits dest!: map_of_SomeD)

lemma set_map_put_sub: "set (map_put k v m) \<subseteq> insert (k, v) (set m)"
proof (induction m)
  case (Cons p m)
  then show ?case by (cases p) auto
qed simp

lemma mem_queue_put [simp]: "mem_queue (map_put key q b) key' = (if key' = key then q else mem_queue b key')"
  by (simp add: mem_queue_def)

lemma mem_messages_put: "mem_messages_invar b \<Longrightarrow> mem_queue_invar q \<Longrightarrow> mem_messages_invar (map_put key q b)"
  using set_map_put_sub [of key q b] by (fastforce simp: mem_messages_invar_def)

lemma clone_all_storable: "\<forall>msg \<in> set ms. storable msg \<Longrightarrow> clone_all ms = Inr ms"
  by (induction ms) (simp_all add: cloneMessage_storable)

lemma mem_queue_listing:
  assumes "mem_messages_invar b" "queue_ok q"
  shows "is_listing (mem_messages_view b (r, q)) P (filter P (map snd (mem_queue b (memQueueKey r q))))"
    and "\<forall>msg \<in> set (map snd (mem_queue b (memQueueKey r q))). storable msg"
proof -
  let ?m = "mem_queue b (memQueueKey r q)"
  have inv: "mem_queue_invar ?m" using assms(1) by (rule mem_queue_ok)
  then show "\<forall>msg \<in> set (map snd ?m). storable msg" by (auto simp: mem_queue_invar_def)
  have d: "distinct (map fst ?m)" using inv by (simp add: mem_queue_invar_def wf_map_distinct)
  have "map msg_MessageID (map snd ?m) = map fst ?m"
    using inv by (auto simp: mem_queue_invar_def)
  with d have "distinct (map msg_MessageID (map snd ?m))" by metis
  then have "distinct (map msg_MessageID (filter P (map snd ?m)))"
    by (rule distinct_map_filter)
  moreover have "ran (map_of ?m) = snd ` set ?m" using d by (rule ran_distinct)
  ultimately show "is_listing (mem_messages_view b (r, q)) P (filter P (map snd ?m))"
    using assms(2) by (auto simp: is_listing_def mem_messages_view_def)
qed

lemma take_limit: "(if 0 < limit \<and> limit < int (length xs) then take (nat limit) xs else xs)
    = (if 0 < limit then take (nat limit) xs else xs)"
  by auto

lemma is_listing_perm: "is_listing m P ms \<Longrightarrow> mset ms' = mset ms \<Longrightarrow> is_listing m P ms'"
  unfolding is_listing_def by (metis mset_eq_imp_distinct_iff mset_eq_setD mset_map)

lemma count_fold:
  "fold (count_step now) q c =
     c\<lparr>mc_Visible := mc_Visible c + int (length (filter (\<lambda>msg. messageVisibleAt msg now) q)),
       mc_Delayed := mc_Delayed c
         + int (length (filter (\<lambda>msg. \<not> messageVisibleAt msg now \<and> msg_ApproximateReceiveCount msg = 0) q))\<rparr>"
  by (induction q arbitrary: c) (simp_all add: count_step_def)

lemma listing_same_length:
  assumes "is_listing m P ms" "is_listing m P ms'"
  shows "length (filter Q ms) = length (filter Q ms')"
proof -
  have "distinct ms" "distinct ms'" "set ms = set ms'" using assms by (auto simp: is_listing_def distinct_map)
  then have "mset ms = mset ms'" by (simp add: set_eq_iff_mset_eq_distinct)
  then have "mset (filter Q ms) = mset (filter Q ms')" by simp
  then show ?thesis by (metis size_mset)
qed

interpretation mem_messages: message_backend memMessageBackend_ops mem_messages_view mem_messages_invar
proof
  fix b :: memMessageBackend and r q mid :: string and msg :: Message and now limit :: int and fifo :: bool
  assume inv: "mem_messages_invar b"
  have qi: "mem_queue_invar (mem_queue b key)" for key using inv by (rule mem_queue_ok)
  show "msg_MessageID msg = mid \<and> storable msg" if "mem_messages_view b rq mid = Some msg" for rq
    using that qi by (auto simp: mem_messages_view_def mem_queue_invar_def split: prod.splits if_split_asm dest!: map_of_SomeD)
  assume ok: "queue_ok q"
  let ?k = "memQueueKey r q"
  note unf = memMessageBackend_ops_def mem_messages_view_def
  show "fst (mb_putMessage memMessageBackend_ops b r q msg) = Inr ()
      \<and> mem_messages_view (snd (mb_putMessage memMessageBackend_ops b r q msg)) = put_view (mem_messages_view b) (r, q) msg
      \<and> mem_messages_invar (snd (mb_putMessage memMessageBackend_ops b r q msg))" if st: "storable msg"
  proof -
    have "mem_queue_invar (map_put (msg_MessageID msg) msg (mem_queue b ?k))"
      using qi [of ?k] st set_map_put_sub [of "msg_MessageID msg" msg "mem_queue b ?k"]
      by (fastforce simp: mem_queue_invar_def)
    with inv show ?thesis using ok st
      by (auto simp: unf mem_putMessage_def Let_def cloneMessage_storable mem_messages_put put_view_def memQueueKey_inject fun_eq_iff)
  qed
  show "mb_getMessage memMessageBackend_ops b r q mid = Inr (mem_messages_view b (r, q) mid)"
    using ok qi [of ?k]
    by (auto simp: unf mem_getMessage_def mem_queue_def mem_queue_invar_def cloneMessage_storable
        split: option.splits dest!: map_of_SomeD)
  show "fst (mb_deleteMessage memMessageBackend_ops b r q mid) = Inr ()
      \<and> mem_messages_view (snd (mb_deleteMessage memMessageBackend_ops b r q mid)) = del_view (mem_messages_view b) (r, q) mid
      \<and> mem_messages_invar (snd (mb_deleteMessage memMessageBackend_ops b r q mid))"
  proof (cases "map_of b ?k")
    case None
    then show ?thesis
      using ok inv by (auto simp: unf mem_deleteMessage_def Let_def del_view_def fun_eq_iff mem_queue_def)
  next
    case (Some m)
    then have m: "m = mem_queue b ?k" by (simp add: mem_queue_def)
    then have "mem_queue_invar (map_del mid m)"
      using qi [of ?k] by (auto simp: mem_queue_invar_def) (auto simp: map_del_def)
    with Some m ok inv show ?thesis
      by (auto simp: unf mem_deleteMessage_def Let_def mem_messages_put del_view_def memQueueKey_inject fun_eq_iff)
  qed
  have "mem_messages_invar (map_del ?k b)"
    using inv by (auto simp: mem_messages_invar_def) (auto simp: map_del_def)
  then show "fst (mb_deleteQueueMessages memMessageBackend_ops b r q) = Inr ()
      \<and> mem_messages_view (snd (mb_deleteQueueMessages memMessageBackend_ops b r q)) = (mem_messages_view b)((r, q) := Map.empty)
      \<and> mem_messages_invar (snd (mb_deleteQueueMessages memMessageBackend_ops b r q))"
    using ok by (auto simp: unf mem_deleteQueueMessages_def mem_queue_def memQueueKey_inject fun_eq_iff)
  note listing = mem_queue_listing [OF inv ok, of r]
  show "\<exists>ms. mb_listMessages memMessageBackend_ops b r q = Inr ms \<and> is_listing (mem_messages_view b (r, q)) (\<lambda>_. True) ms"
    using listing(1) [of "\<lambda>_. True"] clone_all_storable [OF listing(2)] by (simp add: memMessageBackend_ops_def mem_listMessages_def)
  let ?vis = "filter (\<lambda>msg. messageVisibleAt msg now) (map snd (mem_queue b ?k))"
  let ?ord = "if fifo then sort_key fifo_key ?vis else ?vis"
  have "is_listing (mem_messages_view b (r, q)) (\<lambda>msg. messageVisibleAt msg now) ?ord"
    using listing(1) [of "\<lambda>msg. messageVisibleAt msg now"] by (auto intro: is_listing_perm)
  moreover have "clone_all xs = Inr xs" if "set xs \<subseteq> set ?ord" for xs
    using listing(2) that by (intro clone_all_storable) (auto split: if_split_asm)
  then have "mb_receiveCandidates memMessageBackend_ops b r q now limit fifo
      = Inr (if 0 < limit then take (nat limit) ?ord else ?ord)"
    using set_take_subset [of "nat limit" ?ord]
    by (simp add: memMessageBackend_ops_def mem_receiveCandidates_def Let_def take_limit)
  ultimately show "\<exists>ms. is_listing (mem_messages_view b (r, q)) (\<lambda>msg. messageVisibleAt msg now) ms
        \<and> (fifo \<longrightarrow> sorted (map fifo_key ms))
        \<and> mb_receiveCandidates memMessageBackend_ops b r q now limit fifo = Inr (if 0 < limit then take (nat limit) ms else ms)"
    by (intro exI [of _ ?ord]) auto
  have "ran (mem_messages_view b (r, q)) = set (map snd (mem_queue b ?k))"
    using listing(1) [of "\<lambda>_. True"] by (simp add: is_listing_def)
  then show "\<exists>gs. mb_blockedGroups memMessageBackend_ops b r q now = Inr gs
        \<and> set gs = {g. g \<noteq> [] \<and> (\<exists>msg \<in> ran (mem_messages_view b (r, q)). msg_MessageGroupId msg = g \<and> \<not> messageVisibleAt msg now)}"
    by (auto simp: memMessageBackend_ops_def mem_blockedGroups_def)
  show "mb_countMessages memMessageBackend_ops b r q now =
        Inr \<lparr>mc_Visible = int (length (filter (\<lambda>msg. messageVisibleAt msg now) ms)),
             mc_Delayed = int (length (filter (\<lambda>msg. \<not> messageVisibleAt msg now \<and> msg_ApproximateReceiveCount msg = 0) ms)),
             mc_Total = int (length ms)\<rparr>" if "is_listing (mem_messages_view b (r, q)) (\<lambda>_. True) ms" for ms
    using listing_same_length [OF listing(1) [of "\<lambda>_. True"] that] listing_same_length [OF listing(1) [of "\<lambda>_. True"] that, of "\<lambda>_. True"]
    by (simp add: memMessageBackend_ops_def mem_countMessages_def count_fold Let_def)
qed

section \<open>Properties\<close>

text \<open>
  C23. The in-process message backend keeps the contract of \<^verbatim>\<open>messageBackend\<close>: writes and
  deletes change exactly the addressed message, reads see the stored copies, candidates are
  the visible messages (all of them or the first of the limit, in sequence order for a FIFO
  queue), blocked groups are those with an invisible message, and the counts count.
\<close>

theorem mem_message_backend_contract:
  "message_backend memMessageBackend_ops mem_messages_view mem_messages_invar \<and> mem_messages_invar newMemMessageBackend"
  using mem_messages.message_backend_axioms by (simp add: mem_messages_invar_def newMemMessageBackend_def)

end
