(* ===== verification/Sqs_Store.thy ===== *)
theory Sqs_Store
  imports Sqs_Message Store_Iface
begin

text \<open>
  The service's view of its storage, \<^verbatim>\<open>internal/services/sqs/store.go\<close>: queue records, purge
  windows, deduplication records and receive attempts live as JSON or decimal strings in
  the generic store (any \<open>store_ops\<close>), messages in the message backend (any
  \<open>messageBackend\<close>).

  The state of the service is the record \<open>sqs_state\<close>; what does not change while it runs is
  in \<open>sqs_env\<close>: the two storages' operations, the region of the request, the account, the
  URL origins, the MD5 digest and the source of UUIDs, of which \<open>sq_uuid\<close> counts how many
  have been drawn.  The clock is read once per call and passed as \<open>now\<close>.  What the service
  reports to the outside, its events and metrics, is appended to \<open>sq_out\<close>.
\<close>

section \<open>State\<close>

record Queue =
  q_Name :: string
  q_URL :: string
  q_ARN :: string
  q_Attributes :: "string gomap"
  q_CreatedTimestamp :: int
  q_LastModifiedTimestamp :: int
  q_Tags :: "string gomap"

definition LastModified :: "Queue \<Rightarrow> int" where
  "LastModified q = (if q_LastModifiedTimestamp q = 0 then q_CreatedTimestamp q else q_LastModifiedTimestamp q)"

record receiveAttemptMessage =
  ram_MessageID :: string
  ram_ReceiptHandle :: string
  ram_VisibilityVersion :: int

record receiveAttempt =
  ra_ExpiresAtUnixMilli :: int
  ra_Messages :: "receiveAttemptMessage list"

datatype sqs_out =
    SQSMessageSent string string
  | SQSMessageInflight string string int int
  | SQSMessageDeleted string string
  | SQSMessageDLQ string string string
  | SQSMessageRedrive string nat
  | SQSQueueCreated string
  | SQSQueueDeleted string
  | SQSQueuePurged string
  | Metric string string int

record ('s, 'b) sqs_env =
  env_store :: "'s store_ops"
  env_backend :: "'b messageBackend"
  env_region :: string
  env_AccountID :: string
  env_origin :: string
  env_external :: string
  env_md5 :: "string \<Rightarrow> string"
  env_uuid :: "nat \<Rightarrow> string"

record ('s, 'b) sqs_state =
  sq_kv :: 's
  sq_mb :: 'b
  sq_seq :: int
  sq_uuid :: nat
  sq_out :: "sqs_out list"

type_synonym 'a aws = "AWSError + 'a"

definition emit :: "sqs_out list \<Rightarrow> ('s, 'b) sqs_state \<Rightarrow> ('s, 'b) sqs_state" where
  "emit evs s = s\<lparr>sq_out := sq_out s @ evs\<rparr>"

section \<open>Errors\<close>

definition bad_request :: "string \<Rightarrow> string \<Rightarrow> AWSError" where
  "bad_request code m = \<lparr>err_Code = code, err_Message = m, err_HTTPStatus = 400\<rparr>"

definition ErrInternalError :: AWSError where
  "ErrInternalError = \<lparr>err_Code = ''InternalError'', err_Message = ''An internal error occurred.'', err_HTTPStatus = 500\<rparr>"

definition ErrMissingParameter :: "string \<Rightarrow> AWSError" where
  "ErrMissingParameter param =
     bad_request ''MissingParameter'' (''The request must contain the parameter '' @ param @ ''.'')"

definition errQueueNotFound :: "string \<Rightarrow> AWSError" where
  "errQueueNotFound name =
     bad_request ''AWS.SimpleQueueService.NonExistentQueue'' (''The specified queue does not exist: '' @ name)"

definition errPurgeQueueInProgress :: AWSError where
  "errPurgeQueueInProgress =
     bad_request ''PurgeQueueInProgress'' ''Only one PurgeQueue operation is allowed each 60 seconds.''"

definition errReceiptHandle :: AWSError where
  "errReceiptHandle = bad_request ''ReceiptHandleIsInvalid'' ''The receipt handle is invalid.''"

section \<open>Records in the generic store\<close>

definition nsQueues :: string where "nsQueues = ''sqs:queues''"
definition nsDedup :: string where "nsDedup = ''sqs:dedup''"
definition nsPurge :: string where "nsPurge = ''sqs:purge''"
definition nsAttempts :: string where "nsAttempts = ''sqs:receive-attempts''"

definition RegionKey :: "string \<Rightarrow> string \<Rightarrow> string" where
  "RegionKey region key = (if region = [] then key else region @ ''/'' @ key)"

definition dedupKey :: "string \<Rightarrow> string \<Rightarrow> string" where
  "dedupKey queueName dedupID = queueName @ ''/'' @ dedupID"

text \<open>
  \<^verbatim>\<open>json.Unmarshal\<close> into a struct: members are assigned in order, unknown names are skipped,
  \<^verbatim>\<open>null\<close> leaves a string or an integer as it is and empties a map, and a value of another
  type is an error.
\<close>

definition read_string :: "json \<Rightarrow> string \<Rightarrow> string option" where
  "read_string v old = (case v of JStr s \<Rightarrow> Some s | JNull \<Rightarrow> Some old | _ \<Rightarrow> None)"

definition read_integer :: "json \<Rightarrow> int \<Rightarrow> int option" where
  "read_integer v old = (case v of JNum l \<Rightarrow> Atoi l | JNull \<Rightarrow> Some old | _ \<Rightarrow> None)"

fun read_entries :: "(string \<times> string \<times> json) list \<Rightarrow> string gomap \<Rightarrow> string gomap option" where
  "read_entries [] m = Some m"
| "read_entries ((k, raw, v) # ms) m =
     (case read_string v [] of None \<Rightarrow> None | Some s \<Rightarrow> read_entries ms (map_put k s m))"

definition read_map :: "json \<Rightarrow> string gomap \<Rightarrow> string gomap option" where
  "read_map v old = (case v of JObj ms \<Rightarrow> read_entries ms old | JNull \<Rightarrow> Some [] | _ \<Rightarrow> None)"

definition read_queue_member :: "string \<Rightarrow> json \<Rightarrow> Queue \<Rightarrow> Queue option" where
  "read_queue_member name v q =
     (if EqualFold name ''name'' then map_option (\<lambda>x. q\<lparr>q_Name := x\<rparr>) (read_string v (q_Name q))
      else if EqualFold name ''url'' then map_option (\<lambda>x. q\<lparr>q_URL := x\<rparr>) (read_string v (q_URL q))
      else if EqualFold name ''arn'' then map_option (\<lambda>x. q\<lparr>q_ARN := x\<rparr>) (read_string v (q_ARN q))
      else if EqualFold name ''attributes'' then map_option (\<lambda>x. q\<lparr>q_Attributes := x\<rparr>) (read_map v (q_Attributes q))
      else if EqualFold name ''created_timestamp''
        then map_option (\<lambda>x. q\<lparr>q_CreatedTimestamp := x\<rparr>) (read_integer v (q_CreatedTimestamp q))
      else if EqualFold name ''last_modified_timestamp''
        then map_option (\<lambda>x. q\<lparr>q_LastModifiedTimestamp := x\<rparr>) (read_integer v (q_LastModifiedTimestamp q))
      else if EqualFold name ''tags'' then map_option (\<lambda>x. q\<lparr>q_Tags := x\<rparr>) (read_map v (q_Tags q))
      else Some q)"

fun read_members :: "(string \<Rightarrow> json \<Rightarrow> 'r \<Rightarrow> 'r option) \<Rightarrow> (string \<times> string \<times> json) list \<Rightarrow> 'r \<Rightarrow> 'r option" where
  "read_members f [] x = Some x"
| "read_members f ((name, raw, v) # ms) x =
     (case f name v x of None \<Rightarrow> None | Some y \<Rightarrow> read_members f ms y)"

definition read_struct :: "(string \<Rightarrow> json \<Rightarrow> 'r \<Rightarrow> 'r option) \<Rightarrow> json \<Rightarrow> 'r \<Rightarrow> 'r option" where
  "read_struct f v x = (case v of JObj ms \<Rightarrow> read_members f ms x | JNull \<Rightarrow> Some x | _ \<Rightarrow> None)"

definition zero_queue :: Queue where
  "zero_queue = \<lparr>q_Name = [], q_URL = [], q_ARN = [], q_Attributes = [], q_CreatedTimestamp = 0,
     q_LastModifiedTimestamp = 0, q_Tags = []\<rparr>"

definition unmarshal_queue :: "string \<Rightarrow> Queue option" where
  "unmarshal_queue raw =
     (case json_parse raw of None \<Rightarrow> None | Some v \<Rightarrow> read_struct read_queue_member v zero_queue)"

definition strings_jval :: "string gomap \<Rightarrow> jval" where
  "strings_jval m = VObj (map (\<lambda>(k, v). (k, VStr v)) m)"

definition queue_jval :: "Queue \<Rightarrow> jval" where
  "queue_jval q = VObj
     ([(''name'', VStr (q_Name q)), (''url'', VStr (q_URL q)), (''arn'', VStr (q_ARN q)),
       (''attributes'', strings_jval (q_Attributes q)), (''created_timestamp'', VInt (q_CreatedTimestamp q))]
      @ (if q_LastModifiedTimestamp q = 0 then [] else [(''last_modified_timestamp'', VInt (q_LastModifiedTimestamp q))])
      @ (if q_Tags q = [] then [] else [(''tags'', strings_jval (q_Tags q))]))"

definition marshal_queue :: "Queue \<Rightarrow> string" where
  "marshal_queue q = show_jval (queue_jval q)"

definition attempt_message_jval :: "receiveAttemptMessage \<Rightarrow> jval" where
  "attempt_message_jval m = VObj
     ([(''message_id'', VStr (ram_MessageID m)), (''receipt_handle'', VStr (ram_ReceiptHandle m))]
      @ (if ram_VisibilityVersion m = 0 then [] else [(''visibility_version'', VInt (ram_VisibilityVersion m))]))"

definition marshal_attempt :: "receiveAttempt \<Rightarrow> string" where
  "marshal_attempt a = show_jval (VObj
     [(''expires_at_unix_milli'', VInt (ra_ExpiresAtUnixMilli a)),
      (''messages'', VArr (map attempt_message_jval (ra_Messages a)))])"

definition read_attempt_message_member :: "string \<Rightarrow> json \<Rightarrow> receiveAttemptMessage \<Rightarrow> receiveAttemptMessage option" where
  "read_attempt_message_member name v m =
     (if EqualFold name ''message_id'' then map_option (\<lambda>x. m\<lparr>ram_MessageID := x\<rparr>) (read_string v (ram_MessageID m))
      else if EqualFold name ''receipt_handle''
        then map_option (\<lambda>x. m\<lparr>ram_ReceiptHandle := x\<rparr>) (read_string v (ram_ReceiptHandle m))
      else if EqualFold name ''visibility_version''
        then map_option (\<lambda>x. m\<lparr>ram_VisibilityVersion := x\<rparr>) (read_integer v (ram_VisibilityVersion m))
      else Some m)"

fun read_attempt_messages :: "(string \<times> json) list \<Rightarrow> receiveAttemptMessage list option" where
  "read_attempt_messages [] = Some []"
| "read_attempt_messages ((raw, v) # es) =
     (case read_struct read_attempt_message_member v
             \<lparr>ram_MessageID = [], ram_ReceiptHandle = [], ram_VisibilityVersion = 0\<rparr> of
        None \<Rightarrow> None
      | Some m \<Rightarrow> map_option ((#) m) (read_attempt_messages es))"

definition read_attempt_member :: "string \<Rightarrow> json \<Rightarrow> receiveAttempt \<Rightarrow> receiveAttempt option" where
  "read_attempt_member name v a =
     (if EqualFold name ''expires_at_unix_milli''
        then map_option (\<lambda>x. a\<lparr>ra_ExpiresAtUnixMilli := x\<rparr>) (read_integer v (ra_ExpiresAtUnixMilli a))
      else if EqualFold name ''messages'' then
        (case v of
           JArr es \<Rightarrow> map_option (\<lambda>x. a\<lparr>ra_Messages := x\<rparr>) (read_attempt_messages es)
         | JNull \<Rightarrow> Some (a\<lparr>ra_Messages := []\<rparr>)
         | _ \<Rightarrow> None)
      else Some a)"

definition unmarshal_attempt :: "string \<Rightarrow> receiveAttempt option" where
  "unmarshal_attempt raw =
     (case json_parse raw of
        None \<Rightarrow> None
      | Some v \<Rightarrow> read_struct read_attempt_member v \<lparr>ra_ExpiresAtUnixMilli = 0, ra_Messages = []\<rparr>)"

section \<open>Operations\<close>

text \<open>One call of the generic store: its errors become \<open>ErrInternalError\<close>.\<close>

definition kv_call :: "('s \<Rightarrow> 'a result \<times> 's) \<Rightarrow> ('s, 'b) sqs_state \<Rightarrow> 'a aws \<times> ('s, 'b) sqs_state" where
  "kv_call f s =
     (case f (sq_kv s) of
        (Inl _, kv) \<Rightarrow> (Inl ErrInternalError, s\<lparr>sq_kv := kv\<rparr>)
      | (Inr x, kv) \<Rightarrow> (Inr x, s\<lparr>sq_kv := kv\<rparr>))"

definition mb_call :: "('b \<Rightarrow> (string + 'a) \<times> 'b) \<Rightarrow> ('s, 'b) sqs_state \<Rightarrow> 'a aws \<times> ('s, 'b) sqs_state" where
  "mb_call f s =
     (case f (sq_mb s) of
        (Inl _, mb) \<Rightarrow> (Inl ErrInternalError, s\<lparr>sq_mb := mb\<rparr>)
      | (Inr x, mb) \<Rightarrow> (Inr x, s\<lparr>sq_mb := mb\<rparr>))"

definition mb_read :: "(string + 'a) \<Rightarrow> 'a aws" where
  "mb_read r = (case r of Inl _ \<Rightarrow> Inl ErrInternalError | Inr x \<Rightarrow> Inr x)"

definition getQueue :: "('s, 'b) sqs_env \<Rightarrow> string \<Rightarrow> ('s, 'b) sqs_state \<Rightarrow> Queue aws \<times> ('s, 'b) sqs_state" where
  "getQueue E name s =
     (case kv_call (\<lambda>kv. st_Get (env_store E) kv nsQueues (RegionKey (env_region E) name)) s of
        (Inl err, s') \<Rightarrow> (Inl err, s')
      | (Inr (raw, found), s') \<Rightarrow>
          if \<not> found then (Inl (errQueueNotFound name), s')
          else (case unmarshal_queue raw of
             None \<Rightarrow> (Inl (errQueueNotFound name), s')
           | Some q \<Rightarrow> (Inr q, s')))"

definition putQueue :: "('s, 'b) sqs_env \<Rightarrow> Queue \<Rightarrow> ('s, 'b) sqs_state \<Rightarrow> unit aws \<times> ('s, 'b) sqs_state" where
  "putQueue E q s =
     kv_call (\<lambda>kv. st_Set (env_store E) kv nsQueues (RegionKey (env_region E) (q_Name q)) (marshal_queue q)) s"

fun delete_keys :: "'s store_ops \<Rightarrow> string \<Rightarrow> string list \<Rightarrow> 's \<Rightarrow> unit result \<times> 's" where
  "delete_keys ops ns [] kv = (Inr (), kv)"
| "delete_keys ops ns (key # keys) kv =
     (case st_Delete ops kv ns key of
        (Inl err, kv') \<Rightarrow> (Inl err, kv')
      | (Inr _, kv') \<Rightarrow> delete_keys ops ns keys kv')"

definition deleteNamespacePrefix ::
  "('s, 'b) sqs_env \<Rightarrow> string \<Rightarrow> string \<Rightarrow> ('s, 'b) sqs_state \<Rightarrow> unit aws \<times> ('s, 'b) sqs_state"
where
  "deleteNamespacePrefix E ns p s =
     (case st_DeletePrefix (env_store E) of
        Some del \<Rightarrow> kv_call (\<lambda>kv. del kv ns p) s
      | None \<Rightarrow>
          (case kv_call (\<lambda>kv. st_List (env_store E) kv ns p) s of
             (Inl err, s') \<Rightarrow> (Inl err, s')
           | (Inr keys, s') \<Rightarrow> kv_call (delete_keys (env_store E) ns keys) s'))"

definition deleteMessagesByQueuePrefix ::
  "('s, 'b) sqs_env \<Rightarrow> string \<Rightarrow> ('s, 'b) sqs_state \<Rightarrow> unit aws \<times> ('s, 'b) sqs_state"
where
  "deleteMessagesByQueuePrefix E queueName s =
     mb_call (\<lambda>mb. mb_deleteQueueMessages (env_backend E) mb (env_region E) queueName) s"

text \<open>Go's \<^verbatim>\<open>if err != nil { return err }\<close> between steps that return nothing else.\<close>

definition seq_call ::
  "(('s, 'b) sqs_state \<Rightarrow> unit aws \<times> ('s, 'b) sqs_state) \<Rightarrow> (('s, 'b) sqs_state \<Rightarrow> 'a aws \<times> ('s, 'b) sqs_state)
    \<Rightarrow> ('s, 'b) sqs_state \<Rightarrow> 'a aws \<times> ('s, 'b) sqs_state"
where
  "seq_call f g s = (case f s of (Inl err, s') \<Rightarrow> (Inl err, s') | (Inr _, s') \<Rightarrow> g s')"

definition deleteQueue :: "('s, 'b) sqs_env \<Rightarrow> string \<Rightarrow> ('s, 'b) sqs_state \<Rightarrow> unit aws \<times> ('s, 'b) sqs_state" where
  "deleteQueue E name =
     (let key = RegionKey (env_region E) name; childPrefix = key @ ''/'' in
      seq_call (kv_call (\<lambda>kv. st_Delete (env_store E) kv nsQueues key))
      (seq_call (kv_call (\<lambda>kv. st_Delete (env_store E) kv nsPurge key))
      (seq_call (deleteNamespacePrefix E nsDedup childPrefix)
      (seq_call (deleteNamespacePrefix E nsAttempts childPrefix)
      (deleteMessagesByQueuePrefix E name)))))"

fun read_queues :: "KV list \<Rightarrow> Queue list" where
  "read_queues [] = []"
| "read_queues ((k, raw) # pairs) =
     (case unmarshal_queue raw of None \<Rightarrow> read_queues pairs | Some q \<Rightarrow> q # read_queues pairs)"

definition listQueues ::
  "('s, 'b) sqs_env \<Rightarrow> string \<Rightarrow> ('s, 'b) sqs_state \<Rightarrow> Queue list aws \<times> ('s, 'b) sqs_state"
where
  "listQueues E p s =
     apfst (map_sum id read_queues)
       (kv_call (\<lambda>kv. st_Scan (env_store E) kv nsQueues (RegionKey (env_region E) p)) s)"

definition putMessage ::
  "('s, 'b) sqs_env \<Rightarrow> string \<Rightarrow> Message \<Rightarrow> ('s, 'b) sqs_state \<Rightarrow> unit aws \<times> ('s, 'b) sqs_state"
where
  "putMessage E queueName msg s =
     mb_call (\<lambda>mb. mb_putMessage (env_backend E) mb (env_region E) queueName msg) s"

definition getMessage :: "('s, 'b) sqs_env \<Rightarrow> string \<Rightarrow> string \<Rightarrow> ('s, 'b) sqs_state \<Rightarrow> Message aws" where
  "getMessage E queueName messageID s =
     (case mb_read (mb_getMessage (env_backend E) (sq_mb s) (env_region E) queueName messageID) of
        Inl err \<Rightarrow> Inl err
      | Inr None \<Rightarrow> Inl errReceiptHandle
      | Inr (Some msg) \<Rightarrow> Inr msg)"

definition deleteMessage ::
  "('s, 'b) sqs_env \<Rightarrow> string \<Rightarrow> string \<Rightarrow> ('s, 'b) sqs_state \<Rightarrow> unit aws \<times> ('s, 'b) sqs_state"
where
  "deleteMessage E queueName messageID s =
     mb_call (\<lambda>mb. mb_deleteMessage (env_backend E) mb (env_region E) queueName messageID) s"

definition listMessages :: "('s, 'b) sqs_env \<Rightarrow> string \<Rightarrow> ('s, 'b) sqs_state \<Rightarrow> Message list aws" where
  "listMessages E queueName s = mb_read (mb_listMessages (env_backend E) (sq_mb s) (env_region E) queueName)"

definition receiveCandidates ::
  "('s, 'b) sqs_env \<Rightarrow> string \<Rightarrow> int \<Rightarrow> int \<Rightarrow> bool \<Rightarrow> ('s, 'b) sqs_state \<Rightarrow> Message list aws"
where
  "receiveCandidates E queueName now limit fifo s =
     mb_read (mb_receiveCandidates (env_backend E) (sq_mb s) (env_region E) queueName now limit fifo)"

definition blockedGroups :: "('s, 'b) sqs_env \<Rightarrow> string \<Rightarrow> int \<Rightarrow> ('s, 'b) sqs_state \<Rightarrow> string list aws" where
  "blockedGroups E queueName now s = mb_read (mb_blockedGroups (env_backend E) (sq_mb s) (env_region E) queueName now)"

definition countMessages :: "('s, 'b) sqs_env \<Rightarrow> string \<Rightarrow> int \<Rightarrow> ('s, 'b) sqs_state \<Rightarrow> messageCounts aws" where
  "countMessages E queueName now s = mb_read (mb_countMessages (env_backend E) (sq_mb s) (env_region E) queueName now)"

definition getReceiveAttempt ::
  "('s, 'b) sqs_env \<Rightarrow> int \<Rightarrow> string \<Rightarrow> string \<Rightarrow> ('s, 'b) sqs_state \<Rightarrow> receiveAttempt option aws \<times> ('s, 'b) sqs_state"
where
  "getReceiveAttempt E now queueName attemptID s =
     (let key = RegionKey (env_region E) (queueName @ ''/'' @ attemptID) in
      case kv_call (\<lambda>kv. st_Get (env_store E) kv nsAttempts key) s of
        (Inl err, s') \<Rightarrow> (Inl err, s')
      | (Inr (raw, found), s') \<Rightarrow>
          if \<not> found then (Inr None, s')
          else (case unmarshal_attempt raw of
             None \<Rightarrow> (Inr None, s')
           | Some attempt \<Rightarrow>
               if ra_ExpiresAtUnixMilli attempt \<le> unix_milli now
               then (Inr None, snd (kv_call (\<lambda>kv. st_Delete (env_store E) kv nsAttempts key) s'))
               else (Inr (Some attempt), s')))"

definition putReceiveAttempt ::
  "('s, 'b) sqs_env \<Rightarrow> string \<Rightarrow> string \<Rightarrow> receiveAttempt \<Rightarrow> ('s, 'b) sqs_state \<Rightarrow> unit aws \<times> ('s, 'b) sqs_state"
where
  "putReceiveAttempt E queueName attemptID attempt s =
     kv_call (\<lambda>kv. st_Set (env_store E) kv nsAttempts (RegionKey (env_region E) (queueName @ ''/'' @ attemptID))
       (marshal_attempt attempt)) s"

definition purgeActive ::
  "('s, 'b) sqs_env \<Rightarrow> int \<Rightarrow> string \<Rightarrow> ('s, 'b) sqs_state \<Rightarrow> bool aws \<times> ('s, 'b) sqs_state"
where
  "purgeActive E now queueName s =
     (let key = RegionKey (env_region E) queueName in
      case kv_call (\<lambda>kv. st_Get (env_store E) kv nsPurge key) s of
        (Inl err, s') \<Rightarrow> (Inl err, s')
      | (Inr (raw, found), s') \<Rightarrow>
          if \<not> found then (Inr False, s')
          else if (case Atoi raw of None \<Rightarrow> True | Some deadline \<Rightarrow> deadline \<le> unix_milli now)
          then apfst (map_sum id (\<lambda>_. False)) (kv_call (\<lambda>kv. st_Delete (env_store E) kv nsPurge key) s')
          else (Inr True, s'))"

definition startPurge ::
  "('s, 'b) sqs_env \<Rightarrow> int \<Rightarrow> string \<Rightarrow> ('s, 'b) sqs_state \<Rightarrow> unit aws \<times> ('s, 'b) sqs_state"
where
  "startPurge E now queueName s =
     (case purgeActive E now queueName s of
        (Inl err, s') \<Rightarrow> (Inl err, s')
      | (Inr active, s') \<Rightarrow>
          if active then (Inl errPurgeQueueInProgress, s')
          else kv_call (\<lambda>kv. st_Set (env_store E) kv nsPurge (RegionKey (env_region E) queueName)
            (show_int (unix_milli (now + 60000000000)))) s')"

definition isDuplicate ::
  "('s, 'b) sqs_env \<Rightarrow> int \<Rightarrow> string \<Rightarrow> string \<Rightarrow> ('s, 'b) sqs_state \<Rightarrow> bool \<times> ('s, 'b) sqs_state"
where
  "isDuplicate E now queueName dedupID s =
     (case kv_call (\<lambda>kv. st_Get (env_store E) kv nsDedup (RegionKey (env_region E) (dedupKey queueName dedupID))) s of
        (Inl err, s') \<Rightarrow> (False, s')
      | (Inr (raw, found), s') \<Rightarrow>
          if \<not> found then (False, s')
          else (case Atoi raw of None \<Rightarrow> (False, s') | Some expiryMs \<Rightarrow> (unix_milli now < expiryMs, s')))"

definition recordDedup ::
  "('s, 'b) sqs_env \<Rightarrow> int \<Rightarrow> string \<Rightarrow> string \<Rightarrow> ('s, 'b) sqs_state \<Rightarrow> ('s, 'b) sqs_state"
where
  "recordDedup E now queueName dedupID s =
     snd (kv_call (\<lambda>kv. st_Set (env_store E) kv nsDedup (RegionKey (env_region E) (dedupKey queueName dedupID))
       (show_int (unix_milli (now + 300000000000)))) s)"

end
