(* ===== verification/Sqs_Handler.thy ===== *)
theory Sqs_Handler
  imports Sqs_Store
begin

text \<open>
  The message operations of SQS, \<^verbatim>\<open>handler_message.go\<close>, \<^verbatim>\<open>handler_dlq.go\<close>, \<^verbatim>\<open>batch.go\<close>,
  \<^verbatim>\<open>messageattrmd5.go\<close>, the helpers of \<^verbatim>\<open>handler.go\<close> and the internal receiver and enqueuer of
  \<^verbatim>\<open>service.go\<close> that Lambda's event source mappings and the fan-out services use.

  Requests are the decoded records.  A missing optional integer is \<open>None\<close>.  Long polling
  runs over a list of ticks: the instants at which the ticker fires before the deadline or
  the cancellation of the request, each with what other requests did to the service
  meanwhile.  Store calls run detached from the request's cancellation, so none of their
  errors is a context error.
\<close>

section \<open>Names and receipt handles\<close>

definition draw_uuid :: "('s, 'b) sqs_env \<Rightarrow> ('s, 'b) sqs_state \<Rightarrow> string \<times> ('s, 'b) sqs_state" where
  "draw_uuid E s = (env_uuid E (sq_uuid s), s\<lparr>sq_uuid := Suc (sq_uuid s)\<rparr>)"

definition queueURL :: "('s, 'b) sqs_env \<Rightarrow> string \<Rightarrow> string" where
  "queueURL E queueName = env_origin E @ ''/'' @ env_AccountID E @ ''/'' @ queueName"

definition canonicalQueueURL :: "('s, 'b) sqs_env \<Rightarrow> string \<Rightarrow> string" where
  "canonicalQueueURL E queueName = env_external E @ ''/'' @ env_AccountID E @ ''/'' @ queueName"

definition queueNameFromURL :: "string \<Rightarrow> string" where
  "queueNameFromURL url =
     (let parts = SplitN url CHR '':'' 6 in
      if HasPrefix url ''arn:'' \<and> length parts = 6 then parts ! 5
      else path_Base (TrimRight url CHR ''/''))"

definition receipt_payload :: "string \<Rightarrow> string \<Rightarrow> string \<Rightarrow> string" where
  "receipt_payload queueName messageID nonce = queueName @ CHR 0x0A # messageID @ CHR 0x0A # nonce"

definition encodeReceiptHandle ::
  "('s, 'b) sqs_env \<Rightarrow> string \<Rightarrow> string \<Rightarrow> ('s, 'b) sqs_state \<Rightarrow> string \<times> ('s, 'b) sqs_state"
where
  "encodeReceiptHandle E queueName messageID s =
     (let (nonce, s') = draw_uuid E s in (b64_encode (receipt_payload queueName messageID nonce), s'))"

definition decodeReceiptHandle :: "string \<Rightarrow> (string \<times> string) option" where
  "decodeReceiptHandle handle =
     (case b64_decode handle of
        None \<Rightarrow> None
      | Some b \<Rightarrow> (case SplitN b CHR 0x0A 3 of [q, m, n] \<Rightarrow> Some (q, m) | _ \<Rightarrow> None))"

definition isFifoQueue :: "Queue \<Rightarrow> bool" where
  "isFifoQueue q \<longleftrightarrow> map_str (q_Attributes q) ''FifoQueue'' = ''true''"

section \<open>Digests of message attributes\<close>

definition big_endian32 :: "nat \<Rightarrow> string" where
  "big_endian32 n = map char_of [n div 16777216 mod 256, n div 65536 mod 256, n div 256 mod 256, n mod 256]"

definition writeLengthPrefixed :: "string \<Rightarrow> string" where
  "writeLengthPrefixed b = big_endian32 (length b) @ b"

definition attribute_bytes :: "string \<times> MessageAttribute \<Rightarrow> string" where
  "attribute_bytes p =
     (let (name, attr) = p in
      writeLengthPrefixed name @ writeLengthPrefixed (ma_DataType attr)
      @ (if ma_BinaryValue attr \<noteq> [] then CHR 0x02 # writeLengthPrefixed (ma_BinaryValue attr)
         else CHR 0x01 # writeLengthPrefixed (ma_StringValue attr)))"

definition md5OfMessageAttributes :: "('s, 'b) sqs_env \<Rightarrow> MessageAttribute gomap \<Rightarrow> string" where
  "md5OfMessageAttributes E attrs = (if attrs = [] then [] else env_md5 E (concat (map attribute_bytes attrs)))"

section \<open>Batches\<close>

definition maxBatchEntries :: nat where
  "maxBatchEntries = 10"

fun first_repeated :: "string list \<Rightarrow> string list \<Rightarrow> string option" where
  "first_repeated seen [] = None"
| "first_repeated seen (i # is) = (if i \<in> set seen then Some i else first_repeated (i # seen) is)"

definition validateBatchEntries :: "string \<Rightarrow> 'e list \<Rightarrow> ('e \<Rightarrow> string) \<Rightarrow> AWSError option" where
  "validateBatchEntries entryName entries ident =
     (if entries = [] then
        Some (bad_request ''EmptyBatchRequest'' (''There should be at least one '' @ entryName @ '' in the request.''))
      else if maxBatchEntries < length entries then
        Some (bad_request ''TooManyEntriesInBatchRequest''
          (''Maximum number of entries per request are '' @ show_int (int maxBatchEntries) @ ''. You have sent ''
           @ show_int (int (length entries)) @ ''.''))
      else (case first_repeated [] (map ident entries) of
         Some i \<Rightarrow> Some (bad_request ''BatchEntryIdsNotDistinct'' (''Id '' @ i @ '' repeated.''))
       | None \<Rightarrow> None))"

section \<open>Sending\<close>

definition maxMessageBodyBytes :: int where
  "maxMessageBodyBytes = 1048576"

definition duration_seconds :: "int \<Rightarrow> int" where
  "duration_seconds n = wrap64 (n * 1000000000)"

text \<open>The system attributes of a message that has not been received.\<close>

definition fresh_attributes :: "('s, 'b) sqs_env \<Rightarrow> int \<Rightarrow> string gomap" where
  "fresh_attributes E now =
     [(''ApproximateFirstReceiveTimestamp'', ''0''), (''ApproximateReceiveCount'', ''0''),
      (''SenderId'', env_AccountID E), (''SentTimestamp'', show_int (unix_milli now))]"

text \<open>
  The message every sender builds: a new ID, then a receipt handle with its own nonce; the
  remaining fields are zero.
\<close>

definition new_message ::
  "('s, 'b) sqs_env \<Rightarrow> int \<Rightarrow> string \<Rightarrow> string \<Rightarrow> int \<Rightarrow> string gomap \<Rightarrow> MessageAttribute gomap \<Rightarrow> ('s, 'b) sqs_state
    \<Rightarrow> Message \<times> ('s, 'b) sqs_state"
where
  "new_message E now queueName body visibleAfter attrs messageAttrs s =
     (let (msgID, s1) = draw_uuid E s; (handle, s2) = encodeReceiptHandle E queueName msgID s1 in
      (\<lparr>msg_MessageID = msgID, msg_ReceiptHandle = handle, msg_Body = body, msg_Attributes = attrs,
        msg_MessageAttributes = messageAttrs, msg_MD5OfBody = env_md5 E body, msg_SentTimestamp = unix_milli now,
        msg_ApproximateReceiveCount = 0, msg_VisibleAfter = visibleAfter, msg_MessageGroupId = [],
        msg_MessageDeduplicationId = [], msg_SequenceNumber = [], msg_VisibilityVersion = 0\<rparr>, s2))"

definition recordMessageSent :: "string \<Rightarrow> nat \<Rightarrow> sqs_out list" where
  "recordMessageSent queueName bodyBytes =
     [Metric ''NumberOfMessagesSent'' queueName 1, Metric ''SentMessageSize'' queueName (int bodyBytes)]"

definition recordMessagesReceived :: "string \<Rightarrow> nat \<Rightarrow> sqs_out list" where
  "recordMessagesReceived queueName n =
     [if n = 0 then Metric ''NumberOfEmptyReceives'' queueName 1
      else Metric ''NumberOfMessagesReceived'' queueName (int n)]"

definition recordMessageDeleted :: "string \<Rightarrow> sqs_out list" where
  "recordMessageDeleted queueName = [Metric ''NumberOfMessagesDeleted'' queueName 1]"

record sendMessageRequest =
  sm_QueueUrl :: string
  sm_MessageBody :: string
  sm_DelaySeconds :: int
  sm_MessageAttributes :: "MessageAttribute gomap"
  sm_MessageDeduplicationId :: string
  sm_MessageGroupId :: string

record sendMessageResponse =
  sr_MessageId :: string
  sr_MD5OfMessageBody :: string
  sr_MD5OfMessageAttributes :: string
  sr_SequenceNumber :: string

definition invalid_delay :: "string \<Rightarrow> AWSError" where
  "invalid_delay reason =
     bad_request ''InvalidParameterValue'' (''Value for parameter DelaySeconds is invalid. Reason: '' @ reason)"

text \<open>The checks that come before the queue is looked up.\<close>

definition check_send :: "sendMessageRequest \<Rightarrow> AWSError option" where
  "check_send inp =
     (if sm_QueueUrl inp = [] then Some (ErrMissingParameter ''QueueUrl'')
      else if sm_MessageBody inp = [] then Some (ErrMissingParameter ''MessageBody'')
      else if maxMessageBodyBytes < int (length (sm_MessageBody inp)) then
        Some (bad_request ''InvalidParameterValue''
          ''Value for parameter MessageBody is invalid. Reason: Message body must be no larger than 1048576 bytes.'')
      else if sm_DelaySeconds inp < 0 \<or> 900 < sm_DelaySeconds inp then
        Some (invalid_delay ''DelaySeconds must be between 0 and 900, inclusive.'')
      else None)"

definition dedup_id :: "('s, 'b) sqs_env \<Rightarrow> Queue \<Rightarrow> sendMessageRequest \<Rightarrow> string" where
  "dedup_id E q inp =
     (if sm_MessageDeduplicationId inp = [] \<and> map_str (q_Attributes q) ''ContentBasedDeduplication'' = ''true''
      then env_md5 E (sm_MessageBody inp) else sm_MessageDeduplicationId inp)"

definition send_response :: "('s, 'b) sqs_env \<Rightarrow> sendMessageRequest \<Rightarrow> string \<Rightarrow> string \<Rightarrow> sendMessageResponse" where
  "send_response E inp msgID seqNum =
     \<lparr>sr_MessageId = msgID, sr_MD5OfMessageBody = env_md5 E (sm_MessageBody inp),
      sr_MD5OfMessageAttributes = md5OfMessageAttributes E (sm_MessageAttributes inp), sr_SequenceNumber = seqNum\<rparr>"

text \<open>Storing an accepted message, with its FIFO fields when the queue has an order.\<close>

definition store_sent ::
  "('s, 'b) sqs_env \<Rightarrow> int \<Rightarrow> string \<Rightarrow> bool \<Rightarrow> string \<Rightarrow> sendMessageRequest \<Rightarrow> ('s, 'b) sqs_state
    \<Rightarrow> sendMessageResponse aws \<times> ('s, 'b) sqs_state"
where
  "store_sent E now queueName fifo dedupID inp s =
     (let (msg0, s1) = new_message E now queueName (sm_MessageBody inp)
            (if 0 < sm_DelaySeconds inp then now + duration_seconds (sm_DelaySeconds inp) else now)
            (fresh_attributes E now) (sm_MessageAttributes inp) s;
          msg1 = msg0\<lparr>msg_MessageGroupId := sm_MessageGroupId inp, msg_MessageDeduplicationId := dedupID\<rparr>;
          seq = wrap64 (sq_seq s1 + 1);
          seqNum = (if fifo then show_int seq else []);
          msg = (if fifo then msg1\<lparr>msg_SequenceNumber := seqNum,
                   msg_Attributes := map_put ''SequenceNumber'' seqNum (map_put ''MessageDeduplicationId'' dedupID
                     (map_put ''MessageGroupId'' (sm_MessageGroupId inp) (msg_Attributes msg1)))\<rparr>
                 else msg1);
          s2 = (if fifo then s1\<lparr>sq_seq := seq\<rparr> else s1)
      in case putMessage E queueName msg s2 of
           (Inl err, s3) \<Rightarrow> (Inl err, s3)
         | (Inr _, s3) \<Rightarrow>
             (Inr (send_response E inp (msg_MessageID msg) seqNum),
              emit (SQSMessageSent queueName (msg_MessageID msg)
                    # recordMessageSent queueName (length (sm_MessageBody inp))) s3))"

definition sendMessageTyped ::
  "('s, 'b) sqs_env \<Rightarrow> int \<Rightarrow> sendMessageRequest \<Rightarrow> ('s, 'b) sqs_state \<Rightarrow> sendMessageResponse aws \<times> ('s, 'b) sqs_state"
where
  "sendMessageTyped E now inp s =
     (case check_send inp of
        Some err \<Rightarrow> (Inl err, s)
      | None \<Rightarrow>
          (let queueName = queueNameFromURL (sm_QueueUrl inp) in
           case getQueue E queueName s of
             (Inl err, s1) \<Rightarrow> (Inl err, s1)
           | (Inr q, s1) \<Rightarrow>
               if \<not> isFifoQueue q then store_sent E now queueName False [] inp s1
               else if sm_MessageGroupId inp = [] then (Inl (ErrMissingParameter ''MessageGroupId''), s1)
               else if 0 < sm_DelaySeconds inp
               then (Inl (invalid_delay ''DelaySeconds cannot be set on FIFO queues.''), s1)
               else if dedup_id E q inp = [] then
                 (Inl (bad_request ''InvalidParameterValue''
                   ''The queue should either have ContentBasedDeduplication enabled or MessageDeduplicationId provided explicitly.''), s1)
               else (case isDuplicate E now queueName (dedup_id E q inp) s1 of
                  (True, s2) \<Rightarrow> (let (msgID, s3) = draw_uuid E s2 in (Inr (send_response E inp msgID []), s3))
                | (False, s2) \<Rightarrow>
                    store_sent E now queueName True (dedup_id E q inp) inp
                      (recordDedup E now queueName (dedup_id E q inp) s2))))"

record sendMessageBatchRequestEntry =
  sb_Id :: string
  sb_MessageBody :: string
  sb_DelaySeconds :: int
  sb_MessageAttributes :: "MessageAttribute gomap"

record sendMessageBatchResultEntry =
  br_Id :: string
  br_MessageId :: string
  br_MD5OfMessageBody :: string
  br_MD5OfMessageAttributes :: string

fun send_entries ::
  "('s, 'b) sqs_env \<Rightarrow> int \<Rightarrow> string \<Rightarrow> sendMessageBatchRequestEntry list \<Rightarrow> ('s, 'b) sqs_state
    \<Rightarrow> sendMessageBatchResultEntry list \<times> ('s, 'b) sqs_state"
where
  "send_entries E now queueName [] s = ([], s)"
| "send_entries E now queueName (entry # entries) s =
     (let (msg, s1) = new_message E now queueName (sb_MessageBody entry) (now + duration_seconds (sb_DelaySeconds entry))
            [(''ApproximateReceiveCount'', ''0'')] (sb_MessageAttributes entry) s;
          s2 = snd (putMessage E queueName msg s1);
          s3 = emit (SQSMessageSent queueName (msg_MessageID msg)
                     # recordMessageSent queueName (length (sb_MessageBody entry))) s2;
          (rest, s4) = send_entries E now queueName entries s3
      in (\<lparr>br_Id = sb_Id entry, br_MessageId = msg_MessageID msg, br_MD5OfMessageBody = msg_MD5OfBody msg,
           br_MD5OfMessageAttributes = md5OfMessageAttributes E (sb_MessageAttributes entry)\<rparr> # rest, s4))"

definition sendMessageBatchTyped ::
  "('s, 'b) sqs_env \<Rightarrow> int \<Rightarrow> string \<Rightarrow> sendMessageBatchRequestEntry list \<Rightarrow> ('s, 'b) sqs_state
    \<Rightarrow> sendMessageBatchResultEntry list aws \<times> ('s, 'b) sqs_state"
where
  "sendMessageBatchTyped E now queueUrl entries s =
     (case validateBatchEntries ''SendMessageBatchRequestEntry'' entries sb_Id of
        Some err \<Rightarrow> (Inl err, s)
      | None \<Rightarrow>
          (let queueName = queueNameFromURL queueUrl in
           case getQueue E queueName s of
             (Inl err, s1) \<Rightarrow> (Inl err, s1)
           | (Inr _, s1) \<Rightarrow> apfst Inr (send_entries E now queueName entries s1)))"

text \<open>\<open>EnqueueRaw\<close>, the delivery path of the other services.\<close>

definition EnqueueRaw ::
  "('s, 'b) sqs_env \<Rightarrow> int \<Rightarrow> string \<Rightarrow> string \<Rightarrow> ('s, 'b) sqs_state \<Rightarrow> unit aws \<times> ('s, 'b) sqs_state"
where
  "EnqueueRaw E now queueName body s =
     (let (msg, s1) = new_message E now queueName body now (fresh_attributes E now) [] s
      in putMessage E queueName msg s1)"

section \<open>Redrive policies and dead-letter queues\<close>

record redrivePolicy =
  rp_DeadLetterTargetArn :: string
  rp_MaxReceiveCount :: int

text \<open>
  \<open>UnmarshalJSON\<close>: the count may be a JSON integer or a string holding one; the last member
  of a name counts, \<^verbatim>\<open>null\<close> is zero.
\<close>

definition read_redrive_member :: "string \<Rightarrow> json \<Rightarrow> string \<times> json option \<Rightarrow> (string \<times> json option) option" where
  "read_redrive_member name v a =
     (if EqualFold name ''deadLetterTargetArn'' then map_option (\<lambda>x. (x, snd a)) (read_string v (fst a))
      else if EqualFold name ''maxReceiveCount'' then Some (fst a, Some v)
      else Some a)"

definition receive_count :: "json option \<Rightarrow> int option" where
  "receive_count v =
     (case v of
        None \<Rightarrow> Some 0
      | Some JNull \<Rightarrow> Some 0
      | Some (JNum l) \<Rightarrow> Atoi l
      | Some (JStr s) \<Rightarrow> Atoi s
      | Some _ \<Rightarrow> None)"

definition unmarshal_redrivePolicy :: "string \<Rightarrow> redrivePolicy option" where
  "unmarshal_redrivePolicy data =
     (case json_parse data of
        None \<Rightarrow> None
      | Some v \<Rightarrow>
          (case read_struct read_redrive_member v ([], None) of
             None \<Rightarrow> None
           | Some (arn, cnt) \<Rightarrow>
               map_option (\<lambda>n. \<lparr>rp_DeadLetterTargetArn = arn, rp_MaxReceiveCount = n\<rparr>) (receive_count cnt)))"

text \<open>\<open>parseRedrivePolicy\<close>: \<open>Inr None\<close> for Go's two nils, \<open>Inl\<close> for an error.\<close>

definition parseRedrivePolicy :: "string gomap \<Rightarrow> unit + redrivePolicy option" where
  "parseRedrivePolicy attrs =
     (case map_of attrs ''RedrivePolicy'' of
        None \<Rightarrow> Inr None
      | Some raw \<Rightarrow>
          if raw = [] then Inr None
          else (case unmarshal_redrivePolicy raw of None \<Rightarrow> Inl () | Some rp \<Rightarrow> Inr (Some rp)))"

definition redrive_or_nil :: "string gomap \<Rightarrow> redrivePolicy option" where
  "redrive_or_nil attrs = (case parseRedrivePolicy attrs of Inl _ \<Rightarrow> None | Inr rp \<Rightarrow> rp)"

definition queueNameFromARN :: "string \<Rightarrow> string" where
  "queueNameFromARN arn = after_last CHR '':'' arn"

definition moveToDLQ ::
  "('s, 'b) sqs_env \<Rightarrow> int \<Rightarrow> string \<Rightarrow> Queue \<Rightarrow> redrivePolicy \<Rightarrow> Message \<Rightarrow> ('s, 'b) sqs_state
    \<Rightarrow> unit aws \<times> ('s, 'b) sqs_state"
where
  "moveToDLQ E now srcQueueName srcQueue rp msg s =
     (let dlqName = queueNameFromARN (rp_DeadLetterTargetArn rp);
          (dlqMsg, s1) = new_message E now dlqName (msg_Body msg) now
            (map_put ''DeadLetterSourceQueueArn'' (q_ARN srcQueue) (fresh_attributes E now)) (msg_MessageAttributes msg) s
      in case putMessage E dlqName dlqMsg s1 of
           (Inl err, s2) \<Rightarrow> (Inl err, s2)
         | (Inr _, s2) \<Rightarrow>
             (case deleteMessage E srcQueueName (msg_MessageID msg) s2 of
                (Inl err, s3) \<Rightarrow> (Inl err, s3)
              | (Inr _, s3) \<Rightarrow> (Inr (), emit [SQSMessageDLQ srcQueueName dlqName (msg_MessageID dlqMsg)] s3)))"

section \<open>Receiving\<close>

record receivedMessage =
  rm_MessageId :: string
  rm_ReceiptHandle :: string
  rm_MD5OfBody :: string
  rm_Body :: string
  rm_Attributes :: "string gomap"
  rm_MessageAttributes :: "MessageAttribute gomap"
  rm_visibilityVersion :: int

definition containsAllSelector :: "string list \<Rightarrow> bool" where
  "containsAllSelector requested \<longleftrightarrow> list_ex (\<lambda>name. name = ''All'' \<or> name = ''.*'') requested"

definition select_name :: "'v gomap \<Rightarrow> string \<Rightarrow> 'v gomap \<Rightarrow> 'v gomap" where
  "select_name attrs name out = (case map_of attrs name of None \<Rightarrow> out | Some v \<Rightarrow> map_put name v out)"

definition filterSystemAttributes :: "string gomap \<Rightarrow> string list \<Rightarrow> string gomap" where
  "filterSystemAttributes attrs requested =
     (if attrs = [] \<or> requested = [] then []
      else if containsAllSelector requested then attrs
      else fold (select_name attrs) requested [])"

definition select_attributes :: "'v gomap \<Rightarrow> string \<Rightarrow> 'v gomap \<Rightarrow> 'v gomap" where
  "select_attributes attrs sel out =
     (if HasSuffix sel ''.*''
      then map_copy (filter (\<lambda>(name, _). HasPrefix name (TrimSuffix sel ''*'')) attrs) out
      else select_name attrs sel out)"

definition filterMessageAttributes :: "MessageAttribute gomap \<Rightarrow> string list \<Rightarrow> MessageAttribute gomap" where
  "filterMessageAttributes attrs requested =
     (if attrs = [] \<or> requested = [] then []
      else if containsAllSelector requested then attrs
      else fold (select_attributes attrs) requested [])"

definition receivedMessageFromStored :: "Message \<Rightarrow> string list \<Rightarrow> string list \<Rightarrow> receivedMessage" where
  "receivedMessageFromStored msg systemAttrNames messageAttrNames =
     \<lparr>rm_MessageId = msg_MessageID msg, rm_ReceiptHandle = msg_ReceiptHandle msg, rm_MD5OfBody = msg_MD5OfBody msg,
      rm_Body = msg_Body msg, rm_Attributes = filterSystemAttributes (msg_Attributes msg) systemAttrNames,
      rm_MessageAttributes = filterMessageAttributes (msg_MessageAttributes msg) messageAttrNames,
      rm_visibilityVersion = msg_VisibilityVersion msg\<rparr>"

definition maxCandidateFetchLimit :: int where
  "maxCandidateFetchLimit = 5000"

definition candidateFetchLimit :: "int \<Rightarrow> bool \<Rightarrow> int" where
  "candidateFetchLimit maxMessages fifo =
     (if fifo then (if 100 < maxMessages * 20 then maxMessages * 20 else 100) else maxMessages * 4)"

text \<open>The receipt of one message: a fresh handle, invisibility, the count and its attributes.\<close>

definition mark_received :: "int \<Rightarrow> int \<Rightarrow> string \<Rightarrow> Message \<Rightarrow> Message" where
  "mark_received now visibilityTimeout handle msg =
     (let n = msg_ApproximateReceiveCount msg + 1;
          attrs = map_put ''ApproximateReceiveCount'' (show_int n) (msg_Attributes msg)
      in msg\<lparr>msg_ReceiptHandle := handle, msg_VisibleAfter := now + duration_seconds visibilityTimeout,
             msg_ApproximateReceiveCount := n,
             msg_Attributes :=
               (if n = 1 then map_put ''ApproximateFirstReceiveTimestamp'' (show_int (unix_milli now)) attrs else attrs)\<rparr>)"

text \<open>
  What stays fixed over one call of \<open>selectVisibleMessages\<close>: the queue, its redrive policy,
  the groups blocked when the call started, and the request's parameters.
\<close>

record select_args =
  sa_queueName :: string
  sa_queue :: Queue
  sa_rp :: "redrivePolicy option"
  sa_fifo :: bool
  sa_blocked :: "string list"
  sa_maxMessages :: int
  sa_visibilityTimeout :: int
  sa_systemAttrNames :: "string list"
  sa_messageAttrNames :: "string list"

text \<open>
  The loop over the candidates of one round.  It carries the messages received so far and
  the IDs delivered by this call.
\<close>

fun deliver ::
  "('s, 'b) sqs_env \<Rightarrow> int \<Rightarrow> select_args \<Rightarrow> Message list \<Rightarrow> receivedMessage list \<times> string list
    \<Rightarrow> ('s, 'b) sqs_state \<Rightarrow> (receivedMessage list \<times> string list) aws \<times> ('s, 'b) sqs_state"
where
  "deliver E now a [] (received, delivered) s = (Inr (received, delivered), s)"
| "deliver E now a (msg0 # msgs) (received, delivered) s =
     (if sa_maxMessages a \<le> int (length received) then (Inr (received, delivered), s)
      else if sa_fifo a \<and> msg_MessageGroupId msg0 \<noteq> [] \<and> msg_MessageGroupId msg0 \<in> set (sa_blocked a)
      then deliver E now a msgs (received, delivered) s
      else if msg_MessageID msg0 \<in> set delivered then deliver E now a msgs (received, delivered) s
      else
        (let (handle, s1) = encodeReceiptHandle E (sa_queueName a) (msg_MessageID msg0) s;
             msg = mark_received now (sa_visibilityTimeout a) handle msg0
         in case (case sa_rp a of
                    None \<Rightarrow> None
                  | Some rp \<Rightarrow> if rp_MaxReceiveCount rp < msg_ApproximateReceiveCount msg then Some rp else None) of
              Some rp \<Rightarrow>
                (case moveToDLQ E now (sa_queueName a) (sa_queue a) rp msg s1 of
                   (Inl err, s2) \<Rightarrow> (Inl err, s2)
                 | (Inr _, s2) \<Rightarrow> deliver E now a msgs (received, delivered) s2)
            | None \<Rightarrow>
                (case putMessage E (sa_queueName a) msg s1 of
                   (Inl err, s2) \<Rightarrow> (Inl err, s2)
                 | (Inr _, s2) \<Rightarrow>
                     deliver E now a msgs
                       (received @ [receivedMessageFromStored msg (sa_systemAttrNames a) (sa_messageAttrNames a)],
                        msg_MessageID msg # delivered)
                       (emit [SQSMessageInflight (sa_queueName a) (msg_MessageID msg)
                          (unix_milli (msg_VisibleAfter msg)) (msg_ApproximateReceiveCount msg)] s2))))"

text \<open>
  The rounds, with the fetch limit doubling.  The limit is positive for every number of
  messages the request may ask for; the test on it lets the recursion end for others too.
\<close>

function select_rounds ::
  "('s, 'b) sqs_env \<Rightarrow> int \<Rightarrow> select_args \<Rightarrow> int \<Rightarrow> receivedMessage list \<times> string list
    \<Rightarrow> ('s, 'b) sqs_state \<Rightarrow> receivedMessage list aws \<times> ('s, 'b) sqs_state"
where
  "select_rounds E now a limit (received, delivered) s =
     (case receiveCandidates E (sa_queueName a) now limit (sa_fifo a) s of
        Inl err \<Rightarrow> (Inl err, s)
      | Inr candidates \<Rightarrow>
          (case deliver E now a candidates (received, delivered) s of
             (Inl err, s') \<Rightarrow> (Inl err, s')
           | (Inr (received', delivered'), s') \<Rightarrow>
               if sa_maxMessages a \<le> int (length received') then (Inr received', s')
               else if int (length candidates) < limit then (Inr received', s')
               else if maxCandidateFetchLimit \<le> limit \<or> limit \<le> 0 then (Inr received', s')
               else select_rounds E now a (limit * 2) (received', delivered') s'))"
  by pat_completeness auto
termination
  by (relation "measure (\<lambda>(E, now, a, limit, acc, s). nat (maxCandidateFetchLimit - limit))")
    (auto simp: maxCandidateFetchLimit_def)

declare select_rounds.simps [simp del]

definition selectVisibleMessages ::
  "('s, 'b) sqs_env \<Rightarrow> int \<Rightarrow> string \<Rightarrow> Queue \<Rightarrow> int \<Rightarrow> int \<Rightarrow> string list \<Rightarrow> string list \<Rightarrow> ('s, 'b) sqs_state
    \<Rightarrow> receivedMessage list aws \<times> ('s, 'b) sqs_state"
where
  "selectVisibleMessages E now queueName q maxMessages visibilityTimeout systemAttrNames messageAttrNames s =
     (let fifo = isFifoQueue q in
      case (if fifo then blockedGroups E queueName now s else Inr []) of
        Inl err \<Rightarrow> (Inl err, s)
      | Inr blocked \<Rightarrow>
          select_rounds E now
            \<lparr>sa_queueName = queueName, sa_queue = q, sa_rp = redrive_or_nil (q_Attributes q), sa_fifo = fifo,
             sa_blocked = blocked, sa_maxMessages = maxMessages, sa_visibilityTimeout = visibilityTimeout,
             sa_systemAttrNames = systemAttrNames, sa_messageAttrNames = messageAttrNames\<rparr>
            (candidateFetchLimit maxMessages fifo) ([], []) s)"

record receiveMessageRequest =
  rq_QueueUrl :: string
  rq_MaxNumberOfMessages :: "int option"
  rq_VisibilityTimeout :: "int option"
  rq_WaitTimeSeconds :: "int option"
  rq_ReceiveRequestAttemptId :: string
  rq_AttributeNames :: "string list"
  rq_MessageSystemAttributeNames :: "string list"
  rq_MessageAttributeNames :: "string list"

definition invalidSQSParameterValue :: "string \<Rightarrow> int \<Rightarrow> string \<Rightarrow> AWSError" where
  "invalidSQSParameterValue name v validRange =
     bad_request ''InvalidParameterValue''
       (''Invalid value for parameter '' @ name @ '': '' @ show_int v @ ''. Valid values are '' @ validRange @ ''.'')"

definition receiveMaxNumberOfMessages :: "int option \<Rightarrow> int aws" where
  "receiveMaxNumberOfMessages v =
     (case v of
        None \<Rightarrow> Inr 1
      | Some n \<Rightarrow> if n < 1 \<or> 10 < n then Inl (invalidSQSParameterValue ''MaxNumberOfMessages'' n ''1 to 10'') else Inr n)"

definition ParseIntDefault :: "string \<Rightarrow> int \<Rightarrow> int" where
  "ParseIntDefault s d = (if s = [] then d else case Atoi s of None \<Rightarrow> d | Some n \<Rightarrow> n)"

definition receiveWaitTimeSeconds :: "int option \<Rightarrow> Queue \<Rightarrow> int aws" where
  "receiveWaitTimeSeconds v q =
     (case v of
        None \<Rightarrow> Inr (ParseIntDefault (map_str (q_Attributes q) ''ReceiveMessageWaitTimeSeconds'') 0)
      | Some n \<Rightarrow> if n < 0 \<or> 20 < n then Inl (invalidSQSParameterValue ''WaitTimeSeconds'' n ''0 to 20'') else Inr n)"

definition validateVisibilityTimeout :: "string \<Rightarrow> int \<Rightarrow> AWSError option" where
  "validateVisibilityTimeout name n =
     (if n < 0 \<or> 43200 < n then Some (invalidSQSParameterValue name n ''0 to 43200'') else None)"

definition receiveVisibilityTimeout :: "int option \<Rightarrow> Queue \<Rightarrow> int aws" where
  "receiveVisibilityTimeout v q =
     (case v of
        None \<Rightarrow> Inr (ParseIntDefault (map_str (q_Attributes q) ''VisibilityTimeout'') 30)
      | Some n \<Rightarrow> (case validateVisibilityTimeout ''VisibilityTimeout'' n of Some err \<Rightarrow> Inl err | None \<Rightarrow> Inr n))"

text \<open>
  The loop over the runes of the attempt ID refuses everything outside printable ASCII; a
  byte above 127 belongs to a rune above 127 or decodes to U+FFFD.
\<close>

definition validateReceiveRequestAttemptID :: "string \<Rightarrow> AWSError option" where
  "validateReceiveRequestAttemptID attemptID =
     (if attemptID = [] then None
      else if 128 < length attemptID \<or> list_ex (\<lambda>c. c < CHR ''!'' \<or> CHR ''~'' < c) attemptID
      then Some (bad_request ''InvalidParameterValue''
        ''Invalid value for parameter ReceiveRequestAttemptId. Must be 1 to 128 printable ASCII characters without spaces.'')
      else None)"

definition requestedSystemAttributeNames :: "receiveMessageRequest \<Rightarrow> string list" where
  "requestedSystemAttributeNames inp =
     (if rq_AttributeNames inp = [] then rq_MessageSystemAttributeNames inp
      else if rq_MessageSystemAttributeNames inp = [] then rq_AttributeNames inp
      else rq_AttributeNames inp @ rq_MessageSystemAttributeNames inp)"

definition newReceiveAttempt :: "int \<Rightarrow> receivedMessage list \<Rightarrow> receiveAttempt" where
  "newReceiveAttempt now received =
     \<lparr>ra_ExpiresAtUnixMilli = unix_milli (now + 300000000000),
      ra_Messages = map (\<lambda>m. \<lparr>ram_MessageID = rm_MessageId m, ram_ReceiptHandle = rm_ReceiptHandle m,
        ram_VisibilityVersion = rm_visibilityVersion m\<rparr>) received\<rparr>"

fun replay_messages ::
  "('s, 'b) sqs_env \<Rightarrow> int \<Rightarrow> string \<Rightarrow> int \<Rightarrow> string list \<Rightarrow> string list \<Rightarrow> receiveAttemptMessage list
    \<Rightarrow> receivedMessage list \<Rightarrow> ('s, 'b) sqs_state \<Rightarrow> receivedMessage list aws \<times> ('s, 'b) sqs_state"
where
  "replay_messages E now queueName vt sysNames attrNames [] received s = (Inr received, s)"
| "replay_messages E now queueName vt sysNames attrNames (attempted # rest) received s =
     (case getMessage E queueName (ram_MessageID attempted) s of
        Inl _ \<Rightarrow> (Inr [], s)
      | Inr msg \<Rightarrow>
          if msg_ReceiptHandle msg \<noteq> ram_ReceiptHandle attempted
             \<or> msg_VisibilityVersion msg \<noteq> ram_VisibilityVersion attempted
          then (Inr [], s)
          else
            (let msg' = msg\<lparr>msg_VisibleAfter := now + duration_seconds vt\<rparr> in
             case putMessage E queueName msg' s of
               (Inl err, s') \<Rightarrow> (Inl err, s')
             | (Inr _, s') \<Rightarrow>
                 replay_messages E now queueName vt sysNames attrNames rest
                   (received @ [receivedMessageFromStored msg' sysNames attrNames]) s'))"

text \<open>\<open>Inr None\<close> when there is no attempt to replay.\<close>

definition replayReceiveAttempt ::
  "('s, 'b) sqs_env \<Rightarrow> int \<Rightarrow> string \<Rightarrow> string \<Rightarrow> int \<Rightarrow> string list \<Rightarrow> string list \<Rightarrow> ('s, 'b) sqs_state
    \<Rightarrow> receivedMessage list option aws \<times> ('s, 'b) sqs_state"
where
  "replayReceiveAttempt E now queueName attemptID vt sysNames attrNames s =
     (case getReceiveAttempt E now queueName attemptID s of
        (Inl err, s') \<Rightarrow> (Inl err, s')
      | (Inr None, s') \<Rightarrow> (Inr None, s')
      | (Inr (Some attempt), s') \<Rightarrow>
          apfst (map_sum id Some)
            (replay_messages E now queueName vt sysNames attrNames (ra_Messages attempt) [] s'))"

type_synonym ('s, 'b) tick = "int \<times> (('s, 'b) sqs_state \<Rightarrow> ('s, 'b) sqs_state)"

text \<open>The result comes with the instant it was obtained at.\<close>

fun poll ::
  "('s, 'b) sqs_env \<Rightarrow> (int \<Rightarrow> ('s, 'b) sqs_state \<Rightarrow> receivedMessage list aws \<times> ('s, 'b) sqs_state)
    \<Rightarrow> int \<Rightarrow> ('s, 'b) tick list \<Rightarrow> ('s, 'b) sqs_state \<Rightarrow> (receivedMessage list \<times> int) aws \<times> ('s, 'b) sqs_state"
where
  "poll E select t [] s = (Inr ([], t), s)"
| "poll E select t ((now, others) # ticks) s =
     (case select now (others s) of
        (Inl err, s') \<Rightarrow> (Inl err, s')
      | (Inr received, s') \<Rightarrow> if received \<noteq> [] then (Inr (received, now), s') else poll E select now ticks s')"

text \<open>The receive itself, after the request has been checked.\<close>

definition receive_checked ::
  "('s, 'b) sqs_env \<Rightarrow> int \<Rightarrow> ('s, 'b) tick list \<Rightarrow> string \<Rightarrow> Queue \<Rightarrow> int \<Rightarrow> int \<Rightarrow> int \<Rightarrow> receiveMessageRequest
    \<Rightarrow> ('s, 'b) sqs_state \<Rightarrow> receivedMessage list aws \<times> ('s, 'b) sqs_state"
where
  "receive_checked E now ticks queueName q maxMessages wait vt inp s =
     (let sysNames = requestedSystemAttributeNames inp; attrNames = rq_MessageAttributeNames inp;
          attemptID = rq_ReceiveRequestAttemptId inp;
          fifo = isFifoQueue q;
          select = (\<lambda>t. selectVisibleMessages E t queueName q maxMessages vt sysNames attrNames)
      in case (if fifo \<and> attemptID \<noteq> [] then replayReceiveAttempt E now queueName attemptID vt sysNames attrNames s
               else (Inr None, s)) of
           (Inl err, s1) \<Rightarrow> (Inl err, s1)
         | (Inr (Some received), s1) \<Rightarrow>
             (Inr received, emit (recordMessagesReceived queueName (length received)) s1)
         | (Inr None, s1) \<Rightarrow>
             (case (case select now s1 of
                      (Inl err, s2) \<Rightarrow> (Inl err, s2)
                    | (Inr received, s2) \<Rightarrow>
                        if received = [] \<and> 0 < wait then poll E select now ticks s2 else (Inr (received, now), s2)) of
                (Inl err, s2) \<Rightarrow> (Inl err, s2)
              | (Inr (received, t), s2) \<Rightarrow>
                  (case (if fifo \<and> attemptID \<noteq> [] \<and> received \<noteq> []
                         then putReceiveAttempt E queueName attemptID (newReceiveAttempt t received) s2
                         else (Inr (), s2)) of
                     (Inl err, s3) \<Rightarrow> (Inl err, s3)
                   | (Inr _, s3) \<Rightarrow>
                       (Inr received, emit (recordMessagesReceived queueName (length received)) s3))))"

definition receiveMessageTyped ::
  "('s, 'b) sqs_env \<Rightarrow> int \<Rightarrow> ('s, 'b) tick list \<Rightarrow> receiveMessageRequest \<Rightarrow> ('s, 'b) sqs_state
    \<Rightarrow> receivedMessage list aws \<times> ('s, 'b) sqs_state"
where
  "receiveMessageTyped E now ticks inp s =
     (let queueName = queueNameFromURL (rq_QueueUrl inp) in
      case getQueue E queueName s of
        (Inl err, s1) \<Rightarrow> (Inl err, s1)
      | (Inr q, s1) \<Rightarrow>
          (case receiveMaxNumberOfMessages (rq_MaxNumberOfMessages inp) of
             Inl err \<Rightarrow> (Inl err, s1)
           | Inr maxMessages \<Rightarrow>
               (case receiveWaitTimeSeconds (rq_WaitTimeSeconds inp) q of
                  Inl err \<Rightarrow> (Inl err, s1)
                | Inr wait \<Rightarrow>
                    (case validateReceiveRequestAttemptID (rq_ReceiveRequestAttemptId inp) of
                       Some err \<Rightarrow> (Inl err, s1)
                     | None \<Rightarrow>
                         (case receiveVisibilityTimeout (rq_VisibilityTimeout inp) q of
                            Inl err \<Rightarrow> (Inl err, s1)
                          | Inr vt \<Rightarrow> receive_checked E now ticks queueName q maxMessages wait vt inp s1)))))"

section \<open>Deleting and changing visibility\<close>

definition errSuperseded :: AWSError where
  "errSuperseded = bad_request ''ReceiptHandleIsInvalid'' ''The receipt handle has expired or been superseded.''"

text \<open>The message a receipt handle stands for, if the handle is its current one.\<close>

definition handle_message ::
  "('s, 'b) sqs_env \<Rightarrow> string \<Rightarrow> string \<Rightarrow> ('s, 'b) sqs_state \<Rightarrow> Message aws"
where
  "handle_message E queueName handle s =
     (case decodeReceiptHandle handle of
        None \<Rightarrow> Inl errReceiptHandle
      | Some (_, messageID) \<Rightarrow>
          (case getMessage E queueName messageID s of
             Inl err \<Rightarrow> Inl err
           | Inr msg \<Rightarrow> if msg_ReceiptHandle msg \<noteq> handle then Inl errSuperseded else Inr msg))"

definition deleteMessageTyped ::
  "('s, 'b) sqs_env \<Rightarrow> string \<Rightarrow> string \<Rightarrow> ('s, 'b) sqs_state \<Rightarrow> unit aws \<times> ('s, 'b) sqs_state"
where
  "deleteMessageTyped E queueUrl handle s =
     (let queueName = queueNameFromURL queueUrl in
      case handle_message E queueName handle s of
        Inl err \<Rightarrow> (Inl err, s)
      | Inr msg \<Rightarrow>
          (let messageID = snd (the (decodeReceiptHandle handle)) in
           case deleteMessage E queueName messageID s of
             (Inl err, s') \<Rightarrow> (Inl err, s')
           | (Inr _, s') \<Rightarrow>
               (Inr (), emit (SQSMessageDeleted queueName messageID # recordMessageDeleted queueName) s')))"

definition change_visibility :: "int \<Rightarrow> int \<Rightarrow> Message \<Rightarrow> Message" where
  "change_visibility now vt msg =
     msg\<lparr>msg_VisibleAfter := now + duration_seconds vt, msg_VisibilityVersion := msg_VisibilityVersion msg + 1\<rparr>"

definition changeMessageVisibilityTyped ::
  "('s, 'b) sqs_env \<Rightarrow> int \<Rightarrow> string \<Rightarrow> string \<Rightarrow> int \<Rightarrow> ('s, 'b) sqs_state \<Rightarrow> unit aws \<times> ('s, 'b) sqs_state"
where
  "changeMessageVisibilityTyped E now queueUrl handle vt s =
     (case validateVisibilityTimeout ''VisibilityTimeout'' vt of
        Some err \<Rightarrow> (Inl err, s)
      | None \<Rightarrow>
          (case handle_message E (queueNameFromURL queueUrl) handle s of
             Inl err \<Rightarrow> (Inl err, s)
           | Inr msg \<Rightarrow> putMessage E (queueNameFromURL queueUrl) (change_visibility now vt msg) s))"

text \<open>Per-entry results of a batch: the ID alone, or the ID with the error's code and text.\<close>

datatype batch_result = BatchOk string | BatchFailed string string string bool

fun delete_entries ::
  "('s, 'b) sqs_env \<Rightarrow> string \<Rightarrow> (string \<times> string) list \<Rightarrow> ('s, 'b) sqs_state \<Rightarrow> batch_result list \<times> ('s, 'b) sqs_state"
where
  "delete_entries E queueName [] s = ([], s)"
| "delete_entries E queueName ((ident, handle) # entries) s =
     (let go_on = (\<lambda>res s'. apfst ((#) res) (delete_entries E queueName entries s')) in
      case decodeReceiptHandle handle of
        None \<Rightarrow> go_on (BatchFailed ident (err_Code errReceiptHandle) (err_Message errReceiptHandle) False) s
      | Some (_, messageID) \<Rightarrow>
          if (case getMessage E queueName messageID s of Inl _ \<Rightarrow> False | Inr msg \<Rightarrow> msg_ReceiptHandle msg \<noteq> handle)
          then go_on (BatchFailed ident (err_Code errSuperseded) (err_Message errSuperseded) False) s
          else go_on (BatchOk ident)
            (emit (SQSMessageDeleted queueName messageID # recordMessageDeleted queueName)
              (snd (deleteMessage E queueName messageID s))))"

definition deleteMessageBatchTyped ::
  "('s, 'b) sqs_env \<Rightarrow> string \<Rightarrow> (string \<times> string) list \<Rightarrow> ('s, 'b) sqs_state \<Rightarrow> batch_result list aws \<times> ('s, 'b) sqs_state"
where
  "deleteMessageBatchTyped E queueUrl entries s =
     (case validateBatchEntries ''DeleteMessageBatchRequestEntry'' entries fst of
        Some err \<Rightarrow> (Inl err, s)
      | None \<Rightarrow> apfst Inr (delete_entries E (queueNameFromURL queueUrl) entries s))"

text \<open>
  One entry of \<open>changeMessageVisibilityBatchTyped\<close>.  The sender is at fault except when the
  store refused the read or the write.
\<close>

definition change_entry ::
  "('s, 'b) sqs_env \<Rightarrow> int \<Rightarrow> string \<Rightarrow> string \<times> string \<times> int \<Rightarrow> ('s, 'b) sqs_state \<Rightarrow> batch_result \<times> ('s, 'b) sqs_state"
where
  "change_entry E now queueName entry s =
     (let (ident, handle, vt) = entry;
          failed = (\<lambda>err fault. BatchFailed ident (err_Code err) (err_Message err) fault)
      in case validateVisibilityTimeout ''VisibilityTimeout'' vt of
           Some err \<Rightarrow> (failed err True, s)
         | None \<Rightarrow>
             (case decodeReceiptHandle handle of
                None \<Rightarrow> (failed errReceiptHandle True, s)
              | Some (_, messageID) \<Rightarrow>
                  (case getMessage E queueName messageID s of
                     Inl err \<Rightarrow> (failed err False, s)
                   | Inr msg \<Rightarrow>
                       if msg_ReceiptHandle msg \<noteq> handle then (failed errSuperseded True, s)
                       else (case putMessage E queueName (change_visibility now vt msg) s of
                          (Inl err, s') \<Rightarrow> (failed err False, s')
                        | (Inr _, s') \<Rightarrow> (BatchOk ident, s')))))"

fun change_entries ::
  "('s, 'b) sqs_env \<Rightarrow> int \<Rightarrow> string \<Rightarrow> (string \<times> string \<times> int) list \<Rightarrow> ('s, 'b) sqs_state
    \<Rightarrow> batch_result list \<times> ('s, 'b) sqs_state"
where
  "change_entries E now queueName [] s = ([], s)"
| "change_entries E now queueName (entry # entries) s =
     (let (res, s1) = change_entry E now queueName entry s; (rest, s2) = change_entries E now queueName entries s1
      in (res # rest, s2))"

definition changeMessageVisibilityBatchTyped ::
  "('s, 'b) sqs_env \<Rightarrow> int \<Rightarrow> string \<Rightarrow> (string \<times> string \<times> int) list \<Rightarrow> ('s, 'b) sqs_state
    \<Rightarrow> batch_result list aws \<times> ('s, 'b) sqs_state"
where
  "changeMessageVisibilityBatchTyped E now queueUrl entries s =
     (case validateBatchEntries ''ChangeMessageVisibilityBatchRequestEntry'' entries fst of
        Some err \<Rightarrow> (Inl err, s)
      | None \<Rightarrow> apfst Inr (change_entries E now (queueNameFromURL queueUrl) entries s))"

section \<open>Redriving a dead-letter queue\<close>

definition errNoDestination :: "string \<Rightarrow> AWSError" where
  "errNoDestination dest =
     bad_request ''InvalidParameterValue'' (''Destination queue '' @ go_quote dest @ '' does not exist'')"

text \<open>The loop of \<open>startMessageMoveTaskTyped\<close>; \<open>known\<close> are the destinations already looked up.\<close>

fun move_messages ::
  "('s, 'b) sqs_env \<Rightarrow> int \<Rightarrow> string \<Rightarrow> string \<Rightarrow> Message list \<Rightarrow> string list \<Rightarrow> ('s, 'b) sqs_state
    \<Rightarrow> unit aws \<times> ('s, 'b) sqs_state"
where
  "move_messages E now dlqName explicitDest [] known s = (Inr (), s)"
| "move_messages E now dlqName explicitDest (msg # msgs) known s =
     (let dest = (if explicitDest = [] \<and> map_str (msg_Attributes msg) ''DeadLetterSourceQueueArn'' \<noteq> []
                  then queueNameFromARN (map_str (msg_Attributes msg) ''DeadLetterSourceQueueArn'') else explicitDest)
      in if dest = [] then
           (Inl (bad_request ''InvalidParameterValue''
             (''Cannot determine destination for message '' @ msg_MessageID msg @ ''. Specify DestinationArn.'')), s)
         else (case (if dest \<in> set known then (Inr (), s)
                     else (case getQueue E dest s of
                        (Inl _, s1) \<Rightarrow> (Inl (errNoDestination dest), s1) | (Inr _, s1) \<Rightarrow> (Inr (), s1))) of
            (Inl err, s1) \<Rightarrow> (Inl err, s1)
          | (Inr _, s1) \<Rightarrow>
              (let (newMsg, s2) = new_message E now dest (msg_Body msg) now (fresh_attributes E now)
                     (msg_MessageAttributes msg) s1
               in case putMessage E dest newMsg s2 of
                    (Inl err, s3) \<Rightarrow> (Inl err, s3)
                  | (Inr _, s3) \<Rightarrow>
                      (case deleteMessage E dlqName (msg_MessageID msg) s3 of
                         (Inl err, s4) \<Rightarrow> (Inl err, s4)
                       | (Inr _, s4) \<Rightarrow> move_messages E now dlqName explicitDest msgs (dest # known) s4))))"

definition startMessageMoveTaskTyped ::
  "('s, 'b) sqs_env \<Rightarrow> int \<Rightarrow> string \<Rightarrow> string \<Rightarrow> ('s, 'b) sqs_state \<Rightarrow> string aws \<times> ('s, 'b) sqs_state"
where
  "startMessageMoveTaskTyped E now sourceArn destinationArn s =
     (let dlqName = queueNameFromARN sourceArn; explicitDest = queueNameFromARN destinationArn in
      if sourceArn = [] then (Inl (ErrMissingParameter ''SourceArn''), s)
      else if dlqName = [] then (Inl (bad_request ''InvalidParameterValue'' ''SourceArn is not a valid SQS ARN''), s)
      else (case getQueue E dlqName s of
         (Inl err, s1) \<Rightarrow> (Inl err, s1)
       | (Inr _, s1) \<Rightarrow>
           (case (if destinationArn = [] then (Inr (), s1)
                  else (case getQueue E explicitDest s1 of
                     (Inl _, s2) \<Rightarrow> (Inl (errNoDestination explicitDest), s2) | (Inr _, s2) \<Rightarrow> (Inr (), s2))) of
              (Inl err, s2) \<Rightarrow> (Inl err, s2)
            | (Inr _, s2) \<Rightarrow>
                (case listMessages E dlqName s2 of
                   Inl err \<Rightarrow> (Inl err, s2)
                 | Inr messages \<Rightarrow>
                     (case move_messages E now dlqName explicitDest messages [] s2 of
                        (Inl err, s3) \<Rightarrow> (Inl err, s3)
                      | (Inr _, s3) \<Rightarrow>
                          apfst Inr (draw_uuid E (emit [SQSMessageRedrive dlqName (length messages)] s3)))))))"

section \<open>Peeking\<close>

record PeekedMessage =
  pk_message :: Message
  pk_Inflight :: bool
  pk_Delayed :: bool
  pk_VisibleAfter :: int

definition peek_message :: "int \<Rightarrow> Message \<Rightarrow> PeekedMessage" where
  "peek_message now m =
     (let inflight = (\<not> messageVisibleAt m now) in
      \<lparr>pk_message = m, pk_Inflight = inflight, pk_Delayed = (inflight \<and> msg_ApproximateReceiveCount m = 0),
       pk_VisibleAfter = (if inflight then unix_milli (msg_VisibleAfter m) else 0)\<rparr>)"

definition peekQueue ::
  "('s, 'b) sqs_env \<Rightarrow> int \<Rightarrow> string \<Rightarrow> ('s, 'b) sqs_state \<Rightarrow> PeekedMessage list aws \<times> ('s, 'b) sqs_state"
where
  "peekQueue E now queueName s =
     (case getQueue E queueName s of
        (Inl err, s1) \<Rightarrow> (Inl err, s1)
      | (Inr _, s1) \<Rightarrow> (map_sum id (map (peek_message now)) (listMessages E queueName s1), s1))"

section \<open>The internal receiver\<close>

text \<open>
  \<open>sqsReceiver\<close> serves Lambda's event source mappings.  Its loop goes over all messages of the
  queue; a failed move to the dead-letter queue is ignored.
\<close>

fun receive_all ::
  "('s, 'b) sqs_env \<Rightarrow> int \<Rightarrow> string \<Rightarrow> Queue \<Rightarrow> redrivePolicy option \<Rightarrow> int \<Rightarrow> int \<Rightarrow> Message list \<Rightarrow> Message list
    \<Rightarrow> ('s, 'b) sqs_state \<Rightarrow> Message list aws \<times> ('s, 'b) sqs_state"
where
  "receive_all E now queueName q rp maxCount vt [] out s = (Inr out, s)"
| "receive_all E now queueName q rp maxCount vt (msg0 # msgs) out s =
     (if maxCount \<le> int (length out) then (Inr out, s)
      else if \<not> messageVisibleAt msg0 now then receive_all E now queueName q rp maxCount vt msgs out s
      else
        (let (handle, s1) = encodeReceiptHandle E queueName (msg_MessageID msg0) s;
             msg = mark_received now vt handle msg0
         in case (case rp of
                    None \<Rightarrow> None
                  | Some p \<Rightarrow> if rp_MaxReceiveCount p \<le> msg_ApproximateReceiveCount msg then Some p else None) of
              Some p \<Rightarrow> receive_all E now queueName q rp maxCount vt msgs out (snd (moveToDLQ E now queueName q p msg s1))
            | None \<Rightarrow>
                (case putMessage E queueName msg s1 of
                   (Inl err, s2) \<Rightarrow> (Inl err, s2)
                 | (Inr _, s2) \<Rightarrow> receive_all E now queueName q rp maxCount vt msgs (out @ [msg]) s2)))"

definition ReceiveMessages ::
  "('s, 'b) sqs_env \<Rightarrow> int \<Rightarrow> string \<Rightarrow> int \<Rightarrow> int \<Rightarrow> ('s, 'b) sqs_state \<Rightarrow> Message list aws \<times> ('s, 'b) sqs_state"
where
  "ReceiveMessages E now queueName maxCount visibilitySeconds s =
     (case listMessages E queueName s of
        Inl _ \<Rightarrow> (Inr [], s)
      | Inr allMessages \<Rightarrow>
          (case getQueue E queueName s of
             (Inl _, s1) \<Rightarrow> (Inr [], s1)
           | (Inr q, s1) \<Rightarrow>
               receive_all E now queueName q (redrive_or_nil (q_Attributes q)) maxCount visibilitySeconds allMessages [] s1))"

fun DeleteMessages :: "('s, 'b) sqs_env \<Rightarrow> string \<Rightarrow> string list \<Rightarrow> ('s, 'b) sqs_state \<Rightarrow> ('s, 'b) sqs_state" where
  "DeleteMessages E queueName [] s = s"
| "DeleteMessages E queueName (handle # handles) s =
     DeleteMessages E queueName handles
       (case decodeReceiptHandle handle of
          None \<Rightarrow> s
        | Some (_, msgID) \<Rightarrow> snd (deleteMessage E queueName msgID s))"

end
