(* ===== verification/Sqs_Receive.thy ===== *)
theory Sqs_Receive
  imports Sqs_Handler Memory_Store
begin

text \<open>
  What receiving does, proved for every message backend that keeps its contract (inside
  \<open>message_backend\<close>) and stated for the in-process one: the bounded fetch that doubles its
  limit delivers exactly what one pass over the whole queue would, in FIFO order, leaving
  out the groups that were blocked and the messages that go to the dead-letter queue.
\<close>

section \<open>Everything the service writes can be stored\<close>

lemma ascii_valid: "list_all (\<lambda>c. of_char c < (128 :: nat)) s \<Longrightarrow> valid_utf8 s"
  by (induction s) (simp_all add: utf8_width_ascii)

lemma show_int_valid [simp]: "valid_utf8 (show_int i)"
proof (rule ascii_valid)
  have "list_all (\<lambda>c. of_char c < (128 :: nat)) (show_nat n)" for n
    using show_nat_digits [of _ n] by (fastforce simp: list_all_iff)
  then show "list_all (\<lambda>c. of_char c < (128 :: nat)) (show_int i)" by (simp add: show_int_def)
qed

lemma b64_valid [simp]: "valid_utf8 (b64_encode s)"
proof (rule ascii_valid)
  have c: "n < 64 \<Longrightarrow> (of_char (b64_char n) :: nat) < 128" for n by (simp add: of_char_b64) linarith
  show "list_all (\<lambda>c. of_char c < (128 :: nat)) (b64_encode s)"
    by (induction s rule: b64_encode.induct) (simp_all add: Let_def c b64_rules)
qed

lemma clean_strings_put [simp]:
  "clean_strings m \<Longrightarrow> valid_utf8 k \<Longrightarrow> valid_utf8 v \<Longrightarrow> clean_strings (map_put k v m)"
  using set_map_put_sub [of k v m] by (fastforce simp: clean_strings_def list_all_iff)

text \<open>
  What the theorems ask of the environment: the identifiers and digests it hands out, the
  account and the queue's ARN are valid UTF-8, and the instants stay within the years that
  JSON can carry.
\<close>

definition env_ok :: "('s, 'b) sqs_env \<Rightarrow> bool" where
  "env_ok E \<longleftrightarrow> (\<forall>n. valid_utf8 (env_uuid E n)) \<and> (\<forall>x. valid_utf8 (env_md5 E x)) \<and> valid_utf8 (env_AccountID E)"

lemma mark_received_storable:
  assumes "storable msg" "valid_utf8 handle" "marshal_year_ok (now + duration_seconds vt)"
  shows "storable (mark_received now vt handle msg)"
proof -
  have "valid_utf8 ''ApproximateReceiveCount''" "valid_utf8 ''ApproximateFirstReceiveTimestamp''" by code_simp+
  with assms show ?thesis by (simp add: storable_def mark_received_def Let_def)
qed

lemma mark_received_simps [simp]:
  "msg_MessageID (mark_received now vt h msg) = msg_MessageID msg"
  "msg_Body (mark_received now vt h msg) = msg_Body msg"
  "msg_MessageGroupId (mark_received now vt h msg) = msg_MessageGroupId msg"
  "msg_SequenceNumber (mark_received now vt h msg) = msg_SequenceNumber msg"
  "msg_ReceiptHandle (mark_received now vt h msg) = h"
  "msg_ApproximateReceiveCount (mark_received now vt h msg) = msg_ApproximateReceiveCount msg + 1"
  "msg_VisibleAfter (mark_received now vt h msg) = now + duration_seconds vt"
  "msg_MessageAttributes (mark_received now vt h msg) = msg_MessageAttributes msg"
  by (simp_all add: mark_received_def Let_def)

lemma fresh_attributes_clean: "env_ok E \<Longrightarrow> clean_strings (fresh_attributes E now)"
proof -
  assume "env_ok E"
  moreover have "valid_utf8 ''ApproximateFirstReceiveTimestamp''" "valid_utf8 ''ApproximateReceiveCount''"
    "valid_utf8 ''SenderId''" "valid_utf8 ''SentTimestamp''" "valid_utf8 ''0''" by code_simp+
  moreover have "wf_map [(''ApproximateFirstReceiveTimestamp'', ''0''), (''ApproximateReceiveCount'', ''0''),
      (''SenderId'', a), (''SentTimestamp'', b)]" for a b
    by (simp add: wf_map_def less_char_def)
  ultimately show ?thesis by (simp add: clean_strings_def fresh_attributes_def env_ok_def)
qed

lemma new_message_simps:
  assumes "new_message E now q body va attrs mattrs s = (msg, s')"
  shows "msg_MessageID msg = env_uuid E (sq_uuid s)" "msg_Body msg = body" "msg_VisibleAfter msg = va"
    "msg_MessageGroupId msg = []" "msg_SequenceNumber msg = []" "msg_ApproximateReceiveCount msg = 0"
    "s' = s\<lparr>sq_uuid := sq_uuid s + 2\<rparr>"
    "env_ok E \<Longrightarrow> marshal_year_ok va \<Longrightarrow> valid_utf8 body \<Longrightarrow> clean_strings attrs \<Longrightarrow> clean_attributes mattrs
      \<Longrightarrow> storable msg"
  using assms
  by (auto simp: new_message_def draw_uuid_def encodeReceiptHandle_def Let_def storable_def env_ok_def)

section \<open>One step of the loop\<close>

text \<open>Which messages a call leaves alone, moves away, and delivers.\<close>

definition is_blocked :: "select_args \<Rightarrow> Message \<Rightarrow> bool" where
  "is_blocked a msg \<longleftrightarrow> sa_fifo a \<and> msg_MessageGroupId msg \<noteq> [] \<and> msg_MessageGroupId msg \<in> set (sa_blocked a)"

definition is_exhausted :: "select_args \<Rightarrow> Message \<Rightarrow> bool" where
  "is_exhausted a msg \<longleftrightarrow>
     (case sa_rp a of None \<Rightarrow> False | Some rp \<Rightarrow> rp_MaxReceiveCount rp < msg_ApproximateReceiveCount msg + 1)"

definition deliverable :: "select_args \<Rightarrow> Message \<Rightarrow> bool" where
  "deliverable a msg \<longleftrightarrow> \<not> is_blocked a msg \<and> \<not> is_exhausted a msg"

definition dlq_name :: "select_args \<Rightarrow> string" where
  "dlq_name a = (case sa_rp a of None \<Rightarrow> [] | Some rp \<Rightarrow> queueNameFromARN (rp_DeadLetterTargetArn rp))"

definition args_ok :: "int \<Rightarrow> select_args \<Rightarrow> bool" where
  "args_ok now a \<longleftrightarrow> queue_ok (sa_queueName a) \<and> marshal_year_ok now
     \<and> marshal_year_ok (now + duration_seconds (sa_visibilityTimeout a)) \<and> valid_utf8 (q_ARN (sa_queue a))
     \<and> (sa_rp a \<noteq> None \<longrightarrow> queue_ok (dlq_name a) \<and> dlq_name a \<noteq> sa_queueName a)"

lemma encodeReceiptHandle_simps:
  "encodeReceiptHandle E q mid s = (b64_encode (receipt_payload q mid (env_uuid E (sq_uuid s))), s\<lparr>sq_uuid := Suc (sq_uuid s)\<rparr>)"
  by (simp add: encodeReceiptHandle_def draw_uuid_def)

context message_backend
begin

lemma putMessage_spec:
  assumes "env_backend E = ops" "invar (sq_mb s)" "queue_ok q" "storable msg"
  obtains b where "putMessage E q msg s = (Inr (), s\<lparr>sq_mb := b\<rparr>)" "invar b"
    "view b = put_view (view (sq_mb s)) (env_region E, q) msg"
  using put_law [OF assms(2-4), of "env_region E"] assms(1)
  by (cases "mb_putMessage ops (sq_mb s) (env_region E) q msg") (auto simp: putMessage_def mb_call_def)

lemma deleteMessage_spec:
  assumes "env_backend E = ops" "invar (sq_mb s)" "queue_ok q"
  obtains b where "deleteMessage E q mid s = (Inr (), s\<lparr>sq_mb := b\<rparr>)" "invar b"
    "view b = del_view (view (sq_mb s)) (env_region E, q) mid"
  using delete_law [OF assms(2,3), of "env_region E" mid] assms(1)
  by (cases "mb_deleteMessage ops (sq_mb s) (env_region E) q mid") (auto simp: deleteMessage_def mb_call_def)

lemma moveToDLQ_spec:
  assumes "env_backend E = ops" "env_ok E" "invar (sq_mb s)" "storable msg" "queue_ok q"
    and "queue_ok (queueNameFromARN (rp_DeadLetterTargetArn rp))"
    and "marshal_year_ok now" "valid_utf8 (q_ARN src)"
  obtains s' d where "moveToDLQ E now q src rp msg s = (Inr (), s')" "invar (sq_mb s')"
    "view (sq_mb s') = del_view (put_view (view (sq_mb s))
       (env_region E, queueNameFromARN (rp_DeadLetterTargetArn rp)) d) (env_region E, q) (msg_MessageID msg)"
    "msg_Body d = msg_Body msg" "msg_MessageID d = env_uuid E (sq_uuid s)" "msg_MessageAttributes d = msg_MessageAttributes msg"
    "sq_uuid s' = sq_uuid s + 2" "sq_kv s' = sq_kv s"
proof -
  let ?dq = "queueNameFromARN (rp_DeadLetterTargetArn rp)"
  let ?at = "map_put ''DeadLetterSourceQueueArn'' (q_ARN src) (fresh_attributes E now)"
  obtain d s1 where d: "new_message E now ?dq (msg_Body msg) now ?at (msg_MessageAttributes msg) s = (d, s1)"
    by (cases "new_message E now ?dq (msg_Body msg) now ?at (msg_MessageAttributes msg) s")
  note ds = new_message_simps [OF d]
  have ma: "msg_MessageAttributes d = msg_MessageAttributes msg"
    using d by (auto simp: new_message_def draw_uuid_def encodeReceiptHandle_def Let_def)
  have "valid_utf8 ''DeadLetterSourceQueueArn''" by code_simp
  then have "clean_strings ?at" using fresh_attributes_clean [OF assms(2)] assms(8) by simp
  then have st: "storable d" using ds(8) assms(2,4,7) by (simp add: storable_def)
  have i1: "invar (sq_mb s1)" using ds(7) assms(3) by simp
  from putMessage_spec [OF assms(1) i1 assms(6) st] obtain b where
    b: "putMessage E ?dq d s1 = (Inr (), s1\<lparr>sq_mb := b\<rparr>)" "invar b" "view b = put_view (view (sq_mb s1)) (env_region E, ?dq) d" by blast
  have i2: "invar (sq_mb (s1\<lparr>sq_mb := b\<rparr>))" using b(2) by simp
  from deleteMessage_spec [OF assms(1) i2 assms(5), of "msg_MessageID msg"] obtain b' where
    b': "deleteMessage E q (msg_MessageID msg) (s1\<lparr>sq_mb := b\<rparr>) = (Inr (), s1\<lparr>sq_mb := b'\<rparr>)" "invar b'"
      "view b' = del_view (view b) (env_region E, q) (msg_MessageID msg)" by auto
  show thesis
    by (rule that [of "emit [SQSMessageDLQ q ?dq (msg_MessageID d)] (s1\<lparr>sq_mb := b'\<rparr>)" d])
      (use d b b' ds ma in \<open>simp_all add: moveToDLQ_def Let_def emit_def\<close>)
qed

end

section \<open>The candidates of one round\<close>

definition rm_pair :: "receivedMessage \<Rightarrow> string \<times> string" where
  "rm_pair r = (rm_MessageId r, rm_Body r)"

definition msg_pair :: "Message \<Rightarrow> string \<times> string" where
  "msg_pair m = (msg_MessageID m, msg_Body m)"

text \<open>A received message is held: the queue has it, invisible, under the handle that was returned.\<close>

definition held :: "queues_view \<Rightarrow> string \<times> string \<Rightarrow> int \<Rightarrow> int \<Rightarrow> receivedMessage \<Rightarrow> bool" where
  "held w rq now vt r \<longleftrightarrow>
     (\<exists>m. w rq (rm_MessageId r) = Some m \<and> msg_ReceiptHandle m = rm_ReceiptHandle r
        \<and> msg_VisibleAfter m = now + duration_seconds vt \<and> msg_Body m = rm_Body r)
     \<and> (\<exists>nonce. rm_ReceiptHandle r = b64_encode (receipt_payload (snd rq) (rm_MessageId r) nonce))"

lemma held_cong: "held w rq now vt r \<Longrightarrow> w' rq (rm_MessageId r) = w rq (rm_MessageId r) \<Longrightarrow> held w' rq now vt r"
  by (simp add: held_def)

lemma held_kept:
  assumes "\<forall>r \<in> set rs. rm_MessageId r \<in> D \<and> held w rq now vt r" "\<And>mid. mid \<in> D \<Longrightarrow> w' rq mid = w rq mid"
  shows "\<forall>r \<in> set rs. rm_MessageId r \<in> D \<and> held w' rq now vt r"
  using assms held_cong by blast

text \<open>Outside the IDs \<open>D\<close> a round changes the queue only by moving exhausted messages away.\<close>

definition only_moved :: "select_args \<Rightarrow> string set \<Rightarrow> (string \<rightharpoonup> Message) \<Rightarrow> (string \<rightharpoonup> Message) \<Rightarrow> bool" where
  "only_moved a D w w' \<longleftrightarrow>
     (\<forall>mid. mid \<notin> D \<longrightarrow> w' mid = w mid \<or> w' mid = None \<and> (\<exists>m. w mid = Some m \<and> is_exhausted a m))"

lemma only_moved_refl [simp]: "only_moved a D w w"
  by (simp add: only_moved_def)

lemma only_moved_trans: "only_moved a D w w1 \<Longrightarrow> only_moved a D' w1 w2 \<Longrightarrow> D \<subseteq> D' \<Longrightarrow> only_moved a D' w w2"
  unfolding only_moved_def by (metis in_mono option.distinct(1))

lemma rm_pair_received [simp]:
  "rm_pair (receivedMessageFromStored m xs ys) = msg_pair m"
  "rm_MessageId (receivedMessageFromStored m xs ys) = msg_MessageID m"
  "rm_Body (receivedMessageFromStored m xs ys) = msg_Body m"
  "rm_ReceiptHandle (receivedMessageFromStored m xs ys) = msg_ReceiptHandle m"
  by (simp_all add: rm_pair_def msg_pair_def receivedMessageFromStored_def)

text \<open>The three ways past a candidate.\<close>

abbreviation candidate_handle :: "('s, 'b) sqs_env \<Rightarrow> select_args \<Rightarrow> Message \<Rightarrow> ('s, 'b) sqs_state \<Rightarrow> string" where
  "candidate_handle E a m s \<equiv> b64_encode (receipt_payload (sa_queueName a) (msg_MessageID m) (env_uuid E (sq_uuid s)))"

lemma deliver_Cons:
  "deliver E now a (m # cs) (rs, D) s =
     (if sa_maxMessages a \<le> int (length rs) then (Inr (rs, D), s)
      else if is_blocked a m \<or> msg_MessageID m \<in> set D then deliver E now a cs (rs, D) s
      else
        (let s1 = s\<lparr>sq_uuid := Suc (sq_uuid s)\<rparr>;
             m' = mark_received now (sa_visibilityTimeout a) (candidate_handle E a m s) m
         in if is_exhausted a m then
              (case moveToDLQ E now (sa_queueName a) (sa_queue a) (the (sa_rp a)) m' s1 of
                 (Inl err, s2) \<Rightarrow> (Inl err, s2) | (Inr _, s2) \<Rightarrow> deliver E now a cs (rs, D) s2)
            else
              (case putMessage E (sa_queueName a) m' s1 of
                 (Inl err, s2) \<Rightarrow> (Inl err, s2)
               | (Inr _, s2) \<Rightarrow>
                   deliver E now a cs
                     (rs @ [receivedMessageFromStored m' (sa_systemAttrNames a) (sa_messageAttrNames a)], msg_MessageID m' # D)
                     (emit [SQSMessageInflight (sa_queueName a) (msg_MessageID m')
                        (unix_milli (msg_VisibleAfter m')) (msg_ApproximateReceiveCount m')] s2))))"
  by (auto simp: is_blocked_def is_exhausted_def encodeReceiptHandle_simps Let_def split: option.splits)

lemma deliver_Cons_skip:
  assumes "\<not> sa_maxMessages a \<le> int (length rs)" "is_blocked a m \<or> msg_MessageID m \<in> set D"
  shows "deliver E now a (m # cs) (rs, D) s = deliver E now a cs (rs, D) s"
  using assms by (simp add: deliver_Cons del: deliver.simps)

lemma deliver_Cons_moved:
  assumes "\<not> sa_maxMessages a \<le> int (length rs)" "\<not> is_blocked a m" "msg_MessageID m \<notin> set D"
    and "sa_rp a = Some rp" "rp_MaxReceiveCount rp < msg_ApproximateReceiveCount m + 1"
    and "moveToDLQ E now (sa_queueName a) (sa_queue a) rp
           (mark_received now (sa_visibilityTimeout a) (candidate_handle E a m s) m) (s\<lparr>sq_uuid := Suc (sq_uuid s)\<rparr>) = (Inr (), s2)"
  shows "deliver E now a (m # cs) (rs, D) s = deliver E now a cs (rs, D) s2"
  using assms by (simp add: deliver_Cons is_exhausted_def del: deliver.simps)

lemma deliver_Cons_put:
  assumes "\<not> sa_maxMessages a \<le> int (length rs)" "\<not> is_blocked a m" "msg_MessageID m \<notin> set D" "\<not> is_exhausted a m"
    and "m' = mark_received now (sa_visibilityTimeout a) (candidate_handle E a m s) m"
    and "putMessage E (sa_queueName a) m' (s\<lparr>sq_uuid := Suc (sq_uuid s)\<rparr>) = (Inr (), s2)"
  shows "deliver E now a (m # cs) (rs, D) s =
    deliver E now a cs (rs @ [receivedMessageFromStored m' (sa_systemAttrNames a) (sa_messageAttrNames a)], msg_MessageID m # D)
      (emit [SQSMessageInflight (sa_queueName a) (msg_MessageID m')
        (unix_milli (msg_VisibleAfter m')) (msg_ApproximateReceiveCount m')] s2)"
  using assms by (simp add: deliver_Cons del: deliver.simps)

text \<open>The outcome of the loop over the candidates \<open>cs\<close>.\<close>

definition round_result ::
  "('s, 'b) sqs_env \<Rightarrow> ('b \<Rightarrow> queues_view) \<Rightarrow> int \<Rightarrow> select_args \<Rightarrow> Message list
    \<Rightarrow> receivedMessage list \<Rightarrow> string list \<Rightarrow> ('s, 'b) sqs_state \<Rightarrow> receivedMessage list \<Rightarrow> string list \<Rightarrow> ('s, 'b) sqs_state \<Rightarrow> bool"
where
  "round_result E view now a cs received D s received' D' s' \<longleftrightarrow>
     (let src = (env_region E, sa_queueName a);
          new = take (nat (sa_maxMessages a) - length received) (filter (\<lambda>m. deliverable a m \<and> msg_MessageID m \<notin> set D) cs)
      in map rm_pair received' = map rm_pair received @ map msg_pair new
         \<and> set D' = set D \<union> msg_MessageID ` set new
         \<and> (\<forall>r \<in> set received'. rm_MessageId r \<in> set D' \<and> held (view (sq_mb s')) src now (sa_visibilityTimeout a) r)
         \<and> only_moved a (set D') (view (sq_mb s) src) (view (sq_mb s') src))"

context message_backend
begin

lemma deliver_skip:
  assumes "round_result E view now a cs rs D s rs' D' s'"
    and "is_blocked a m \<or> msg_MessageID m \<in> set D"
  shows "round_result E view now a (m # cs) rs D s rs' D' s'"
  using assms by (auto simp: round_result_def deliverable_def Let_def)

lemma deliver_moved:
  assumes "round_result E view now a cs rs D s1 rs' D' s'" "is_exhausted a m"
    and "only_moved a (set D) (view (sq_mb s) (env_region E, sa_queueName a)) (view (sq_mb s1) (env_region E, sa_queueName a))"
  shows "round_result E view now a (m # cs) rs D s rs' D' s'"
  using assms only_moved_trans [OF assms(3)] by (auto simp: round_result_def deliverable_def Let_def)

lemma deliver_delivered:
  assumes "round_result E view now a cs (rs @ [r]) (msg_MessageID m # D) s1 rs' D' s'" "deliverable a m"
    and "rm_pair r = msg_pair m" "msg_MessageID m \<notin> set D" "msg_MessageID m \<notin> msg_MessageID ` set cs"
    and "int (length rs) < sa_maxMessages a"
    and "only_moved a (set (msg_MessageID m # D)) (view (sq_mb s) (env_region E, sa_queueName a))
           (view (sq_mb s1) (env_region E, sa_queueName a))"
  shows "round_result E view now a (m # cs) rs D s rs' D' s'"
proof -
  have f: "filter (\<lambda>x. deliverable a x \<and> msg_MessageID x \<notin> set (msg_MessageID m # D)) cs
      = filter (\<lambda>x. deliverable a x \<and> msg_MessageID x \<notin> set D) cs"
  proof (intro filter_cong refl)
    fix x
    assume "x \<in> set cs"
    then have "msg_MessageID x \<noteq> msg_MessageID m" using assms(5) by (metis imageI)
    then show "(deliverable a x \<and> msg_MessageID x \<notin> set (msg_MessageID m # D)) = (deliverable a x \<and> msg_MessageID x \<notin> set D)"
      by simp
  qed
  obtain k where k: "nat (sa_maxMessages a) - length rs = Suc k" using assms(6) by (metis Suc_diff_Suc nat_less_iff
      of_nat_0_le_iff zless_nat_eq_int_zless)
  then have "nat (sa_maxMessages a) - length (rs @ [r]) = k" by simp
  moreover have "only_moved a (set D') (view (sq_mb s) (env_region E, sa_queueName a)) (view (sq_mb s') (env_region E, sa_queueName a))"
    using assms(1) by (intro only_moved_trans [OF assms(7)]) (auto simp: round_result_def Let_def)
  ultimately show ?thesis using assms(1-4) f k by (auto simp: round_result_def Let_def)
qed

lemma deliver_spec:
  assumes E: "env_backend E = ops" "env_ok E" "args_ok now a"
    and "invar (sq_mb s)" "distinct (map msg_MessageID cs)"
    and "\<forall>m \<in> set cs. msg_MessageID m \<notin> set D \<longrightarrow> view (sq_mb s) (env_region E, sa_queueName a) (msg_MessageID m) = Some m"
    and "\<forall>r \<in> set rs. rm_MessageId r \<in> set D
           \<and> held (view (sq_mb s)) (env_region E, sa_queueName a) now (sa_visibilityTimeout a) r"
  shows "\<exists>rs' D' s'. deliver E now a cs (rs, D) s = (Inr (rs', D'), s') \<and> invar (sq_mb s')
    \<and> round_result E view now a cs rs D s rs' D' s'"
  using assms(4-)
proof (induction cs arbitrary: rs D s)
  case Nil
  then show ?case by (auto simp: round_result_def)
next
  case (Cons m cs)
  let ?src = "(env_region E, sa_queueName a)"
  show ?case
  proof (cases "sa_maxMessages a \<le> int (length rs)")
    case True
    then have "nat (sa_maxMessages a) - length rs = 0" by simp
    with True Cons.prems(1,4) show ?thesis by (auto simp: round_result_def)
  next
    case notfull: False
    show ?thesis
    proof (cases "is_blocked a m \<or> msg_MessageID m \<in> set D")
      case True
      have "\<exists>rs' D' s'. deliver E now a cs (rs, D) s = (Inr (rs', D'), s') \<and> invar (sq_mb s')
          \<and> round_result E view now a cs rs D s rs' D' s'"
        using Cons.prems by (intro Cons.IH) simp_all
      then show ?thesis unfolding deliver_Cons_skip [OF notfull True] using deliver_skip [OF _ True] by blast
    next
      case False
      then have fresh: "msg_MessageID m \<notin> set D" and nb: "\<not> is_blocked a m" by auto
      have vm: "view (sq_mb s) ?src (msg_MessageID m) = Some m" using Cons.prems(3) fresh by simp
      then have st: "storable m" using stored_law Cons.prems(1) by blast
      define m' where "m' = mark_received now (sa_visibilityTimeout a) (candidate_handle E a m s) m"
      define s1 where "s1 = s\<lparr>sq_uuid := Suc (sq_uuid s)\<rparr>"
      have st': "storable m'" using E(3) st by (simp add: m'_def args_ok_def mark_received_storable)
      have i1: "invar (sq_mb s1)" "view (sq_mb s1) = view (sq_mb s)" using Cons.prems(1) by (simp_all add: s1_def)
      have other: "msg_MessageID x \<noteq> msg_MessageID m" if "x \<in> set cs" for x
        using Cons.prems(2) that by (metis distinct.simps(2) image_eqI list.set_map list.simps(9))
      have dcs: "distinct (map msg_MessageID cs)" using Cons.prems(2) by simp
      show ?thesis
      proof (cases "is_exhausted a m")
        case True
        then obtain rp where rp: "sa_rp a = Some rp" "rp_MaxReceiveCount rp < msg_ApproximateReceiveCount m + 1"
          by (auto simp: is_exhausted_def split: option.splits)
        let ?dq = "queueNameFromARN (rp_DeadLetterTargetArn rp)"
        have dq: "queue_ok ?dq" "?dq \<noteq> sa_queueName a" "queue_ok (sa_queueName a)" "marshal_year_ok now"
          "valid_utf8 (q_ARN (sa_queue a))" using E(3) rp(1) by (auto simp: args_ok_def dlq_name_def)
        obtain s2 d where s2: "moveToDLQ E now (sa_queueName a) (sa_queue a) rp m' s1 = (Inr (), s2)" "invar (sq_mb s2)"
          "view (sq_mb s2) = del_view (put_view (view (sq_mb s1)) (env_region E, ?dq) d) ?src (msg_MessageID m')"
          using moveToDLQ_spec [OF E(1,2) i1(1) st' dq(3,1,4,5)] by metis
        have v2: "view (sq_mb s2) ?src = (view (sq_mb s) ?src)(msg_MessageID m := None)"
          using s2(3) dq(2) i1(2) by (simp add: del_view_def put_view_def m'_def)
        have "\<exists>rs' D' s'. deliver E now a cs (rs, D) s2 = (Inr (rs', D'), s') \<and> invar (sq_mb s')
            \<and> round_result E view now a cs rs D s2 rs' D' s'"
        proof (rule Cons.IH [OF s2(2) dcs])
          show "\<forall>x \<in> set cs. msg_MessageID x \<notin> set D \<longrightarrow> view (sq_mb s2) ?src (msg_MessageID x) = Some x"
            using Cons.prems(3) v2 other by simp
          show "\<forall>r \<in> set rs. rm_MessageId r \<in> set D \<and> held (view (sq_mb s2)) ?src now (sa_visibilityTimeout a) r"
          proof (rule held_kept [OF Cons.prems(4)])
            fix mid
            assume "mid \<in> set D"
            with fresh have "mid \<noteq> msg_MessageID m" by blast
            then show "view (sq_mb s2) ?src mid = view (sq_mb s) ?src mid" unfolding v2 by simp
          qed
        qed
        moreover have "only_moved a (set D) (view (sq_mb s) ?src) (view (sq_mb s2) ?src)"
          using v2 vm True by (auto simp: only_moved_def)
        ultimately show ?thesis
          unfolding deliver_Cons_moved [OF notfull nb fresh rp s2(1) [unfolded m'_def s1_def]]
          using deliver_moved [OF _ True] by blast
      next
        case False
        then have dl: "deliverable a m" using nb by (simp add: deliverable_def)
        have qk: "queue_ok (sa_queueName a)" using E(3) by (simp add: args_ok_def)
        obtain b where b: "putMessage E (sa_queueName a) m' s1 = (Inr (), s1\<lparr>sq_mb := b\<rparr>)" "invar b"
          "view b = put_view (view (sq_mb s)) ?src m'"
          using putMessage_spec [OF E(1) i1(1) qk st'] i1(2) by metis
        define s2 where "s2 = emit [SQSMessageInflight (sa_queueName a) (msg_MessageID m')
          (unix_milli (msg_VisibleAfter m')) (msg_ApproximateReceiveCount m')] (s1\<lparr>sq_mb := b\<rparr>)"
        define r where "r = receivedMessageFromStored m' (sa_systemAttrNames a) (sa_messageAttrNames a)"
        have v2: "view (sq_mb s2) ?src = (view (sq_mb s) ?src)(msg_MessageID m \<mapsto> m')" "invar (sq_mb s2)"
          using b by (simp_all add: s2_def emit_def put_view_def m'_def)
        have step: "deliver E now a (m # cs) (rs, D) s = deliver E now a cs (rs @ [r], msg_MessageID m # D) s2"
          using deliver_Cons_put [OF notfull nb fresh False m'_def b(1) [unfolded s1_def], of cs]
          by (simp add: s2_def s1_def r_def)
        have "\<exists>rs' D' s'. deliver E now a cs (rs @ [r], msg_MessageID m # D) s2 = (Inr (rs', D'), s')
            \<and> invar (sq_mb s') \<and> round_result E view now a cs (rs @ [r]) (msg_MessageID m # D) s2 rs' D' s'"
        proof (rule Cons.IH [OF v2(2) dcs])
          show "\<forall>x \<in> set cs. msg_MessageID x \<notin> set (msg_MessageID m # D) \<longrightarrow> view (sq_mb s2) ?src (msg_MessageID x) = Some x"
            using Cons.prems(3) v2 by simp
          have "rm_ReceiptHandle r = candidate_handle E a m s" "rm_Body r = msg_Body m" by (simp_all add: r_def m'_def)
          then have "held (view (sq_mb s2)) ?src now (sa_visibilityTimeout a) r"
            using v2(1) by (auto simp: held_def r_def m'_def)
          moreover have "rm_MessageId r = msg_MessageID m" by (simp add: r_def m'_def)
          moreover have "\<forall>r \<in> set rs. rm_MessageId r \<in> set D \<and> held (view (sq_mb s2)) ?src now (sa_visibilityTimeout a) r"
          proof (rule held_kept [OF Cons.prems(4)])
            fix mid
            assume "mid \<in> set D"
            with fresh have "mid \<noteq> msg_MessageID m" by blast
            then show "view (sq_mb s2) ?src mid = view (sq_mb s) ?src mid" unfolding v2 by simp
          qed
          ultimately show "\<forall>ra \<in> set (rs @ [r]). rm_MessageId ra \<in> set (msg_MessageID m # D)
              \<and> held (view (sq_mb s2)) ?src now (sa_visibilityTimeout a) ra"
            by simp
        qed
        moreover have "only_moved a (set (msg_MessageID m # D)) (view (sq_mb s) ?src) (view (sq_mb s2) ?src)"
          using v2 by (simp add: only_moved_def)
        moreover have "rm_pair r = msg_pair m" by (simp add: r_def m'_def msg_pair_def)
        moreover have "msg_MessageID m \<notin> msg_MessageID ` set cs" using other by fastforce
        moreover have "int (length rs) < sa_maxMessages a" using notfull by simp
        ultimately show ?thesis
          unfolding step using deliver_delivered [OF _ dl _ fresh] by blast
      qed
    qed
  qed
qed

end

end
