(* ===== verification/Sqs_Select.thy ===== *)
theory Sqs_Select
  imports Sqs_Receive
begin

text \<open>
  The rounds of \<open>selectVisibleMessages\<close> (\<^verbatim>\<open>internal/services/sqs/handler_message.go\<close>): the
  fetch with a doubling limit delivers what one pass over all visible messages would.
\<close>

section \<open>Listings\<close>

lemma is_listing_filter: "is_listing m P ms \<Longrightarrow> is_listing m (\<lambda>x. P x \<and> Q x) (filter Q ms)"
  by (auto simp: is_listing_def distinct_map_filter)

lemma is_listing_cong: "is_listing m P ms \<Longrightarrow> {x \<in> ran m. P x} = {x \<in> ran m'. P' x} \<Longrightarrow> is_listing m' P' ms"
  by (simp add: is_listing_def)

lemma is_listing_distinct: "is_listing m P ms \<Longrightarrow> distinct ms"
  by (auto simp: is_listing_def distinct_map)

lemma filter_take: "filter P (take n xs) = take (length (filter P (take n xs))) (filter P xs)"
proof -
  have "filter P xs = filter P (take n xs) @ filter P (drop n xs)" by (metis append_take_drop_id filter_append)
  then show ?thesis by simp
qed

lemma take_filter_take: "\<exists>k. take j (filter P (take n xs)) = take k (filter P xs)"
proof -
  have "take j (filter P (take n xs)) = take j (take (length (filter P (take n xs))) (filter P xs))"
    using filter_take [of P n xs] by (rule arg_cong)
  then show ?thesis unfolding take_take by blast
qed

lemma nat_min_count: "int n = min M (int f) \<Longrightarrow> n = min (nat M) f"
  by (auto simp: min_def split: if_split_asm)

lemma delivered_count:
  fixes g n r f :: nat and M :: int
  assumes "r + g = f" "n \<le> r" "int (g + n) \<le> M" "M \<le> int (g + n) \<or> n = min (nat M - g) r"
  shows "int (g + n) = min M (int f)"
  using assms by (auto simp: min_def)

lemma sorted_map_filter: "sorted (map f xs) \<Longrightarrow> sorted (map f (filter P xs))"
  by (metis sorted_filter)

lemma filter_notin_take: "distinct xs \<Longrightarrow> filter (\<lambda>x. x \<notin> set (take n xs)) xs = drop n xs"
proof -
  assume d: "distinct xs"
  have "filter (\<lambda>x. x \<notin> set (take n xs)) (drop n xs) = drop n xs"
    using set_take_disj_set_drop_if_distinct [OF d, of n n] by (intro filter_True) blast
  moreover have "filter (\<lambda>x. x \<notin> set (take n xs)) xs =
      filter (\<lambda>x. x \<notin> set (take n xs)) (take n xs) @ filter (\<lambda>x. x \<notin> set (take n xs)) (drop n xs)"
    by (metis append_take_drop_id filter_append)
  ultimately show ?thesis by (simp add: filter_empty_conv)
qed

section \<open>The rounds\<close>

text \<open>
  After some rounds the messages \<open>G\<close> of the starting queue \<open>w\<^sub>0\<close> have been delivered;
  \<open>V\<close> lists what was visible at the start.
\<close>

definition progress ::
  "('s, 'b) sqs_env \<Rightarrow> ('b \<Rightarrow> queues_view) \<Rightarrow> int \<Rightarrow> select_args \<Rightarrow> (string \<rightharpoonup> Message) \<Rightarrow> Message list
    \<Rightarrow> receivedMessage list \<Rightarrow> string list \<Rightarrow> ('s, 'b) sqs_state \<Rightarrow> Message list \<Rightarrow> bool"
where
  "progress E view now a w V rs D s G \<longleftrightarrow>
     map rm_pair rs = map msg_pair G \<and> set D = msg_MessageID ` set G
     \<and> distinct G \<and> set G \<subseteq> set (filter (deliverable a) V)
     \<and> (sa_fifo a \<longrightarrow> G = take (length G) (filter (deliverable a) V))
     \<and> int (length G) \<le> sa_maxMessages a
     \<and> (\<forall>r \<in> set rs. rm_MessageId r \<in> set D
          \<and> held (view (sq_mb s)) (env_region E, sa_queueName a) now (sa_visibilityTimeout a) r)
     \<and> only_moved a (set D) w (view (sq_mb s) (env_region E, sa_queueName a))"

text \<open>All that could be delivered has been: the maximum, or everything.\<close>

definition complete :: "select_args \<Rightarrow> Message list \<Rightarrow> Message list \<Rightarrow> bool" where
  "complete a V G \<longleftrightarrow> int (length G) = min (sa_maxMessages a) (int (length (filter (deliverable a) V)))"

context message_backend
begin

lemma remaining_listing:
  assumes inv: "invar b0" "invar b"
    and V: "is_listing (view b0 rq) (\<lambda>m. messageVisibleAt m now) V"
    and W: "is_listing (view b rq) (\<lambda>m. messageVisibleAt m now) W"
    and D: "D = msg_MessageID ` set G" "set G \<subseteq> set V"
    and om: "only_moved a D (view b0 rq) (view b rq)"
  shows "is_listing (view b0 rq) (\<lambda>m. messageVisibleAt m now \<and> deliverable a m \<and> msg_MessageID m \<notin> D)
           (filter (\<lambda>m. deliverable a m \<and> msg_MessageID m \<notin> D) W)"
    and "is_listing (view b0 rq) (\<lambda>m. messageVisibleAt m now \<and> deliverable a m \<and> msg_MessageID m \<notin> D)
           (filter (\<lambda>m. m \<notin> set G) (filter (deliverable a) V))"
proof -
  have same: "view b rq mid = Some m \<longleftrightarrow> view b0 rq mid = Some m"
    if "mid \<notin> D" "\<not> is_exhausted a m" for mid m
    using om that unfolding only_moved_def by (metis option.distinct(1) option.inject)
  have id: "view b0 rq mid = Some m \<Longrightarrow> msg_MessageID m = mid" "view b rq mid = Some m \<Longrightarrow> msg_MessageID m = mid" for mid m
    using stored_law inv by blast+
  have "{m \<in> ran (view b rq). messageVisibleAt m now \<and> deliverable a m \<and> msg_MessageID m \<notin> D}
      = {m \<in> ran (view b0 rq). messageVisibleAt m now \<and> deliverable a m \<and> msg_MessageID m \<notin> D}"
    unfolding ran_def deliverable_def using same id by blast
  with is_listing_filter [OF W] show "is_listing (view b0 rq) (\<lambda>m. messageVisibleAt m now \<and> deliverable a m \<and> msg_MessageID m \<notin> D)
      (filter (\<lambda>m. deliverable a m \<and> msg_MessageID m \<notin> D) W)" by (rule is_listing_cong)
  have inj: "m = g" if "m \<in> ran (view b0 rq)" "g \<in> set G" "msg_MessageID m = msg_MessageID g" for m g
  proof -
    have "g \<in> ran (view b0 rq)" using that(2) D(2) V by (auto simp: is_listing_def)
    with that id(1) show ?thesis by (auto simp: ran_def)
  qed
  have "{m \<in> ran (view b0 rq). messageVisibleAt m now \<and> deliverable a m \<and> m \<notin> set G}
      = {m \<in> ran (view b0 rq). messageVisibleAt m now \<and> deliverable a m \<and> msg_MessageID m \<notin> D}"
    unfolding D(1) using inj by blast
  moreover have "is_listing (view b0 rq) (\<lambda>m. messageVisibleAt m now \<and> deliverable a m \<and> m \<notin> set G)
      (filter (\<lambda>m. deliverable a m \<and> m \<notin> set G) V)" using V by (rule is_listing_filter)
  ultimately show "is_listing (view b0 rq) (\<lambda>m. messageVisibleAt m now \<and> deliverable a m \<and> msg_MessageID m \<notin> D)
      (filter (\<lambda>m. m \<notin> set G) (filter (deliverable a) V))"
    by (auto intro: is_listing_cong)
qed

lemma round_progress:
  assumes inv: "invar b0" "invar (sq_mb s)"
    and V: "is_listing (view b0 src) (\<lambda>m. messageVisibleAt m now) V" "sa_fifo a \<longrightarrow> sorted (map fifo_key V)"
    and W: "is_listing (view (sq_mb s) src) (\<lambda>m. messageVisibleAt m now) W" "sa_fifo a \<longrightarrow> sorted (map fifo_key W)"
    and p: "progress E view now a (view b0 src) V rs D s G"
    and r: "round_result E view now a (take n W) rs D s rs' D' s'"
    and src: "src = (env_region E, sa_queueName a)"
  shows "\<exists>G'. progress E view now a (view b0 src) V rs' D' s' G'
    \<and> (length W \<le> n \<or> sa_maxMessages a \<le> int (length rs') \<longrightarrow> complete a V G')"
proof -
  let ?Q = "\<lambda>m. deliverable a m \<and> msg_MessageID m \<notin> set D"
  let ?F = "filter (deliverable a) V"
  let ?R = "filter (\<lambda>m. m \<notin> set G) ?F"
  define New where "New = take (nat (sa_maxMessages a) - length rs) (filter ?Q (take n W))"
  have G: "map rm_pair rs = map msg_pair G" "set D = msg_MessageID ` set G" "distinct G" "set G \<subseteq> set ?F"
    "sa_fifo a \<Longrightarrow> G = take (length G) ?F" "int (length G) \<le> sa_maxMessages a"
    "only_moved a (set D) (view b0 src) (view (sq_mb s) src)"
    using p unfolding progress_def src by blast+
  have len: "length rs = length G" using G(1) by (metis length_map)
  have rr: "map rm_pair rs' = map rm_pair rs @ map msg_pair New" "set D' = set D \<union> msg_MessageID ` set New"
    "\<forall>r \<in> set rs'. rm_MessageId r \<in> set D' \<and> held (view (sq_mb s')) src now (sa_visibilityTimeout a) r"
    "only_moved a (set D') (view (sq_mb s) src) (view (sq_mb s') src)"
    using r unfolding round_result_def Let_def New_def src by blast+
  have "set G \<subseteq> set V" using G(4) by auto
  note rem = remaining_listing [OF inv V(1) W(1) G(2) this G(7)]
  have dV: "distinct V" and dF: "distinct ?F" using V(1) by (auto dest: is_listing_distinct)
  have sets: "set (filter ?Q W) = set ?R" using rem unfolding is_listing_def by blast
  have "distinct (filter ?Q W)" "distinct ?R" using rem by (auto dest: is_listing_distinct)
  then have lens: "length (filter ?Q W) = length ?R" using sets by (metis distinct_card)
  have lenR: "length ?R + length G = length ?F"
  proof -
    have "card (set ?F - set G) + card (set G) = card (set ?F)"
      using G(4) by (metis List.finite_set card_Diff_subset card_mono le_add_diff_inverse2)
    moreover have "set ?R = set ?F - set G" by auto
    ultimately show ?thesis using dF G(3) \<open>distinct ?R\<close> by (metis distinct_card)
  qed
  obtain k where k: "New = take k (filter ?Q W)"
    unfolding New_def using take_filter_take by blast
  then have new: "set New \<subseteq> set ?R" "distinct New"
    using sets set_take_subset [of k "filter ?Q W"] \<open>distinct (filter ?Q W)\<close> by simp_all
  have fifo: "G @ New = take (length (G @ New)) ?F" if "sa_fifo a"
  proof -
    have "filter ?Q W = ?R"
      using that V(2) W(2) by (intro listing_sorted_unique [OF rem]) (auto intro: sorted_map_filter)
    also have "?R = drop (length G) ?F" using G(5) [OF that] filter_notin_take [OF dF, of "length G"] by simp
    finally have "New = take (length New) (drop (length G) ?F)"
      using k by (metis length_take min.commute take_all_iff take_take linear)
    then have "take (length G + length New) ?F = take (length G) ?F @ New" by (simp add: take_add)
    with G(5) [OF that] show ?thesis by simp
  qed
  have "progress E view now a (view b0 src) V rs' D' s' (G @ New)"
    unfolding progress_def
  proof (intro conjI impI)
    show "map rm_pair rs' = map msg_pair (G @ New)" using rr(1) G(1) by simp
    show "set D' = msg_MessageID ` set (G @ New)" using rr(2) G(2) by auto
    show "distinct (G @ New)" using new G(3) by auto
    show "set (G @ New) \<subseteq> set ?F" using new(1) G(4) by auto
    show "G @ New = take (length (G @ New)) ?F" if "sa_fifo a" using fifo [OF that] .
    show "int (length (G @ New)) \<le> sa_maxMessages a" using G(6) len by (simp add: New_def)
    show "\<forall>r \<in> set rs'. rm_MessageId r \<in> set D' \<and> held (view (sq_mb s')) (env_region E, sa_queueName a) now (sa_visibilityTimeout a) r"
      using rr(3) src by simp
    show "only_moved a (set D') (view b0 src) (view (sq_mb s') (env_region E, sa_queueName a))"
      using only_moved_trans [OF G(7) rr(4)] rr(2) src by auto
  qed
  moreover have "complete a V (G @ New)" if "length W \<le> n \<or> sa_maxMessages a \<le> int (length rs')"
  proof -
    have "length rs' = length (G @ New)" using rr(1) G(1) by (metis length_map map_append)
    moreover have "length New \<le> length ?R" using new by (metis card_mono distinct_card List.finite_set \<open>distinct ?R\<close>)
    moreover have "length W \<le> n \<Longrightarrow> length New = min (nat (sa_maxMessages a) - length G) (length ?R)"
      using lens len by (simp add: New_def)
    moreover have "int (length (G @ New)) \<le> sa_maxMessages a" using G(6) len by (simp add: New_def)
    ultimately show ?thesis
      unfolding complete_def length_append using that by (intro delivered_count [OF lenR]) auto
  qed
  ultimately show ?thesis by blast
qed

lemma ran_view: "invar b \<Longrightarrow> m \<in> ran (view b rq) \<Longrightarrow> view b rq (msg_MessageID m) = Some m"
  unfolding ran_def using stored_law by blast

text \<open>A round never makes more messages visible than there were.\<close>

lemma visible_shrinks:
  assumes inv: "invar b0" "invar b"
    and V: "is_listing (view b0 rq) (\<lambda>m. messageVisibleAt m now) V"
    and W: "is_listing (view b rq) (\<lambda>m. messageVisibleAt m now) W"
    and D: "D = msg_MessageID ` set G" "set G \<subseteq> set V"
    and om: "only_moved a D (view b0 rq) (view b rq)"
  shows "length W \<le> length V"
proof -
  have "msg_MessageID m \<in> msg_MessageID ` set V" if "m \<in> set W" for m
  proof (cases "msg_MessageID m \<in> D")
    case True
    then show ?thesis using D by blast
  next
    case False
    have "m \<in> ran (view b rq)" "messageVisibleAt m now" using that W by (auto simp: is_listing_def)
    then have "view b rq (msg_MessageID m) = Some m" using ran_view [OF inv(2)] by blast
    with False om have "view b0 rq (msg_MessageID m) = Some m" by (fastforce simp: only_moved_def)
    with \<open>messageVisibleAt m now\<close> V show ?thesis by (auto simp: is_listing_def ran_def)
  qed
  then have "set (map msg_MessageID W) \<subseteq> set (map msg_MessageID V)" by auto
  moreover have "distinct (map msg_MessageID W)" "distinct (map msg_MessageID V)" using V W by (auto simp: is_listing_def)
  ultimately show ?thesis by (metis card_mono distinct_card List.finite_set length_map)
qed

lemma select_rounds_spec:
  assumes E: "env_backend E = ops" "env_ok E" "args_ok now a"
    and V: "invar b0" "is_listing (view b0 src) (\<lambda>m. messageVisibleAt m now) V" "sa_fifo a \<longrightarrow> sorted (map fifo_key V)"
      "int (length V) \<le> maxCandidateFetchLimit"
    and src: "src = (env_region E, sa_queueName a)"
    and "invar (sq_mb s)" "progress E view now a (view b0 src) V rs D s G" "0 < limit"
  shows "\<exists>rs' D' s' G'. select_rounds E now a limit (rs, D) s = (Inr rs', s') \<and> invar (sq_mb s')
    \<and> progress E view now a (view b0 src) V rs' D' s' G' \<and> complete a V G'"
  using assms(9-)
proof (induction "nat (maxCandidateFetchLimit - limit)" arbitrary: limit rs D s G rule: less_induct)
  case less
  have q: "queue_ok (sa_queueName a)" using E(3) by (simp add: args_ok_def)
  obtain W where W: "is_listing (view (sq_mb s) src) (\<lambda>m. messageVisibleAt m now) W"
      "sa_fifo a \<longrightarrow> sorted (map fifo_key W)"
      "mb_receiveCandidates ops (sq_mb s) (env_region E) (sa_queueName a) now limit (sa_fifo a) = Inr (take (nat limit) W)"
    using candidates_law [OF less.prems(1) q, of "env_region E" now "sa_fifo a" limit] less.prems(3) src by auto
  let ?cs = "take (nat limit) W"
  have cs: "receiveCandidates E (sa_queueName a) now limit (sa_fifo a) s = Inr ?cs"
    using W(3) E(1) by (simp add: receiveCandidates_def mb_read_def)
  have p: "set D = msg_MessageID ` set G" "set G \<subseteq> set V" "only_moved a (set D) (view b0 src) (view (sq_mb s) src)"
    "\<forall>r \<in> set rs. rm_MessageId r \<in> set D \<and> held (view (sq_mb s)) src now (sa_visibilityTimeout a) r"
    using less.prems(2) by (auto simp: progress_def src)
  have WV: "length W \<le> length V" by (rule visible_shrinks [OF V(1) less.prems(1) V(2) W(1) p(1,2,3)])
  have "distinct (map msg_MessageID ?cs)"
    using W(1) by (metis is_listing_def distinct_take take_map)
  moreover have "view (sq_mb s) src (msg_MessageID m) = Some m" if "m \<in> set ?cs" for m
  proof -
    have "m \<in> ran (view (sq_mb s) src)" using W(1) that set_take_subset by (fastforce simp: is_listing_def)
    then show ?thesis by (rule ran_view [OF less.prems(1)])
  qed
  ultimately obtain rs' D' s' where d: "deliver E now a ?cs (rs, D) s = (Inr (rs', D'), s')" "invar (sq_mb s')"
      "round_result E view now a ?cs rs D s rs' D' s'"
    using deliver_spec [OF E less.prems(1), of ?cs D rs] p(4) src by blast
  obtain G' where G': "progress E view now a (view b0 src) V rs' D' s' G'"
      "length W \<le> nat limit \<or> sa_maxMessages a \<le> int (length rs') \<longrightarrow> complete a V G'"
    using round_progress [OF V(1) less.prems(1) V(2,3) W(1,2) less.prems(2) d(3) src] by blast
  note unf = select_rounds.simps [of E now a limit rs D s] cs d(1)
  show ?case
  proof (cases "sa_maxMessages a \<le> int (length rs') \<or> int (length ?cs) < limit \<or> maxCandidateFetchLimit \<le> limit")
    case True
    then have "length W \<le> nat limit \<or> sa_maxMessages a \<le> int (length rs')" using WV V(4) by auto
    then have "complete a V G'" using G'(2) by blast
    moreover have "select_rounds E now a limit (rs, D) s = (Inr rs', s')" using True by (auto simp: unf)
    ultimately show ?thesis using G'(1) d(2) by blast
  next
    case False
    then have "select_rounds E now a limit (rs, D) s = select_rounds E now a (limit * 2) (rs', D') s'"
      using less.prems(3) by (simp add: unf)
    moreover have "nat (maxCandidateFetchLimit - limit * 2) < nat (maxCandidateFetchLimit - limit)" "0 < limit * 2"
      using False less.prems(3) by auto
    ultimately show ?thesis using less.hyps [OF _ d(2) G'(1)] by metis
  qed
qed

end

section \<open>One pass over the queue\<close>

text \<open>
  What the service promises, over the list \<open>all\<close> of the queue's messages: a visible message
  may be delivered unless its FIFO group has an invisible message or its next receive would
  exceed the redrive policy's maximum; a FIFO queue delivers in sequence.
\<close>

definition may_deliver :: "int \<Rightarrow> Queue \<Rightarrow> Message list \<Rightarrow> Message \<Rightarrow> bool" where
  "may_deliver now q all m \<longleftrightarrow>
     (isFifoQueue q \<and> msg_MessageGroupId m \<noteq> [] \<longrightarrow>
        list_all (\<lambda>m'. msg_MessageGroupId m' = msg_MessageGroupId m \<longrightarrow> messageVisibleAt m' now) all)
     \<and> (case redrive_or_nil (q_Attributes q) of
          None \<Rightarrow> True | Some rp \<Rightarrow> msg_ApproximateReceiveCount m + 1 \<le> rp_MaxReceiveCount rp)"

definition visible_in_order :: "int \<Rightarrow> Queue \<Rightarrow> Message list \<Rightarrow> Message list" where
  "visible_in_order now q all =
     (let vis = filter (\<lambda>m. messageVisibleAt m now) all in if isFifoQueue q then sort_key fifo_key vis else vis)"

definition eligible :: "int \<Rightarrow> Queue \<Rightarrow> Message list \<Rightarrow> Message list" where
  "eligible now q all = filter (may_deliver now q all) (visible_in_order now q all)"

text \<open>What a receive asks of the queue, the clock and the redrive target.\<close>

definition receive_ok :: "int \<Rightarrow> string \<Rightarrow> Queue \<Rightarrow> int \<Rightarrow> bool" where
  "receive_ok now queueName q vt \<longleftrightarrow>
     queue_ok queueName \<and> marshal_year_ok now \<and> marshal_year_ok (now + duration_seconds vt) \<and> valid_utf8 (q_ARN q)
     \<and> (case redrive_or_nil (q_Attributes q) of
          None \<Rightarrow> True
        | Some rp \<Rightarrow> queue_ok (queueNameFromARN (rp_DeadLetterTargetArn rp))
            \<and> queueNameFromARN (rp_DeadLetterTargetArn rp) \<noteq> queueName)"

context message_backend
begin

lemma select_spec:
  assumes E: "env_backend E = ops" "env_ok E" "receive_ok now queueName q vt"
    and inv: "invar (sq_mb s)" and all: "mb_listMessages ops (sq_mb s) (env_region E) queueName = Inr all"
    and size: "int (length (visible_in_order now q all)) \<le> maxCandidateFetchLimit" and max: "1 \<le> maxMessages"
    and src: "src = (env_region E, queueName)"
  shows "\<exists>received s' G. selectVisibleMessages E now queueName q maxMessages vt names mnames s = (Inr received, s')
    \<and> invar (sq_mb s') \<and> map rm_pair received = map msg_pair G \<and> distinct (map rm_MessageId received)
    \<and> set G \<subseteq> set (eligible now q all) \<and> (isFifoQueue q \<longrightarrow> G = take (nat maxMessages) (eligible now q all))
    \<and> int (length received) = min maxMessages (int (length (eligible now q all)))
    \<and> (\<forall>r \<in> set received. held (view (sq_mb s')) src now vt r)
    \<and> (\<forall>mid. mid \<notin> set (map rm_MessageId received) \<longrightarrow> view (sq_mb s') src mid = view (sq_mb s) src mid
          \<or> view (sq_mb s') src mid = None \<and> (\<exists>m \<in> set all. msg_MessageID m = mid \<and> \<not> may_deliver now q all m))"
proof -
  have qok: "queue_ok queueName" using E(3) by (simp add: receive_ok_def)
  have L: "is_listing (view (sq_mb s) src) (\<lambda>_. True) all"
    using list_law [OF inv qok, of "env_region E"] all src by auto
  obtain gs where gs: "mb_blockedGroups ops (sq_mb s) (env_region E) queueName now = Inr gs"
      "set gs = {g. g \<noteq> [] \<and> (\<exists>m \<in> ran (view (sq_mb s) src). msg_MessageGroupId m = g \<and> \<not> messageVisibleAt m now)}"
    using blocked_law [OF inv qok] src by blast
  define a where "a = \<lparr>sa_queueName = queueName, sa_queue = q, sa_rp = redrive_or_nil (q_Attributes q), sa_fifo = isFifoQueue q,
     sa_blocked = (if isFifoQueue q then gs else []), sa_maxMessages = maxMessages, sa_visibilityTimeout = vt,
     sa_systemAttrNames = names, sa_messageAttrNames = mnames\<rparr>"
  have sel: "selectVisibleMessages E now queueName q maxMessages vt names mnames s
      = select_rounds E now a (candidateFetchLimit maxMessages (isFifoQueue q)) ([], []) s"
    using gs(1) E(1) by (simp add: selectVisibleMessages_def Let_def blockedGroups_def mb_read_def a_def)
  let ?V = "visible_in_order now q all"
  have V: "is_listing (view (sq_mb s) src) (\<lambda>m. messageVisibleAt m now) ?V" "sa_fifo a \<longrightarrow> sorted (map fifo_key ?V)"
    using is_listing_filter [OF L, of "\<lambda>m. messageVisibleAt m now"]
    by (auto simp: visible_in_order_def Let_def a_def intro: is_listing_perm)
  have dl: "deliverable a m \<longleftrightarrow> may_deliver now q all m" for m
  proof -
    have "set all = ran (view (sq_mb s) src)" using L by (simp add: is_listing_def)
    then have "set gs = {g. g \<noteq> [] \<and> (\<exists>m \<in> set all. msg_MessageGroupId m = g \<and> \<not> messageVisibleAt m now)}"
      using gs(2) by simp
    then have "\<not> is_blocked a m \<longleftrightarrow> (isFifoQueue q \<and> msg_MessageGroupId m \<noteq> [] \<longrightarrow>
        (\<forall>m' \<in> set all. msg_MessageGroupId m' = msg_MessageGroupId m \<longrightarrow> messageVisibleAt m' now))"
      by (auto simp: is_blocked_def a_def)
    then show ?thesis
      by (auto simp: deliverable_def is_exhausted_def may_deliver_def list_all_iff a_def split: option.splits)
  qed
  then have F: "filter (deliverable a) ?V = eligible now q all" unfolding eligible_def by presburger
  have args: "args_ok now a"
    using E(3) by (auto simp: args_ok_def receive_ok_def a_def dlq_name_def split: option.splits)
  have sa: "sa_queueName a = queueName" "sa_fifo a = isFifoQueue q" "sa_visibilityTimeout a = vt" "sa_maxMessages a = maxMessages"
    by (simp_all add: a_def)
  have start: "progress E view now a (view (sq_mb s) src) ?V [] [] s []" using max by (simp add: progress_def a_def src)
  have "0 < candidateFetchLimit maxMessages (isFifoQueue q)" using max by (simp add: candidateFetchLimit_def)
  from select_rounds_spec [OF E(1,2) args inv V size _ inv start this] obtain rs D s' G where
    r: "select_rounds E now a (candidateFetchLimit maxMessages (isFifoQueue q)) ([], []) s = (Inr rs, s')" "invar (sq_mb s')"
      "progress E view now a (view (sq_mb s) src) ?V rs D s' G" "complete a ?V G"
    using src by (auto simp: a_def)
  have G: "map rm_pair rs = map msg_pair G" "set D = msg_MessageID ` set G" "distinct G" "set G \<subseteq> set (eligible now q all)"
    "sa_fifo a \<longrightarrow> G = take (length G) (eligible now q all)"
    "\<forall>r \<in> set rs. held (view (sq_mb s')) src now vt r" "only_moved a (set D) (view (sq_mb s) src) (view (sq_mb s') src)"
    using r(3) unfolding progress_def F sa src by blast+
  have len: "length rs = length G" using G(1) by (metis length_map)
  have count: "int (length G) = min maxMessages (int (length (eligible now q all)))"
    using r(4) unfolding complete_def F by (simp add: a_def)
  have ids: "map rm_MessageId rs = map msg_MessageID G"
    using arg_cong [OF G(1), of "map fst"] by (simp add: rm_pair_def msg_pair_def comp_def)
  have "inj_on msg_MessageID (set ?V)" using V(1) unfolding is_listing_def distinct_map by blast
  then have dist: "distinct (map rm_MessageId rs)"
    unfolding ids using G(3,4) by (auto simp: distinct_map eligible_def intro: inj_on_subset)
  have fifo: "G = take (nat maxMessages) (eligible now q all)" if "isFifoQueue q"
  proof -
    have "length G = min (nat maxMessages) (length (eligible now q all))" using count by (rule nat_min_count)
    moreover have "G = take (length G) (eligible now q all)" using G(5) that sa(2) by blast
    ultimately show ?thesis by (metis min.commute order_refl take_all take_take)
  qed
  have "view (sq_mb s') src mid = view (sq_mb s) src mid \<or> view (sq_mb s') src mid = None
      \<and> (\<exists>m \<in> set all. msg_MessageID m = mid \<and> \<not> may_deliver now q all m)" if "mid \<notin> set (map rm_MessageId rs)" for mid
  proof -
    have "mid \<notin> set D" using that unfolding ids G(2) by simp
    then have "view (sq_mb s') src mid = view (sq_mb s) src mid
        \<or> view (sq_mb s') src mid = None \<and> (\<exists>m. view (sq_mb s) src mid = Some m \<and> is_exhausted a m)"
      using G(7) unfolding only_moved_def by blast
    moreover have "m \<in> set all \<and> msg_MessageID m = mid" if "view (sq_mb s) src mid = Some m" for m
    proof -
      have "m \<in> ran (view (sq_mb s) src)" using that by (rule ranI)
      moreover have "msg_MessageID m = mid" using stored_law [OF inv] that by blast
      ultimately show ?thesis using L by (simp add: is_listing_def)
    qed
    moreover have "is_exhausted a m \<Longrightarrow> \<not> may_deliver now q all m" for m using dl [of m] by (simp add: deliverable_def)
    ultimately show ?thesis by blast
  qed
  with r(1,2) G(1,4,6) len count dist fifo show ?thesis unfolding sel by metis
qed

end

end
