(* ===== verification/Sqs_Delivery.thy ===== *)
theory Sqs_Delivery
  imports Sqs_Select
begin

text \<open>
  Delivery across calls, for every message backend that keeps its contract: what a second
  receive sees after a first one, that repeated receives drain a queue, and what a receipt
  handle still stands for.  The last section states these for the in-process backend.
\<close>

section \<open>The stored messages of a queue\<close>

definition backlog :: "('s, 'b) sqs_env \<Rightarrow> string \<Rightarrow> ('s, 'b) sqs_state \<Rightarrow> Message list" where
  "backlog E queueName s = (case listMessages E queueName s of Inl _ \<Rightarrow> [] | Inr ms \<Rightarrow> ms)"

lemma visible_in_order_size: "length (visible_in_order now q all) \<le> length all"
  by (simp add: visible_in_order_def Let_def)

lemma set_visible_in_order [simp]: "set (visible_in_order now q all) = {m \<in> set all. messageVisibleAt m now}"
  by (auto simp: visible_in_order_def Let_def)

lemma set_eligible: "set (eligible now q all) = {m \<in> set all. messageVisibleAt m now \<and> may_deliver now q all m}"
  by (auto simp: eligible_def)

lemma distinct_eligible: "distinct all \<Longrightarrow> distinct (eligible now q all)"
  by (simp add: eligible_def visible_in_order_def Let_def)

text \<open>In a standard queue only the receive count decides.\<close>

lemma may_deliver_standard: "\<not> isFifoQueue q \<Longrightarrow> may_deliver now q all m \<Longrightarrow> may_deliver now' q all' m"
  by (simp add: may_deliver_def)

lemma rm_pair_ids: "map rm_pair rs = map msg_pair G \<Longrightarrow> map rm_MessageId rs = map msg_MessageID G"
proof -
  assume eq: "map rm_pair rs = map msg_pair G"
  show ?thesis using arg_cong [OF eq, of "map fst"] by (simp add: rm_pair_def msg_pair_def comp_def)
qed

section \<open>Receipt handles\<close>

definition no_newline :: "string \<Rightarrow> bool" where
  "no_newline s \<longleftrightarrow> CHR 0x0A \<notin> set s"

lemma Cut_no_sep: "c \<notin> set a \<Longrightarrow> Cut (a @ c # b) c = (a, b, True)"
  by (induction a) auto

lemma decode_receipt:
  "no_newline queueName \<Longrightarrow> no_newline mid \<Longrightarrow>
     decodeReceiptHandle (b64_encode (receipt_payload queueName mid nonce)) = Some (queueName, mid)"
  by (simp add: decodeReceiptHandle_def b64_roundtrip receipt_payload_def no_newline_def Cut_no_sep numeral_3_eq_3)

section \<open>Receiving again and again\<close>

text \<open>One receive at each of the given instants.\<close>

fun receive_rounds ::
  "('s, 'b) sqs_env \<Rightarrow> string \<Rightarrow> Queue \<Rightarrow> int \<Rightarrow> int \<Rightarrow> int list \<Rightarrow> ('s, 'b) sqs_state
    \<Rightarrow> receivedMessage list aws \<times> ('s, 'b) sqs_state"
where
  "receive_rounds E queueName q maxMessages vt [] s = (Inr [], s)"
| "receive_rounds E queueName q maxMessages vt (now # ts) s =
     (case selectVisibleMessages E now queueName q maxMessages vt [] [] s of
        (Inl err, s') \<Rightarrow> (Inl err, s')
      | (Inr rs, s') \<Rightarrow>
          (case receive_rounds E queueName q maxMessages vt ts s' of
             (Inl err, s'') \<Rightarrow> (Inl err, s'')
           | (Inr rs', s'') \<Rightarrow> (Inr (rs @ rs'), s'')))"

text \<open>
  Receives are made of one queue under one name; \<open>receive_pre\<close> is what the theorems ask of
  a call.
\<close>

definition receive_pre :: "('s, 'b) sqs_env \<Rightarrow> int \<Rightarrow> string \<Rightarrow> Queue \<Rightarrow> int \<Rightarrow> int \<Rightarrow> ('s, 'b) sqs_state \<Rightarrow> bool" where
  "receive_pre E now queueName q maxMessages vt s \<longleftrightarrow>
     env_ok E \<and> receive_ok now queueName q vt \<and> 1 \<le> maxMessages
     \<and> int (length (backlog E queueName s)) \<le> maxCandidateFetchLimit"

section \<open>After a receive\<close>

text \<open>
  One receive, over the stored messages.  The delivered messages are those of \<open>G\<close>; they stay
  in the queue, invisible until the timeout, under the handles that were returned.
\<close>

definition received_from ::
  "('b \<Rightarrow> queues_view) \<Rightarrow> ('s, 'b) sqs_env \<Rightarrow> int \<Rightarrow> string \<Rightarrow> Queue \<Rightarrow> int \<Rightarrow> int \<Rightarrow> ('s, 'b) sqs_state \<Rightarrow> receivedMessage list
    \<Rightarrow> Message list \<Rightarrow> ('s, 'b) sqs_state \<Rightarrow> bool"
where
  "received_from view E now queueName q maxMessages vt s rs G s' \<longleftrightarrow>
     (let all = backlog E queueName s in
      map rm_pair rs = map msg_pair G \<and> distinct (map rm_MessageId rs) \<and> set G \<subseteq> set (eligible now q all)
      \<and> (isFifoQueue q \<longrightarrow> G = take (nat maxMessages) (eligible now q all))
      \<and> int (length rs) = min maxMessages (int (length (eligible now q all)))
      \<and> (\<forall>r \<in> set rs. held (view (sq_mb s')) (env_region E, queueName) now vt r)
      \<and> (\<forall>m. msg_MessageID m \<notin> set (map rm_MessageId rs) \<and> (m \<in> set (backlog E queueName s')) \<longrightarrow> m \<in> set all)
      \<and> (\<forall>m \<in> set all. msg_MessageID m \<notin> set (map rm_MessageId rs) \<and> may_deliver now q all m \<longrightarrow> m \<in> set (backlog E queueName s')))"

context message_backend
begin

lemma backlog_listing:
  assumes "env_backend E = ops" "invar (sq_mb s)" "queue_ok queueName"
  shows "mb_listMessages ops (sq_mb s) (env_region E) queueName = Inr (backlog E queueName s)"
    and "is_listing (view (sq_mb s) (env_region E, queueName)) (\<lambda>_. True) (backlog E queueName s)"
  using list_law [OF assms(2,3), of "env_region E"] assms(1) by (auto simp: backlog_def listMessages_def mb_read_def)

lemma backlog_view:
  assumes "env_backend E = ops" "invar (sq_mb s)" "queue_ok queueName"
  shows "m \<in> set (backlog E queueName s) \<longleftrightarrow> view (sq_mb s) (env_region E, queueName) (msg_MessageID m) = Some m"
proof -
  have "set (backlog E queueName s) = ran (view (sq_mb s) (env_region E, queueName))"
    using backlog_listing(2) [OF assms] by (simp add: is_listing_def)
  then show ?thesis using ran_view [OF assms(2)] by (auto intro: ranI)
qed

lemma receive_spec:
  assumes E: "env_backend E = ops" "invar (sq_mb s)" and pre: "receive_pre E now queueName q maxMessages vt s"
  shows "\<exists>rs s' G. selectVisibleMessages E now queueName q maxMessages vt names mnames s = (Inr rs, s')
    \<and> invar (sq_mb s') \<and> received_from view E now queueName q maxMessages vt s rs G s'"
proof -
  let ?src = "(env_region E, queueName)" and ?all = "backlog E queueName s"
  have p: "env_ok E" "receive_ok now queueName q vt" "1 \<le> maxMessages" "int (length ?all) \<le> maxCandidateFetchLimit"
    using pre by (simp_all add: receive_pre_def)
  have q: "queue_ok queueName" using p(2) by (simp add: receive_ok_def)
  have size: "int (length (visible_in_order now q ?all)) \<le> maxCandidateFetchLimit"
    using p(4) visible_in_order_size [of now q ?all] by linarith
  obtain rs s' G where r: "selectVisibleMessages E now queueName q maxMessages vt names mnames s = (Inr rs, s')"
      "invar (sq_mb s')" "map rm_pair rs = map msg_pair G" "distinct (map rm_MessageId rs)"
      "set G \<subseteq> set (eligible now q ?all)" "isFifoQueue q \<longrightarrow> G = take (nat maxMessages) (eligible now q ?all)"
      "int (length rs) = min maxMessages (int (length (eligible now q ?all)))"
      "\<forall>r \<in> set rs. held (view (sq_mb s')) ?src now vt r"
      "\<forall>mid. mid \<notin> set (map rm_MessageId rs) \<longrightarrow> view (sq_mb s') ?src mid = view (sq_mb s) ?src mid
          \<or> view (sq_mb s') ?src mid = None \<and> (\<exists>m \<in> set ?all. msg_MessageID m = mid \<and> \<not> may_deliver now q ?all m)"
    using select_spec [OF E(1) p(1,2) E(2) backlog_listing(1) [OF E q] size p(3) refl] by blast
  note bv = backlog_view [OF E q] backlog_view [OF E(1) r(2) q]
  have same: "m = m'" if "m \<in> set ?all" "m' \<in> set ?all" "msg_MessageID m = msg_MessageID m'" for m m'
    using that by (simp add: bv)
  have "m \<in> set ?all" if "msg_MessageID m \<notin> set (map rm_MessageId rs)" "m \<in> set (backlog E queueName s')" for m
  proof -
    have v: "view (sq_mb s') ?src (msg_MessageID m) = Some m" using that(2) by (simp only: bv)
    then have "view (sq_mb s') ?src (msg_MessageID m) = view (sq_mb s) ?src (msg_MessageID m)"
      using r(9) [rule_format, OF that(1)] by simp
    with v show ?thesis by (simp only: bv)
  qed
  moreover have "m \<in> set (backlog E queueName s')"
    if "m \<in> set ?all" "msg_MessageID m \<notin> set (map rm_MessageId rs)" "may_deliver now q ?all m" for m
  proof -
    have "view (sq_mb s') ?src (msg_MessageID m) = view (sq_mb s) ?src (msg_MessageID m)"
      using r(9) [rule_format, OF that(2)] same [OF _ that(1)] that(3) by blast
    then show ?thesis using that(1) by (simp only: bv)
  qed
  ultimately have "received_from view E now queueName q maxMessages vt s rs G s'"
    unfolding received_from_def Let_def using r(3-8) by blast
  then show ?thesis using r(1,2) by blast
qed

text \<open>What a received message leaves in the queue.\<close>

lemma received_stored:
  assumes E: "env_backend E = ops" "invar (sq_mb s')" "queue_ok queueName"
    and rf: "received_from view E now queueName q maxMessages vt s rs G s'" and r: "r \<in> set rs"
  obtains m nonce where "m \<in> set (backlog E queueName s')" "msg_MessageID m = rm_MessageId r" "msg_Body m = rm_Body r"
    "msg_ReceiptHandle m = rm_ReceiptHandle r" "msg_VisibleAfter m = now + duration_seconds vt"
    "rm_ReceiptHandle r = b64_encode (receipt_payload queueName (rm_MessageId r) nonce)"
proof -
  have "held (view (sq_mb s')) (env_region E, queueName) now vt r"
    using rf r unfolding received_from_def Let_def by blast
  then obtain m nonce where m: "view (sq_mb s') (env_region E, queueName) (rm_MessageId r) = Some m"
      "msg_ReceiptHandle m = rm_ReceiptHandle r" "msg_VisibleAfter m = now + duration_seconds vt" "msg_Body m = rm_Body r"
      "rm_ReceiptHandle r = b64_encode (receipt_payload queueName (rm_MessageId r) nonce)"
    by (auto simp: held_def)
  have "msg_MessageID m = rm_MessageId r" using stored_law [OF E(2)] m(1) by blast
  with m show thesis using that backlog_view [OF E] by metis
qed

lemma backlog_unique:
  assumes "env_backend E = ops" "invar (sq_mb s)" "queue_ok queueName"
    and "m \<in> set (backlog E queueName s)" "m' \<in> set (backlog E queueName s)" "msg_MessageID m = msg_MessageID m'"
  shows "m = m'"
  using assms(4-) backlog_view [OF assms(1-3)] by simp

lemma received_ids:
  assumes "received_from view E now queueName q maxMessages vt s rs G s'"
  shows "map rm_MessageId rs = map msg_MessageID G" "set G \<subseteq> set (eligible now q (backlog E queueName s))"
    "length rs = length G" "distinct G"
proof -
  have G: "map rm_pair rs = map msg_pair G" "distinct (map rm_MessageId rs)"
    "set G \<subseteq> set (eligible now q (backlog E queueName s))" using assms unfolding received_from_def Let_def by blast+
  show "map rm_MessageId rs = map msg_MessageID G" using G(1) by (rule rm_pair_ids)
  with G(2) show "distinct G" by (simp add: distinct_map)
  show "length rs = length G" using G(1) by (metis length_map)
  show "set G \<subseteq> set (eligible now q (backlog E queueName s))" by (rule G(3))
qed

text \<open>Nothing is delivered again before its timeout.\<close>

lemma no_double_delivery_spec:
  assumes E: "env_backend E = ops" "invar (sq_mb s)"
    and pre: "receive_pre E now queueName q n vt s" "receive_pre E now' queueName q n' vt' s'"
    and first: "selectVisibleMessages E now queueName q n vt names mnames s = (Inr rs, s')"
    and second: "selectVisibleMessages E now' queueName q n' vt' names' mnames' s' = (Inr rs', s'')"
    and soon: "now' < now + duration_seconds vt"
  shows "set (map rm_MessageId rs) \<inter> set (map rm_MessageId rs') = {}"
proof -
  obtain G where s': "invar (sq_mb s')" "received_from view E now queueName q n vt s rs G s'"
    using receive_spec [OF E pre(1), of names mnames] first by auto
  obtain G' where G': "received_from view E now' queueName q n' vt' s' rs' G' s''"
    using receive_spec [OF E(1) s'(1) pre(2), of names' mnames'] second by auto
  have q: "queue_ok queueName" using pre(1) by (simp add: receive_pre_def receive_ok_def)
  show ?thesis
  proof (rule ccontr)
    assume "set (map rm_MessageId rs) \<inter> set (map rm_MessageId rs') \<noteq> {}"
    then obtain i where "i \<in> set (map rm_MessageId rs)" "i \<in> set (map msg_MessageID G')"
      unfolding received_ids(1) [OF G'] by blast
    then obtain r m' where r: "r \<in> set rs" "m' \<in> set G'" "rm_MessageId r = msg_MessageID m'" by auto
    from received_stored [OF E(1) s'(1) q s'(2) r(1)] obtain m where
      m: "m \<in> set (backlog E queueName s')" "msg_MessageID m = rm_MessageId r" "msg_VisibleAfter m = now + duration_seconds vt"
      by metis
    have "m' \<in> set (backlog E queueName s')" "messageVisibleAt m' now'"
      using received_ids(2) [OF G'] r(2) by (auto simp: set_eligible)
    then have "messageVisibleAt m now'" using backlog_unique [OF E(1) s'(1) q m(1)] r(3) m(2) by metis
    with m(3) soon show False by (simp add: messageVisibleAt_def)
  qed
qed

text \<open>Every backlog shrinks to a part of what it was.\<close>

lemma backlog_shrinks:
  assumes E: "env_backend E = ops" "invar (sq_mb s)" "invar (sq_mb s')" "queue_ok queueName"
    and rf: "received_from view E now queueName q maxMessages vt s rs G s'"
  shows "length (backlog E queueName s') \<le> length (backlog E queueName s)"
proof -
  have ids: "distinct (map msg_MessageID (backlog E queueName s))" "distinct (map msg_MessageID (backlog E queueName s'))"
    using backlog_listing(2) [OF E(1,2,4)] backlog_listing(2) [OF E(1,3,4)] by (simp_all add: is_listing_def)
  have "msg_MessageID m \<in> msg_MessageID ` set (backlog E queueName s)" if m: "m \<in> set (backlog E queueName s')" for m
  proof (cases "msg_MessageID m \<in> set (map rm_MessageId rs)")
    case True
    then show ?thesis using received_ids(1,2) [OF rf] by (force simp: set_eligible)
  next
    case False
    with m rf have "m \<in> set (backlog E queueName s)" unfolding received_from_def Let_def by blast
    then show ?thesis by blast
  qed
  then have "set (map msg_MessageID (backlog E queueName s')) \<subseteq> set (map msg_MessageID (backlog E queueName s))" by auto
  then show ?thesis using ids by (metis card_mono distinct_card List.finite_set length_map)
qed

text \<open>
  In a standard queue a receive takes its messages out of what is left to deliver, until its
  visibility timeout.
\<close>

lemma standard_remaining:
  assumes E: "env_backend E = ops" "invar (sq_mb s)" "invar (sq_mb s')" "queue_ok queueName"
    and rf: "received_from view E now queueName q maxMessages vt s rs G s'"
    and std: "\<not> isFifoQueue q" and u: "u < now + duration_seconds vt"
  shows "set (eligible u q (backlog E queueName s')) = set (eligible u q (backlog E queueName s)) - set G"
proof (intro equalityI subsetI)
  fix m
  assume m: "m \<in> set (eligible u q (backlog E queueName s'))"
  then have b: "m \<in> set (backlog E queueName s')" "messageVisibleAt m u" by (auto simp: set_eligible)
  have fresh: "msg_MessageID m \<notin> set (map rm_MessageId rs)"
  proof
    assume "msg_MessageID m \<in> set (map rm_MessageId rs)"
    then obtain r where r: "r \<in> set rs" "rm_MessageId r = msg_MessageID m" by auto
    from received_stored [OF E(1,3,4) rf r(1)] obtain m2 where
      m2: "m2 \<in> set (backlog E queueName s')" "msg_MessageID m2 = rm_MessageId r"
        "msg_VisibleAfter m2 = now + duration_seconds vt" by metis
    have "m = m2" using backlog_unique [OF E(1,3,4) b(1) m2(1)] r(2) m2(2) by simp
    then show False using b(2) m2(3) u by (simp add: messageVisibleAt_def)
  qed
  then have "m \<in> set (backlog E queueName s)" using rf b(1) unfolding received_from_def Let_def by blast
  moreover have "m \<notin> set G" using fresh received_ids(1) [OF rf] by auto
  ultimately show "m \<in> set (eligible u q (backlog E queueName s)) - set G"
    using m by (auto simp: set_eligible intro: may_deliver_standard [OF std])
next
  fix m
  assume m: "m \<in> set (eligible u q (backlog E queueName s)) - set G"
  then have a: "m \<in> set (backlog E queueName s)" "may_deliver u q (backlog E queueName s) m" "messageVisibleAt m u"
    by (auto simp: set_eligible)
  have d: "may_deliver now q (backlog E queueName s) m" by (rule may_deliver_standard [OF std a(2)])
  have "msg_MessageID m \<notin> set (map rm_MessageId rs)"
  proof
    assume "msg_MessageID m \<in> set (map rm_MessageId rs)"
    then obtain g where "g \<in> set G" "msg_MessageID g = msg_MessageID m" using received_ids(1) [OF rf] by auto
    moreover then have "g = m" using received_ids(2) [OF rf] by (intro backlog_unique [OF E(1,2,4) _ a(1)]) (auto simp: set_eligible)
    ultimately show False using m by blast
  qed
  then have "m \<in> set (backlog E queueName s')" using rf a(1) d unfolding received_from_def Let_def by blast
  then show "m \<in> set (eligible u q (backlog E queueName s'))"
    using a by (auto simp: set_eligible intro: may_deliver_standard [OF std])
qed

lemma eligible_later:
  assumes "\<not> isFifoQueue q" "t \<le> u"
  shows "set (eligible t q all) \<subseteq> set (eligible u q all)"
  using assms by (auto simp: set_eligible messageVisibleAt_def intro: may_deliver_standard [OF assms(1)])

lemma drain_count:
  assumes "int k * M \<le> int h" "int g = M"
  shows "int (Suc k) * M \<le> int (g + h)"
  using assms by (simp add: algebra_simps)

text \<open>
  Receives at instants between \<open>t0\<close> and \<open>t1\<close>, less than a visibility timeout apart: they return
  different messages, all eligible at \<open>t1\<close>, and either all that are eligible at \<open>t0\<close> or as many as
  were asked for.
\<close>

lemma drain_spec:
  assumes "env_backend E = ops" "invar (sq_mb s)"
    and "\<forall>t \<in> set ts. t0 \<le> t \<and> t \<le> t1 \<and> receive_pre E t queueName q maxMessages vt s"
    and "queue_ok queueName" "\<not> isFifoQueue q" "t1 < t0 + duration_seconds vt"
  shows "\<exists>rs s' H. receive_rounds E queueName q maxMessages vt ts s = (Inr rs, s') \<and> invar (sq_mb s')
    \<and> map rm_pair rs = map msg_pair H \<and> distinct H \<and> set H \<subseteq> set (eligible t1 q (backlog E queueName s))
    \<and> (set (eligible t0 q (backlog E queueName s)) \<subseteq> set H \<or> int (length ts) * maxMessages \<le> int (length H))"
  using assms(2,3)
proof (induction ts arbitrary: s)
  case Nil
  then show ?case by simp
next
  case (Cons t ts)
  let ?el = "\<lambda>u s. eligible u q (backlog E queueName s)"
  have t: "t0 \<le> t" "t \<le> t1" "receive_pre E t queueName q maxMessages vt s" using Cons.prems(2) by simp_all
  have q: "queue_ok queueName" by (rule assms(4))
  have M: "1 \<le> maxMessages" using t(3) by (simp add: receive_pre_def)
  obtain rs s1 G where r: "selectVisibleMessages E t queueName q maxMessages vt [] [] s = (Inr rs, s1)" "invar (sq_mb s1)"
      "received_from view E t queueName q maxMessages vt s rs G s1"
    using receive_spec [OF assms(1) Cons.prems(1) t(3)] by blast
  have "\<forall>u \<in> set ts. t0 \<le> u \<and> u \<le> t1 \<and> receive_pre E u queueName q maxMessages vt s1"
    using Cons.prems(2) backlog_shrinks [OF assms(1) Cons.prems(1) r(2) q r(3)] by (auto simp: receive_pre_def)
  from Cons.IH [OF r(2) this] obtain rs' s' H where
    H: "receive_rounds E queueName q maxMessages vt ts s1 = (Inr rs', s')" "invar (sq_mb s')" "map rm_pair rs' = map msg_pair H"
      "distinct H" "set H \<subseteq> set (?el t1 s1)" "set (?el t0 s1) \<subseteq> set H \<or> int (length ts) * maxMessages \<le> int (length H)" by blast
  note G = received_ids [OF r(3)]
  have rem: "set (?el u s1) = set (?el u s) - set G" if "u \<le> t1" for u
    by (rule standard_remaining [OF assms(1) Cons.prems(1) r(2) q r(3) assms(5)]) (use that assms(6) t(1) in linarith)
  have size: "int (length G) = min maxMessages (int (length (?el t s)))"
    using r(3) G(3) by (simp add: received_from_def Let_def)
  have "set (?el t0 s) \<subseteq> set (G @ H) \<or> int (length (t # ts)) * maxMessages \<le> int (length (G @ H))"
  proof (cases "int (length G) = maxMessages")
    case True
    show ?thesis using H(6)
    proof
      assume "set (?el t0 s1) \<subseteq> set H"
      then show ?thesis using rem [of t0] t(1,2) by auto
    next
      assume "int (length ts) * maxMessages \<le> int (length H)"
      from drain_count [OF this True] show ?thesis by simp
    qed
  next
    case False
    then have "length G = length (?el t s)" using size by simp
    moreover have "distinct (?el t s)"
      using backlog_listing(2) [OF assms(1) Cons.prems(1) q] by (auto intro: distinct_eligible is_listing_distinct)
    ultimately have "set G = set (?el t s)" using G(2,4) by (metis card_subset_eq distinct_card List.finite_set)
    then show ?thesis using eligible_later [OF assms(5) t(1)] by auto
  qed
  moreover have "map rm_pair (rs @ rs') = map msg_pair (G @ H)"
    using r(3) H(3) by (simp add: received_from_def Let_def)
  moreover have "distinct (G @ H)" "set (G @ H) \<subseteq> set (?el t1 s)"
    using G(2,4) H(4,5) rem [of t1] eligible_later [OF assms(5) t(2), of "backlog E queueName s"] by auto
  moreover have "receive_rounds E queueName q maxMessages vt (t # ts) s = (Inr (rs @ rs'), s')" using r(1) H(1) by simp
  ultimately show ?case using H(2) by blast
qed

lemma drain_all:
  assumes "env_backend E = ops" "invar (sq_mb s)"
    and "\<forall>t \<in> set ts. t0 \<le> t \<and> t \<le> t1 \<and> receive_pre E t queueName q maxMessages vt s"
    and "queue_ok queueName" "\<not> isFifoQueue q" "t1 < t0 + duration_seconds vt"
    and enough: "int (length (backlog E queueName s)) \<le> int (length ts) * maxMessages"
  shows "\<exists>rs s'. receive_rounds E queueName q maxMessages vt ts s = (Inr rs, s')
    \<and> distinct (map rm_MessageId rs)
    \<and> set (map msg_pair (eligible t0 q (backlog E queueName s))) \<subseteq> set (map rm_pair rs)
    \<and> set (map rm_pair rs) \<subseteq> set (map msg_pair (eligible t1 q (backlog E queueName s)))"
proof -
  let ?el = "\<lambda>u. eligible u q (backlog E queueName s)"
  obtain rs s' H where H: "receive_rounds E queueName q maxMessages vt ts s = (Inr rs, s')" "map rm_pair rs = map msg_pair H"
      "distinct H" "set H \<subseteq> set (?el t1)"
      "set (?el t0) \<subseteq> set H \<or> int (length ts) * maxMessages \<le> int (length H)"
    using drain_spec [OF assms(1-6)] by blast
  note L = backlog_listing(2) [OF assms(1,2,4)]
  have sub: "set (?el u) \<subseteq> set (backlog E queueName s)" for u by (auto simp: set_eligible)
  have low: "set (?el t0) \<subseteq> set H"
  proof (cases "set (?el t0) \<subseteq> set H")
    case False
    with H(5) enough have "length (backlog E queueName s) \<le> length H" by simp
    then have "card (set (backlog E queueName s)) \<le> card (set H)"
      using distinct_card [OF H(3)] card_length [of "backlog E queueName s"] by simp
    moreover have "set H \<subseteq> set (backlog E queueName s)" using H(4) sub [of t1] by blast
    ultimately have "set H = set (backlog E queueName s)" by (intro card_seteq) simp_all
    then show ?thesis using sub [of t0] by simp
  qed simp
  have "inj_on msg_MessageID (set H)"
    using H(4) L by (auto simp: is_listing_def distinct_map set_eligible intro: inj_on_subset)
  then have "distinct (map rm_MessageId rs)" unfolding rm_pair_ids [OF H(2)] using H(3) by (simp add: distinct_map)
  moreover have "set (map msg_pair (?el t0)) \<subseteq> set (map rm_pair rs)"
    unfolding H(2) set_map by (rule image_mono [OF low])
  moreover have "set (map rm_pair rs) \<subseteq> set (map msg_pair (?el t1))"
    unfolding H(2) set_map by (rule image_mono [OF H(4)])
  ultimately show ?thesis using H(1) by blast
qed

text \<open>What was received and not deleted comes back after its timeout.\<close>

lemma redelivery_spec:
  assumes E: "env_backend E = ops" "invar (sq_mb s)"
    and pre: "receive_pre E now queueName q n vt s"
    and std: "\<not> isFifoQueue q" "redrive_or_nil (q_Attributes q) = None"
    and first: "selectVisibleMessages E now queueName q n vt names mnames s = (Inr rs, s')"
    and later: "\<forall>t \<in> set ts. t0 \<le> t \<and> t \<le> t1 \<and> receive_pre E t queueName q n' vt' s'"
    and late: "now + duration_seconds vt \<le> t0" "t1 < t0 + duration_seconds vt'"
    and many: "int (length (backlog E queueName s')) \<le> int (length ts) * n'"
  shows "\<exists>rs' s''. receive_rounds E queueName q n' vt' ts s' = (Inr rs', s'')
    \<and> set (map rm_pair rs) \<subseteq> set (map rm_pair rs')"
proof -
  obtain G where s': "invar (sq_mb s')" "received_from view E now queueName q n vt s rs G s'"
    using receive_spec [OF E pre, of names mnames] first by auto
  have q: "queue_ok queueName" using pre by (simp add: receive_pre_def receive_ok_def)
  let ?el = "eligible t0 q (backlog E queueName s')"
  obtain rs' s'' where r': "receive_rounds E queueName q n' vt' ts s' = (Inr rs', s'')"
      "set (map msg_pair ?el) \<subseteq> set (map rm_pair rs')"
    using drain_all [OF E(1) s'(1) later q std(1) late(2) many] by blast
  have "rm_pair r \<in> set (map rm_pair rs')" if "r \<in> set rs" for r
  proof -
    from received_stored [OF E(1) s'(1) q s'(2) that] obtain m where
      m: "m \<in> set (backlog E queueName s')" "msg_MessageID m = rm_MessageId r" "msg_Body m = rm_Body r"
        "msg_VisibleAfter m = now + duration_seconds vt" by metis
    have "m \<in> set ?el" using m(1,4) late(1) std by (simp add: set_eligible may_deliver_def messageVisibleAt_def)
    then have "msg_pair m \<in> set (map rm_pair rs')" using r'(2) by (metis in_set_conv_nth image_eqI list.set_map subsetD)
    then show ?thesis using m(2,3) by (simp add: msg_pair_def rm_pair_def)
  qed
  then show ?thesis using r'(1) by auto
qed

text \<open>The handle a message is stored under is the only one that names it.\<close>

lemma handle_message_spec:
  assumes E: "env_backend E = ops" "invar (sq_mb s)" "queue_ok queueName"
    and m: "m \<in> set (backlog E queueName s)" and h: "decodeReceiptHandle h = Some (x, msg_MessageID m)"
  shows "handle_message E queueName h s = (if msg_ReceiptHandle m = h then Inr m else Inl errSuperseded)"
  using get_law [OF E(2,3), of "env_region E"] m h E(1)
  by (simp add: backlog_view [OF E] handle_message_def getMessage_def mb_read_def)

lemma delete_by_handle_spec:
  assumes E: "env_backend E = ops" "invar (sq_mb s)" "queue_ok queueName" and url: "queueNameFromURL url = queueName"
    and m: "m \<in> set (backlog E queueName s)" and h: "decodeReceiptHandle h = Some (x, msg_MessageID m)"
  shows "msg_ReceiptHandle m = h \<Longrightarrow> \<exists>s'. deleteMessageTyped E url h s = (Inr (), s') \<and> invar (sq_mb s')
      \<and> set (backlog E queueName s') = set (backlog E queueName s) - {m}"
    and "msg_ReceiptHandle m \<noteq> h \<Longrightarrow> deleteMessageTyped E url h s = (Inl errSuperseded, s)"
proof -
  note hm = handle_message_spec [OF E m h]
  show "msg_ReceiptHandle m \<noteq> h \<Longrightarrow> deleteMessageTyped E url h s = (Inl errSuperseded, s)"
    using hm url by (simp add: deleteMessageTyped_def Let_def)
  assume "msg_ReceiptHandle m = h"
  obtain b where b: "deleteMessage E queueName (msg_MessageID m) s = (Inr (), s\<lparr>sq_mb := b\<rparr>)" "invar b"
    "view b = del_view (view (sq_mb s)) (env_region E, queueName) (msg_MessageID m)"
    using deleteMessage_spec [OF E] by metis
  define s' where "s' = emit (SQSMessageDeleted queueName (msg_MessageID m) # recordMessageDeleted queueName) (s\<lparr>sq_mb := b\<rparr>)"
  have s': "deleteMessageTyped E url h s = (Inr (), s')" "sq_mb s' = b"
    using hm url h b(1) \<open>msg_ReceiptHandle m = h\<close> by (simp_all add: deleteMessageTyped_def Let_def s'_def emit_def)
  have "invar (sq_mb s')" using s'(2) b(2) by simp
  note bv = backlog_view [OF E(1) this E(3)] backlog_view [OF E]
  have "view (sq_mb s) (env_region E, queueName) (msg_MessageID m) = Some m" using m by (simp only: bv)
  then have "set (backlog E queueName s') = set (backlog E queueName s) - {m}"
    by (auto simp: bv s'(2) b(3) del_view_def split: if_split_asm)
  then show "\<exists>s'. deleteMessageTyped E url h s = (Inr (), s') \<and> invar (sq_mb s')
      \<and> set (backlog E queueName s') = set (backlog E queueName s) - {m}"
    using s'(1) \<open>invar (sq_mb s')\<close> by blast
qed

lemma received_handle_spec:
  assumes E: "env_backend E = ops" "invar (sq_mb s)"
    and pre: "receive_pre E now queueName q n vt s" "queueNameFromURL url = queueName"
    and first: "selectVisibleMessages E now queueName q n vt names mnames s = (Inr rs, s')" and r: "r \<in> set rs"
    and nl: "no_newline queueName" "no_newline (rm_MessageId r)"
  shows "\<exists>s''. deleteMessageTyped E url (rm_ReceiptHandle r) s' = (Inr (), s'')
      \<and> set (backlog E queueName s'') = {m \<in> set (backlog E queueName s'). msg_MessageID m \<noteq> rm_MessageId r}"
    and "decodeReceiptHandle h = Some (x, rm_MessageId r) \<Longrightarrow> h \<noteq> rm_ReceiptHandle r \<Longrightarrow>
      deleteMessageTyped E url h s' = (Inl errSuperseded, s')"
proof -
  obtain G where s': "invar (sq_mb s')" "received_from view E now queueName q n vt s rs G s'"
    using receive_spec [OF E pre(1), of names mnames] first by auto
  have q: "queue_ok queueName" using pre(1) by (simp add: receive_pre_def receive_ok_def)
  from received_stored [OF E(1) s'(1) q s'(2) r] obtain m nonce where
    m: "m \<in> set (backlog E queueName s')" "msg_MessageID m = rm_MessageId r" "msg_ReceiptHandle m = rm_ReceiptHandle r"
      "rm_ReceiptHandle r = b64_encode (receipt_payload queueName (rm_MessageId r) nonce)" by metis
  have "decodeReceiptHandle (rm_ReceiptHandle r) = Some (queueName, msg_MessageID m)"
    unfolding m(4) m(2) using nl by (rule decode_receipt)
  from delete_by_handle_spec(1) [OF E(1) s'(1) q pre(2) m(1) this m(3)]
  obtain s'' where "deleteMessageTyped E url (rm_ReceiptHandle r) s' = (Inr (), s'')"
    "set (backlog E queueName s'') = set (backlog E queueName s') - {m}" by blast
  moreover have "set (backlog E queueName s') - {m} = {m' \<in> set (backlog E queueName s'). msg_MessageID m' \<noteq> rm_MessageId r}"
    using backlog_unique [OF E(1) s'(1) q _ m(1)] m(2) by auto
  ultimately show "\<exists>s''. deleteMessageTyped E url (rm_ReceiptHandle r) s' = (Inr (), s'')
      \<and> set (backlog E queueName s'') = {m \<in> set (backlog E queueName s'). msg_MessageID m \<noteq> rm_MessageId r}" by simp
  show "deleteMessageTyped E url h s' = (Inl errSuperseded, s')"
    if "decodeReceiptHandle h = Some (x, rm_MessageId r)" "h \<noteq> rm_ReceiptHandle r"
    using delete_by_handle_spec(2) [OF E(1) s'(1) q pre(2) m(1)] that m(2,3) by metis
qed

end

end
