(* ===== verification/Sqs_Send.thy ===== *)
theory Sqs_Send
  imports Sqs_Delivery
begin

text \<open>
  What sending does to a queue, for every message backend that keeps its contract: one
  message more, at the end of a FIFO queue, visible when its delay is over.  The last part
  joins the generic store's contract to it for the deduplication window.
\<close>

section \<open>The generic store does not touch the messages\<close>

lemma kv_call_keeps [simp]:
  "sq_mb (snd (kv_call f s)) = sq_mb s" "sq_seq (snd (kv_call f s)) = sq_seq s" "sq_uuid (snd (kv_call f s)) = sq_uuid s"
  by (auto simp: kv_call_def split: prod.splits sum.splits)

lemma kv_call_state: "kv_call f s = (x, s') \<Longrightarrow> sq_mb s' = sq_mb s \<and> sq_seq s' = sq_seq s \<and> sq_uuid s' = sq_uuid s"
  by (metis kv_call_keeps snd_conv)

lemma getQueue_state: "getQueue E name s = (x, s') \<Longrightarrow> sq_mb s' = sq_mb s \<and> sq_seq s' = sq_seq s \<and> sq_uuid s' = sq_uuid s"
  by (auto simp: getQueue_def dest!: kv_call_state split: prod.splits sum.splits if_split_asm option.splits)

lemma isDuplicate_state:
  "isDuplicate E now q d s = (x, s') \<Longrightarrow> sq_mb s' = sq_mb s \<and> sq_seq s' = sq_seq s \<and> sq_uuid s' = sq_uuid s"
  by (auto simp: isDuplicate_def dest!: kv_call_state split: prod.splits sum.splits if_split_asm option.splits)

lemma recordDedup_state [simp]:
  "sq_mb (recordDedup E now q d s) = sq_mb s" "sq_seq (recordDedup E now q d s) = sq_seq s"
  "sq_uuid (recordDedup E now q d s) = sq_uuid s"
  by (simp_all add: recordDedup_def)

lemma backlog_cong: "sq_mb s' = sq_mb s \<Longrightarrow> backlog E q s' = backlog E q s"
  by (simp add: backlog_def listMessages_def)

section \<open>The message a send stores\<close>

definition sent_at :: "int \<Rightarrow> sendMessageRequest \<Rightarrow> int" where
  "sent_at now inp = (if 0 < sm_DelaySeconds inp then now + duration_seconds (sm_DelaySeconds inp) else now)"

text \<open>What a request must bring for its message to be stored unchanged.\<close>

definition send_ok :: "('s, 'b) sqs_env \<Rightarrow> int \<Rightarrow> sendMessageRequest \<Rightarrow> bool" where
  "send_ok E now inp \<longleftrightarrow> env_ok E \<and> queue_ok (queueNameFromURL (sm_QueueUrl inp)) \<and> marshal_year_ok (sent_at now inp)
     \<and> valid_utf8 (sm_MessageBody inp) \<and> clean_attributes (sm_MessageAttributes inp)
     \<and> valid_utf8 (sm_MessageGroupId inp) \<and> valid_utf8 (sm_MessageDeduplicationId inp)"

definition is_sent :: "('s, 'b) sqs_env \<Rightarrow> int \<Rightarrow> bool \<Rightarrow> sendMessageRequest \<Rightarrow> ('s, 'b) sqs_state \<Rightarrow> Message \<Rightarrow> bool" where
  "is_sent E now fifo inp s m \<longleftrightarrow>
     msg_MessageID m = env_uuid E (sq_uuid s) \<and> msg_Body m = sm_MessageBody inp
     \<and> msg_MessageAttributes m = sm_MessageAttributes inp \<and> msg_MessageGroupId m = sm_MessageGroupId inp
     \<and> msg_VisibleAfter m = sent_at now inp \<and> msg_ApproximateReceiveCount m = 0
     \<and> msg_SequenceNumber m = (if fifo then show_int (wrap64 (sq_seq s + 1)) else [])"

context message_backend
begin

lemma store_sent_spec:
  assumes E: "env_backend E = ops" "send_ok E now inp" "invar (sq_mb s)" "valid_utf8 d"
    and qn: "queueName = queueNameFromURL (sm_QueueUrl inp)"
    and fresh: "\<forall>m \<in> set (backlog E queueName s). msg_MessageID m \<noteq> env_uuid E (sq_uuid s)"
  shows "\<exists>m s'. store_sent E now queueName fifo d inp s
       = (Inr (send_response E inp (msg_MessageID m) (msg_SequenceNumber m)), s')
    \<and> invar (sq_mb s') \<and> is_sent E now fifo inp s m
    \<and> sq_seq s' = (if fifo then wrap64 (sq_seq s + 1) else sq_seq s)
    \<and> set (backlog E queueName s') = insert m (set (backlog E queueName s))"
proof -
  have ok: "env_ok E" "queue_ok queueName" "marshal_year_ok (sent_at now inp)" "valid_utf8 (sm_MessageBody inp)"
    "clean_attributes (sm_MessageAttributes inp)" "valid_utf8 (sm_MessageGroupId inp)"
    using E(2) by (simp_all add: send_ok_def qn)
  obtain m0 s1 where m0: "new_message E now queueName (sm_MessageBody inp) (sent_at now inp)
      (fresh_attributes E now) (sm_MessageAttributes inp) s = (m0, s1)"
    by (cases "new_message E now queueName (sm_MessageBody inp) (sent_at now inp) (fresh_attributes E now) (sm_MessageAttributes inp) s")
  note ns = new_message_simps [OF m0]
  have ma: "msg_MessageAttributes m0 = sm_MessageAttributes inp" "msg_Attributes m0 = fresh_attributes E now"
    using m0 by (auto simp: new_message_def draw_uuid_def encodeReceiptHandle_def Let_def)
  define seq where "seq = wrap64 (sq_seq s + 1)"
  define m where "m = (let m1 = m0\<lparr>msg_MessageGroupId := sm_MessageGroupId inp, msg_MessageDeduplicationId := d\<rparr> in
    if fifo then m1\<lparr>msg_SequenceNumber := show_int seq,
        msg_Attributes := map_put ''SequenceNumber'' (show_int seq) (map_put ''MessageDeduplicationId'' d
          (map_put ''MessageGroupId'' (sm_MessageGroupId inp) (msg_Attributes m0)))\<rparr>
    else m1)"
  define s2 where "s2 = (if fifo then s1\<lparr>sq_seq := seq\<rparr> else s1)"
  have "storable m0" using ns(8) ok fresh_attributes_clean [OF ok(1)] by blast
  moreover have "valid_utf8 ''SequenceNumber''" "valid_utf8 ''MessageDeduplicationId''" "valid_utf8 ''MessageGroupId''" by code_simp+
  ultimately have st: "storable m" using ok(6) E(4) by (simp add: m_def Let_def storable_def)
  have i2: "invar (sq_mb s2)" "sq_mb s2 = sq_mb s" using ns(7) E(3) by (simp_all add: s2_def)
  obtain b where b: "putMessage E queueName m s2 = (Inr (), s2\<lparr>sq_mb := b\<rparr>)" "invar b"
      "view b = put_view (view (sq_mb s2)) (env_region E, queueName) m"
    using putMessage_spec [OF E(1) i2(1) ok(2) st] by metis
  define s' where "s' = emit (SQSMessageSent queueName (msg_MessageID m)
    # recordMessageSent queueName (length (sm_MessageBody inp))) (s2\<lparr>sq_mb := b\<rparr>)"
  have res: "store_sent E now queueName fifo d inp s
      = (Inr (send_response E inp (msg_MessageID m) (if fifo then show_int seq else [])), s')"
    using m0 b(1) unfolding m_def s2_def s'_def seq_def ns(7)
    by (cases fifo) (simp_all add: store_sent_def Let_def sent_at_def)
  have s': "sq_mb s' = b" "sq_seq s' = (if fifo then seq else sq_seq s)" using ns(7) by (simp_all add: s'_def emit_def s2_def)
  have sent: "is_sent E now fifo inp s m" using ns ma by (simp add: is_sent_def m_def Let_def seq_def)
  have "invar (sq_mb s')" using s'(1) b(2) by simp
  note bv = backlog_view [OF E(1) this ok(2)] backlog_view [OF E(1,3) ok(2)]
  have id: "msg_MessageID m = env_uuid E (sq_uuid s)" "msg_SequenceNumber m = (if fifo then show_int seq else [])"
    using sent by (simp_all add: is_sent_def seq_def)
  have "x \<in> set (backlog E queueName s') \<longleftrightarrow> x = m \<or> x \<in> set (backlog E queueName s)" for x
  proof (cases "msg_MessageID x = msg_MessageID m")
    case True
    then have "x \<notin> set (backlog E queueName s)" using fresh id(1) by metis
    with True show ?thesis by (auto simp: bv s'(1) b(3) i2(2) put_view_def)
  next
    case False
    then show ?thesis by (auto simp: bv s'(1) b(3) i2(2) put_view_def)
  qed
  then have "set (backlog E queueName s') = insert m (set (backlog E queueName s))" by blast
  with res sent s'(2) \<open>invar (sq_mb s')\<close> id(2) show ?thesis
    by (intro exI [of _ m] exI [of _ s'] conjI) (simp_all only: seq_def)
qed

text \<open>
  A successful send.  A FIFO queue answers a duplicate with a fresh ID and no sequence number
  and stores nothing.
\<close>

lemma send_spec:
  assumes E: "env_backend E = ops" "send_ok E now inp" "invar (sq_mb s)"
    and qn: "queueName = queueNameFromURL (sm_QueueUrl inp)"
    and fresh: "\<forall>m \<in> set (backlog E queueName s). msg_MessageID m \<noteq> env_uuid E (sq_uuid s)"
    and sent: "sendMessageTyped E now inp s = (Inr resp, s')" and q: "fst (getQueue E queueName s) = Inr q"
  shows "invar (sq_mb s')"
    and "isFifoQueue q \<Longrightarrow> sr_SequenceNumber resp = [] \<Longrightarrow> sq_mb s' = sq_mb s \<and> sq_seq s' = sq_seq s"
    and "\<not> isFifoQueue q \<or> sr_SequenceNumber resp \<noteq> [] \<Longrightarrow>
      \<exists>m. is_sent E now (isFifoQueue q) inp s m \<and> sr_MessageId resp = msg_MessageID m
        \<and> sr_SequenceNumber resp = msg_SequenceNumber m
        \<and> sq_seq s' = (if isFifoQueue q then wrap64 (sq_seq s + 1) else sq_seq s)
        \<and> set (backlog E queueName s') = insert m (set (backlog E queueName s))"
proof -
  obtain s1 where q1: "getQueue E queueName s = (Inr q, s1)" using q by (metis prod.collapse)
  note s1 = getQueue_state [OF q1]
  have c: "check_send inp = None" using sent by (auto simp: sendMessageTyped_def split: option.splits)
  have stored: "invar (sq_mb s') \<and> (\<exists>m. is_sent E now (isFifoQueue q) inp s m \<and> sr_MessageId resp = msg_MessageID m
        \<and> sr_SequenceNumber resp = msg_SequenceNumber m
        \<and> sq_seq s' = (if isFifoQueue q then wrap64 (sq_seq s + 1) else sq_seq s)
        \<and> set (backlog E queueName s') = insert m (set (backlog E queueName s)))"
    if st: "store_sent E now queueName (isFifoQueue q) d inp s2 = (Inr resp, s')" "valid_utf8 d"
      and s2: "sq_mb s2 = sq_mb s" "sq_seq s2 = sq_seq s" "sq_uuid s2 = sq_uuid s" for d s2
  proof -
    have "is_sent E now f inp s2 m = is_sent E now f inp s m" for f m by (simp add: is_sent_def s2)
    then show ?thesis
      using store_sent_spec [OF E(1,2) _ st(2) qn, of s2 "isFifoQueue q"] fresh st(1) E(3)
      by (auto simp: s2 backlog_cong [OF s2(1)] send_response_def)
  qed
  have "(isFifoQueue q \<and> sr_SequenceNumber resp = [] \<and> sq_mb s' = sq_mb s \<and> sq_seq s' = sq_seq s)
    \<or> (invar (sq_mb s') \<and> (\<exists>m. is_sent E now (isFifoQueue q) inp s m \<and> sr_MessageId resp = msg_MessageID m
        \<and> sr_SequenceNumber resp = msg_SequenceNumber m
        \<and> sq_seq s' = (if isFifoQueue q then wrap64 (sq_seq s + 1) else sq_seq s)
        \<and> set (backlog E queueName s') = insert m (set (backlog E queueName s))))"
  proof (cases "isFifoQueue q")
    case False
    then have "store_sent E now queueName (isFifoQueue q) [] inp s1 = (Inr resp, s')"
      using sent c q1 by (simp add: sendMessageTyped_def qn Let_def)
    then show ?thesis using stored [of "[]" s1] s1 by simp
  next
    case True
    have d: "valid_utf8 (dedup_id E q inp)" using E(2) by (simp add: dedup_id_def send_ok_def env_ok_def)
    obtain dup s2 where dup: "isDuplicate E now queueName (dedup_id E q inp) s1 = (dup, s2)" by (cases "isDuplicate E now queueName (dedup_id E q inp) s1")
    note s2 = isDuplicate_state [OF dup]
    show ?thesis
    proof (cases dup)
      case True
      then show ?thesis
        using sent c q1 dup s1 s2 \<open>isFifoQueue q\<close>
        by (auto simp: sendMessageTyped_def qn [symmetric] Let_def send_response_def draw_uuid_def split: if_split_asm)
    next
      case False
      then have "store_sent E now queueName (isFifoQueue q) (dedup_id E q inp) inp (recordDedup E now queueName (dedup_id E q inp) s2)
          = (Inr resp, s')"
        using sent c q1 dup \<open>isFifoQueue q\<close>
        by (auto simp: sendMessageTyped_def qn [symmetric] Let_def split: if_split_asm)
      from stored [OF this d] s1 s2 show ?thesis by simp
    qed
  qed
  moreover have "sr_SequenceNumber resp \<noteq> []"
    if "isFifoQueue q" "is_sent E now (isFifoQueue q) inp s m" "sr_SequenceNumber resp = msg_SequenceNumber m" for m
    using that show_int_start [of "wrap64 (sq_seq s + 1)"] by (auto simp: is_sent_def)
  ultimately show "invar (sq_mb s')"
    and "isFifoQueue q \<Longrightarrow> sr_SequenceNumber resp = [] \<Longrightarrow> sq_mb s' = sq_mb s \<and> sq_seq s' = sq_seq s"
    and "\<not> isFifoQueue q \<or> sr_SequenceNumber resp \<noteq> [] \<Longrightarrow>
      \<exists>m. is_sent E now (isFifoQueue q) inp s m \<and> sr_MessageId resp = msg_MessageID m
        \<and> sr_SequenceNumber resp = msg_SequenceNumber m
        \<and> sq_seq s' = (if isFifoQueue q then wrap64 (sq_seq s + 1) else sq_seq s)
        \<and> set (backlog E queueName s') = insert m (set (backlog E queueName s))"
    using E(3) by (blast | metis)+
qed

end

section \<open>The order of a FIFO queue\<close>

text \<open>No stored message has a later sequence number than the service's counter.\<close>

definition seq_bounded :: "('s, 'b) sqs_env \<Rightarrow> string \<Rightarrow> ('s, 'b) sqs_state \<Rightarrow> bool" where
  "seq_bounded E queueName s \<longleftrightarrow> 0 \<le> sq_seq s \<and> sq_seq s < 9223372036854775807
     \<and> list_all (\<lambda>m. parseSequenceNumber (msg_SequenceNumber m) \<le> sq_seq s) (backlog E queueName s)"

lemma parseSequenceNumber_show:
  "- 9223372036854775808 \<le> i \<Longrightarrow> i \<le> 9223372036854775807 \<Longrightarrow> parseSequenceNumber (show_int i) = i"
  using show_int_start [of i] by (auto simp: parseSequenceNumber_def Atoi_show_int)

lemma is_sent_sequence:
  assumes "is_sent E now True inp s m" "seq_bounded E queueName s"
  shows "parseSequenceNumber (msg_SequenceNumber m) = sq_seq s + 1" "wrap64 (sq_seq s + 1) = sq_seq s + 1"
proof -
  have r: "- 9223372036854775808 \<le> sq_seq s + 1" "sq_seq s + 1 \<le> 9223372036854775807"
    using assms(2) by (auto simp: seq_bounded_def)
  then show w: "wrap64 (sq_seq s + 1) = sq_seq s + 1" by (rule wrap64_id)
  show "parseSequenceNumber (msg_SequenceNumber m) = sq_seq s + 1"
    using assms(1) parseSequenceNumber_show [OF r] w by (simp add: is_sent_def)
qed

context message_backend
begin

lemma fifo_append:
  assumes E: "env_backend E = ops" "invar (sq_mb s)" "invar (sq_mb s')" "queue_ok queueName"
    and b: "set (backlog E queueName s') = insert m (set (backlog E queueName s))" "m \<notin> set (backlog E queueName s)"
    and m: "is_sent E now True inp s m" "messageVisibleAt m t" and sb: "seq_bounded E queueName s" and q: "isFifoQueue q"
  shows "visible_in_order t q (backlog E queueName s') = visible_in_order t q (backlog E queueName s) @ [m]"
proof -
  let ?v = "view (sq_mb s') (env_region E, queueName)" and ?V = "visible_in_order t q (backlog E queueName s)"
  note L = backlog_listing(2) [OF E(1,3,4)] and L0 = backlog_listing(2) [OF E(1,2,4)]
  have ids: "msg_MessageID x \<noteq> msg_MessageID m" if "x \<in> set (backlog E queueName s)" for x
    using that b backlog_unique [OF E(1,3,4), of x m] by blast
  have "is_listing ?v (\<lambda>m. messageVisibleAt m t) (visible_in_order t q (backlog E queueName s'))"
    using is_listing_filter [OF L, of "\<lambda>m. messageVisibleAt m t"]
    by (auto simp: visible_in_order_def Let_def intro: is_listing_perm)
  moreover have "is_listing ?v (\<lambda>m. messageVisibleAt m t) (?V @ [m])"
  proof -
    have "distinct (map msg_MessageID ?V)"
      using is_listing_filter [OF L0, of "\<lambda>m. messageVisibleAt m t"]
      by (auto simp: visible_in_order_def Let_def is_listing_def distinct_map)
    moreover have "ran ?v = insert m (set (backlog E queueName s))" using L b(1) by (simp add: is_listing_def)
    moreover have "msg_MessageID m \<notin> msg_MessageID ` set ?V" using ids by fastforce
    ultimately show ?thesis using m(2) by (auto simp: is_listing_def)
  qed
  moreover have "sorted (map fifo_key (visible_in_order t q (backlog E queueName s')))"
    using q by (simp add: visible_in_order_def Let_def)
  moreover have "sorted (map fifo_key (?V @ [m]))"
  proof -
    have "fifo_key x \<le> fifo_key m" if "x \<in> set (backlog E queueName s)" for x
    proof -
      have "parseSequenceNumber (msg_SequenceNumber x) \<le> sq_seq s"
        using sb that by (simp add: seq_bounded_def list_all_iff)
      then show ?thesis using is_sent_sequence(1) [OF m(1) sb] by (simp add: fifo_key_def less_eq_prod_def)
    qed
    moreover have "sorted (map fifo_key ?V)" using q by (simp add: visible_in_order_def Let_def)
    ultimately show ?thesis by (auto simp: sorted_append)
  qed
  ultimately show ?thesis by (rule listing_sorted_unique)
qed

lemma send_fifo_spec:
  assumes E: "env_backend E = ops" "send_ok E now inp" "invar (sq_mb s)"
    and qn: "queueName = queueNameFromURL (sm_QueueUrl inp)"
    and fresh: "\<forall>m \<in> set (backlog E queueName s). msg_MessageID m \<noteq> env_uuid E (sq_uuid s)"
    and sent: "sendMessageTyped E now inp s = (Inr resp, s')" "sr_SequenceNumber resp \<noteq> []"
    and q: "fst (getQueue E queueName s) = Inr q" "isFifoQueue q" and sb: "seq_bounded E queueName s"
    and t: "now \<le> t" "sm_DelaySeconds inp \<le> 0"
  shows "\<exists>m. is_sent E now True inp s m \<and> sr_MessageId resp = msg_MessageID m
      \<and> visible_in_order t q (backlog E queueName s') = visible_in_order t q (backlog E queueName s) @ [m]
      \<and> sq_seq s' = sq_seq s + 1
      \<and> list_all (\<lambda>m. parseSequenceNumber (msg_SequenceNumber m) \<le> sq_seq s') (backlog E queueName s')"
proof -
  note sp = send_spec [OF E qn fresh sent(1) q(1)]
  obtain m where m: "is_sent E now True inp s m" "sr_MessageId resp = msg_MessageID m" "sq_seq s' = wrap64 (sq_seq s + 1)"
      "set (backlog E queueName s') = insert m (set (backlog E queueName s))"
    using sp(3) sent(2) q(2) by auto
  have qk: "queue_ok queueName" using E(2) qn by (simp add: send_ok_def)
  have "m \<notin> set (backlog E queueName s)" using fresh m(1) by (auto simp: is_sent_def)
  moreover have "messageVisibleAt m t" using m(1) t by (simp add: is_sent_def sent_at_def messageVisibleAt_def)
  ultimately have "visible_in_order t q (backlog E queueName s') = visible_in_order t q (backlog E queueName s) @ [m]"
    by (rule fifo_append [OF E(1,3) sp(1) qk m(4) _ m(1) _ sb q(2)])
  moreover have "sq_seq s' = sq_seq s + 1" using m(3) is_sent_sequence(2) [OF m(1) sb] by simp
  moreover have "list_all (\<lambda>m. parseSequenceNumber (msg_SequenceNumber m) \<le> sq_seq s') (backlog E queueName s')"
    using sb m(4) calculation(2) is_sent_sequence(1) [OF m(1) sb] by (auto simp: list_all_iff seq_bounded_def)
  ultimately show ?thesis using m(1,2) by blast
qed

text \<open>A standard queue delivers what was sent, once its delay is over.\<close>

lemma send_then_receive_spec:
  assumes E: "env_backend E = ops" "send_ok E now inp" "invar (sq_mb s)"
    and qn: "queueName = queueNameFromURL (sm_QueueUrl inp)"
    and fresh: "\<forall>m \<in> set (backlog E queueName s). msg_MessageID m \<noteq> env_uuid E (sq_uuid s)"
    and sent: "sendMessageTyped E now inp s = (Inr resp, s')"
    and q: "fst (getQueue E queueName s) = Inr q" "\<not> isFifoQueue q" "redrive_or_nil (q_Attributes q) = None"
    and pre: "\<forall>t \<in> set ts. t0 \<le> t \<and> t \<le> t1 \<and> receive_pre E t queueName q n vt s'"
    and t: "sent_at now inp \<le> t0" "t1 < t0 + duration_seconds vt"
    and many: "int (length (backlog E queueName s')) \<le> int (length ts) * n"
  shows "\<exists>rs s''. receive_rounds E queueName q n vt ts s' = (Inr rs, s'')
    \<and> distinct (map rm_MessageId rs) \<and> (sr_MessageId resp, sm_MessageBody inp) \<in> set (map rm_pair rs)"
proof -
  note sp = send_spec [OF E qn fresh sent q(1)]
  obtain m where m: "is_sent E now False inp s m" "sr_MessageId resp = msg_MessageID m"
      "set (backlog E queueName s') = insert m (set (backlog E queueName s))"
    using sp(3) q(2) by auto
  have qk: "queue_ok queueName" using E(2) qn by (simp add: send_ok_def)
  let ?el = "eligible t0 q (backlog E queueName s')"
  obtain rs s'' where r: "receive_rounds E queueName q n vt ts s' = (Inr rs, s'')" "distinct (map rm_MessageId rs)"
      "set (map msg_pair ?el) \<subseteq> set (map rm_pair rs)"
    using drain_all [OF E(1) sp(1) pre qk q(2) t(2) many] by blast
  have "m \<in> set ?el"
    using m(1,3) q(2,3) t(1) by (simp add: set_eligible may_deliver_def messageVisibleAt_def is_sent_def)
  then have "msg_pair m \<in> set (map msg_pair ?el)" by simp
  then have "msg_pair m \<in> set (map rm_pair rs)" using r(3) by blast
  then show ?thesis using r(1,2) m(1,2) by (auto simp: msg_pair_def is_sent_def)
qed

end

end
