(* ===== verification/Sqs_Service.thy ===== *)
theory Sqs_Service
  imports Sqs_Send Namespaced_Store
begin

text \<open>
  The SQS service over both of its stores: the generic store that keeps queues and
  deduplication records (\<open>kv_store\<close>) and the message backend (\<open>message_backend\<close>).  The locale
  \<open>sqs_service\<close> joins the two contracts, the interpretation gives the service of the default
  configuration, the in-process stores.  The properties of the message operations are
  stated for that one.
\<close>

section \<open>Both stores together\<close>

locale sqs_service = kv: kv_store kops kview kinvar + mb: message_backend mops view invar
  for kops :: "'s store_ops" and kview :: "'s \<Rightarrow> contents" and kinvar :: "'s \<Rightarrow> bool"
    and mops :: "'b messageBackend" and view :: "'b \<Rightarrow> queues_view" and invar :: "'b \<Rightarrow> bool"
begin

lemma kv_get_spec:
  assumes "env_store E = kops" "kinvar (sq_kv s)"
  obtains kv where "kv_call (\<lambda>kv. st_Get (env_store E) kv ns k) s = (Inr (get_spec (kview (sq_kv s)) ns k), s\<lparr>sq_kv := kv\<rparr>)"
    "kview kv = kview (sq_kv s)" "kinvar kv"
  using kv.get_law [OF assms(2), of ns k] assms(1) that
  by (cases "st_Get kops (sq_kv s) ns k") (auto simp: kv_call_def)

lemma kv_set_spec:
  assumes "env_store E = kops" "kinvar (sq_kv s)"
  obtains kv where "kv_call (\<lambda>kv. st_Set (env_store E) kv ns k v) s = (Inr (), s\<lparr>sq_kv := kv\<rparr>)"
    "kview kv = set_spec (kview (sq_kv s)) ns k v" "kinvar kv"
  using kv.set_law [OF assms(2), of ns k v] assms(1) that
  by (cases "st_Set kops (sq_kv s) ns k v") (auto simp: kv_call_def)

lemma getQueue_spec:
  assumes "env_store E = kops" "kinvar (sq_kv s)" "get_spec (kview (sq_kv s)) nsQueues (RegionKey (env_region E) name) = (raw, True)"
    "unmarshal_queue raw = Some q"
  obtains kv where "getQueue E name s = (Inr q, s\<lparr>sq_kv := kv\<rparr>)" "kview kv = kview (sq_kv s)" "kinvar kv"
proof -
  obtain kv where "kv_call (\<lambda>kv. st_Get (env_store E) kv nsQueues (RegionKey (env_region E) name)) s
      = (Inr (raw, True), s\<lparr>sq_kv := kv\<rparr>)" "kview kv = kview (sq_kv s)" "kinvar kv"
    using kv_get_spec [OF assms(1,2), of nsQueues "RegionKey (env_region E) name"] assms(3) by metis
  then show thesis using that assms(4) by (simp add: getQueue_def)
qed

lemma getQueue_Inr:
  assumes "env_store E = kops" "kinvar (sq_kv s)" "fst (getQueue E name s) = Inr q"
  obtains raw where "get_spec (kview (sq_kv s)) nsQueues (RegionKey (env_region E) name) = (raw, True)" "unmarshal_queue raw = Some q"
proof -
  obtain kv where kv: "kv_call (\<lambda>kv. st_Get (env_store E) kv nsQueues (RegionKey (env_region E) name)) s
      = (Inr (get_spec (kview (sq_kv s)) nsQueues (RegionKey (env_region E) name)), s\<lparr>sq_kv := kv\<rparr>)"
    using kv_get_spec [OF assms(1,2), of nsQueues "RegionKey (env_region E) name"] by metis
  obtain raw found where g: "get_spec (kview (sq_kv s)) nsQueues (RegionKey (env_region E) name) = (raw, found)" by (cases "get_spec (kview (sq_kv s)) nsQueues (RegionKey (env_region E) name)")
  have "found" "unmarshal_queue raw = Some q"
    using assms(3) kv g by (auto simp: getQueue_def split: if_split_asm option.splits)
  then show thesis using that g by simp
qed

lemma isDuplicate_spec:
  assumes "env_store E = kops" "kinvar (sq_kv s)"
  obtains kv where "isDuplicate E now name d s =
      ((case get_spec (kview (sq_kv s)) nsDedup (RegionKey (env_region E) (dedupKey name d)) of
          (raw, found) \<Rightarrow> found \<and> (case Atoi raw of None \<Rightarrow> False | Some t \<Rightarrow> unix_milli now < t)), s\<lparr>sq_kv := kv\<rparr>)"
    "kview kv = kview (sq_kv s)" "kinvar kv"
proof -
  let ?k = "RegionKey (env_region E) (dedupKey name d)"
  obtain kv where kv: "kv_call (\<lambda>kv. st_Get (env_store E) kv nsDedup ?k) s
      = (Inr (get_spec (kview (sq_kv s)) nsDedup ?k), s\<lparr>sq_kv := kv\<rparr>)" "kview kv = kview (sq_kv s)" "kinvar kv"
    using kv_get_spec [OF assms, of nsDedup ?k] by metis
  show thesis
    by (rule that [OF _ kv(2,3)])
      (cases "get_spec (kview (sq_kv s)) nsDedup ?k", simp add: isDuplicate_def kv(1) split: option.splits)
qed

lemma recordDedup_spec:
  assumes "env_store E = kops" "kinvar (sq_kv s)"
  obtains kv where "recordDedup E now name d s = s\<lparr>sq_kv := kv\<rparr>" "kinvar kv"
    "kview kv = set_spec (kview (sq_kv s)) nsDedup (RegionKey (env_region E) (dedupKey name d))
       (show_int (unix_milli (now + 300000000000)))"
proof -
  obtain kv where "kv_call (\<lambda>kv. st_Set (env_store E) kv nsDedup (RegionKey (env_region E) (dedupKey name d))
        (show_int (unix_milli (now + 300000000000)))) s = (Inr (), s\<lparr>sq_kv := kv\<rparr>)"
      "kview kv = set_spec (kview (sq_kv s)) nsDedup (RegionKey (env_region E) (dedupKey name d))
       (show_int (unix_milli (now + 300000000000)))" "kinvar kv"
    by (rule kv_set_spec [OF assms])
  then show thesis using that by (simp add: recordDedup_def)
qed

end

section \<open>Deduplication\<close>

lemma store_sent_kv [simp]: "sq_kv (snd (store_sent E now name fifo d inp s)) = sq_kv s"
  by (auto simp: store_sent_def Let_def new_message_def draw_uuid_def encodeReceiptHandle_def putMessage_def mb_call_def emit_def
      split: prod.splits sum.splits)

definition milli_ok :: "int \<Rightarrow> bool" where
  "milli_ok t \<longleftrightarrow> - 9223372036854775808 \<le> unix_milli t \<and> unix_milli t \<le> 9223372036854775807"

context sqs_service
begin

text \<open>A retry of a stored FIFO send.\<close>

lemma dedup_spec:
  assumes E: "env_store E = kops" "kinvar (sq_kv s)" and q: "fst (getQueue E (queueNameFromURL (sm_QueueUrl inp)) s) = Inr q" "isFifoQueue q"
    and sent: "sendMessageTyped E now inp s = (Inr resp, s')" "sr_SequenceNumber resp \<noteq> []"
    and t: "milli_ok (now + 300000000000)" "unix_milli now' < unix_milli (now + 300000000000)"
  shows "\<exists>resp' s''. sendMessageTyped E now' inp s' = (Inr resp', s'') \<and> sr_SequenceNumber resp' = []
    \<and> sq_mb s'' = sq_mb s' \<and> sq_seq s'' = sq_seq s'"
proof -
  define name where "name = queueNameFromURL (sm_QueueUrl inp)"
  define d where "d = dedup_id E q inp"
  let ?k = "RegionKey (env_region E) (dedupKey name d)"
  obtain raw where raw: "get_spec (kview (sq_kv s)) nsQueues (RegionKey (env_region E) name) = (raw, True)" "unmarshal_queue raw = Some q"
    using getQueue_Inr [OF E q(1)] unfolding name_def by metis
  obtain kv1 where q1: "getQueue E name s = (Inr q, s\<lparr>sq_kv := kv1\<rparr>)" "kview kv1 = kview (sq_kv s)" "kinvar kv1"
    by (rule getQueue_spec [OF E raw])
  have E1: "kinvar (sq_kv (s\<lparr>sq_kv := kv1\<rparr>))" using q1(3) by simp
  define dup where "dup = fst (isDuplicate E now name d (s\<lparr>sq_kv := kv1\<rparr>))"
  obtain kv2 where dup: "isDuplicate E now name d (s\<lparr>sq_kv := kv1\<rparr>) = (dup, s\<lparr>sq_kv := kv2\<rparr>)"
      "kview kv2 = kview (sq_kv s)" "kinvar kv2"
    by (rule isDuplicate_spec [OF E(1) E1, of now name d]) (use q1(2) in \<open>auto simp: dup_def\<close>)
  have E2: "kinvar (sq_kv (s\<lparr>sq_kv := kv2\<rparr>))" using dup(3) by simp
  obtain kv3 where rec: "recordDedup E now name d (s\<lparr>sq_kv := kv2\<rparr>) = (s\<lparr>sq_kv := kv2\<rparr>)\<lparr>sq_kv := kv3\<rparr>" "kinvar kv3"
      "kview kv3 = set_spec (kview kv2) nsDedup ?k (show_int (unix_milli (now + 300000000000)))"
    using recordDedup_spec [OF E(1) E2, of now name d] by auto
  note chk = sent(1) [unfolded sendMessageTyped_def Let_def name_def [symmetric] q1(1)]
  have c: "check_send inp = None" "sm_MessageGroupId inp \<noteq> []" "\<not> 0 < sm_DelaySeconds inp" "d \<noteq> []"
    and "\<not> dup" and st: "store_sent E now name True d inp (s\<lparr>sq_kv := kv3\<rparr>) = (Inr resp, s')"
    using chk q(2) dup(1) rec(1) sent(2)
    by (auto simp: d_def [symmetric] send_response_def split: option.splits if_split_asm prod.splits bool.splits)
  have kv: "sq_kv s' = kv3" using store_sent_kv [of E now name True d inp "s\<lparr>sq_kv := kv3\<rparr>"] st by simp
  have E3: "kinvar (sq_kv s')" using rec(2) kv by simp
  have ns: "nsQueues \<noteq> nsDedup" by (simp add: nsQueues_def nsDedup_def)
  have raw': "get_spec (kview (sq_kv s')) nsQueues (RegionKey (env_region E) name) = (raw, True)"
    using raw(1) rec(3) dup(2) ns by (simp add: kv)
  obtain kv4 where q4: "getQueue E name s' = (Inr q, s'\<lparr>sq_kv := kv4\<rparr>)" "kview kv4 = kview (sq_kv s')" "kinvar kv4"
    by (rule getQueue_spec [OF E(1) E3 raw' raw(2)])
  have E4: "kinvar (sq_kv (s'\<lparr>sq_kv := kv4\<rparr>))" using q4(3) by simp
  have "get_spec (kview kv4) nsDedup ?k = (show_int (unix_milli (now + 300000000000)), True)"
    using q4(2) rec(3) by (simp add: kv)
  moreover have "Atoi (show_int (unix_milli (now + 300000000000))) = Some (unix_milli (now + 300000000000))"
    using t(1) by (intro Atoi_show_int) (simp_all add: milli_ok_def)
  ultimately obtain kv5 where d5: "isDuplicate E now' name d (s'\<lparr>sq_kv := kv4\<rparr>) = (True, s'\<lparr>sq_kv := kv4\<rparr>\<lparr>sq_kv := kv5\<rparr>)"
    using isDuplicate_spec [OF E(1) E4, of now' name d] t(2) by auto
  then have "sendMessageTyped E now' inp s' = (Inr (send_response E inp (env_uuid E (sq_uuid s')) []), s'\<lparr>sq_kv := kv5, sq_uuid := Suc (sq_uuid s')\<rparr>)"
    using c q4(1) q(2) by (simp add: sendMessageTyped_def Let_def name_def [symmetric] d_def [symmetric] draw_uuid_def)
  then show ?thesis by (simp add: send_response_def)
qed

end

section \<open>The in-process service\<close>

interpretation sqs_mem: sqs_service "mem_ops alist_bt" "mem_view alist_bt" mem_invar
    memMessageBackend_ops mem_messages_view mem_messages_invar
  by unfold_locales

text \<open>A region with a standard and a FIFO queue, three messages each.\<close>

definition sample_env :: "(KV list memory_store, memMessageBackend) sqs_env" where
  "sample_env = \<lparr>env_store = mem_ops alist_bt, env_backend = memMessageBackend_ops, env_region = ''eu'',
     env_AccountID = ''000000000000'', env_origin = ''http://localhost:4566'', env_external = ''http://localhost:4566'',
     env_md5 = (\<lambda>_. ''d41d''), env_uuid = (\<lambda>n. show_int (int n))\<rparr>"

definition sample_queue :: "string \<Rightarrow> string gomap \<Rightarrow> Queue" where
  "sample_queue name attrs = \<lparr>q_Name = name, q_URL = [], q_ARN = ''arn:aws:sqs:eu:000000000000:'' @ name,
     q_Attributes = attrs, q_CreatedTimestamp = 1, q_LastModifiedTimestamp = 0, q_Tags = []\<rparr>"

definition std_queue :: Queue where
  "std_queue = sample_queue ''jobs'' []"

definition fifo_queue :: Queue where
  "fifo_queue = sample_queue ''jobs.fifo'' [(''ContentBasedDeduplication'', ''true''), (''FifoQueue'', ''true'')]"

definition sample_message :: "string \<Rightarrow> string \<Rightarrow> int \<Rightarrow> string \<Rightarrow> string \<Rightarrow> Message" where
  "sample_message mid body visibleAfter groupID seqNum =
     \<lparr>msg_MessageID = mid, msg_ReceiptHandle = ''h'', msg_Body = body, msg_Attributes = [], msg_MessageAttributes = [],
      msg_MD5OfBody = ''d41d'', msg_SentTimestamp = 0, msg_ApproximateReceiveCount = 0, msg_VisibleAfter = visibleAfter,
      msg_MessageGroupId = groupID, msg_MessageDeduplicationId = [], msg_SequenceNumber = seqNum, msg_VisibilityVersion = 0\<rparr>"

abbreviation day_ns :: int where
  "day_ns \<equiv> 86400000000000"

definition sample_state :: "(KV list memory_store, memMessageBackend) sqs_state" where
  "sample_state = \<lparr>sq_kv = \<lparr>ms_data = [(''sqs:queues'', [(''eu/jobs'', marshal_queue std_queue),
        (''eu/jobs.fifo'', marshal_queue fifo_queue)])], ms_reads = 0, ms_writes = 2\<rparr>,
     sq_mb =
       [(''eu/jobs'', [(''a'', sample_message ''a'' ''one'' 0 [] []), (''b'', sample_message ''b'' ''two'' (9 * day_ns) [] []),
          (''c'', sample_message ''c'' ''three'' 0 [] [])]),
        (''eu/jobs.fifo'', [(''d'', sample_message ''d'' ''four'' 0 ''g'' ''2''), (''e'', sample_message ''e'' ''five'' 0 ''g'' ''1''),
          (''f'', sample_message ''f'' ''six'' 0 ''k'' ''3''), (''g'', sample_message ''g'' ''seven'' (9 * day_ns) ''k'' ''4'')])],
     sq_seq = 4, sq_uuid = 7, sq_out = []\<rparr>"

lemma sample_env_ok: "env_ok sample_env" "env_backend sample_env = memMessageBackend_ops" "env_store sample_env = mem_ops alist_bt"
proof -
  have "valid_utf8 ''d41d''" "valid_utf8 ''000000000000''" by code_simp+
  then show "env_ok sample_env" by (simp add: env_ok_def sample_env_def)
qed (simp_all add: sample_env_def)

lemma sample_state_ok: "mem_messages_invar (sq_mb sample_state)" "mem_invar (sq_kv sample_state)"
proof -
  have "list_all (\<lambda>(key, q). wf_map q \<and> list_all (\<lambda>(mid, msg). msg_MessageID msg = mid \<and> storable msg) q) (sq_mb sample_state)
      \<and> wf_map (sq_mb sample_state)"
    by code_simp
  then show "mem_messages_invar (sq_mb sample_state)"
    by (auto simp: mem_messages_invar_def mem_queue_invar_def list_all_iff)
  show "mem_invar (sq_kv sample_state)" by (simp add: sample_state_def mem_invar_def)
qed

lemma sample_pre:
  "receive_pre sample_env day_ns ''jobs'' std_queue 2 30 sample_state"
  "receive_pre sample_env day_ns ''jobs.fifo'' fifo_queue 2 30 sample_state"
proof -
  have "receive_ok day_ns ''jobs'' std_queue 30 \<and> int (length (backlog sample_env ''jobs'' sample_state)) \<le> maxCandidateFetchLimit"
    "receive_ok day_ns ''jobs.fifo'' fifo_queue 30 \<and> int (length (backlog sample_env ''jobs.fifo'' sample_state)) \<le> maxCandidateFetchLimit"
    by code_simp+
  then show "receive_pre sample_env day_ns ''jobs'' std_queue 2 30 sample_state"
    "receive_pre sample_env day_ns ''jobs.fifo'' fifo_queue 2 30 sample_state"
    using sample_env_ok(1) by (simp_all add: receive_pre_def)
qed

section \<open>Receiving\<close>

text \<open>
  C6. Receiving from a FIFO queue that stores at most 5000 messages (\<open>maxCandidateFetchLimit\<close>),
  by rounds that fetch a bounded number of candidates and double the bound, delivers
  exactly what one pass over the whole queue would: the first messages, in sequence order,
  of those that are visible, not of a group with an invisible message and within the
  redrive policy's count, as many as were asked for.  Beyond that size the code may stop
  short of the deliverable messages.
\<close>

theorem fifo_receive_one_pass:
  assumes "env_backend E = memMessageBackend_ops" "mem_messages_invar (sq_mb s)"
    and "receive_pre E now queueName q n vt s" "isFifoQueue q"
  shows "\<exists>rs s'. selectVisibleMessages E now queueName q n vt names mnames s = (Inr rs, s')
    \<and> map rm_pair rs = map msg_pair (take (nat n) (filter (may_deliver now q (backlog E queueName s))
        (sort_key fifo_key (filter (\<lambda>m. messageVisibleAt m now) (backlog E queueName s)))))"
proof -
  obtain rs s' G where r: "selectVisibleMessages E now queueName q n vt names mnames s = (Inr rs, s')"
      "received_from mem_messages_view E now queueName q n vt s rs G s'"
    using mem_messages.receive_spec [OF assms(1-3)] by blast
  have "map rm_pair rs = map msg_pair (take (nat n) (eligible now q (backlog E queueName s)))"
    using r(2) assms(4) unfolding received_from_def Let_def by metis
  with r(1) assms(4) show ?thesis by (simp add: eligible_def visible_in_order_def Let_def)
qed

theorem fifo_receive_one_pass_witness:
  "map rm_pair (projr (fst (selectVisibleMessages sample_env day_ns ''jobs.fifo'' fifo_queue 2 30 [] [] sample_state)))
   = [(''e'', ''five''), (''d'', ''four'')]"
proof -
  have "isFifoQueue fifo_queue" by code_simp
  from fifo_receive_one_pass [OF sample_env_ok(2) sample_state_ok(1) sample_pre(2) this, of "[]" "[]"]
  obtain rs s' where "selectVisibleMessages sample_env day_ns ''jobs.fifo'' fifo_queue 2 30 [] [] sample_state = (Inr rs, s')"
    "map rm_pair rs = map msg_pair (take (nat 2) (filter (may_deliver day_ns fifo_queue (backlog sample_env ''jobs.fifo'' sample_state))
        (sort_key fifo_key (filter (\<lambda>m. messageVisibleAt m day_ns) (backlog sample_env ''jobs.fifo'' sample_state)))))" by blast
  moreover have "map msg_pair (take (nat 2) (filter (may_deliver day_ns fifo_queue (backlog sample_env ''jobs.fifo'' sample_state))
        (sort_key fifo_key (filter (\<lambda>m. messageVisibleAt m day_ns) (backlog sample_env ''jobs.fifo'' sample_state)))))
      = [(''e'', ''five''), (''d'', ''four'')]" by code_simp
  ultimately show ?thesis by simp
qed

text \<open>
  Receiving from a standard queue returns distinct messages, each visible and within
  the redrive policy's count, as many as were asked for or all there are.
\<close>

theorem standard_receive_count:
  assumes "env_backend E = memMessageBackend_ops" "mem_messages_invar (sq_mb s)"
    and "receive_pre E now queueName q n vt s"
  shows "\<exists>rs s'. selectVisibleMessages E now queueName q n vt names mnames s = (Inr rs, s')
    \<and> distinct (map rm_MessageId rs)
    \<and> set (map rm_pair rs) \<subseteq> set (map msg_pair (eligible now q (backlog E queueName s)))
    \<and> int (length rs) = min n (int (length (eligible now q (backlog E queueName s))))"
proof -
  obtain rs s' G where r: "selectVisibleMessages E now queueName q n vt names mnames s = (Inr rs, s')"
      "received_from mem_messages_view E now queueName q n vt s rs G s'"
    using mem_messages.receive_spec [OF assms] by blast
  have G: "map rm_pair rs = map msg_pair G" "set G \<subseteq> set (eligible now q (backlog E queueName s))"
    "distinct (map rm_MessageId rs)" "int (length rs) = min n (int (length (eligible now q (backlog E queueName s))))"
    using r(2) unfolding received_from_def Let_def by blast+
  have "set (map rm_pair rs) \<subseteq> set (map msg_pair (eligible now q (backlog E queueName s)))"
    unfolding G(1) using G(2) by auto
  with r(1) G(3,4) show ?thesis by blast
qed

theorem standard_receive_count_witness:
  "length (projr (fst (selectVisibleMessages sample_env day_ns ''jobs'' std_queue 2 30 [] [] sample_state))) = 2"
proof -
  have "length (eligible day_ns std_queue (backlog sample_env ''jobs'' sample_state)) = 2" by code_simp
  moreover obtain rs s' where "selectVisibleMessages sample_env day_ns ''jobs'' std_queue 2 30 [] [] sample_state = (Inr rs, s')"
    "int (length rs) = min 2 (int (length (eligible day_ns std_queue (backlog sample_env ''jobs'' sample_state))))"
    using standard_receive_count [OF sample_env_ok(2) sample_state_ok(1) sample_pre(1), of "[]" "[]"] by blast
  ultimately show ?thesis by simp
qed

text \<open>
  C7. No message is delivered while it is in flight: a receive that directly follows an earlier
  one, before the visibility timeout of that one has passed, returns none of the messages it
  returned, whatever both ask for and whichever kind the queue is, as long as it stores at
  most 5000 messages (\<open>receive_pre\<close>).
\<close>

theorem no_double_delivery:
  assumes "env_backend E = memMessageBackend_ops" "mem_messages_invar (sq_mb s)"
    and "receive_pre E now queueName q n vt s" "receive_pre E now' queueName q n' vt' s'"
    and "selectVisibleMessages E now queueName q n vt names mnames s = (Inr rs, s')"
    and "selectVisibleMessages E now' queueName q n' vt' names' mnames' s' = (Inr rs', s'')"
    and "now' < now + duration_seconds vt"
  shows "set (map rm_MessageId rs) \<inter> set (map rm_MessageId rs') = {}"
  using assms by (rule mem_messages.no_double_delivery_spec)

definition after_first :: "(KV list memory_store, memMessageBackend) sqs_state" where
  "after_first = snd (selectVisibleMessages sample_env day_ns ''jobs'' std_queue 2 30 [] [] sample_state)"

lemma sample_first:
  "selectVisibleMessages sample_env day_ns ''jobs'' std_queue 2 30 [] [] sample_state
   = (Inr (projr (fst (selectVisibleMessages sample_env day_ns ''jobs'' std_queue 2 30 [] [] sample_state))), after_first)"
  and after_first_ok: "mem_messages_invar (sq_mb after_first)"
    "length (backlog sample_env ''jobs'' after_first) \<le> 3"
proof -
  obtain rs s' G where r: "selectVisibleMessages sample_env day_ns ''jobs'' std_queue 2 30 [] [] sample_state = (Inr rs, s')"
      "mem_messages_invar (sq_mb s')" "received_from mem_messages_view sample_env day_ns ''jobs'' std_queue 2 30 sample_state rs G s'"
    using mem_messages.receive_spec [OF sample_env_ok(2) sample_state_ok(1) sample_pre(1)] by blast
  then show "selectVisibleMessages sample_env day_ns ''jobs'' std_queue 2 30 [] [] sample_state
     = (Inr (projr (fst (selectVisibleMessages sample_env day_ns ''jobs'' std_queue 2 30 [] [] sample_state))), after_first)"
    and "mem_messages_invar (sq_mb after_first)" by (simp_all add: after_first_def)
  have "length (backlog sample_env ''jobs'' s') \<le> length (backlog sample_env ''jobs'' sample_state)"
    by (rule mem_messages.backlog_shrinks [OF sample_env_ok(2) sample_state_ok(1) r(2) _ r(3)]) simp
  moreover have "length (backlog sample_env ''jobs'' sample_state) = 3" by code_simp
  ultimately show "length (backlog sample_env ''jobs'' after_first) \<le> 3" using r(1) by (simp add: after_first_def)
qed

lemma sample_pre_after: "receive_ok t ''jobs'' std_queue 30 \<Longrightarrow> 1 \<le> n \<Longrightarrow> receive_pre sample_env t ''jobs'' std_queue n 30 after_first"
  using sample_env_ok(1) after_first_ok(2) by (simp add: receive_pre_def maxCandidateFetchLimit_def)

theorem no_double_delivery_witness:
  "set (map rm_MessageId (projr (fst (selectVisibleMessages sample_env day_ns ''jobs'' std_queue 2 30 [] [] sample_state))))
   \<inter> set (map rm_MessageId (projr (fst (selectVisibleMessages sample_env (day_ns + 5) ''jobs'' std_queue 3 30 [] [] after_first)))) = {}"
proof -
  have ok: "receive_ok (day_ns + 5) ''jobs'' std_queue 30" by code_simp
  have p: "receive_pre sample_env (day_ns + 5) ''jobs'' std_queue 3 30 after_first" by (rule sample_pre_after [OF ok]) simp
  obtain rs' s'' where r: "selectVisibleMessages sample_env (day_ns + 5) ''jobs'' std_queue 3 30 [] [] after_first = (Inr rs', s'')"
    using mem_messages.receive_spec [OF sample_env_ok(2) after_first_ok(1) p] by blast
  have "day_ns + 5 < day_ns + duration_seconds 30" by code_simp
  from no_double_delivery [OF sample_env_ok(2) sample_state_ok(1) sample_pre(1) p sample_first r this] r
  show ?thesis by simp
qed

text \<open>
  C37. A FIFO group with a message in flight is locked: every message a receive from a queue of
  at most 5000 messages (\<open>receive_pre\<close>) returns is a stored one whose group, when it has one, had only visible messages at that moment.
\<close>

theorem fifo_group_lock:
  assumes "env_backend E = memMessageBackend_ops" "mem_messages_invar (sq_mb s)"
    and "receive_pre E now queueName q n vt s" "isFifoQueue q"
    and "selectVisibleMessages E now queueName q n vt names mnames s = (Inr rs, s')" "r \<in> set rs"
  shows "\<exists>m \<in> set (backlog E queueName s). msg_MessageID m = rm_MessageId r \<and> msg_Body m = rm_Body r
    \<and> {m' \<in> set (backlog E queueName s). msg_MessageGroupId m \<noteq> [] \<and> msg_MessageGroupId m' = msg_MessageGroupId m
         \<and> \<not> messageVisibleAt m' now} = {}"
proof -
  obtain G where G: "received_from mem_messages_view E now queueName q n vt s rs G s'"
    using mem_messages.receive_spec [OF assms(1-3), of names mnames] assms(5) by auto
  then have "rm_pair r \<in> msg_pair ` set G" using assms(6) unfolding received_from_def Let_def by (metis image_eqI list.set_map)
  then obtain m where m: "m \<in> set G" "rm_MessageId r = msg_MessageID m" "rm_Body r = msg_Body m"
    by (auto simp: rm_pair_def msg_pair_def)
  then have "m \<in> set (backlog E queueName s)" "may_deliver now q (backlog E queueName s) m"
    using mem_messages.received_ids(2) [OF G] by (auto simp: set_eligible)
  then show ?thesis using m(2,3) assms(4) by (intro bexI [of _ m]) (auto simp: may_deliver_def list_all_iff)
qed

theorem fifo_group_lock_witness:
  "''f'' \<notin> set (map rm_MessageId (projr (fst (selectVisibleMessages sample_env day_ns ''jobs.fifo'' fifo_queue 2 30 [] [] sample_state))))"
proof
  have fifo: "isFifoQueue fifo_queue" by code_simp
  obtain rs s' where r: "selectVisibleMessages sample_env day_ns ''jobs.fifo'' fifo_queue 2 30 [] [] sample_state = (Inr rs, s')"
    using mem_messages.receive_spec [OF sample_env_ok(2) sample_state_ok(1) sample_pre(2)] by blast
  assume "''f'' \<in> set (map rm_MessageId (projr (fst (selectVisibleMessages sample_env day_ns ''jobs.fifo'' fifo_queue 2 30 [] [] sample_state))))"
  then obtain x where x: "x \<in> set rs" "rm_MessageId x = ''f''" using r by auto
  have b: "list_all (\<lambda>m. msg_MessageID m \<noteq> ''f'' \<or> msg_MessageGroupId m = ''k'') (backlog sample_env ''jobs.fifo'' sample_state)"
    "list_ex (\<lambda>m. msg_MessageGroupId m = ''k'' \<and> \<not> messageVisibleAt m day_ns) (backlog sample_env ''jobs.fifo'' sample_state)"
    by code_simp+
  obtain m where m: "m \<in> set (backlog sample_env ''jobs.fifo'' sample_state)"
    "msg_MessageID m = rm_MessageId x \<and> msg_Body m = rm_Body x
     \<and> {m' \<in> set (backlog sample_env ''jobs.fifo'' sample_state). msg_MessageGroupId m \<noteq> [] \<and> msg_MessageGroupId m' = msg_MessageGroupId m
         \<and> \<not> messageVisibleAt m' day_ns} = {}"
    by (rule bexE [OF fifo_group_lock [OF sample_env_ok(2) sample_state_ok(1) sample_pre(2) fifo r x(1)]])
  have g: "msg_MessageGroupId m = ''k''" using b(1) m x(2) by (auto simp: list_all_iff)
  obtain m' where "m' \<in> set (backlog sample_env ''jobs.fifo'' sample_state)" "msg_MessageGroupId m' = ''k''" "\<not> messageVisibleAt m' day_ns"
    using b(2) by (auto simp: list_ex_iff)
  with m(2) g show False by auto
qed

text \<open>
  C8. Every message of a standard queue of at most 5000 gets out: receives at instants between
  \<open>t0\<close> and \<open>t1\<close>, all within one visibility timeout of \<open>t0\<close>, as many as it takes to ask for all
  stored messages, return no message twice, return each one that is visible at \<open>t0\<close> and within
  the redrive policy's count, and return only such as are by \<open>t1\<close>.
\<close>

theorem standard_queue_drains:
  assumes "env_backend E = memMessageBackend_ops" "mem_messages_invar (sq_mb s)"
    and "\<forall>t \<in> set ts. t0 \<le> t \<and> t \<le> t1 \<and> receive_pre E t queueName q n vt s"
    and "queue_ok queueName" "\<not> isFifoQueue q" "t1 < t0 + duration_seconds vt"
    and "int (length (backlog E queueName s)) \<le> int (length ts) * n"
  shows "\<exists>rs s'. receive_rounds E queueName q n vt ts s = (Inr rs, s')
    \<and> distinct (map rm_MessageId rs)
    \<and> set (map msg_pair (eligible t0 q (backlog E queueName s))) \<subseteq> set (map rm_pair rs)
    \<and> set (map rm_pair rs) \<subseteq> set (map msg_pair (eligible t1 q (backlog E queueName s)))"
  using assms by (rule mem_messages.drain_all)

text \<open>Two receives of two messages, twenty seconds apart, of a queue of three.\<close>

theorem standard_queue_drains_witness:
  "set (map rm_pair (projr (fst (receive_rounds sample_env ''jobs'' std_queue 2 30 [day_ns, day_ns + 20000000000] sample_state))))
   = {(''a'', ''one''), (''c'', ''three'')}"
proof -
  let ?u = "day_ns + 20000000000"
  have c: "\<not> isFifoQueue std_queue" "?u < day_ns + duration_seconds 30" "length (backlog sample_env ''jobs'' sample_state) = 3"
    "map msg_pair (eligible day_ns std_queue (backlog sample_env ''jobs'' sample_state)) = [(''a'', ''one''), (''c'', ''three'')]"
    "map msg_pair (eligible ?u std_queue (backlog sample_env ''jobs'' sample_state)) = [(''a'', ''one''), (''c'', ''three'')]"
    "receive_ok ?u ''jobs'' std_queue 30" "queue_ok ''jobs''"
    by code_simp+
  have "receive_pre sample_env ?u ''jobs'' std_queue 2 30 sample_state"
    using sample_pre(1) c(6) by (simp add: receive_pre_def)
  then have p: "\<forall>t \<in> set [day_ns, ?u]. day_ns \<le> t \<and> t \<le> ?u \<and> receive_pre sample_env t ''jobs'' std_queue 2 30 sample_state"
    using sample_pre(1) by simp
  have "int (length (backlog sample_env ''jobs'' sample_state)) \<le> int (length [day_ns, ?u]) * 2" using c(3) by simp
  from standard_queue_drains [OF sample_env_ok(2) sample_state_ok(1) p c(7,1,2) this]
  obtain rs s' where r: "receive_rounds sample_env ''jobs'' std_queue 2 30 [day_ns, ?u] sample_state = (Inr rs, s')"
    "set (map msg_pair (eligible day_ns std_queue (backlog sample_env ''jobs'' sample_state))) \<subseteq> set (map rm_pair rs)"
    "set (map rm_pair rs) \<subseteq> set (map msg_pair (eligible ?u std_queue (backlog sample_env ''jobs'' sample_state)))" by blast
  from r(2,3) have "set (map rm_pair rs) = {(''a'', ''one''), (''c'', ''three'')}" unfolding c(4,5) by (auto simp del: set_map)
  then show ?thesis using r(1) by simp
qed

text \<open>
  C9. What a consumer received from a standard queue without a redrive policy and did not
  delete comes back: once its visibility timeout has passed, receives within one timeout of
  each other, as many as it takes to ask for everything stored (at most 5000 messages),
  return the same messages again.
\<close>

theorem redelivery_after_timeout:
  assumes "env_backend E = memMessageBackend_ops" "mem_messages_invar (sq_mb s)"
    and "receive_pre E now queueName q n vt s"
    and "\<not> isFifoQueue q" "redrive_or_nil (q_Attributes q) = None"
    and "selectVisibleMessages E now queueName q n vt names mnames s = (Inr rs, s')"
    and "\<forall>t \<in> set ts. t0 \<le> t \<and> t \<le> t1 \<and> receive_pre E t queueName q n' vt' s'"
    and "now + duration_seconds vt \<le> t0" "t1 < t0 + duration_seconds vt'"
    and "int (length (backlog E queueName s')) \<le> int (length ts) * n'"
  shows "\<exists>rs' s''. receive_rounds E queueName q n' vt' ts s' = (Inr rs', s'')
    \<and> set (map rm_pair rs) \<subseteq> set (map rm_pair rs')"
  using assms by (rule mem_messages.redelivery_spec)

theorem redelivery_after_timeout_witness:
  "set (map rm_pair (projr (fst (selectVisibleMessages sample_env day_ns ''jobs'' std_queue 2 30 [] [] sample_state))))
   \<subseteq> set (map rm_pair (projr (fst (receive_rounds sample_env ''jobs'' std_queue 2 30 [2 * day_ns, 2 * day_ns + 5] after_first))))"
proof -
  let ?t = "2 * day_ns"
  have ok: "receive_ok ?t ''jobs'' std_queue 30" "receive_ok (?t + 5) ''jobs'' std_queue 30" by code_simp+
  have p: "\<forall>t \<in> set [?t, ?t + 5]. ?t \<le> t \<and> t \<le> ?t + 5 \<and> receive_pre sample_env t ''jobs'' std_queue 2 30 after_first"
    using sample_pre_after [OF ok(1), of 2] sample_pre_after [OF ok(2), of 2] by simp
  have c: "\<not> isFifoQueue std_queue" "redrive_or_nil (q_Attributes std_queue) = None" "day_ns + duration_seconds 30 \<le> ?t"
    "?t + 5 < ?t + duration_seconds 30"
    by code_simp+
  have many: "int (length (backlog sample_env ''jobs'' after_first)) \<le> int (length [?t, ?t + 5]) * 2" using after_first_ok(2) by simp
  from redelivery_after_timeout [OF sample_env_ok(2) sample_state_ok(1) sample_pre(1) c(1,2) sample_first p c(3,4) many]
  obtain rs' s'' where "receive_rounds sample_env ''jobs'' std_queue 2 30 [?t, ?t + 5] after_first = (Inr rs', s'')"
    "set (map rm_pair (projr (fst (selectVisibleMessages sample_env day_ns ''jobs'' std_queue 2 30 [] [] sample_state))))
      \<subseteq> set (map rm_pair rs')" by blast
  then show ?thesis by simp
qed

section \<open>Deleting\<close>

text \<open>
  C36. Directly after a receive from a queue of at most 5000 messages (\<open>receive_pre\<close>), whose IDs
  have no newline, the handle it returned deletes that message and no other; any other handle for
  the same message, such as one of an earlier receive, is refused as superseded and changes
  nothing.
\<close>

theorem received_handle_deletes:
  assumes "env_backend E = memMessageBackend_ops" "mem_messages_invar (sq_mb s)"
    and "receive_pre E now queueName q n vt s" "queueNameFromURL url = queueName"
    and "selectVisibleMessages E now queueName q n vt names mnames s = (Inr rs, s')" "r \<in> set rs"
    and "no_newline queueName" "no_newline (rm_MessageId r)"
    and "decodeReceiptHandle h = Some (x, rm_MessageId r)"
  shows "if h = rm_ReceiptHandle r
    then \<exists>s''. deleteMessageTyped E url h s' = (Inr (), s'')
      \<and> set (backlog E queueName s'') = {m \<in> set (backlog E queueName s'). msg_MessageID m \<noteq> rm_MessageId r}
    else deleteMessageTyped E url h s' = (Inl errSuperseded, s')"
  using mem_messages.received_handle_spec [OF assms(1-8)] assms(9) by simp

lemma sample_first_message:
  obtains r where "r \<in> set (projr (fst (selectVisibleMessages sample_env day_ns ''jobs'' std_queue 2 30 [] [] sample_state)))"
    "r = hd (projr (fst (selectVisibleMessages sample_env day_ns ''jobs'' std_queue 2 30 [] [] sample_state)))"
    "no_newline (rm_MessageId r)" "decodeReceiptHandle (rm_ReceiptHandle r) = Some (''jobs'', rm_MessageId r)"
proof -
  let ?el = "eligible day_ns std_queue (backlog sample_env ''jobs'' sample_state)"
  obtain rs s' G where r: "selectVisibleMessages sample_env day_ns ''jobs'' std_queue 2 30 [] [] sample_state = (Inr rs, s')"
      "mem_messages_invar (sq_mb s')" "received_from mem_messages_view sample_env day_ns ''jobs'' std_queue 2 30 sample_state rs G s'"
    using mem_messages.receive_spec [OF sample_env_ok(2) sample_state_ok(1) sample_pre(1)] by blast
  have c: "length ?el = 2" "list_all (\<lambda>m. no_newline (msg_MessageID m)) ?el" "no_newline ''jobs''" by code_simp+
  have G: "int (length rs) = min 2 (int (length ?el))" "map rm_MessageId rs = map msg_MessageID G" "set G \<subseteq> set ?el"
    using r(3) mem_messages.received_ids(1,2) [OF r(3)] by (simp_all add: received_from_def Let_def)
  have hd: "hd rs \<in> set rs" using G(1) c(1) by (cases rs) simp_all
  then have "rm_MessageId (hd rs) \<in> set (map msg_MessageID G)" unfolding G(2) [symmetric] by simp
  then have nl: "no_newline (rm_MessageId (hd rs))" using G(3) c(2) by (auto simp: list_all_iff)
  have q: "queue_ok ''jobs''" by simp
  obtain m nonce where "m \<in> set (backlog sample_env ''jobs'' s')" "msg_MessageID m = rm_MessageId (hd rs)" "msg_Body m = rm_Body (hd rs)"
    "msg_ReceiptHandle m = rm_ReceiptHandle (hd rs)" "msg_VisibleAfter m = day_ns + duration_seconds 30"
    and h: "rm_ReceiptHandle (hd rs) = b64_encode (receipt_payload ''jobs'' (rm_MessageId (hd rs)) nonce)"
    by (rule mem_messages.received_stored [OF sample_env_ok(2) r(2) q r(3) hd])
  have d: "decodeReceiptHandle (rm_ReceiptHandle (hd rs)) = Some (''jobs'', rm_MessageId (hd rs))"
    unfolding h by (rule decode_receipt [OF c(3) nl])
  have e: "projr (fst (selectVisibleMessages sample_env day_ns ''jobs'' std_queue 2 30 [] [] sample_state)) = rs"
    unfolding r(1) by simp
  show thesis by (rule that [unfolded e, OF hd refl nl d])
qed

theorem received_handle_deletes_witness:
  "fst (deleteMessageTyped sample_env ''http://localhost:4566/000000000000/jobs''
     (rm_ReceiptHandle (hd (projr (fst (selectVisibleMessages sample_env day_ns ''jobs'' std_queue 2 30 [] [] sample_state))))) after_first)
   = Inr ()"
proof -
  have c: "queueNameFromURL ''http://localhost:4566/000000000000/jobs'' = ''jobs''" "no_newline ''jobs''" by code_simp+
  obtain r where r: "r \<in> set (projr (fst (selectVisibleMessages sample_env day_ns ''jobs'' std_queue 2 30 [] [] sample_state)))"
    "r = hd (projr (fst (selectVisibleMessages sample_env day_ns ''jobs'' std_queue 2 30 [] [] sample_state)))"
    "no_newline (rm_MessageId r)" "decodeReceiptHandle (rm_ReceiptHandle r) = Some (''jobs'', rm_MessageId r)"
    by (rule sample_first_message)
  from received_handle_deletes [OF sample_env_ok(2) sample_state_ok(1) sample_pre(1) c(1) sample_first r(1) c(2) r(3,4)]
  show ?thesis unfolding r(2) [symmetric] by auto
qed

end
