(* ===== verification/Sqs_Sending.thy ===== *)
theory Sqs_Sending
  imports Sqs_Service
begin

text \<open>
  The properties of sending, for the service over its in-process stores: the order of a FIFO
  queue, the way from a send to a receive, the deduplication window, and that a failed send
  stores nothing.
\<close>

section \<open>Sending\<close>

text \<open>
  C10. While the sequence counter bounds the stored sequence numbers, a send without a delay to
  a FIFO queue that stores its message puts it behind all others: whatever is
  visible later comes first, in the order it had, and the sequence counter stays a
  bound.  (The counter starts at 0 with every process, so that a queue restored from
  a persistent store does not satisfy the bound.)
\<close>

theorem fifo_send_appends:
  assumes "env_backend E = memMessageBackend_ops" "send_ok E now inp" "mem_messages_invar (sq_mb s)"
    and "queueName = queueNameFromURL (sm_QueueUrl inp)"
    and "\<forall>m \<in> set (backlog E queueName s). msg_MessageID m \<noteq> env_uuid E (sq_uuid s)"
    and "sendMessageTyped E now inp s = (Inr resp, s')" "sr_SequenceNumber resp \<noteq> []"
    and "fst (getQueue E queueName s) = Inr q" "isFifoQueue q" "seq_bounded E queueName s"
    and "now \<le> t" "sm_DelaySeconds inp \<le> 0"
  shows "\<exists>m. is_sent E now True inp s m \<and> sr_MessageId resp = msg_MessageID m
      \<and> visible_in_order t q (backlog E queueName s') = visible_in_order t q (backlog E queueName s) @ [m]
      \<and> sq_seq s' = sq_seq s + 1
      \<and> list_all (\<lambda>m. parseSequenceNumber (msg_SequenceNumber m) \<le> sq_seq s') (backlog E queueName s')"
  using assms by (rule mem_messages.send_fifo_spec)

definition sample_request :: "string \<Rightarrow> sendMessageRequest" where
  "sample_request name = \<lparr>sm_QueueUrl = ''http://localhost:4566/000000000000/'' @ name, sm_MessageBody = ''hello'', sm_DelaySeconds = 0,
     sm_MessageAttributes = [], sm_MessageDeduplicationId = ''x'', sm_MessageGroupId = ''z''\<rparr>"

definition sent_fifo :: "(KV list memory_store, memMessageBackend) sqs_state" where
  "sent_fifo = snd (sendMessageTyped sample_env day_ns (sample_request ''jobs.fifo'') sample_state)"

definition fifo_response :: sendMessageResponse where
  "fifo_response = \<lparr>sr_MessageId = ''7'', sr_MD5OfMessageBody = ''d41d'', sr_MD5OfMessageAttributes = [], sr_SequenceNumber = ''5''\<rparr>"

lemma sent_fifo_response:
  "sendMessageTyped sample_env day_ns (sample_request ''jobs.fifo'') sample_state = (Inr fifo_response, sent_fifo)"
  "sr_SequenceNumber fifo_response \<noteq> []"
proof -
  have "fst (sendMessageTyped sample_env day_ns (sample_request ''jobs.fifo'') sample_state) = Inr fifo_response"
    by code_simp
  then show "sendMessageTyped sample_env day_ns (sample_request ''jobs.fifo'') sample_state = (Inr fifo_response, sent_fifo)"
    unfolding sent_fifo_def by (intro prod_eqI) (simp_all only: fst_conv snd_conv)
qed (simp add: fifo_response_def)

lemma sample_send_ok: "send_ok sample_env day_ns (sample_request ''jobs.fifo'')" "send_ok sample_env day_ns (sample_request ''jobs'')"
proof -
  have "queue_ok (queueNameFromURL (sm_QueueUrl (sample_request name))) \<and> marshal_year_ok (sent_at day_ns (sample_request name))
     \<and> valid_utf8 (sm_MessageBody (sample_request name)) \<and> clean_attributes (sm_MessageAttributes (sample_request name))
     \<and> valid_utf8 (sm_MessageGroupId (sample_request name)) \<and> valid_utf8 (sm_MessageDeduplicationId (sample_request name))"
    if "name = ''jobs'' \<or> name = ''jobs.fifo''" for name
    using that by (elim disjE; simp only:; code_simp)
  then show "send_ok sample_env day_ns (sample_request ''jobs.fifo'')" "send_ok sample_env day_ns (sample_request ''jobs'')"
    using sample_env_ok(1) by (simp_all add: send_ok_def)
qed

theorem fifo_send_appends_witness:
  "map msg_Body (visible_in_order day_ns fifo_queue (backlog sample_env ''jobs.fifo'' sent_fifo))
   = [''five'', ''four'', ''six'', ''hello'']"
proof -
  have c: "''jobs.fifo'' = queueNameFromURL (sm_QueueUrl (sample_request ''jobs.fifo''))"
    "list_all (\<lambda>m. msg_MessageID m \<noteq> env_uuid sample_env (sq_uuid sample_state)) (backlog sample_env ''jobs.fifo'' sample_state)"
    "fst (getQueue sample_env ''jobs.fifo'' sample_state) = Inr fifo_queue" "isFifoQueue fifo_queue"
    "seq_bounded sample_env ''jobs.fifo'' sample_state" "sm_DelaySeconds (sample_request ''jobs.fifo'') \<le> 0"
    "map msg_Body (visible_in_order day_ns fifo_queue (backlog sample_env ''jobs.fifo'' sample_state)) = [''five'', ''four'', ''six'']"
    "sm_MessageBody (sample_request ''jobs.fifo'') = ''hello''"
    by code_simp+
  have f: "\<forall>m \<in> set (backlog sample_env ''jobs.fifo'' sample_state). msg_MessageID m \<noteq> env_uuid sample_env (sq_uuid sample_state)"
    using c(2) by (simp add: list_all_iff)
  obtain m where "is_sent sample_env day_ns True (sample_request ''jobs.fifo'') sample_state m"
    "visible_in_order day_ns fifo_queue (backlog sample_env ''jobs.fifo'' sent_fifo)
      = visible_in_order day_ns fifo_queue (backlog sample_env ''jobs.fifo'' sample_state) @ [m]"
    using fifo_send_appends [OF sample_env_ok(2) sample_send_ok(1) sample_state_ok(1) c(1) f sent_fifo_response c(3-5) order_refl c(6)]
    by blast
  then show ?thesis using c(7,8) by (simp add: is_sent_def)
qed

text \<open>
  C21. What was sent is received: after a successful send to a standard queue without a
  redrive policy, receives within one visibility timeout of each other, directly following
  the send and at or after the end of the delay, as many as it takes to ask for everything
  stored (at most 5000 messages), return the message, once, under the ID of the response and
  with the body of the request.
\<close>

theorem send_then_receive:
  assumes "env_backend E = memMessageBackend_ops" "send_ok E now inp" "mem_messages_invar (sq_mb s)"
    and "queueName = queueNameFromURL (sm_QueueUrl inp)"
    and "\<forall>m \<in> set (backlog E queueName s). msg_MessageID m \<noteq> env_uuid E (sq_uuid s)"
    and "sendMessageTyped E now inp s = (Inr resp, s')"
    and "fst (getQueue E queueName s) = Inr q" "\<not> isFifoQueue q" "redrive_or_nil (q_Attributes q) = None"
    and "\<forall>t \<in> set ts. t0 \<le> t \<and> t \<le> t1 \<and> receive_pre E t queueName q n vt s'"
    and "sent_at now inp \<le> t0" "t1 < t0 + duration_seconds vt"
    and "int (length (backlog E queueName s')) \<le> int (length ts) * n"
  shows "\<exists>rs s''. receive_rounds E queueName q n vt ts s' = (Inr rs, s'')
    \<and> distinct (map rm_MessageId rs) \<and> (sr_MessageId resp, sm_MessageBody inp) \<in> set (map rm_pair rs)"
  using assms by (rule mem_messages.send_then_receive_spec)

definition sent_std :: "(KV list memory_store, memMessageBackend) sqs_state" where
  "sent_std = snd (sendMessageTyped sample_env day_ns (sample_request ''jobs'') sample_state)"

definition std_response :: sendMessageResponse where
  "std_response = \<lparr>sr_MessageId = ''7'', sr_MD5OfMessageBody = ''d41d'', sr_MD5OfMessageAttributes = [], sr_SequenceNumber = []\<rparr>"

lemma sent_std_response:
  "sendMessageTyped sample_env day_ns (sample_request ''jobs'') sample_state = (Inr std_response, sent_std)"
  "length (backlog sample_env ''jobs'' sent_std) = 4"
proof -
  have "fst (sendMessageTyped sample_env day_ns (sample_request ''jobs'') sample_state) = Inr std_response"
    by code_simp
  then show "sendMessageTyped sample_env day_ns (sample_request ''jobs'') sample_state = (Inr std_response, sent_std)"
    unfolding sent_std_def by (intro prod_eqI) (simp_all only: fst_conv snd_conv)
  show "length (backlog sample_env ''jobs'' sent_std) = 4" by code_simp
qed

theorem send_then_receive_witness:
  "(''7'', ''hello'') \<in> set (map rm_pair (projr (fst
     (receive_rounds sample_env ''jobs'' std_queue 3 30 [day_ns, day_ns + 7] sent_std))))"
proof -
  let ?ts = "[day_ns, day_ns + 7]"
  have c: "''jobs'' = queueNameFromURL (sm_QueueUrl (sample_request ''jobs''))"
    "list_all (\<lambda>m. msg_MessageID m \<noteq> env_uuid sample_env (sq_uuid sample_state)) (backlog sample_env ''jobs'' sample_state)"
    "fst (getQueue sample_env ''jobs'' sample_state) = Inr std_queue" "\<not> isFifoQueue std_queue"
    "redrive_or_nil (q_Attributes std_queue) = None" "sent_at day_ns (sample_request ''jobs'') \<le> day_ns"
    "day_ns + 7 < day_ns + duration_seconds 30"
    "receive_ok day_ns ''jobs'' std_queue 30" "receive_ok (day_ns + 7) ''jobs'' std_queue 30"
    by code_simp+
  have f: "\<forall>m \<in> set (backlog sample_env ''jobs'' sample_state). msg_MessageID m \<noteq> env_uuid sample_env (sq_uuid sample_state)"
    using c(2) by (simp add: list_all_iff)
  have p: "\<forall>t \<in> set ?ts. day_ns \<le> t \<and> t \<le> day_ns + 7 \<and> receive_pre sample_env t ''jobs'' std_queue 3 30 sent_std"
    "int (length (backlog sample_env ''jobs'' sent_std)) \<le> int (length ?ts) * 3"
    using sample_env_ok(1) c(8,9) sent_std_response(2) by (simp_all add: receive_pre_def maxCandidateFetchLimit_def)
  obtain rs s'' where "receive_rounds sample_env ''jobs'' std_queue 3 30 ?ts sent_std = (Inr rs, s'')"
    "(sr_MessageId std_response, sm_MessageBody (sample_request ''jobs'')) \<in> set (map rm_pair rs)"
    using send_then_receive [OF sample_env_ok(2) sample_send_ok(2) sample_state_ok(1) c(1) f sent_std_response(1) c(3-5) p(1) c(6,7) p(2)]
    by blast
  then show ?thesis by (simp add: std_response_def sample_request_def)
qed

text \<open>
  C22. A retry, next, of a stored FIFO send with the same deduplication ID within five minutes is
  answered as a success without a sequence number and stores nothing.
\<close>

theorem fifo_retry_not_stored:
  assumes "env_store E = mem_ops alist_bt" "mem_invar (sq_kv s)"
    and "fst (getQueue E (queueNameFromURL (sm_QueueUrl inp)) s) = Inr q" "isFifoQueue q"
    and "sendMessageTyped E now inp s = (Inr resp, s')" "sr_SequenceNumber resp \<noteq> []"
    and "milli_ok (now + 300000000000)" "unix_milli now' < unix_milli (now + 300000000000)"
  shows "\<exists>resp' s''. sendMessageTyped E now' inp s' = (Inr resp', s'') \<and> sr_SequenceNumber resp' = []
    \<and> sq_mb s'' = sq_mb s' \<and> sq_seq s'' = sq_seq s'"
  using assms by (rule sqs_mem.dedup_spec)

theorem fifo_retry_not_stored_witness:
  "sq_mb (snd (sendMessageTyped sample_env (day_ns + 299999000000) (sample_request ''jobs.fifo'') sent_fifo)) = sq_mb sent_fifo"
proof -
  have c: "fst (getQueue sample_env (queueNameFromURL (sm_QueueUrl (sample_request ''jobs.fifo''))) sample_state) = Inr fifo_queue"
    "isFifoQueue fifo_queue" "milli_ok (day_ns + 300000000000)"
    "unix_milli (day_ns + 299999000000) < unix_milli (day_ns + 300000000000)"
    by code_simp+
  obtain resp s'' where
    "sendMessageTyped sample_env (day_ns + 299999000000) (sample_request ''jobs.fifo'') sent_fifo = (Inr resp, s'')"
    "sq_mb s'' = sq_mb sent_fifo"
    using fifo_retry_not_stored [OF sample_env_ok(3) sample_state_ok(2) c(1,2) sent_fifo_response c(3,4)] by blast
  then show ?thesis by simp
qed

text \<open>
  A send that is refused or fails stores no message, for every request and every state
  of the in-process backend.
\<close>

theorem failed_send_stores_nothing:
  assumes "env_backend E = memMessageBackend_ops" "sendMessageTyped E now inp s = (Inl err, s')"
  shows "sq_mb s' = sq_mb s"
proof -
  have put: "putMessage E q m x = (Inl e, x') \<Longrightarrow> sq_mb x' = sq_mb x" for q m x x' and e :: AWSError
    using assms(1) by (auto simp: putMessage_def mb_call_def memMessageBackend_ops_def mem_putMessage_def Let_def
        split: prod.splits sum.splits)
  have st: "store_sent E now q f d inp x = (Inl err, s') \<Longrightarrow> sq_mb s' = sq_mb x" for q f d x
    by (auto simp: store_sent_def Let_def new_message_def draw_uuid_def encodeReceiptHandle_def dest!: put
        split: prod.splits sum.splits if_split_asm)
  show ?thesis
    using assms(2)
    by (auto simp: sendMessageTyped_def Let_def dest!: st getQueue_state isDuplicate_state
        split: option.splits prod.splits sum.splits if_split_asm bool.splits)
qed

theorem failed_send_stores_nothing_witness:
  "sq_mb (snd (sendMessageTyped sample_env day_ns ((sample_request ''jobs'')\<lparr>sm_DelaySeconds := 901\<rparr>) sample_state)) = sq_mb sample_state"
proof -
  have "sendMessageTyped sample_env day_ns ((sample_request ''jobs'')\<lparr>sm_DelaySeconds := 901\<rparr>) sample_state
    = (Inl (invalid_delay ''DelaySeconds must be between 0 and 900, inclusive.''), sample_state)"
    by (simp add: sendMessageTyped_def check_send_def sample_request_def maxMessageBodyBytes_def)
  from failed_send_stores_nothing [OF sample_env_ok(2) this] this show ?thesis by simp
qed

end
