(* ===== verification/Pagination.thy ===== *)
theory Pagination
  imports Go_Codec
begin

text \<open>
  The pagination helper the list operations of most services share
  (\<^verbatim>\<open>internal/serviceutil/pagination.go\<close>): a page of a full listing and an opaque token
  that holds the index to resume at.  The walk of a client over all pages is shown to end
  and to return the listing, each item once.
\<close>

section \<open>URL-safe base64\<close>

text \<open>\<^verbatim>\<open>base64.URLEncoding\<close>: minus and underscore in place of plus and slash.\<close>

definition url_char :: "char \<Rightarrow> char" where
  "url_char c = (if c = CHR ''+'' then CHR ''-'' else if c = CHR ''/'' then CHR ''_'' else c)"

definition std_char :: "char \<Rightarrow> char" where
  "std_char c = (if c = CHR ''-'' then CHR ''+'' else if c = CHR ''_'' then CHR ''/'' else c)"

definition b64url_encode :: "string \<Rightarrow> string" where
  "b64url_encode s = map url_char (b64_encode s)"

definition b64url_decode :: "string \<Rightarrow> string option" where
  "b64url_decode s = (if CHR ''+'' \<in> set s \<or> CHR ''/'' \<in> set s then None else b64_decode (map std_char s))"

lemma b64_alphabet: "list_all (\<lambda>c. c \<noteq> CHR ''-'' \<and> c \<noteq> CHR ''_'') (b64_encode s)"
proof -
  have c: "b64_char n \<noteq> CHR ''-'' \<and> b64_char n \<noteq> CHR ''_''" if n: "n < 64" for n
  proof -
    have "(of_char (b64_char n) :: nat) \<noteq> 45 \<and> (of_char (b64_char n) :: nat) \<noteq> 95"
      unfolding of_char_b64 [OF n] by (cases "n < 26"; cases "n < 52"; cases "n < 62"; cases "n = 62"; simp; linarith?)
    then show ?thesis by auto
  qed
  show ?thesis by (induction s rule: b64_encode.induct) (simp_all add: Let_def c b64_rules)
qed

lemma b64url_roundtrip: "b64url_decode (b64url_encode s) = Some s"
proof -
  have "std_char (url_char c) = c" if "c \<noteq> CHR ''-'' \<and> c \<noteq> CHR ''_''" for c
    using that by (simp add: std_char_def url_char_def)
  with b64_alphabet [of s] have "map std_char (map url_char (b64_encode s)) = b64_encode s"
    unfolding map_map list_all_iff by (intro map_idI) simp
  moreover have "CHR ''+'' \<notin> set (map url_char (b64_encode s))" "CHR ''/'' \<notin> set (map url_char (b64_encode s))"
    by (auto simp: url_char_def split: if_split_asm)
  ultimately show ?thesis by (simp add: b64url_decode_def b64url_encode_def b64_roundtrip)
qed

section \<open>Pages\<close>

record PaginateOptions =
  po_DefaultLimit :: int
  po_MaxLimit :: int

record 'a Page =
  pg_Items :: "'a list"
  pg_NextToken :: string
  pg_IsTruncated :: bool

definition encodeToken :: "int \<Rightarrow> string" where
  "encodeToken startIndex = b64url_encode (show_int startIndex)"

definition decodeToken :: "string \<Rightarrow> int option" where
  "decodeToken tok =
     (case b64url_decode tok of
        None \<Rightarrow> None
      | Some b \<Rightarrow>
          (case json_parse b of
             Some (JNum l) \<Rightarrow> Atoi l
           | Some JNull \<Rightarrow> Some 0
           | _ \<Rightarrow> None))"

definition page_limit :: "int \<Rightarrow> PaginateOptions \<Rightarrow> int" where
  "page_limit requestedLimit opts =
     (let limit = (if 0 < requestedLimit then requestedLimit
                   else if 0 < po_DefaultLimit opts then po_DefaultLimit opts else 1000)
      in if 0 < po_MaxLimit opts \<and> po_MaxLimit opts < limit then po_MaxLimit opts else limit)"

text \<open>
  \<open>InvalidToken\<close> is \<^verbatim>\<open>ErrInvalidPageToken\<close>.  The end of the page is a 64-bit sum; when it wraps
  around it is negative and the slice expression panics.
\<close>

datatype 'a paginate_result = PageOf "'a Page" | InvalidToken | SlicePanic

definition Paginate :: "'a list \<Rightarrow> int \<Rightarrow> string \<Rightarrow> PaginateOptions \<Rightarrow> 'a paginate_result" where
  "Paginate items requestedLimit continuationToken opts =
     (let limit = page_limit requestedLimit opts in
      case (if continuationToken = [] then Some 0
            else case decodeToken continuationToken of
              None \<Rightarrow> None
            | Some idx \<Rightarrow> if idx < 0 \<or> int (length items) < idx then None else Some idx) of
        None \<Rightarrow> InvalidToken
      | Some start \<Rightarrow>
          (let end_idx = wrap64 (start + limit) in
           if int (length items) \<le> end_idx
           then PageOf \<lparr>pg_Items = drop (nat start) items, pg_NextToken = [], pg_IsTruncated = False\<rparr>
           else if end_idx < start then SlicePanic
           else PageOf \<lparr>pg_Items = take (nat (end_idx - start)) (drop (nat start) items), pg_NextToken = encodeToken end_idx,
                        pg_IsTruncated = True\<rparr>))"

section \<open>Walking the pages\<close>

lemma decodeToken_encode:
  assumes "- 9223372036854775808 \<le> i" "i \<le> 9223372036854775807"
  shows "decodeToken (encodeToken i) = Some i"
proof -
  have "json_parse (show_jval (VInt i)) = Some (read_jval (VInt i))" by (rule json_parse_show) simp
  then show ?thesis using Atoi_show_int [OF assms] by (simp add: decodeToken_def encodeToken_def b64url_roundtrip)
qed

lemma encodeToken_ne: "encodeToken i \<noteq> []"
proof
  assume "encodeToken i = []"
  then have "b64url_decode (encodeToken i) = Some []" by (simp add: b64url_decode_def b64_decode_def)
  then have "show_int i = []" by (simp add: encodeToken_def b64url_roundtrip)
  then show False using show_int_start [of i] by auto
qed

text \<open>
  The client's loop: take a page, go on with its token until the token is empty.  One page
  more than there are items is always enough fuel.
\<close>

fun walk_pages :: "nat \<Rightarrow> 'a list \<Rightarrow> int \<Rightarrow> string \<Rightarrow> PaginateOptions \<Rightarrow> 'a list list option" where
  "walk_pages 0 items lim tok opts = None"
| "walk_pages (Suc n) items lim tok opts =
     (case Paginate items lim tok opts of
        PageOf p \<Rightarrow>
          if pg_NextToken p = [] then Some [pg_Items p]
          else map_option ((#) (pg_Items p)) (walk_pages n items lim (pg_NextToken p) opts)
      | _ \<Rightarrow> None)"

lemma page_limit_pos: "0 < page_limit lim opts"
  by (simp add: page_limit_def Let_def)

lemma walk_pages_drop:
  assumes "int (length items) + page_limit lim opts \<le> 9223372036854775807" "k \<le> length items" "tok = (if k = 0 then [] else encodeToken (int k)) \<or> tok = encodeToken (int k)"
    and "length items - k < n"
  shows "\<exists>pages. walk_pages n items lim tok opts = Some pages \<and> concat pages = drop k items
    \<and> list_all (\<lambda>p. int (length p) \<le> page_limit lim opts) pages"
  using assms(2-)
proof (induction n arbitrary: k tok)
  case (Suc n)
  let ?lim = "page_limit lim opts"
  have dec: "decodeToken (encodeToken (int k)) = Some (int k)" using Suc.prems(1) assms(1) page_limit_pos [of lim opts] by (intro decodeToken_encode) linarith+
  have w: "wrap64 (int k + ?lim) = int k + ?lim" using Suc.prems(1) assms(1) page_limit_pos [of lim opts] by (intro wrap64_id) linarith+
  have start: "(if tok = [] then Some 0 else case decodeToken tok of
              None \<Rightarrow> None
            | Some idx \<Rightarrow> if idx < 0 \<or> int (length items) < idx then None else Some idx) = Some (int k)"
    using Suc.prems(1,2) dec encodeToken_ne [of "int k"] by (auto split: if_split_asm)
  note page = Paginate_def [of items lim tok opts, unfolded Let_def start option.case w]
  show ?case
  proof (cases "int (length items) \<le> int k + ?lim")
    case True
    then have "Paginate items lim tok opts = PageOf \<lparr>pg_Items = drop k items, pg_NextToken = [], pg_IsTruncated = False\<rparr>"
      by (simp add: page)
    moreover have "int (length (drop k items)) \<le> ?lim" using True Suc.prems(1) by (simp add: of_nat_diff)
    ultimately show ?thesis by simp
  next
    case False
    let ?k = "k + nat ?lim"
    have k: "int ?k = int k + ?lim" using page_limit_pos [of lim opts] by simp
    have p: "Paginate items lim tok opts
        = PageOf \<lparr>pg_Items = take (nat ?lim) (drop k items), pg_NextToken = encodeToken (int ?k), pg_IsTruncated = True\<rparr>"
      using False k page_limit_pos [of lim opts] by (simp add: page)
    have "?k \<le> length items" "length items - ?k < n" using False k page_limit_pos [of lim opts] Suc.prems(3) by linarith+
    then obtain pages where pages: "walk_pages n items lim (encodeToken (int ?k)) opts = Some pages" "concat pages = drop ?k items"
        "list_all (\<lambda>p. int (length p) \<le> ?lim) pages"
      using Suc.IH [of ?k "encodeToken (int ?k)"] by blast
    have "take (nat ?lim) (drop k items) @ drop ?k items = drop k items"
      by (metis append_take_drop_id drop_drop add.commute)
    moreover have "int (length (take (nat ?lim) (drop k items))) \<le> ?lim" using page_limit_pos [of lim opts] by simp
    ultimately show ?thesis using p pages encodeToken_ne [of "int ?k"] by simp
  qed
qed simp

text \<open>
  C35. A client that follows the continuation tokens of a listing gets every item exactly
  once, in order, in pages no longer than the limit, and after at most one page more than
  there are items the token is empty; this holds for every requested limit and every choice
  of default and cap, as long as the limit and the number of items do not add up past the
  largest 64-bit integer.
\<close>

theorem paginate_walk:
  assumes "int (length items) + page_limit lim opts \<le> 9223372036854775807"
  shows "\<exists>pages. walk_pages (Suc (length items)) items lim [] opts = Some pages \<and> concat pages = items
    \<and> list_all (\<lambda>p. int (length p) \<le> page_limit lim opts) pages"
  using walk_pages_drop [OF assms, of 0 "[]" "Suc (length items)"] by simp

theorem paginate_walk_witness:
  "map_option concat (walk_pages 4 [''a'', ''b'', ''c''] 2 [] \<lparr>po_DefaultLimit = 1000, po_MaxLimit = 1000\<rparr>)
   = Some [''a'', ''b'', ''c'']"
  using paginate_walk [where items = "[''a'', ''b'', ''c'']" and lim = 2 and opts = "\<lparr>po_DefaultLimit = 1000, po_MaxLimit = 1000\<rparr>"]
  by (auto simp: eval_nat_numeral page_limit_def simp del: walk_pages.simps)

text \<open>Without a cap the client can make the sum wrap around.\<close>

lemma paginate_can_panic:
  "Paginate [''a'', ''b''] 9223372036854775807 (encodeToken 1) \<lparr>po_DefaultLimit = 1000, po_MaxLimit = 0\<rparr> = SlicePanic"
proof -
  have "decodeToken (encodeToken 1) = Some 1" by (rule decodeToken_encode) simp_all
  then show ?thesis using encodeToken_ne [of 1] by (simp add: Paginate_def page_limit_def Let_def wrap64_def)
qed

end
