(* ===== verification/Sqs_Queue.thy ===== *)
theory Sqs_Queue
  imports Sqs_Service Pagination
begin

text \<open>
  The queue operations of SQS (\<^verbatim>\<open>handler_queue.go\<close>, \<^verbatim>\<open>queueattrname.go\<close> and the queue part of
  \<^verbatim>\<open>handler_dlq.go\<close>): creating, reading, changing, tagging, listing, purging and deleting
  queues, with the validation of their attributes.

  What Go leaves open or its library decides is a parameter: the order in which a loop
  visits a map, the text of a JSON error, and whether a number literal is within the range
  of a float64.
\<close>

record go_lib =
  gl_order :: "string gomap \<Rightarrow> string gomap"
  gl_json_error :: "string \<Rightarrow> string"
  gl_float_ok :: "string \<Rightarrow> bool"

section \<open>Names and ARNs\<close>

definition AlphaNumericHyphenUnderscorePeriod :: "char \<Rightarrow> bool" where
  "AlphaNumericHyphenUnderscorePeriod c \<longleftrightarrow>
     byte_in 97 122 c \<or> byte_in 65 90 c \<or> byte_in 48 57 c \<or> c \<in> {CHR ''-'', CHR ''_'', CHR ''.''}"

definition QueueName :: "string \<Rightarrow> AWSError option" where
  "QueueName name =
     (if length name < 1 \<or> 80 < length name
      then Some (bad_request ''InvalidParameterValue'' ''Queue name must be between 1 and 80 characters.'')
      else if \<not> list_all AlphaNumericHyphenUnderscorePeriod name
      then Some (bad_request ''InvalidParameterValue''
        ''Queue name can only contain alphanumeric characters, hyphens, underscores, and periods.'')
      else None)"

definition QueueARN :: "string \<Rightarrow> string \<Rightarrow> string \<Rightarrow> string" where
  "QueueARN region accountID queueName = ''arn:aws:sqs:'' @ region @ '':'' @ accountID @ '':'' @ queueName"

definition ARNRegion :: "string \<Rightarrow> string" where
  "ARNRegion arn = (let parts = SplitN arn CHR '':'' 6 in if 5 \<le> length parts then parts ! 3 else [])"

definition HasSuffix :: "string \<Rightarrow> string \<Rightarrow> bool" where
  "HasSuffix s suf \<longleftrightarrow> suf = drop (length s - length suf) s"

section \<open>Validation of attributes\<close>

definition errInvalidQueueAttributeValue :: "string \<Rightarrow> AWSError" where
  "errInvalidQueueAttributeValue name =
     bad_request ''InvalidAttributeValue'' (''Invalid value for the parameter '' @ name @ ''.'')"

definition errInvalidAttributeName :: "string \<Rightarrow> AWSError" where
  "errInvalidAttributeName name = bad_request ''InvalidAttributeName'' (''Unknown Attribute '' @ name @ ''.'')"

definition errQueueNameExists :: "string \<Rightarrow> AWSError" where
  "errQueueNameExists attribute =
     bad_request ''QueueNameExists''
       (''A queue already exists with the same name and a different value for attribute '' @ attribute @ ''.'')"

definition defaultQueueAttributes :: "string gomap" where
  "defaultQueueAttributes =
     [(''DelaySeconds'', ''0''), (''MaximumMessageSize'', ''262144''), (''MessageRetentionPeriod'', ''345600''),
      (''ReceiveMessageWaitTimeSeconds'', ''0''), (''VisibilityTimeout'', ''30'')]"

definition validateQueueIntegerAttribute :: "string gomap \<Rightarrow> string \<Rightarrow> int \<Rightarrow> int \<Rightarrow> AWSError option" where
  "validateQueueIntegerAttribute attrs name minValue maxValue =
     (case map_of attrs name of
        None \<Rightarrow> None
      | Some v \<Rightarrow>
          (case Atoi v of
             None \<Rightarrow> Some (errInvalidQueueAttributeValue name)
           | Some parsed \<Rightarrow>
               if parsed < minValue \<or> maxValue < parsed then Some (errInvalidQueueAttributeValue name) else None))"

definition validateQueueEnumAttribute :: "string gomap \<Rightarrow> string \<Rightarrow> string list \<Rightarrow> AWSError option" where
  "validateQueueEnumAttribute attrs name allowed =
     (case map_of attrs name of
        None \<Rightarrow> None
      | Some v \<Rightarrow> if v \<in> set allowed then None else Some (errInvalidQueueAttributeValue name))"

definition validateQueueBoolAttribute :: "string gomap \<Rightarrow> string \<Rightarrow> AWSError option" where
  "validateQueueBoolAttribute attrs name =
     (case map_of attrs name of
        None \<Rightarrow> None
      | Some v \<Rightarrow> if v \<noteq> ''true'' \<and> v \<noteq> ''false'' then Some (errInvalidQueueAttributeValue name) else None)"

text \<open>Decoding into \<^verbatim>\<open>any\<close> makes every number a float64.\<close>

fun any_ok :: "(string \<Rightarrow> bool) \<Rightarrow> json \<Rightarrow> bool" where
  "any_ok f (JNum l) = f l"
| "any_ok f (JArr es) = list_all (\<lambda>(raw, v). any_ok f v) es"
| "any_ok f (JObj ms) = list_all (\<lambda>(k, raw, v). any_ok f v) ms"
| "any_ok f v = True"

definition validateQueuePolicyAttribute :: "go_lib \<Rightarrow> string gomap \<Rightarrow> string \<Rightarrow> AWSError option" where
  "validateQueuePolicyAttribute L attrs name =
     (case map_of attrs name of
        None \<Rightarrow> None
      | Some v \<Rightarrow>
          if TrimSpace v = [] then None
          else (case json_parse v of
             Some (JObj ms) \<Rightarrow> if any_ok (gl_float_ok L) (JObj ms) then None else Some (errInvalidQueueAttributeValue name)
           | Some JNull \<Rightarrow> None
           | _ \<Rightarrow> Some (errInvalidQueueAttributeValue name)))"

fun read_strings :: "(string \<times> json) list \<Rightarrow> string list option" where
  "read_strings [] = Some []"
| "read_strings ((raw, v) # es) =
     (case read_string v [] of None \<Rightarrow> None | Some s \<Rightarrow> map_option ((#) s) (read_strings es))"

definition read_allow_member :: "string \<Rightarrow> json \<Rightarrow> string \<times> string list \<Rightarrow> (string \<times> string list) option" where
  "read_allow_member name v p =
     (if EqualFold name ''redrivePermission'' then map_option (\<lambda>x. (x, snd p)) (read_string v (fst p))
      else if EqualFold name ''sourceQueueArns'' then
        (case v of
           JArr es \<Rightarrow> map_option (\<lambda>x. (fst p, x)) (read_strings es)
         | JNull \<Rightarrow> Some (fst p, [])
         | _ \<Rightarrow> None)
      else Some p)"

definition validateRedriveAllowPolicyAttribute :: "string gomap \<Rightarrow> AWSError option" where
  "validateRedriveAllowPolicyAttribute attrs =
     (let bad = Some (errInvalidQueueAttributeValue ''RedriveAllowPolicy'') in
      case map_of attrs ''RedriveAllowPolicy'' of
        None \<Rightarrow> None
      | Some v \<Rightarrow>
          if TrimSpace v = [] then None
          else (case json_parse v of
             None \<Rightarrow> bad
           | Some j \<Rightarrow>
               (case read_struct read_allow_member j ([], []) of
                  None \<Rightarrow> bad
                | Some (permission, arns) \<Rightarrow>
                    if permission \<in> {[], ''allowAll'', ''denyAll''} then (if arns \<noteq> [] then bad else None)
                    else if permission = ''byQueue'' then (if 10 < length arns then bad else None)
                    else bad)))"

text \<open>Go's sequence of \<^verbatim>\<open>if err := \<dots>; err != nil { return err }\<close>: the first error counts.\<close>

fun first_error :: "AWSError option list \<Rightarrow> AWSError option" where
  "first_error [] = None"
| "first_error (None # es) = first_error es"
| "first_error (Some e # es) = Some e"

definition reject_when :: "bool \<Rightarrow> string \<Rightarrow> AWSError option" where
  "reject_when b name = (if b then Some (errInvalidQueueAttributeValue name) else None)"

definition validateQueueAttributes :: "go_lib \<Rightarrow> string gomap \<Rightarrow> AWSError option" where
  "validateQueueAttributes L attrs =
     (let present = (\<lambda>name. map_of attrs name \<noteq> None); standard = map_str attrs ''FifoQueue'' \<noteq> ''true'' in
      first_error
        [validateQueueIntegerAttribute attrs ''DelaySeconds'' 0 900,
         validateQueueIntegerAttribute attrs ''MaximumMessageSize'' 1024 1048576,
         validateQueueIntegerAttribute attrs ''MessageRetentionPeriod'' 60 1209600,
         validateQueueIntegerAttribute attrs ''KmsDataKeyReusePeriodSeconds'' 60 86400,
         validateQueueIntegerAttribute attrs ''ReceiveMessageWaitTimeSeconds'' 0 20,
         validateQueueIntegerAttribute attrs ''VisibilityTimeout'' 0 43200,
         validateQueueBoolAttribute attrs ''FifoQueue'',
         validateQueueBoolAttribute attrs ''ContentBasedDeduplication'',
         validateQueueBoolAttribute attrs ''SqsManagedSseEnabled'',
         validateQueueEnumAttribute attrs ''DeduplicationScope'' [''messageGroup'', ''queue''],
         validateQueueEnumAttribute attrs ''FifoThroughputLimit'' [''perQueue'', ''perMessageGroupId''],
         reject_when (map_str attrs ''FifoThroughputLimit'' = ''perMessageGroupId''
           \<and> map_str attrs ''DeduplicationScope'' \<noteq> ''messageGroup'') ''FifoThroughputLimit'',
         reject_when (map_str attrs ''SqsManagedSseEnabled'' = ''true'' \<and> map_str attrs ''KmsMasterKeyId'' \<noteq> [])
           ''SqsManagedSseEnabled'',
         reject_when (standard \<and> present ''ContentBasedDeduplication'') ''ContentBasedDeduplication'',
         reject_when (standard \<and> present ''DeduplicationScope'') ''DeduplicationScope'',
         reject_when (standard \<and> present ''FifoThroughputLimit'') ''FifoThroughputLimit'',
         validateQueuePolicyAttribute L attrs ''Policy'',
         validateRedriveAllowPolicyAttribute attrs])"

definition settableQueueAttributes :: "string list" where
  "settableQueueAttributes =
     [''ContentBasedDeduplication'', ''DeduplicationScope'', ''DelaySeconds'', ''FifoQueue'', ''FifoThroughputLimit'',
      ''KmsDataKeyReusePeriodSeconds'', ''KmsMasterKeyId'', ''MaximumMessageSize'', ''MessageRetentionPeriod'', ''Policy'',
      ''ReceiveMessageWaitTimeSeconds'', ''RedriveAllowPolicy'', ''RedrivePolicy'', ''SqsManagedSseEnabled'',
      ''VisibilityTimeout'']"

datatype queueAttributeValidationContext = queueAttributeCreate | queueAttributeSet

fun validateRequestedQueueAttributes :: "string gomap \<Rightarrow> queueAttributeValidationContext \<Rightarrow> AWSError option" where
  "validateRequestedQueueAttributes [] c = None"
| "validateRequestedQueueAttributes ((name, v) # attrs) c =
     (if name \<notin> set settableQueueAttributes then Some (errInvalidAttributeName name)
      else if c = queueAttributeSet \<and> name = ''FifoQueue'' then Some (errInvalidAttributeName name)
      else validateRequestedQueueAttributes attrs c)"

definition queueAttributeNames :: "string list" where
  "queueAttributeNames =
     [''All'', ''ApproximateNumberOfMessages'', ''ApproximateNumberOfMessagesDelayed'',
      ''ApproximateNumberOfMessagesNotVisible'', ''ContentBasedDeduplication'', ''CreatedTimestamp'', ''DeduplicationScope'',
      ''DelaySeconds'', ''FifoQueue'', ''FifoThroughputLimit'', ''KmsDataKeyReusePeriodSeconds'', ''KmsMasterKeyId'',
      ''LastModifiedTimestamp'', ''MaximumMessageSize'', ''MessageRetentionPeriod'', ''Policy'', ''QueueArn'',
      ''ReceiveMessageWaitTimeSeconds'', ''RedriveAllowPolicy'', ''RedrivePolicy'', ''SqsManagedSseEnabled'',
      ''VisibilityTimeout'']"

fun validateQueueAttributeNames :: "string list \<Rightarrow> AWSError option" where
  "validateQueueAttributeNames [] = None"
| "validateQueueAttributeNames (name # names) =
     (if name \<notin> set queueAttributeNames then Some (errInvalidAttributeName name) else validateQueueAttributeNames names)"

definition invalid_redrive :: "string \<Rightarrow> AWSError" where
  "invalid_redrive m = bad_request ''InvalidParameterValue'' m"

definition validateRedrivePolicyContext ::
  "go_lib \<Rightarrow> ('s, 'b) sqs_env \<Rightarrow> string gomap \<Rightarrow> ('s, 'b) sqs_state \<Rightarrow> AWSError option \<times> ('s, 'b) sqs_state"
where
  "validateRedrivePolicyContext L E attrs s =
     (case parseRedrivePolicy attrs of
        Inl _ \<Rightarrow> (Some (invalid_redrive (''invalid RedrivePolicy JSON: '' @ gl_json_error L (map_str attrs ''RedrivePolicy''))), s)
      | Inr None \<Rightarrow> (None, s)
      | Inr (Some rp) \<Rightarrow>
          (let arn = rp_DeadLetterTargetArn rp; dlqName = queueNameFromARN arn; dlqRegion = ARNRegion arn;
               reason = (\<lambda>m. ''Value '' @ arn @ '' for parameter deadLetterTargetArn is invalid. Reason: '' @ m)
           in if rp_MaxReceiveCount rp < 1 \<or> 1000 < rp_MaxReceiveCount rp
              then (Some (invalid_redrive ''RedrivePolicy.maxReceiveCount must be between 1 and 1000''), s)
              else if arn = [] then (Some (invalid_redrive ''RedrivePolicy.deadLetterTargetArn must not be empty''), s)
              else if dlqName = [] then (Some (invalid_redrive ''RedrivePolicy.deadLetterTargetArn is not a valid SQS ARN''), s)
              else if dlqRegion \<noteq> [] \<and> dlqRegion \<noteq> env_region E
              then (Some (invalid_redrive (reason ''Dead letter target is not in the same region as the source queue.'')), s)
              else (case getQueue E dlqName s of
                 (Inl _, s') \<Rightarrow> (Some (invalid_redrive (reason ''Dead letter queue does not exist.'')), s')
               | (Inr _, s') \<Rightarrow> (None, s'))))"

section \<open>Operations\<close>

record createQueueRequest =
  cq_QueueName :: string
  cq_Attributes :: "string gomap"
  cq_Tags :: "string gomap"

definition unix_seconds :: "int \<Rightarrow> int" where
  "unix_seconds t = t div 1000000000"

text \<open>The attributes of the queue a request creates.\<close>

definition created_attributes :: "createQueueRequest \<Rightarrow> string gomap" where
  "created_attributes inp =
     (let isFifo = HasSuffix (cq_QueueName inp) ''.fifo'' \<or> map_str (cq_Attributes inp) ''FifoQueue'' = ''true'';
          attrs = map_copy (cq_Attributes inp) defaultQueueAttributes
      in if \<not> isFifo then attrs
         else (let attrs' = map_put ''FifoQueue'' ''true'' attrs in
               if map_of attrs' ''ContentBasedDeduplication'' = None
               then map_put ''ContentBasedDeduplication'' ''false'' attrs' else attrs'))"

definition created_queue :: "('s, 'b) sqs_env \<Rightarrow> int \<Rightarrow> createQueueRequest \<Rightarrow> Queue" where
  "created_queue E now inp =
     \<lparr>q_Name = cq_QueueName inp, q_URL = canonicalQueueURL E (cq_QueueName inp),
      q_ARN = QueueARN (env_region E) (env_AccountID E) (cq_QueueName inp), q_Attributes = created_attributes inp,
      q_CreatedTimestamp = unix_seconds now, q_LastModifiedTimestamp = unix_seconds now, q_Tags = cq_Tags inp\<rparr>"

definition check_create :: "createQueueRequest \<Rightarrow> AWSError option" where
  "check_create inp =
     (if cq_QueueName inp = [] then Some (ErrMissingParameter ''QueueName'')
      else case QueueName (cq_QueueName inp) of
        Some err \<Rightarrow> Some err
      | None \<Rightarrow>
          if map_str (cq_Attributes inp) ''FifoQueue'' = ''true'' \<and> \<not> HasSuffix (cq_QueueName inp) ''.fifo''
          then Some (bad_request ''InvalidParameterValue'' ''The queue name must end in .fifo for FIFO queues.'')
          else None)"

definition createQueueTyped ::
  "go_lib \<Rightarrow> ('s, 'b) sqs_env \<Rightarrow> int \<Rightarrow> createQueueRequest \<Rightarrow> ('s, 'b) sqs_state \<Rightarrow> string aws \<times> ('s, 'b) sqs_state"
where
  "createQueueTyped L E now inp s =
     (case check_create inp of
        Some err \<Rightarrow> (Inl err, s)
      | None \<Rightarrow>
          (case getQueue E (cq_QueueName inp) s of
             (Inr existing, s1) \<Rightarrow>
               (case filter (\<lambda>(k, v). map_str (q_Attributes existing) k \<noteq> v) (gl_order L (cq_Attributes inp)) of
                  (k, v) # _ \<Rightarrow> (Inl (errQueueNameExists k), s1)
                | [] \<Rightarrow> (Inr (queueURL E (q_Name existing)), s1))
           | (Inl _, s1) \<Rightarrow>
               (case validateRequestedQueueAttributes (gl_order L (cq_Attributes inp)) queueAttributeCreate of
                  Some err \<Rightarrow> (Inl err, s1)
                | None \<Rightarrow>
                    (case validateQueueAttributes L (created_attributes inp) of
                       Some err \<Rightarrow> (Inl err, s1)
                     | None \<Rightarrow>
                         (case validateRedrivePolicyContext L E (created_attributes inp) s1 of
                            (Some err, s2) \<Rightarrow> (Inl err, s2)
                          | (None, s2) \<Rightarrow>
                              (case putQueue E (created_queue E now inp) s2 of
                                 (Inl err, s3) \<Rightarrow> (Inl err, s3)
                               | (Inr _, s3) \<Rightarrow>
                                   (Inr (queueURL E (cq_QueueName inp)), emit [SQSQueueCreated (cq_QueueName inp)] s3)))))))"

definition getQueueURLTyped :: "('s, 'b) sqs_env \<Rightarrow> string \<Rightarrow> ('s, 'b) sqs_state \<Rightarrow> string aws \<times> ('s, 'b) sqs_state" where
  "getQueueURLTyped E name s =
     (if name = [] then (Inl (ErrMissingParameter ''QueueName''), s)
      else apfst (map_sum id (\<lambda>q. queueURL E (q_Name q))) (getQueue E name s))"

text \<open>The attributes computed per request.\<close>

definition derived_attributes :: "Queue \<Rightarrow> messageCounts \<Rightarrow> string gomap" where
  "derived_attributes q counts =
     map_put ''LastModifiedTimestamp'' (show_int (LastModified q))
     (map_put ''CreatedTimestamp'' (show_int (q_CreatedTimestamp q))
     (map_put ''QueueArn'' (q_ARN q)
     (map_put ''ApproximateNumberOfMessagesDelayed'' (show_int (mc_Delayed counts))
     (map_put ''ApproximateNumberOfMessagesNotVisible'' (show_int (NotVisible counts))
     (map_put ''ApproximateNumberOfMessages'' (show_int (mc_Visible counts)) (q_Attributes q))))))"

definition getQueueAttributesTyped ::
  "('s, 'b) sqs_env \<Rightarrow> int \<Rightarrow> string \<Rightarrow> string list \<Rightarrow> ('s, 'b) sqs_state \<Rightarrow> string gomap aws \<times> ('s, 'b) sqs_state"
where
  "getQueueAttributesTyped E now queueUrl names s =
     (case validateQueueAttributeNames names of
        Some err \<Rightarrow> (Inl err, s)
      | None \<Rightarrow>
          (let queueName = queueNameFromURL queueUrl in
           case getQueue E queueName s of
             (Inl err, s1) \<Rightarrow> (Inl err, s1)
           | (Inr q, s1) \<Rightarrow>
               (case countMessages E queueName now s1 of
                  Inl err \<Rightarrow> (Inl err, s1)
                | Inr counts \<Rightarrow>
                    (let attrs = derived_attributes q counts in
                     (Inr (if names \<noteq> [] \<and> ''All'' \<notin> set names
                           then fold (\<lambda>name out. select_name attrs name out) names []
                           else attrs), s1)))))"

definition setQueueAttributesTyped ::
  "go_lib \<Rightarrow> ('s, 'b) sqs_env \<Rightarrow> int \<Rightarrow> string \<Rightarrow> string gomap \<Rightarrow> ('s, 'b) sqs_state \<Rightarrow> unit aws \<times> ('s, 'b) sqs_state"
where
  "setQueueAttributesTyped L E now queueUrl inAttrs s =
     (case getQueue E (queueNameFromURL queueUrl) s of
        (Inl err, s1) \<Rightarrow> (Inl err, s1)
      | (Inr q, s1) \<Rightarrow>
          (let attrs = map_copy inAttrs (q_Attributes q) in
           case validateRequestedQueueAttributes (gl_order L inAttrs) queueAttributeSet of
             Some err \<Rightarrow> (Inl err, s1)
           | None \<Rightarrow>
               (case validateQueueAttributes L attrs of
                  Some err \<Rightarrow> (Inl err, s1)
                | None \<Rightarrow>
                    (case validateRedrivePolicyContext L E attrs s1 of
                       (Some err, s2) \<Rightarrow> (Inl err, s2)
                     | (None, s2) \<Rightarrow>
                         putQueue E (q\<lparr>q_Attributes := attrs, q_LastModifiedTimestamp := unix_seconds now\<rparr>) s2))))"

definition deleteQueueTyped :: "('s, 'b) sqs_env \<Rightarrow> string \<Rightarrow> ('s, 'b) sqs_state \<Rightarrow> unit aws \<times> ('s, 'b) sqs_state" where
  "deleteQueueTyped E queueUrl s =
     (let queueName = queueNameFromURL queueUrl in
      case deleteQueue E queueName s of
        (Inl err, s') \<Rightarrow> (Inl err, s')
      | (Inr _, s') \<Rightarrow> (Inr (), emit [SQSQueueDeleted queueName] s'))"

definition maxListResults :: int where
  "maxListResults = 1000"

text \<open>
  With the cap of 1000 the slice of \<open>Paginate\<close> cannot panic on a list that fits in memory
  (\<open>capped_page_no_panic\<close>), so the result of that case is never seen.
\<close>

definition paginateQueueURLs :: "string list \<Rightarrow> int option \<Rightarrow> string \<Rightarrow> (string list \<times> string) aws" where
  "paginateQueueURLs urls maxResults nextToken =
     (case (case maxResults of
              None \<Rightarrow> Inr 0
            | Some n \<Rightarrow>
                if n < 1 \<or> maxListResults < n
                then Inl (bad_request ''InvalidParameterValue''
                  (''Value '' @ show_int n @ '' for parameter MaxResults is invalid. Reason: MaxResults must be an integer between 1 and 1000.''))
                else Inr n) of
        Inl err \<Rightarrow> Inl err
      | Inr n \<Rightarrow>
          (case Paginate (sort urls) n nextToken \<lparr>po_DefaultLimit = maxListResults, po_MaxLimit = maxListResults\<rparr> of
             InvalidToken \<Rightarrow> Inl (bad_request ''InvalidParameterValue''
               ''Value for parameter NextToken is invalid. Reason: the token is not valid.'')
           | PageOf page \<Rightarrow> Inr (pg_Items page, if maxResults = None then [] else pg_NextToken page)
           | SlicePanic \<Rightarrow> Inl ErrInternalError))"

lemma capped_page_no_panic:
  assumes "0 < po_MaxLimit opts" "int (length items) + po_MaxLimit opts \<le> 9223372036854775807"
  shows "Paginate items n tok opts \<noteq> SlicePanic"
proof -
  have l: "page_limit n opts \<le> po_MaxLimit opts" using assms(1) by (simp add: page_limit_def Let_def)
  have w: "wrap64 (i + page_limit n opts) = i + page_limit n opts" if "0 \<le> i" "i \<le> int (length items)" for i
    using that l assms page_limit_pos [of n opts] by (intro wrap64_id) linarith+
  have "\<not> i + page_limit n opts < i" for i using page_limit_pos [of n opts] by simp
  moreover have "wrap64 (page_limit n opts) = page_limit n opts" using w [of 0] by simp
  ultimately show ?thesis
    using w page_limit_pos [of n opts] by (auto simp: Paginate_def Let_def split: option.splits if_split_asm)
qed

definition listQueuesTyped ::
  "('s, 'b) sqs_env \<Rightarrow> string \<Rightarrow> int option \<Rightarrow> string \<Rightarrow> ('s, 'b) sqs_state \<Rightarrow> (string list \<times> string) aws \<times> ('s, 'b) sqs_state"
where
  "listQueuesTyped E p maxResults nextToken s =
     (case listQueues E p s of
        (Inl err, s') \<Rightarrow> (Inl err, s')
      | (Inr queues, s') \<Rightarrow> (paginateQueueURLs (map (\<lambda>q. queueURL E (q_Name q)) queues) maxResults nextToken, s'))"

definition listDeadLetterSourceQueuesTyped ::
  "('s, 'b) sqs_env \<Rightarrow> string \<Rightarrow> int option \<Rightarrow> string \<Rightarrow> ('s, 'b) sqs_state \<Rightarrow> (string list \<times> string) aws \<times> ('s, 'b) sqs_state"
where
  "listDeadLetterSourceQueuesTyped E queueUrl maxResults nextToken s =
     (if queueUrl = [] then (Inl (ErrMissingParameter ''QueueUrl''), s)
      else case getQueue E (queueNameFromURL queueUrl) s of
        (Inl err, s1) \<Rightarrow> (Inl err, s1)
      | (Inr dlq, s1) \<Rightarrow>
          (case listQueues E [] s1 of
             (Inl err, s2) \<Rightarrow> (Inl err, s2)
           | (Inr queues, s2) \<Rightarrow>
               (let sources = filter (\<lambda>q. case parseRedrivePolicy (q_Attributes q) of
                      Inr (Some rp) \<Rightarrow> rp_DeadLetterTargetArn rp = q_ARN dlq | _ \<Rightarrow> False) queues
                in (paginateQueueURLs (map (\<lambda>q. queueURL E (q_Name q)) sources) maxResults nextToken, s2))))"

definition purgeQueue :: "('s, 'b) sqs_env \<Rightarrow> int \<Rightarrow> string \<Rightarrow> ('s, 'b) sqs_state \<Rightarrow> unit aws \<times> ('s, 'b) sqs_state" where
  "purgeQueue E now queueName s =
     (case getQueue E queueName s of
        (Inl err, s1) \<Rightarrow> (Inl err, s1)
      | (Inr _, s1) \<Rightarrow>
          (case seq_call (startPurge E now queueName) (deleteMessagesByQueuePrefix E queueName) s1 of
             (Inl err, s2) \<Rightarrow> (Inl err, s2)
           | (Inr _, s2) \<Rightarrow> (Inr (), emit [SQSQueuePurged queueName] s2)))"

definition purgeQueueTyped :: "('s, 'b) sqs_env \<Rightarrow> int \<Rightarrow> string \<Rightarrow> ('s, 'b) sqs_state \<Rightarrow> unit aws \<times> ('s, 'b) sqs_state" where
  "purgeQueueTyped E now queueUrl s =
     (if queueUrl = [] then (Inl (ErrMissingParameter ''QueueUrl''), s)
      else purgeQueue E now (queueNameFromURL queueUrl) s)"

definition tagQueueTyped ::
  "('s, 'b) sqs_env \<Rightarrow> string \<Rightarrow> string gomap \<Rightarrow> ('s, 'b) sqs_state \<Rightarrow> unit aws \<times> ('s, 'b) sqs_state"
where
  "tagQueueTyped E queueUrl tags s =
     (case getQueue E (queueNameFromURL queueUrl) s of
        (Inl err, s1) \<Rightarrow> (Inl err, s1)
      | (Inr q, s1) \<Rightarrow> putQueue E (q\<lparr>q_Tags := map_copy tags (q_Tags q)\<rparr>) s1)"

definition untagQueueTyped ::
  "('s, 'b) sqs_env \<Rightarrow> string \<Rightarrow> string list \<Rightarrow> ('s, 'b) sqs_state \<Rightarrow> unit aws \<times> ('s, 'b) sqs_state"
where
  "untagQueueTyped E queueUrl keys s =
     (case getQueue E (queueNameFromURL queueUrl) s of
        (Inl err, s1) \<Rightarrow> (Inl err, s1)
      | (Inr q, s1) \<Rightarrow> putQueue E (q\<lparr>q_Tags := fold map_del keys (q_Tags q)\<rparr>) s1)"

definition listQueueTagsTyped ::
  "('s, 'b) sqs_env \<Rightarrow> string \<Rightarrow> ('s, 'b) sqs_state \<Rightarrow> string gomap aws \<times> ('s, 'b) sqs_state"
where
  "listQueueTagsTyped E queueUrl s = apfst (map_sum id q_Tags) (getQueue E (queueNameFromURL queueUrl) s)"

end
