(* ===== verification/Sqs_Admin.thy ===== *)
theory Sqs_Admin
  imports Sqs_Queue
begin

text \<open>
  The life of queues: what the queue operations store can be read back, stays within the
  validated ranges whatever sequence of operations runs, and is gone after a deletion or a
  purge.  The lemmas live in the locale \<open>sqs_service\<close>, the properties are those of the
  in-process service.
\<close>

section \<open>Queue records\<close>

definition int64_ok :: "int \<Rightarrow> bool" where
  "int64_ok i \<longleftrightarrow> - 9223372036854775808 \<le> i \<and> i \<le> 9223372036854775807"

definition clean_queue :: "Queue \<Rightarrow> bool" where
  "clean_queue q \<longleftrightarrow> valid_utf8 (q_Name q) \<and> valid_utf8 (q_URL q) \<and> valid_utf8 (q_ARN q)
     \<and> clean_strings (q_Attributes q) \<and> clean_strings (q_Tags q)
     \<and> int64_ok (q_CreatedTimestamp q) \<and> int64_ok (q_LastModifiedTimestamp q)"

lemma read_entries_strings:
  assumes "wf_map (acc @ m)" "list_all (\<lambda>(k, v). valid_utf8 k \<and> valid_utf8 v) m"
  shows "read_entries (map (\<lambda>(k, v). (to_valid k, show_jval v, read_jval v)) (map (\<lambda>(k, v). (k, VStr v)) m)) acc = Some (acc @ m)"
  using assms
proof (induction m arbitrary: acc)
  case (Cons p m)
  obtain k v where p: "p = (k, v)" by (cases p)
  have "\<forall>q \<in> set acc. fst q < k" using Cons.prems(1) p by (auto simp: wf_map_def sorted_wrt_append)
  then have "map_put k v acc = acc @ [(k, v)]" by (rule map_put_append)
  with Cons p show ?case by (simp add: to_valid_id read_string_def)
qed simp

lemma read_map_strings: "clean_strings m \<Longrightarrow> read_map (read_jval (strings_jval m)) [] = Some m"
  using read_entries_strings [of "[]" m] by (simp add: clean_strings_def read_map_def strings_jval_def)

lemma fits_strings: "d < maxNestingDepth \<Longrightarrow> fits d (strings_jval m)"
  by (simp add: strings_jval_def list_all_iff) auto

lemma fits_queue: "fits 0 (queue_jval q)"
proof -
  have "(0::int) + 1 < maxNestingDepth" by (simp add: maxNestingDepth_def)
  then show ?thesis using fits_strings [of 1] by (simp add: queue_jval_def)
qed

lemma EqualFold_queue_names:
  "\<not> EqualFold ''url'' ''name''" "\<not> EqualFold ''arn'' ''name''" "\<not> EqualFold ''attributes'' ''name''"
  "\<not> EqualFold ''created_timestamp'' ''name''" "\<not> EqualFold ''last_modified_timestamp'' ''name''" "\<not> EqualFold ''tags'' ''name''"
  "\<not> EqualFold ''arn'' ''url''" "\<not> EqualFold ''attributes'' ''url''" "\<not> EqualFold ''created_timestamp'' ''url''"
  "\<not> EqualFold ''last_modified_timestamp'' ''url''" "\<not> EqualFold ''tags'' ''url''"
  "\<not> EqualFold ''attributes'' ''arn''" "\<not> EqualFold ''created_timestamp'' ''arn''"
  "\<not> EqualFold ''last_modified_timestamp'' ''arn''" "\<not> EqualFold ''tags'' ''arn''"
  "\<not> EqualFold ''created_timestamp'' ''attributes''" "\<not> EqualFold ''last_modified_timestamp'' ''attributes''"
  "\<not> EqualFold ''tags'' ''attributes''" "\<not> EqualFold ''last_modified_timestamp'' ''created_timestamp''"
  "\<not> EqualFold ''tags'' ''created_timestamp''" "\<not> EqualFold ''tags'' ''last_modified_timestamp''"
  by code_simp+

lemma to_valid_queue_names:
  "to_valid ''name'' = ''name''" "to_valid ''url'' = ''url''" "to_valid ''arn'' = ''arn''"
  "to_valid ''attributes'' = ''attributes''" "to_valid ''created_timestamp'' = ''created_timestamp''"
  "to_valid ''last_modified_timestamp'' = ''last_modified_timestamp''" "to_valid ''tags'' = ''tags''"
  by code_simp+

lemma unmarshal_marshal_queue:
  assumes "clean_queue q"
  shows "unmarshal_queue (marshal_queue q) = Some q"
proof -
  have parse: "json_parse (marshal_queue q) = Some (read_jval (queue_jval q))"
    unfolding marshal_queue_def by (rule json_parse_show [OF fits_queue])
  have ints: "read_integer (JNum (show_int i)) old = Some i" if "int64_ok i" for i old
    using that Atoi_show_int [of i] by (simp add: read_integer_def int64_ok_def)
  have "read_map (read_jval (strings_jval (q_Attributes q))) [] = Some (q_Attributes q)"
    "read_map (read_jval (strings_jval (q_Tags q))) [] = Some (q_Tags q)"
    using assms by (simp_all add: read_map_strings clean_queue_def)
  with assms show ?thesis
    unfolding unmarshal_queue_def parse
    by (cases "q_LastModifiedTimestamp q = 0"; cases "q_Tags q = []")
      (simp_all add: clean_queue_def queue_jval_def read_struct_def read_queue_member_def EqualFold_queue_names EqualFold_refl
        to_valid_queue_names to_valid_id read_string_def ints zero_queue_def
        del: to_valid.simps show_jval.simps)
qed

text \<open>
  C34. A queue record survives its storage: decoding the JSON that \<open>putQueue\<close> writes gives the
  same queue back, with every attribute and tag, for all names and values that are valid
  UTF-8 and all 64-bit timestamps.
\<close>

theorem queue_record_roundtrip:
  assumes "clean_queue q"
  shows "unmarshal_queue (marshal_queue q) = Some q"
  using assms by (rule unmarshal_marshal_queue)

theorem queue_record_roundtrip_witness:
  "unmarshal_queue (marshal_queue fifo_queue) = Some fifo_queue"
  by (rule queue_record_roundtrip) code_simp

section \<open>What is validated\<close>

text \<open>
  Requests come from decoded JSON, so their strings are valid UTF-8 and their maps have
  distinct keys.
\<close>

definition env_urls_ok :: "('s, 'b) sqs_env \<Rightarrow> bool" where
  "env_urls_ok E \<longleftrightarrow> valid_utf8 (env_external E) \<and> valid_utf8 (env_AccountID E) \<and> valid_utf8 (env_region E)"

lemma utf8_width_append: "utf8_width (c # s) = Suc w \<Longrightarrow> utf8_width (c # s @ t) = Suc w"
  by (erule utf8_width_cases) (simp_all add: utf8_width_def byte_in_def Let_def)

lemma valid_utf8_append: "valid_utf8 s \<Longrightarrow> valid_utf8 t \<Longrightarrow> valid_utf8 (s @ t)"
proof (induction s rule: valid_utf8.induct)
  case (2 c s)
  then obtain w where w: "utf8_width (c # s) = Suc w" by (cases "utf8_width (c # s)") simp_all
  then have "w \<le> length s" using utf8_width_le [of "c # s"] by simp
  with 2 w utf8_width_append [OF w, of t] show ?case by simp
qed simp

lemma QueueName_ok:
  assumes "QueueName name = None"
  shows "valid_utf8 name" "CHR ''/'' \<notin> set name" "name \<noteq> []"
proof -
  have n: "list_all AlphaNumericHyphenUnderscorePeriod name" "name \<noteq> []"
    using assms by (auto simp: QueueName_def split: if_split_asm)
  have c: "(of_char c :: nat) < 128" if "AlphaNumericHyphenUnderscorePeriod c" for c
    using that by (auto simp: AlphaNumericHyphenUnderscorePeriod_def byte_in_def)
  show "valid_utf8 name" using n(1) c by (intro ascii_valid) (auto simp: list_all_iff)
  have "\<not> AlphaNumericHyphenUnderscorePeriod CHR ''/''" by code_simp
  then show "CHR ''/'' \<notin> set name" using n(1) by (auto simp: list_all_iff)
  show "name \<noteq> []" by (rule n(2))
qed

lemma clean_strings_copy:
  assumes "clean_strings dst" "list_all (\<lambda>(k, v). valid_utf8 k \<and> valid_utf8 v) src"
  shows "clean_strings (map_copy src dst)"
  using assms unfolding map_copy_def
proof (induction src arbitrary: dst)
  case (Cons p src)
  then show ?case by (cases p) simp
qed simp

lemma created_attributes_clean:
  assumes "clean_strings (cq_Attributes inp)"
  shows "clean_strings (created_attributes inp)"
proof -
  have "clean_strings defaultQueueAttributes" by code_simp
  then have "clean_strings (map_copy (cq_Attributes inp) defaultQueueAttributes)"
    using assms by (intro clean_strings_copy) (simp_all add: clean_strings_def)
  moreover have "valid_utf8 ''FifoQueue''" "valid_utf8 ''true''" "valid_utf8 ''ContentBasedDeduplication''" "valid_utf8 ''false''"
    by code_simp+
  ultimately show ?thesis by (simp add: created_attributes_def Let_def)
qed

lemma created_queue_clean:
  assumes "env_urls_ok E" "check_create inp = None" "clean_strings (cq_Attributes inp)" "clean_strings (cq_Tags inp)"
    and "int64_ok (unix_seconds now)"
  shows "clean_queue (created_queue E now inp)"
proof -
  have n: "QueueName (cq_QueueName inp) = None" using assms(2) by (auto simp: check_create_def split: if_split_asm option.splits)
  have "valid_utf8 ''/''" "valid_utf8 ''arn:aws:sqs:''" "valid_utf8 '':''" by code_simp+
  note v = this valid_utf8_append QueueName_ok(1) [OF n]
  have "valid_utf8 (canonicalQueueURL E (cq_QueueName inp))" "valid_utf8 (QueueARN (env_region E) (env_AccountID E) (cq_QueueName inp))"
    using assms(1) unfolding canonicalQueueURL_def QueueARN_def env_urls_ok_def by (blast intro: v)+
  then show ?thesis
    using assms v(5) created_attributes_clean [OF assms(3)] by (simp add: clean_queue_def created_queue_def)
qed

text \<open>The invariant of the stored queue records.\<close>

definition queue_valid :: "go_lib \<Rightarrow> Queue \<Rightarrow> bool" where
  "queue_valid L q \<longleftrightarrow> clean_queue q \<and> CHR ''/'' \<notin> set (q_Name q) \<and> validateQueueAttributes L (q_Attributes q) = None"

definition records_valid :: "go_lib \<Rightarrow> (string \<rightharpoonup> string) \<Rightarrow> bool" where
  "records_valid L m \<longleftrightarrow> (\<forall>k raw. m k = Some raw \<longrightarrow>
     (\<exists>q. raw = marshal_queue q \<and> queue_valid L q \<and> after_last CHR ''/'' k = q_Name q))"

lemma records_valid_read:
  "records_valid L m \<Longrightarrow> m k = Some raw \<Longrightarrow> unmarshal_queue raw = Some q
    \<Longrightarrow> queue_valid L q \<and> after_last CHR ''/'' k = q_Name q"
  using unmarshal_marshal_queue by (fastforce simp: records_valid_def queue_valid_def)

lemma after_last_RegionKey: "CHR ''/'' \<notin> set name \<Longrightarrow> after_last CHR ''/'' (RegionKey r name) = name"
proof -
  assume n: "CHR ''/'' \<notin> set name"
  then have tw: "takeWhile (\<lambda>x. x \<noteq> CHR ''/'') (rev name) = rev name" by (auto simp: takeWhile_eq_all_conv)
  show ?thesis using n by (simp add: after_last_def RegionKey_def takeWhile_append tw)
qed

lemma records_valid_put:
  "records_valid L m \<Longrightarrow> queue_valid L q \<Longrightarrow> records_valid L (m(RegionKey r (q_Name q) \<mapsto> marshal_queue q))"
  using after_last_RegionKey by (auto simp: records_valid_def queue_valid_def)

lemma records_valid_del: "records_valid L m \<Longrightarrow> records_valid L (m(k := None))"
  by (simp add: records_valid_def)

section \<open>The operations over the contracts of the stores\<close>

text \<open>
  \<open>queues_kept\<close>: a step that does not touch the queue records.  The extension \<open>sqs_admin\<close> adds
  the promise of the optional \<^verbatim>\<open>PrefixDeleter\<close>; a store without it is listed and emptied key
  by key, with the same effect.
\<close>

definition queues_kept ::
  "('s \<Rightarrow> contents) \<Rightarrow> ('s \<Rightarrow> bool) \<Rightarrow> ('s, 'b) sqs_state \<Rightarrow> ('s, 'b) sqs_state \<Rightarrow> bool"
where
  "queues_kept kview kinvar s s' \<longleftrightarrow> (kinvar (sq_kv s) \<longrightarrow>
     kinvar (sq_kv s') \<and> kview (sq_kv s') nsQueues = kview (sq_kv s) nsQueues)"

lemma queues_kept_refl [simp]: "queues_kept kview kinvar s s"
  by (simp add: queues_kept_def)

lemma queues_kept_trans: "queues_kept kview kinvar s t \<Longrightarrow> queues_kept kview kinvar t u \<Longrightarrow> queues_kept kview kinvar s u"
  by (simp add: queues_kept_def)

lemma queues_kept_same_kv: "sq_kv s' = sq_kv s \<Longrightarrow> queues_kept kview kinvar s s'"
  by (simp add: queues_kept_def)

text \<open>A step that only reads the generic store.\<close>

definition only_read ::
  "('s \<Rightarrow> contents) \<Rightarrow> ('s \<Rightarrow> bool) \<Rightarrow> ('s, 'b) sqs_state \<Rightarrow> ('s, 'b) sqs_state \<Rightarrow> bool"
where
  "only_read kview kinvar s s' \<longleftrightarrow> s' = s\<lparr>sq_kv := sq_kv s'\<rparr>
     \<and> (kinvar (sq_kv s) \<longrightarrow> kinvar (sq_kv s') \<and> kview (sq_kv s') = kview (sq_kv s))"

lemma only_read_refl [simp]: "only_read kview kinvar s s"
  by (simp add: only_read_def)

lemma only_read_trans: "only_read kview kinvar s t \<Longrightarrow> only_read kview kinvar t u \<Longrightarrow> only_read kview kinvar s u"
  by (cases s; cases t; cases u) (auto simp: only_read_def)

lemma only_read_kept: "only_read kview kinvar s t \<Longrightarrow> queues_kept kview kinvar s t"
  by (simp add: only_read_def queues_kept_def)

lemma mb_call_kv [simp]: "sq_kv (snd (mb_call f s)) = sq_kv s"
  by (auto simp: mb_call_def split: prod.splits sum.splits)

lemma emit_kv [simp]: "sq_kv (emit evs s) = sq_kv s" "sq_mb (emit evs s) = sq_mb s"
  by (simp_all add: emit_def)

lemma ns_distinct: "nsPurge \<noteq> nsQueues" "nsDedup \<noteq> nsQueues" "nsAttempts \<noteq> nsQueues"
    "nsDedup \<noteq> nsPurge" "nsAttempts \<noteq> nsPurge" "nsAttempts \<noteq> nsDedup"
  by (simp_all add: nsQueues_def nsPurge_def nsDedup_def nsAttempts_def)

locale sqs_admin = sqs_service kops kview kinvar mops view invar
  for kops :: "'s store_ops" and kview kinvar and mops :: "'b messageBackend" and view invar +
  assumes prefix_law: "kinvar kv \<Longrightarrow> st_DeletePrefix kops = Some del \<Longrightarrow>
    fst (del kv ns p) = Inr () \<and> kview (snd (del kv ns p)) = delete_prefix_spec (kview kv) ns p
    \<and> kinvar (snd (del kv ns p))"
begin

lemma kv_delete_spec:
  assumes "env_store E = kops" "kinvar (sq_kv s)"
  obtains kv where "kv_call (\<lambda>kv. st_Delete (env_store E) kv ns k) s = (Inr (), s\<lparr>sq_kv := kv\<rparr>)"
    "kview kv = delete_spec (kview (sq_kv s)) ns k" "kinvar kv"
  using kv.delete_law [OF assms(2), of ns k] assms(1) that
  by (cases "st_Delete kops (sq_kv s) ns k") (auto simp: kv_call_def)

lemma delete_keys_spec:
  "kinvar kv \<Longrightarrow> \<exists>kv'. Sqs_Store.delete_keys kops ns keys kv = (Inr (), kv') \<and> kinvar kv'
     \<and> kview kv' = (kview kv)(ns := (\<lambda>k. if k \<in> set keys then None else kview kv ns k))"
proof (induction keys arbitrary: kv)
  case (Cons key keys)
  obtain kv1 where d: "st_Delete kops kv ns key = (Inr (), kv1)" "kinvar kv1" "kview kv1 = delete_spec (kview kv) ns key"
    using kv.delete_law [OF Cons.prems, of ns key] by (cases "st_Delete kops kv ns key") auto
  obtain kv' where "Sqs_Store.delete_keys kops ns keys kv1 = (Inr (), kv')" "kinvar kv'"
      "kview kv' = (kview kv1)(ns := (\<lambda>k. if k \<in> set keys then None else kview kv1 ns k))"
    using Cons.IH [OF d(2)] by blast
  with d show ?case by (auto simp: delete_spec_def fun_eq_iff)
qed (auto simp: fun_upd_idem)

lemma deleteNamespacePrefix_spec:
  assumes "env_store E = kops" "kinvar (sq_kv s)"
  obtains kv where "deleteNamespacePrefix E ns p s = (Inr (), s\<lparr>sq_kv := kv\<rparr>)"
    "kview kv = delete_prefix_spec (kview (sq_kv s)) ns p" "kinvar kv"
proof (cases "st_DeletePrefix kops")
  case (Some del)
  then show thesis
    using prefix_law [OF assms(2) Some, of ns p] assms(1) that
    by (cases "del (sq_kv s) ns p") (auto simp: deleteNamespacePrefix_def kv_call_def)
next
  case None
  obtain xs kv1 where l: "scan_spec (kview (sq_kv s) ns) p xs" "st_List kops (sq_kv s) ns p = (Inr (map fst xs), kv1)"
      "kview kv1 = kview (sq_kv s)" "kinvar kv1"
    using kv.list_law [OF assms(2), of ns p] by (cases "st_List kops (sq_kv s) ns p") auto
  obtain kv2 where d: "Sqs_Store.delete_keys kops ns (map fst xs) kv1 = (Inr (), kv2)" "kinvar kv2"
      "kview kv2 = (kview kv1)(ns := (\<lambda>k. if k \<in> set (map fst xs) then None else kview kv1 ns k))"
    using delete_keys_spec [OF l(4)] by blast
  have "(k \<in> set (map fst xs)) = (HasPrefix k p \<and> kview (sq_kv s) ns k \<noteq> None)" for k
    using l(1) by (force simp: scan_spec_def)
  then have "kview kv2 = delete_prefix_spec (kview (sq_kv s)) ns p"
    using d(3) l(3) by (auto simp: delete_prefix_spec_def fun_eq_iff)
  moreover have "deleteNamespacePrefix E ns p s = (Inr (), s\<lparr>sq_kv := kv2\<rparr>)"
    using None l(2) d(1) assms(1) by (simp add: deleteNamespacePrefix_def kv_call_def)
  ultimately show thesis using that d(2) by blast
qed

lemma getQueue_reads:
  assumes "env_store E = kops"
  shows "only_read kview kinvar s (snd (getQueue E name s))"
proof (cases "kinvar (sq_kv s)")
  case True
  obtain kv where kv: "kv_call (\<lambda>kv. st_Get (env_store E) kv nsQueues (RegionKey (env_region E) name)) s
      = (Inr (get_spec (kview (sq_kv s)) nsQueues (RegionKey (env_region E) name)), s\<lparr>sq_kv := kv\<rparr>)"
      "kview kv = kview (sq_kv s)" "kinvar kv"
    by (rule kv_get_spec [OF assms True])
  have "snd (getQueue E name s) = s\<lparr>sq_kv := kv\<rparr>"
    unfolding getQueue_def kv(1)
    by (cases "get_spec (kview (sq_kv s)) nsQueues (RegionKey (env_region E) name)") (simp split: option.split)
  then show ?thesis using kv by (simp add: only_read_def)
next
  case False
  have "snd (getQueue E name s) = s\<lparr>sq_kv := sq_kv (snd (getQueue E name s))\<rparr>"
    by (simp add: getQueue_def kv_call_def split: prod.split sum.split option.split)
  with False show ?thesis by (simp add: only_read_def)
qed

lemma getQueue_found:
  assumes "env_store E = kops" "kinvar (sq_kv s)" "fst (getQueue E name s) = Inr q"
  obtains raw where "kview (sq_kv s) nsQueues (RegionKey (env_region E) name) = Some raw" "unmarshal_queue raw = Some q"
proof -
  obtain raw where "get_spec (kview (sq_kv s)) nsQueues (RegionKey (env_region E) name) = (raw, True)" "unmarshal_queue raw = Some q"
    by (rule getQueue_Inr [OF assms])
  then show thesis by (intro that) (simp_all add: get_spec_def split: option.split_asm)
qed

lemma putQueue_spec:
  assumes "env_store E = kops" "kinvar (sq_kv s)"
  obtains kv where "putQueue E q s = (Inr (), s\<lparr>sq_kv := kv\<rparr>)" "kinvar kv"
    "kview kv = set_spec (kview (sq_kv s)) nsQueues (RegionKey (env_region E) (q_Name q)) (marshal_queue q)"
proof -
  let ?k = "RegionKey (env_region E) (q_Name q)"
  obtain kv where "kv_call (\<lambda>kv. st_Set (env_store E) kv nsQueues ?k (marshal_queue q)) s = (Inr (), s\<lparr>sq_kv := kv\<rparr>)"
      "kview kv = set_spec (kview (sq_kv s)) nsQueues ?k (marshal_queue q)" "kinvar kv"
    by (rule kv_set_spec [OF assms])
  then show thesis by (intro that) (simp_all add: putQueue_def)
qed

lemma validateRedrivePolicyContext_reads:
  assumes "env_store E = kops"
  shows "only_read kview kinvar s (snd (validateRedrivePolicyContext L E attrs s))"
proof -
  have "snd (case getQueue E name s of (Inl _, s') \<Rightarrow> (Some e, s') | (Inr _, s') \<Rightarrow> (None, s')) = snd (getQueue E name s)" for name and e :: AWSError
    by (simp split: prod.split sum.split)
  with getQueue_reads [OF assms] show ?thesis
    unfolding validateRedrivePolicyContext_def Let_def by (simp split: sum.split option.split if_split)
qed

end

text \<open>Every operation keeps the stored queue records valid.\<close>

definition queues_inv ::
  "go_lib \<Rightarrow> ('s \<Rightarrow> contents) \<Rightarrow> ('s \<Rightarrow> bool) \<Rightarrow> ('s, 'b) sqs_state \<Rightarrow> bool"
where
  "queues_inv L kview kinvar s \<longleftrightarrow> kinvar (sq_kv s) \<and> records_valid L (kview (sq_kv s) nsQueues)"

lemma queues_inv_kept: "queues_inv L kview kinvar s \<Longrightarrow> queues_kept kview kinvar s s' \<Longrightarrow> queues_inv L kview kinvar s'"
  by (simp add: queues_inv_def queues_kept_def)

lemma queues_inv_emit [simp]: "queues_inv L kview kinvar (emit evs s) = queues_inv L kview kinvar s"
  by (simp add: queues_inv_def)

context sqs_admin
begin

lemma queues_inv_read: "queues_inv L kview kinvar s \<Longrightarrow> only_read kview kinvar s s' \<Longrightarrow> queues_inv L kview kinvar s'"
  by (rule queues_inv_kept [OF _ only_read_kept])

lemma getQueue_valid:
  assumes "env_store E = kops" "queues_inv L kview kinvar s" "fst (getQueue E name s) = Inr q"
  shows "queue_valid L q" "q_Name q = after_last CHR ''/'' (RegionKey (env_region E) name)"
proof -
  have i: "kinvar (sq_kv s)" "records_valid L (kview (sq_kv s) nsQueues)" using assms(2) by (simp_all add: queues_inv_def)
  obtain raw where "kview (sq_kv s) nsQueues (RegionKey (env_region E) name) = Some raw" "unmarshal_queue raw = Some q"
    by (rule getQueue_found [OF assms(1) i(1) assms(3)])
  from records_valid_read [OF i(2) this] show "queue_valid L q" "q_Name q = after_last CHR ''/'' (RegionKey (env_region E) name)"
    by simp_all
qed

lemma putQueue_inv:
  assumes "env_store E = kops" "queues_inv L kview kinvar s" "queue_valid L q"
  shows "queues_inv L kview kinvar (snd (putQueue E q s))" "fst (putQueue E q s) = Inr ()"
proof -
  have i: "kinvar (sq_kv s)" "records_valid L (kview (sq_kv s) nsQueues)" using assms(2) by (simp_all add: queues_inv_def)
  obtain kv where p: "putQueue E q s = (Inr (), s\<lparr>sq_kv := kv\<rparr>)" "kinvar kv"
      "kview kv = set_spec (kview (sq_kv s)) nsQueues (RegionKey (env_region E) (q_Name q)) (marshal_queue q)"
    by (rule putQueue_spec [OF assms(1) i(1)])
  with records_valid_put [OF i(2) assms(3), of "env_region E"]
  show "queues_inv L kview kinvar (snd (putQueue E q s))" "fst (putQueue E q s) = Inr ()"
    by (simp_all add: queues_inv_def set_spec_def)
qed

lemma createQueue_inv:
  assumes E: "env_store E = kops" "env_urls_ok E" and inv: "queues_inv L kview kinvar s"
    and req: "clean_strings (cq_Attributes inp)" "clean_strings (cq_Tags inp)" "int64_ok (unix_seconds now)"
  shows "queues_inv L kview kinvar (snd (createQueueTyped L E now inp s))"
proof (cases "check_create inp")
  case None
  then have nm: "QueueName (cq_QueueName inp) = None" by (auto simp: check_create_def split: if_split_asm option.splits)
  obtain x1 s1 where r1: "getQueue E (cq_QueueName inp) s = (x1, s1)" by (cases "getQueue E (cq_QueueName inp) s")
  have i1: "queues_inv L kview kinvar s1" using queues_inv_read [OF inv getQueue_reads [OF E(1)], of "cq_QueueName inp"] r1 by simp
  obtain x2 s2 where r2: "validateRedrivePolicyContext L E (created_attributes inp) s1 = (x2, s2)"
    by (cases "validateRedrivePolicyContext L E (created_attributes inp) s1")
  have i2: "queues_inv L kview kinvar s2"
    using queues_inv_read [OF i1 validateRedrivePolicyContext_reads [OF E(1)], of L "created_attributes inp"] r2 by simp
  have i3: "queues_inv L kview kinvar (snd (putQueue E (created_queue E now inp) s2))" if "validateQueueAttributes L (created_attributes inp) = None"
  proof (rule putQueue_inv(1) [OF E(1) i2])
    show "queue_valid L (created_queue E now inp)"
      using that created_queue_clean [OF E(2) None req] QueueName_ok(2) [OF nm] by (simp add: queue_valid_def created_queue_def)
  qed
  obtain x3 s3 where r3: "putQueue E (created_queue E now inp) s2 = (x3, s3)" by (cases "putQueue E (created_queue E now inp) s2")
  show ?thesis
    using i1 i2 i3 unfolding r3
    by (simp add: createQueueTyped_def None r1 r2 r3 split: sum.split option.split list.split prod.split)
qed (use inv in \<open>simp add: createQueueTyped_def\<close>)

lemma setQueueAttributes_inv:
  assumes E: "env_store E = kops" and inv: "queues_inv L kview kinvar s"
    and req: "clean_strings attrs" "int64_ok (unix_seconds now)"
  shows "queues_inv L kview kinvar (snd (setQueueAttributesTyped L E now url attrs s))"
proof -
  obtain x1 s1 where r1: "getQueue E (queueNameFromURL url) s = (x1, s1)" by (cases "getQueue E (queueNameFromURL url) s")
  have i1: "queues_inv L kview kinvar s1" using queues_inv_read [OF inv getQueue_reads [OF E], of "queueNameFromURL url"] r1 by simp
  show ?thesis
  proof (cases x1)
    case (Inr q)
    define attrs' where "attrs' = map_copy attrs (q_Attributes q)"
    have q: "queue_valid L q" using getQueue_valid(1) [OF E inv, of "queueNameFromURL url" q] r1 Inr by simp
    obtain x2 s2 where r2: "validateRedrivePolicyContext L E attrs' s1 = (x2, s2)" by (cases "validateRedrivePolicyContext L E attrs' s1")
    have i2: "queues_inv L kview kinvar s2"
      using queues_inv_read [OF i1 validateRedrivePolicyContext_reads [OF E], of L attrs'] r2 by simp
    have "clean_strings attrs'" unfolding attrs'_def
      using q req(1) by (intro clean_strings_copy) (simp_all add: queue_valid_def clean_queue_def clean_strings_def)
    then have "queue_valid L (q\<lparr>q_Attributes := attrs', q_LastModifiedTimestamp := unix_seconds now\<rparr>)"
      if "validateQueueAttributes L attrs' = None"
      using that q req(2) by (simp add: queue_valid_def clean_queue_def)
    then have i3: "queues_inv L kview kinvar (snd (putQueue E (q\<lparr>q_Attributes := attrs', q_LastModifiedTimestamp := unix_seconds now\<rparr>) s2))"
      if "validateQueueAttributes L attrs' = None"
      using that putQueue_inv(1) [OF E i2] by blast
    show ?thesis
      using i1 i2 i3
      by (simp add: setQueueAttributesTyped_def r1 Inr Let_def attrs'_def [symmetric] r2 split: option.split)
  qed (use i1 in \<open>simp add: setQueueAttributesTyped_def r1\<close>)
qed

lemma retag_inv:
  assumes E: "env_store E = kops" and inv: "queues_inv L kview kinvar s"
    and tags: "\<And>q. clean_strings (q_Tags q) \<Longrightarrow> clean_strings (f q)"
  shows "queues_inv L kview kinvar (snd (case getQueue E name s of
     (Inl err, s1) \<Rightarrow> (Inl err, s1) | (Inr q, s1) \<Rightarrow> putQueue E (q\<lparr>q_Tags := f q\<rparr>) s1))"
proof -
  obtain x1 s1 where r1: "getQueue E name s = (x1, s1)" by (cases "getQueue E name s")
  have i1: "queues_inv L kview kinvar s1" using queues_inv_read [OF inv getQueue_reads [OF E], of name] r1 by simp
  show ?thesis
  proof (cases x1)
    case (Inr q)
    have "queue_valid L (q\<lparr>q_Tags := f q\<rparr>)"
      using getQueue_valid(1) [OF E inv, of name q] r1 Inr tags [of q] by (simp add: queue_valid_def clean_queue_def)
    then show ?thesis using putQueue_inv(1) [OF E i1] by (simp add: r1 Inr)
  qed (use i1 in \<open>simp add: r1\<close>)
qed

end

section \<open>Deleting and purging\<close>

text \<open>What deleting a queue leaves in the generic store.\<close>

definition without_queue :: "contents \<Rightarrow> string \<Rightarrow> contents" where
  "without_queue c key =
     delete_prefix_spec (delete_prefix_spec (delete_spec (delete_spec c nsQueues key) nsPurge key)
       nsDedup (key @ ''/'')) nsAttempts (key @ ''/'')"

lemma without_queue_simps:
  "without_queue c key nsQueues = (c nsQueues)(key := None)"
  "without_queue c key nsPurge = (c nsPurge)(key := None)"
  "without_queue c key nsDedup k = (if HasPrefix k (key @ ''/'') then None else c nsDedup k)"
  "without_queue c key nsAttempts k = (if HasPrefix k (key @ ''/'') then None else c nsAttempts k)"
  using ns_distinct by (simp_all add: without_queue_def delete_prefix_spec_def delete_spec_def)

context sqs_admin
begin

lemma deleteQueue_kv:
  assumes E: "env_store E = kops" "kinvar (sq_kv s)"
  obtains kv where "deleteQueue E name s = deleteMessagesByQueuePrefix E name (s\<lparr>sq_kv := kv\<rparr>)" "kinvar kv"
    "kview kv = without_queue (kview (sq_kv s)) (RegionKey (env_region E) name)"
proof -
  let ?k = "RegionKey (env_region E) name"
  obtain kv1 where 1: "kv_call (\<lambda>kv. st_Delete (env_store E) kv nsQueues ?k) s = (Inr (), s\<lparr>sq_kv := kv1\<rparr>)"
      "kview kv1 = delete_spec (kview (sq_kv s)) nsQueues ?k" "kinvar kv1"
    by (rule kv_delete_spec [OF E])
  have i1: "kinvar (sq_kv (s\<lparr>sq_kv := kv1\<rparr>))" using 1(3) by simp
  obtain kv2 where 2: "kv_call (\<lambda>kv. st_Delete (env_store E) kv nsPurge ?k) (s\<lparr>sq_kv := kv1\<rparr>) = (Inr (), s\<lparr>sq_kv := kv1\<rparr>\<lparr>sq_kv := kv2\<rparr>)"
      "kview kv2 = delete_spec (kview (sq_kv (s\<lparr>sq_kv := kv1\<rparr>))) nsPurge ?k" "kinvar kv2"
    by (rule kv_delete_spec [OF E(1) i1])
  have i2: "kinvar (sq_kv (s\<lparr>sq_kv := kv2\<rparr>))" using 2(3) by simp
  obtain kv3 where 3: "deleteNamespacePrefix E nsDedup (?k @ ''/'') (s\<lparr>sq_kv := kv2\<rparr>) = (Inr (), s\<lparr>sq_kv := kv2\<rparr>\<lparr>sq_kv := kv3\<rparr>)"
      "kview kv3 = delete_prefix_spec (kview (sq_kv (s\<lparr>sq_kv := kv2\<rparr>))) nsDedup (?k @ ''/'')" "kinvar kv3"
    by (rule deleteNamespacePrefix_spec [OF E(1) i2])
  have i3: "kinvar (sq_kv (s\<lparr>sq_kv := kv3\<rparr>))" using 3(3) by simp
  obtain kv4 where 4: "deleteNamespacePrefix E nsAttempts (?k @ ''/'') (s\<lparr>sq_kv := kv3\<rparr>) = (Inr (), s\<lparr>sq_kv := kv3\<rparr>\<lparr>sq_kv := kv4\<rparr>)"
      "kview kv4 = delete_prefix_spec (kview (sq_kv (s\<lparr>sq_kv := kv3\<rparr>))) nsAttempts (?k @ ''/'')" "kinvar kv4"
    by (rule deleteNamespacePrefix_spec [OF E(1) i3])
  show thesis
  proof (rule that [of kv4])
    show "deleteQueue E name s = deleteMessagesByQueuePrefix E name (s\<lparr>sq_kv := kv4\<rparr>)"
      using 1(1) 2(1) 3(1) 4(1) by (simp add: deleteQueue_def Let_def seq_call_def)
    show "kview kv4 = without_queue (kview (sq_kv s)) ?k"
      using 1(2) 2(2) 3(2) 4(2) by (simp add: without_queue_def)
  qed (rule 4(3))
qed

lemma deleteMessages_spec:
  assumes "env_backend E = mops" "invar (sq_mb s)" "queue_ok name"
  obtains mb where "deleteMessagesByQueuePrefix E name s = (Inr (), s\<lparr>sq_mb := mb\<rparr>)" "invar mb"
    "view mb = (view (sq_mb s))((env_region E, name) := Map.empty)"
proof -
  have l: "fst (mb_deleteQueueMessages mops (sq_mb s) (env_region E) name) = Inr ()"
    "view (snd (mb_deleteQueueMessages mops (sq_mb s) (env_region E) name)) = (view (sq_mb s))((env_region E, name) := Map.empty)"
    "invar (snd (mb_deleteQueueMessages mops (sq_mb s) (env_region E) name))"
    using mb.deleteQueue_law [OF assms(2,3), of "env_region E"] by blast+
  then show thesis
    using that assms(1)
    by (cases "mb_deleteQueueMessages mops (sq_mb s) (env_region E) name")
      (simp add: deleteMessagesByQueuePrefix_def mb_call_def)
qed

lemma deleteQueue_inv:
  assumes "env_store E = kops" "queues_inv L kview kinvar s"
  shows "queues_inv L kview kinvar (snd (deleteQueueTyped E url s))"
proof -
  let ?n = "queueNameFromURL url"
  have i: "kinvar (sq_kv s)" "records_valid L (kview (sq_kv s) nsQueues)" using assms(2) by (simp_all add: queues_inv_def)
  obtain kv where d: "deleteQueue E ?n s = deleteMessagesByQueuePrefix E ?n (s\<lparr>sq_kv := kv\<rparr>)" "kinvar kv"
      "kview kv = without_queue (kview (sq_kv s)) (RegionKey (env_region E) ?n)"
    by (rule deleteQueue_kv [OF assms(1) i(1)])
  have "queues_inv L kview kinvar (s\<lparr>sq_kv := kv\<rparr>)"
    using d(2,3) records_valid_del [OF i(2)] by (simp add: queues_inv_def without_queue_simps)
  moreover have "sq_kv (snd (deleteQueue E ?n s)) = sq_kv (s\<lparr>sq_kv := kv\<rparr>)"
    unfolding d(1) deleteMessagesByQueuePrefix_def by (rule mb_call_kv)
  then have "sq_kv (snd (deleteQueueTyped E url s)) = sq_kv (s\<lparr>sq_kv := kv\<rparr>)"
    by (cases "deleteQueue E ?n s") (simp add: deleteQueueTyped_def Let_def split: sum.split)
  ultimately show ?thesis by (simp add: queues_inv_def)
qed

lemma deleteQueue_spec:
  assumes E: "env_store E = kops" "env_backend E = mops" and inv: "kinvar (sq_kv s)" "invar (sq_mb s)"
    and q: "queue_ok (queueNameFromURL url)"
  obtains s' where "deleteQueueTyped E url s = (Inr (), s')" "kinvar (sq_kv s')" "invar (sq_mb s')"
    "kview (sq_kv s') = without_queue (kview (sq_kv s)) (RegionKey (env_region E) (queueNameFromURL url))"
    "view (sq_mb s') = (view (sq_mb s))((env_region E, queueNameFromURL url) := Map.empty)"
proof -
  let ?n = "queueNameFromURL url"
  obtain kv where d: "deleteQueue E ?n s = deleteMessagesByQueuePrefix E ?n (s\<lparr>sq_kv := kv\<rparr>)" "kinvar kv"
      "kview kv = without_queue (kview (sq_kv s)) (RegionKey (env_region E) ?n)"
    by (rule deleteQueue_kv [OF E(1) inv(1)])
  have "invar (sq_mb (s\<lparr>sq_kv := kv\<rparr>))" using inv(2) by simp
  then obtain mb where m: "deleteMessagesByQueuePrefix E ?n (s\<lparr>sq_kv := kv\<rparr>) = (Inr (), s\<lparr>sq_kv := kv\<rparr>\<lparr>sq_mb := mb\<rparr>)"
      "invar mb" "view mb = (view (sq_mb (s\<lparr>sq_kv := kv\<rparr>)))((env_region E, ?n) := Map.empty)"
    by (rule deleteMessages_spec [OF E(2) _ q])
  show thesis
    by (rule that [of "emit [SQSQueueDeleted ?n] (s\<lparr>sq_kv := kv\<rparr>\<lparr>sq_mb := mb\<rparr>)"])
      (use d m in \<open>simp_all add: deleteQueueTyped_def Let_def\<close>)
qed

end

text \<open>The purge window of a queue is open.\<close>

definition purging :: "contents \<Rightarrow> string \<Rightarrow> int \<Rightarrow> bool" where
  "purging c key now \<longleftrightarrow>
     (case c nsPurge key of
        None \<Rightarrow> False
      | Some raw \<Rightarrow> (case Atoi raw of None \<Rightarrow> False | Some deadline \<Rightarrow> unix_milli now < deadline))"

context sqs_admin
begin

lemma startPurge_spec:
  assumes E: "env_store E = kops" "kinvar (sq_kv s)"
  obtains kv where "kinvar kv"
    "startPurge E now name s =
       (if purging (kview (sq_kv s)) (RegionKey (env_region E) name) now then Inl errPurgeQueueInProgress else Inr (), s\<lparr>sq_kv := kv\<rparr>)"
    "kview kv = (if purging (kview (sq_kv s)) (RegionKey (env_region E) name) now then kview (sq_kv s)
       else set_spec (kview (sq_kv s)) nsPurge (RegionKey (env_region E) name) (show_int (unix_milli (now + 60000000000))))"
proof -
  let ?k = "RegionKey (env_region E) name" and ?v = "show_int (unix_milli (now + 60000000000))"
  let ?p = "purging (kview (sq_kv s)) ?k now"
  obtain kv1 where 1: "kv_call (\<lambda>kv. st_Get (env_store E) kv nsPurge ?k) s
      = (Inr (get_spec (kview (sq_kv s)) nsPurge ?k), s\<lparr>sq_kv := kv1\<rparr>)" "kview kv1 = kview (sq_kv s)" "kinvar kv1"
    by (rule kv_get_spec [OF E])
  have i1: "kinvar (sq_kv (s\<lparr>sq_kv := kv1\<rparr>))" using 1(3) by simp
  obtain kv2 where 2: "kv_call (\<lambda>kv. st_Delete (env_store E) kv nsPurge ?k) (s\<lparr>sq_kv := kv1\<rparr>)
      = (Inr (), s\<lparr>sq_kv := kv1\<rparr>\<lparr>sq_kv := kv2\<rparr>)" "kview kv2 = delete_spec (kview (sq_kv (s\<lparr>sq_kv := kv1\<rparr>))) nsPurge ?k" "kinvar kv2"
    by (rule kv_delete_spec [OF E(1) i1])
  have pa: "\<exists>kv. purgeActive E now name s = (Inr ?p, s\<lparr>sq_kv := kv\<rparr>) \<and> kinvar kv
      \<and> kview kv \<in> {kview (sq_kv s)} \<union> (if ?p then {} else {delete_spec (kview (sq_kv s)) nsPurge ?k})"
  proof (cases "kview (sq_kv s) nsPurge ?k")
    case None
    with 1 show ?thesis by (intro exI [of _ kv1]) (simp add: purgeActive_def Let_def get_spec_def purging_def)
  next
    case (Some raw)
    with 1 2 show ?thesis
      by (intro exI [of _ "if ?p then kv1 else kv2"]) (simp add: purgeActive_def Let_def get_spec_def purging_def split: option.split)
  qed
  then obtain kv3 where 3: "purgeActive E now name s = (Inr ?p, s\<lparr>sq_kv := kv3\<rparr>)" "kinvar kv3"
      "kview kv3 \<in> {kview (sq_kv s)} \<union> (if ?p then {} else {delete_spec (kview (sq_kv s)) nsPurge ?k})" by blast
  show thesis
  proof (cases ?p)
    case True
    with 3 that [of kv3] show thesis by (simp add: startPurge_def)
  next
    case False
    have i3: "kinvar (sq_kv (s\<lparr>sq_kv := kv3\<rparr>))" using 3(2) by simp
    obtain kv4 where 4: "kv_call (\<lambda>kv. st_Set (env_store E) kv nsPurge ?k ?v) (s\<lparr>sq_kv := kv3\<rparr>)
        = (Inr (), s\<lparr>sq_kv := kv3\<rparr>\<lparr>sq_kv := kv4\<rparr>)" "kview kv4 = set_spec (kview (sq_kv (s\<lparr>sq_kv := kv3\<rparr>))) nsPurge ?k ?v" "kinvar kv4"
      by (rule kv_set_spec [OF E(1) i3])
    have "kview kv4 = set_spec (kview (sq_kv s)) nsPurge ?k ?v"
      using 4(2) 3(3) False by (auto simp: set_spec_def delete_spec_def)
    with 4 3(1) False that [of kv4] show thesis by (simp add: startPurge_def)
  qed
qed

lemma startPurge_kept: "env_store E = kops \<Longrightarrow> queues_kept kview kinvar s (snd (startPurge E now name s))"
proof (cases "kinvar (sq_kv s)")
  case True
  assume E: "env_store E = kops"
  obtain kv where "kinvar kv" "snd (startPurge E now name s) = s\<lparr>sq_kv := kv\<rparr>" "kview kv nsQueues = kview (sq_kv s) nsQueues"
    by (rule startPurge_spec [OF E True, of now name]) (use ns_distinct in \<open>simp add: set_spec_def split: if_split_asm\<close>)
  then show ?thesis by (simp add: queues_kept_def)
qed (simp add: queues_kept_def)

lemma purgeQueue_inv:
  assumes "env_store E = kops" "queues_inv L kview kinvar s"
  shows "queues_inv L kview kinvar (snd (purgeQueueTyped E now url s))"
proof -
  let ?n = "queueNameFromURL url"
  obtain x1 s1 where r1: "getQueue E ?n s = (x1, s1)" by (cases "getQueue E ?n s")
  have i1: "queues_inv L kview kinvar s1" using queues_inv_read [OF assms(2) getQueue_reads [OF assms(1)], of ?n] r1 by simp
  obtain x2 s2 where r2: "startPurge E now ?n s1 = (x2, s2)" by (cases "startPurge E now ?n s1")
  have i2: "queues_inv L kview kinvar s2" using queues_inv_kept [OF i1 startPurge_kept [OF assms(1)], of now ?n] r2 by simp
  obtain x3 s3 where r3: "deleteMessagesByQueuePrefix E ?n s2 = (x3, s3)" by (cases "deleteMessagesByQueuePrefix E ?n s2")
  have i3: "queues_inv L kview kinvar s3"
    using queues_inv_kept [OF i2 queues_kept_same_kv [of s3]] mb_call_kv [of _ s2] r3 by (metis deleteMessagesByQueuePrefix_def snd_conv)
  show ?thesis
    using assms(2) i1 i2 i3
    by (simp add: purgeQueueTyped_def purgeQueue_def seq_call_def r1 r2 r3 split: sum.split)
qed

lemma purgeQueue_spec:
  assumes E: "env_store E = kops" "env_backend E = mops" and inv: "kinvar (sq_kv s)" "invar (sq_mb s)"
    and q: "fst (getQueue E (queueNameFromURL url) s) = Inr q" "queue_ok (queueNameFromURL url)" "url \<noteq> []"
  obtains s' where "kinvar (sq_kv s')" "invar (sq_mb s')"
    "purgeQueueTyped E now url s =
       (if purging (kview (sq_kv s)) (RegionKey (env_region E) (queueNameFromURL url)) now then Inl errPurgeQueueInProgress else Inr (), s')"
    "if purging (kview (sq_kv s)) (RegionKey (env_region E) (queueNameFromURL url)) now
     then sq_mb s' = sq_mb s \<and> kview (sq_kv s') = kview (sq_kv s)
     else view (sq_mb s') = (view (sq_mb s))((env_region E, queueNameFromURL url) := Map.empty)
       \<and> kview (sq_kv s') = set_spec (kview (sq_kv s)) nsPurge (RegionKey (env_region E) (queueNameFromURL url))
           (show_int (unix_milli (now + 60000000000)))"
proof -
  let ?n = "queueNameFromURL url"
  let ?p = "purging (kview (sq_kv s)) (RegionKey (env_region E) ?n) now"
  define kv1 where "kv1 = sq_kv (snd (getQueue E ?n s))"
  have r1: "getQueue E ?n s = (Inr q, s\<lparr>sq_kv := kv1\<rparr>)" "kinvar kv1" "kview kv1 = kview (sq_kv s)"
    using getQueue_reads [OF E(1), of s ?n] q(1) inv(1) by (auto simp: only_read_def kv1_def intro: prod_eqI)
  have i1: "kinvar (sq_kv (s\<lparr>sq_kv := kv1\<rparr>))" using r1(2) by simp
  obtain kv2 where 2: "kinvar kv2" "startPurge E now ?n (s\<lparr>sq_kv := kv1\<rparr>) = (if ?p then Inl errPurgeQueueInProgress else Inr (), s\<lparr>sq_kv := kv2\<rparr>)"
      "kview kv2 = (if ?p then kview (sq_kv s) else set_spec (kview (sq_kv s)) nsPurge (RegionKey (env_region E) ?n)
         (show_int (unix_milli (now + 60000000000))))"
    by (rule startPurge_spec [OF E(1) i1, of now ?n]) (simp add: r1(3))
  show thesis
  proof (cases ?p)
    case True
    with 2 r1(1) q(3) inv(2) show thesis
      by (intro that [of "s\<lparr>sq_kv := kv2\<rparr>"]) (simp_all add: purgeQueueTyped_def purgeQueue_def seq_call_def)
  next
    case False
    have "invar (sq_mb (s\<lparr>sq_kv := kv2\<rparr>))" using inv(2) by simp
    then obtain mb where m: "deleteMessagesByQueuePrefix E ?n (s\<lparr>sq_kv := kv2\<rparr>) = (Inr (), s\<lparr>sq_kv := kv2\<rparr>\<lparr>sq_mb := mb\<rparr>)" "invar mb"
        "view mb = (view (sq_mb (s\<lparr>sq_kv := kv2\<rparr>)))((env_region E, ?n) := Map.empty)"
      by (rule deleteMessages_spec [OF E(2) _ q(2)])
    show thesis
      by (rule that [of "emit [SQSQueuePurged ?n] (s\<lparr>sq_kv := kv2\<rparr>\<lparr>sq_mb := mb\<rparr>)"])
        (use False 2 r1(1) q(3) m in \<open>simp_all add: purgeQueueTyped_def purgeQueue_def seq_call_def\<close>)
  qed
qed

end

end
