(* ===== verification/Sqs_Run.thy ===== *)
theory Sqs_Run
  imports Sqs_Admin
begin

text \<open>
  The service as a state machine: \<open>sqs_run\<close> relates the state before and after any sequence of
  requests, of every region, with the clock of each request arbitrary.  A long poll lets
  other requests run between its ticks.  The invariant of the queue records holds in every
  state reached from one where it holds, in particular from an empty service.
\<close>

section \<open>Message operations and the queue records\<close>

text \<open>What only the message backend sees leaves the generic store as it is.\<close>

lemma putMessage_kv [simp]: "sq_kv (snd (putMessage E name msg s)) = sq_kv s"
  by (simp add: putMessage_def)

lemma deleteMessage_kv [simp]: "sq_kv (snd (deleteMessage E name mid s)) = sq_kv s"
  by (simp add: deleteMessage_def)

lemma draw_uuid_kv [simp]: "sq_kv (snd (draw_uuid E s)) = sq_kv s"
  by (simp add: draw_uuid_def)

lemma encodeReceiptHandle_kv [simp]: "sq_kv (snd (encodeReceiptHandle E name mid s)) = sq_kv s"
  by (simp add: encodeReceiptHandle_def draw_uuid_def)

lemma new_message_kv [simp]: "sq_kv (snd (new_message E now name body va attrs mattrs s)) = sq_kv s"
  by (simp add: new_message_def encodeReceiptHandle_def draw_uuid_def Let_def)

lemma snd_eq: "f = (x, s') \<Longrightarrow> snd f = s'"
  by simp

lemma moveToDLQ_kv [simp]: "sq_kv (snd (moveToDLQ E now name q rp msg s)) = sq_kv s"
proof -
  let ?d = "queueNameFromARN (rp_DeadLetterTargetArn rp)"
  obtain m s1 where 1: "new_message E now ?d (msg_Body msg) now
      (map_put ''DeadLetterSourceQueueArn'' (q_ARN q) (fresh_attributes E now)) (msg_MessageAttributes msg) s = (m, s1)" by fastforce
  obtain r2 s2 where 2: "putMessage E ?d m s1 = (r2, s2)" by fastforce
  obtain r3 s3 where 3: "deleteMessage E name (msg_MessageID msg) s2 = (r3, s3)" by fastforce
  have "sq_kv s1 = sq_kv s" "sq_kv s2 = sq_kv s1" "sq_kv s3 = sq_kv s2"
    using new_message_kv putMessage_kv [of E ?d m s1] deleteMessage_kv [of E name "msg_MessageID msg" s2] 1 2 3 snd_eq by metis+
  then show ?thesis by (simp add: moveToDLQ_def 1 2 3 split: sum.split)
qed

lemma deliver_kv [simp]: "sq_kv (snd (deliver E now a msgs acc s)) = sq_kv s"
proof (induction msgs arbitrary: acc s)
  case Nil
  show ?case by (cases acc) simp
next
  case (Cons msg0 msgs)
  obtain received delivered where acc: "acc = (received, delivered)" by fastforce
  obtain h s1 where 1: "encodeReceiptHandle E (sa_queueName a) (msg_MessageID msg0) s = (h, s1)" by fastforce
  let ?msg = "mark_received now (sa_visibilityTimeout a) h msg0"
  obtain r2 s2 where 2: "putMessage E (sa_queueName a) ?msg s1 = (r2, s2)" by fastforce
  have kv: "sq_kv s1 = sq_kv s" "sq_kv s2 = sq_kv s"
    using encodeReceiptHandle_kv [of E "sa_queueName a" "msg_MessageID msg0" s] putMessage_kv [of E "sa_queueName a" ?msg s1] 1 2 by simp_all
  have mv: "sq_kv s3 = sq_kv s" if "moveToDLQ E now (sa_queueName a) (sa_queue a) rp ?msg s1 = (r3, s3)" for rp r3 s3
    using moveToDLQ_kv [of E now "sa_queueName a" "sa_queue a" rp ?msg s1] that kv(1) by simp
  show ?case
    by (simp add: acc 1 2 Let_def Cons.IH kv mv split: sum.split prod.split option.split)
qed

lemma select_rounds_kv [simp]: "sq_kv (snd (select_rounds E now a limit acc s)) = sq_kv s"
proof (induction E now a limit acc s rule: select_rounds.induct)
  case (1 E now a limit received delivered s)
  show ?case
  proof (cases "receiveCandidates E (sa_queueName a) now limit (sa_fifo a) s")
    case (Inr cs)
    obtain r s1 where d: "deliver E now a cs (received, delivered) s = (r, s1)" by fastforce
    have kv: "sq_kv s1 = sq_kv s" using deliver_kv [of E now a cs "(received, delivered)" s] d by simp
    show ?thesis
      using "1.IH" [OF Inr d [symmetric]] kv
      by (subst select_rounds.simps) (auto simp: Inr d split: sum.split prod.split)
  qed (simp add: select_rounds.simps)
qed

lemma selectVisibleMessages_kv [simp]: "sq_kv (snd (selectVisibleMessages E now name q n vt names mnames s)) = sq_kv s"
  by (simp add: selectVisibleMessages_def Let_def split: sum.split)

lemma replay_messages_kv [simp]: "sq_kv (snd (replay_messages E now name vt ns ms as received s)) = sq_kv s"
proof (induction as arbitrary: received s)
  case (Cons a as)
  show ?case
  proof (cases "getMessage E name (ram_MessageID a) s")
    case (Inr msg)
    obtain r s1 where p: "putMessage E name (msg\<lparr>msg_VisibleAfter := now + duration_seconds vt\<rparr>) s = (r, s1)" by fastforce
    have "sq_kv s1 = sq_kv s" using putMessage_kv [of E name "msg\<lparr>msg_VisibleAfter := now + duration_seconds vt\<rparr>" s] p by simp
    then show ?thesis by (simp add: Inr Let_def p Cons.IH split: sum.split)
  qed simp
qed simp

lemma send_entries_kv [simp]: "sq_kv (snd (send_entries E now name entries s)) = sq_kv s"
  by (induction entries arbitrary: s) (simp_all add: Let_def case_prod_beta)

lemma delete_entries_kv [simp]: "sq_kv (snd (delete_entries E name entries s)) = sq_kv s"
  by (induction entries arbitrary: s) (auto simp: Let_def case_prod_beta split: option.split)

lemma change_entry_kv [simp]: "sq_kv (snd (change_entry E now name entry s)) = sq_kv s"
proof -
  have "sq_kv (snd (case putMessage E name m s of (Inl err, s') \<Rightarrow> (f err, s') | (Inr _, s') \<Rightarrow> (y, s'))) = sq_kv s" for m f and y :: batch_result
    using putMessage_kv [of E name m s] by (cases "putMessage E name m s") (auto split: sum.split)
  then show ?thesis by (simp add: change_entry_def Let_def case_prod_beta split: option.split sum.split)
qed

lemma change_entries_kv [simp]: "sq_kv (snd (change_entries E now name entries s)) = sq_kv s"
  by (induction entries arbitrary: s) (simp_all add: Let_def case_prod_beta)

lemma receive_all_kv [simp]: "sq_kv (snd (receive_all E now name q rp n vt msgs out s)) = sq_kv s"
proof (induction msgs arbitrary: out s)
  case (Cons msg0 msgs)
  obtain h s1 where 1: "encodeReceiptHandle E name (msg_MessageID msg0) s = (h, s1)" by fastforce
  obtain r2 s2 where 2: "putMessage E name (mark_received now vt h msg0) s1 = (r2, s2)" by fastforce
  have "sq_kv s1 = sq_kv s" "sq_kv s2 = sq_kv s"
    using encodeReceiptHandle_kv [of E name "msg_MessageID msg0" s] putMessage_kv [of E name "mark_received now vt h msg0" s1] 1 2 by simp_all
  then show ?case by (simp add: 1 2 Let_def Cons.IH split: sum.split option.split)
qed simp

lemma DeleteMessages_kv [simp]: "sq_kv (DeleteMessages E name handles s) = sq_kv s"
  by (induction handles arbitrary: s) (auto split: option.split)

lemma EnqueueRaw_kv [simp]: "sq_kv (snd (EnqueueRaw E now name body s)) = sq_kv s"
  by (simp add: EnqueueRaw_def case_prod_beta)

section \<open>Requests\<close>

context sqs_admin
begin

abbreviation kept :: "('s, 'c) sqs_state \<Rightarrow> ('s, 'c) sqs_state \<Rightarrow> bool" where
  "kept \<equiv> queues_kept kview kinvar"

lemma getQueue_kept: "env_store E = kops \<Longrightarrow> getQueue E name s = (r, s') \<Longrightarrow> kept s s'"
  using only_read_kept [OF getQueue_reads, of E s name] by simp

lemma kv_get_kept: "env_store E = kops \<Longrightarrow> kept s (snd (kv_call (\<lambda>kv. st_Get (env_store E) kv ns k) s))"
  by (cases "kinvar (sq_kv s)", rule kv_get_spec [of E s ns k]) (auto simp: queues_kept_def)

lemma kv_set_kept: "env_store E = kops \<Longrightarrow> ns \<noteq> nsQueues \<Longrightarrow> kept s (snd (kv_call (\<lambda>kv. st_Set (env_store E) kv ns k v) s))"
  by (cases "kinvar (sq_kv s)", rule kv_set_spec [of E s ns k v]) (auto simp: queues_kept_def set_spec_def)

lemma kv_delete_kept: "env_store E = kops \<Longrightarrow> ns \<noteq> nsQueues \<Longrightarrow> kept s (snd (kv_call (\<lambda>kv. st_Delete (env_store E) kv ns k) s))"
  by (cases "kinvar (sq_kv s)", rule kv_delete_spec [of E s ns k]) (auto simp: queues_kept_def delete_spec_def)

lemma isDuplicate_kept: "env_store E = kops \<Longrightarrow> kept s (snd (isDuplicate E now name d s))"
  using kv_get_kept [of E s nsDedup "RegionKey (env_region E) (dedupKey name d)"]
  by (auto simp: isDuplicate_def split: prod.split sum.split option.split)

lemma recordDedup_kept: "env_store E = kops \<Longrightarrow> kept s (recordDedup E now name d s)"
  unfolding recordDedup_def by (rule kv_set_kept, assumption, rule ns_distinct)

lemma getReceiveAttempt_kept: "env_store E = kops \<Longrightarrow> kept s (snd (getReceiveAttempt E now name aid s))"
proof -
  assume E: "env_store E = kops"
  define key where "key = RegionKey (env_region E) (name @ ''/'' @ aid)"
  let ?k = key
  obtain r s1 where g: "kv_call (\<lambda>kv. st_Get (env_store E) kv nsAttempts ?k) s = (r, s1)" by fastforce
  have 1: "kept s s1" using kv_get_kept [OF E, of s nsAttempts ?k] g by simp
  have "kept s1 (snd (kv_call (\<lambda>kv. st_Delete (env_store E) kv nsAttempts ?k) s1))"
    by (rule kv_delete_kept [OF E]) (rule ns_distinct)
  then have 2: "kept s (snd (kv_call (\<lambda>kv. st_Delete (env_store E) kv nsAttempts ?k) s1))" by (rule queues_kept_trans [OF 1])
  from 1 2 show ?thesis
    unfolding getReceiveAttempt_def Let_def key_def [symmetric] g by (simp split: sum.split option.split prod.split)
qed

lemma putReceiveAttempt_kept: "env_store E = kops \<Longrightarrow> kept s (snd (putReceiveAttempt E name aid a s))"
  unfolding putReceiveAttempt_def by (rule kv_set_kept, assumption, rule ns_distinct)

lemma sendMessage_kept:
  assumes E: "env_store E = kops"
  shows "kept s (snd (sendMessageTyped E now inp s))"
proof -
  let ?n = "queueNameFromURL (sm_QueueUrl inp)"
  obtain r1 s1 where 1: "getQueue E ?n s = (r1, s1)" by fastforce
  have k1: "kept s s1" by (rule getQueue_kept [OF E 1])
  have st: "kept s (snd (store_sent E now ?n fifo d inp u))" if "kept s u" for fifo d u
    by (rule queues_kept_trans [OF that queues_kept_same_kv]) simp
  have du: "kept s (snd (draw_uuid E u))" if "kept s u" for u
    by (rule queues_kept_trans [OF that queues_kept_same_kv]) simp
  show ?thesis
  proof (cases r1)
    case (Inr q)
    obtain dup s2 where 2: "isDuplicate E now ?n (dedup_id E q inp) s1 = (dup, s2)" by fastforce
    have k2: "kept s s2" using queues_kept_trans [OF k1 isDuplicate_kept [OF E]] 2 snd_eq by metis
    have k3: "kept s (recordDedup E now ?n (dedup_id E q inp) s2)" by (rule queues_kept_trans [OF k2 recordDedup_kept [OF E]])
    obtain m s4 where 4: "draw_uuid E s2 = (m, s4)" by fastforce
    have k4: "kept s s4" using du [OF k2] 4 by simp
    show ?thesis
      by (cases dup) (simp_all add: sendMessageTyped_def Let_def 1 2 4 Inr k1 k4 st [OF k1] st [OF k3] split: option.split)
  qed (simp add: sendMessageTyped_def Let_def 1 k1 split: option.split)
qed

lemma poll_kept:
  assumes "\<And>t others u. (t, others) \<in> set ticks \<Longrightarrow> queues_inv L kview kinvar u \<Longrightarrow> queues_inv L kview kinvar (others u)"
    and "\<And>t u. sq_kv (snd (sel t u)) = sq_kv u" "queues_inv L kview kinvar s"
  shows "queues_inv L kview kinvar (snd (poll E sel t ticks s))"
  using assms(1,3)
proof (induction ticks arbitrary: s t)
  case (Cons p ticks)
  obtain now others where p: "p = (now, others)" by fastforce
  obtain r s1 where 1: "sel now (others s) = (r, s1)" by fastforce
  have "queues_inv L kview kinvar (others s)" using Cons.prems(1) [of now others s] Cons.prems(2) p by simp
  moreover have "sq_kv s1 = sq_kv (others s)" using assms(2) [of now "others s"] 1 by simp
  ultimately have "queues_inv L kview kinvar s1" by (simp add: queues_inv_def)
  then have "queues_inv L kview kinvar (snd (poll E sel now ticks s1))"
    by (rule Cons.IH [rotated]) (rule Cons.prems(1), auto)
  with \<open>queues_inv L kview kinvar s1\<close> show ?case by (simp add: p 1 split: sum.split)
qed simp

lemma same_kv_inv: "queues_inv L kview kinvar s \<Longrightarrow> sq_kv s' = sq_kv s \<Longrightarrow> queues_inv L kview kinvar s'"
  by (simp add: queues_inv_def)

lemma replayReceiveAttempt_inv:
  assumes "env_store E = kops" "queues_inv L kview kinvar s"
  shows "queues_inv L kview kinvar (snd (replayReceiveAttempt E now name aid vt ns ms s))"
proof -
  obtain r1 s1 where 1: "getReceiveAttempt E now name aid s = (r1, s1)" by fastforce
  have i1: "queues_inv L kview kinvar s1"
    using queues_inv_kept [OF assms(2) getReceiveAttempt_kept [OF assms(1)], of now name aid] 1 by simp
  then have "queues_inv L kview kinvar (snd (replay_messages E now name vt ns ms as [] s1))" for as
    by (rule same_kv_inv) simp
  with i1 show ?thesis by (simp add: replayReceiveAttempt_def 1 split: sum.split option.split)
qed

lemma receive_checked_inv:
  assumes E: "env_store E = kops" and inv: "queues_inv L kview kinvar s"
    and ticks: "\<And>t others u. (t, others) \<in> set ticks \<Longrightarrow> queues_inv L kview kinvar u \<Longrightarrow> queues_inv L kview kinvar (others u)"
  shows "queues_inv L kview kinvar (snd (receive_checked E now ticks name q n wait vt inp s))"
proof -
  let ?ns = "requestedSystemAttributeNames inp" and ?ms = "rq_MessageAttributeNames inp" and ?aid = "rq_ReceiveRequestAttemptId inp"
  let ?sel = "\<lambda>t. selectVisibleMessages E t name q n vt ?ns ?ms"
  obtain r1 s1 where 1: "(if isFifoQueue q \<and> ?aid \<noteq> [] then replayReceiveAttempt E now name ?aid vt ?ns ?ms s else (Inr None, s)) = (r1, s1)"
    by fastforce
  have i1: "queues_inv L kview kinvar s1"
    using replayReceiveAttempt_inv [OF E inv, of now name ?aid vt ?ns ?ms] inv 1 by (auto split: if_split_asm)
  obtain r2 s2 where 2: "(case ?sel now s1 of
        (Inl err, s2) \<Rightarrow> (Inl err, s2)
      | (Inr received, s2) \<Rightarrow> if received = [] \<and> 0 < wait then poll E ?sel now ticks s2 else (Inr (received, now), s2)) = (r2, s2)"
    by fastforce
  obtain r0 s0 where 0: "?sel now s1 = (r0, s0)" by fastforce
  have i0: "queues_inv L kview kinvar s0" using same_kv_inv [OF i1, of s0] selectVisibleMessages_kv [of E now name q n vt ?ns ?ms s1] 0 by simp
  have "queues_inv L kview kinvar (snd (poll E ?sel now ticks s0))"
    by (rule poll_kept [where ticks = ticks, OF _ _ i0]) (simp_all add: ticks)
  then have i2: "queues_inv L kview kinvar s2" using 2 i0 unfolding 0 by (auto split: sum.splits if_split_asm)
  have i3: "queues_inv L kview kinvar (snd (putReceiveAttempt E name ?aid a s2))" for a
    by (rule queues_inv_kept [OF i2 putReceiveAttempt_kept [OF E]])
  have p: "queues_inv L kview kinvar s3" if "putReceiveAttempt E name ?aid a s2 = (r3, s3)" for a r3 s3
    using i3 [of a] that by simp
  show ?thesis
    unfolding receive_checked_def Let_def 1
    by (simp add: 2 i1 i2 p split: sum.split option.split prod.split del: split_paired_All)
qed

lemma receiveMessage_inv:
  assumes E: "env_store E = kops" and inv: "queues_inv L kview kinvar s"
    and ticks: "\<And>t others u. (t, others) \<in> set ticks \<Longrightarrow> queues_inv L kview kinvar u \<Longrightarrow> queues_inv L kview kinvar (others u)"
  shows "queues_inv L kview kinvar (snd (receiveMessageTyped E now ticks inp s))"
proof -
  let ?n = "queueNameFromURL (rq_QueueUrl inp)"
  obtain r1 s1 where 1: "getQueue E ?n s = (r1, s1)" by fastforce
  have i1: "queues_inv L kview kinvar s1" by (rule queues_inv_kept [OF inv getQueue_kept [OF E 1]])
  have "queues_inv L kview kinvar (snd (receive_checked E now ticks ?n q n wait vt inp s1))" for q n wait vt
    by (rule receive_checked_inv [where ticks = ticks, OF E i1]) (rule ticks)
  then show ?thesis
    using i1 by (simp add: receiveMessageTyped_def Let_def 1 split: sum.split option.split)
qed

end

section \<open>The run of a service\<close>

text \<open>
  \<open>sqs_run L E\<close>: the requests of \<open>E\<close>'s stores.  Each names its own environment, hence its own
  region, over the same stores; \<open>now\<close> is free, so clocks may even run backwards.  The strings
  of a request that reach a queue record are valid UTF-8, as decoded JSON is.
\<close>

definition client :: "('s, 'b) sqs_env \<Rightarrow> ('s, 'b) sqs_env \<Rightarrow> bool" where
  "client E E' \<longleftrightarrow> env_store E' = env_store E \<and> env_backend E' = env_backend E \<and> env_urls_ok E'"

inductive sqs_run :: "go_lib \<Rightarrow> ('s, 'b) sqs_env \<Rightarrow> ('s, 'b) sqs_state \<Rightarrow> ('s, 'b) sqs_state \<Rightarrow> bool"
  for L :: go_lib and E :: "('s, 'b) sqs_env"
where
  start: "sqs_run L E s s"
| create: "sqs_run L E s t \<Longrightarrow> client E E' \<Longrightarrow> clean_strings (cq_Attributes inp) \<Longrightarrow> clean_strings (cq_Tags inp)
    \<Longrightarrow> int64_ok (unix_seconds now) \<Longrightarrow> sqs_run L E s (snd (createQueueTyped L E' now inp t))"
| set_attributes: "sqs_run L E s t \<Longrightarrow> client E E' \<Longrightarrow> clean_strings attrs \<Longrightarrow> int64_ok (unix_seconds now)
    \<Longrightarrow> sqs_run L E s (snd (setQueueAttributesTyped L E' now url attrs t))"
| tag: "sqs_run L E s t \<Longrightarrow> client E E' \<Longrightarrow> clean_strings tags \<Longrightarrow> sqs_run L E s (snd (tagQueueTyped E' url tags t))"
| untag: "sqs_run L E s t \<Longrightarrow> client E E' \<Longrightarrow> sqs_run L E s (snd (untagQueueTyped E' url keys t))"
| delete_queue: "sqs_run L E s t \<Longrightarrow> client E E' \<Longrightarrow> sqs_run L E s (snd (deleteQueueTyped E' url t))"
| purge: "sqs_run L E s t \<Longrightarrow> client E E' \<Longrightarrow> sqs_run L E s (snd (purgeQueueTyped E' now url t))"
| send: "sqs_run L E s t \<Longrightarrow> client E E' \<Longrightarrow> sqs_run L E s (snd (sendMessageTyped E' now sinp t))"
| send_batch: "sqs_run L E s t \<Longrightarrow> client E E' \<Longrightarrow> sqs_run L E s (snd (sendMessageBatchTyped E' now url entries t))"
| enqueue: "sqs_run L E s t \<Longrightarrow> client E E' \<Longrightarrow> sqs_run L E s (snd (EnqueueRaw E' now name body t))"
| receive: "sqs_run L E s t \<Longrightarrow> client E E' \<Longrightarrow> (\<And>n others u. (n, others) \<in> set ticks \<Longrightarrow> sqs_run L E u (others u))
    \<Longrightarrow> sqs_run L E s (snd (receiveMessageTyped E' now ticks rinp t))"
| receive_esm: "sqs_run L E s t \<Longrightarrow> client E E' \<Longrightarrow> sqs_run L E s (snd (ReceiveMessages E' now name n vt t))"
| delete: "sqs_run L E s t \<Longrightarrow> client E E' \<Longrightarrow> sqs_run L E s (snd (deleteMessageTyped E' url handle t))"
| delete_batch: "sqs_run L E s t \<Longrightarrow> client E E' \<Longrightarrow> sqs_run L E s (snd (deleteMessageBatchTyped E' url handles t))"
| delete_esm: "sqs_run L E s t \<Longrightarrow> client E E' \<Longrightarrow> sqs_run L E s (DeleteMessages E' name hs t)"
| change_visibility: "sqs_run L E s t \<Longrightarrow> client E E' \<Longrightarrow> sqs_run L E s (snd (changeMessageVisibilityTyped E' now url handle vt t))"
| change_batch: "sqs_run L E s t \<Longrightarrow> client E E' \<Longrightarrow> sqs_run L E s (snd (changeMessageVisibilityBatchTyped E' now url changes t))"
| redrive: "sqs_run L E s t \<Longrightarrow> client E E' \<Longrightarrow> sqs_run L E s (snd (startMessageMoveTaskTyped E' now src dst t))"

context sqs_admin
begin

lemma change_visibility_kv: "sq_kv (snd (changeMessageVisibilityTyped E now url handle vt s)) = sq_kv s"
  by (simp add: changeMessageVisibilityTyped_def split: option.split sum.split)

lemma deleteMessageTyped_kv: "sq_kv (snd (deleteMessageTyped E url handle s)) = sq_kv s"
proof -
  have "sq_kv s1 = sq_kv s" if "deleteMessage E name mid s = (r, s1)" for name mid r s1
    using deleteMessage_kv [of E name mid s] that by simp
  then show ?thesis by (simp add: deleteMessageTyped_def Let_def split: sum.split prod.split)
qed

lemma batches_kv:
  "sq_kv (snd (deleteMessageBatchTyped E url handles s)) = sq_kv s"
  "sq_kv (snd (changeMessageVisibilityBatchTyped E now url changes s)) = sq_kv s"
  by (simp_all add: deleteMessageBatchTyped_def changeMessageVisibilityBatchTyped_def split: option.split)

lemma sendMessageBatch_inv:
  assumes "env_store E = kops" "queues_inv L kview kinvar s"
  shows "queues_inv L kview kinvar (snd (sendMessageBatchTyped E now url entries s))"
proof -
  obtain r1 s1 where 1: "getQueue E (queueNameFromURL url) s = (r1, s1)" by fastforce
  have i1: "queues_inv L kview kinvar s1" by (rule queues_inv_kept [OF assms(2) getQueue_kept [OF assms(1) 1]])
  have "queues_inv L kview kinvar (snd (send_entries E now (queueNameFromURL url) entries s1))" by (rule same_kv_inv [OF i1]) simp
  with i1 assms(2) show ?thesis by (simp add: sendMessageBatchTyped_def Let_def 1 split: option.split sum.split)
qed

lemma ReceiveMessages_inv:
  assumes "env_store E = kops" "queues_inv L kview kinvar s"
  shows "queues_inv L kview kinvar (snd (ReceiveMessages E now name n vt s))"
proof -
  obtain r1 s1 where 1: "getQueue E name s = (r1, s1)" by fastforce
  have i1: "queues_inv L kview kinvar s1" by (rule queues_inv_kept [OF assms(2) getQueue_kept [OF assms(1) 1]])
  have "queues_inv L kview kinvar (snd (receive_all E now name q rp n vt msgs [] s1))" for q rp msgs by (rule same_kv_inv [OF i1]) simp
  with i1 assms(2) show ?thesis by (simp add: ReceiveMessages_def 1 split: sum.split)
qed

lemma move_messages_inv:
  assumes E: "env_store E = kops" and inv: "queues_inv L kview kinvar s"
  shows "queues_inv L kview kinvar (snd (move_messages E now dlq explicit msgs known s))"
  using inv
proof (induction msgs arbitrary: known s)
  case (Cons msg msgs)
  define dest where "dest = (if explicit = [] \<and> map_str (msg_Attributes msg) ''DeadLetterSourceQueueArn'' \<noteq> []
    then queueNameFromARN (map_str (msg_Attributes msg) ''DeadLetterSourceQueueArn'') else explicit)"
  obtain r1 s1 where 1: "(if dest \<in> set known then (Inr (), s)
      else (case getQueue E dest s of (Inl _, s1) \<Rightarrow> (Inl (errNoDestination dest), s1) | (Inr _, s1) \<Rightarrow> (Inr (), s1))) = (r1, s1)"
    by fastforce
  obtain m s2 where 2: "new_message E now dest (msg_Body msg) now (fresh_attributes E now) (msg_MessageAttributes msg) s1 = (m, s2)" by fastforce
  obtain r3 s3 where 3: "putMessage E dest m s2 = (r3, s3)" by fastforce
  obtain r4 s4 where 4: "deleteMessage E dlq (msg_MessageID msg) s3 = (r4, s4)" by fastforce
  have i1: "queues_inv L kview kinvar s1"
    using Cons.prems queues_inv_kept [OF Cons.prems getQueue_kept [OF E]] 1 by (auto split: if_split_asm prod.splits sum.splits)
  have kv: "sq_kv s2 = sq_kv s1" "sq_kv s3 = sq_kv s1" "sq_kv s4 = sq_kv s1"
    using new_message_kv [of E now dest "msg_Body msg" now "fresh_attributes E now" "msg_MessageAttributes msg" s1] 2
      putMessage_kv [of E dest m s2] 3 deleteMessage_kv [of E dlq "msg_MessageID msg" s3] 4 by simp_all
  note i = i1 same_kv_inv [OF i1 kv(2)] same_kv_inv [OF i1 kv(3)]
  show ?case
    using Cons.prems i Cons.IH [OF i(3)]
    by (simp add: dest_def [symmetric] 1 2 3 4 Let_def split: sum.split)
qed simp

lemma redrive_inv:
  assumes E: "env_store E = kops" and inv: "queues_inv L kview kinvar s"
  shows "queues_inv L kview kinvar (snd (startMessageMoveTaskTyped E now src dst s))"
proof -
  let ?d = "queueNameFromARN src" and ?x = "queueNameFromARN dst"
  obtain r1 s1 where 1: "getQueue E ?d s = (r1, s1)" by fastforce
  have i1: "queues_inv L kview kinvar s1" by (rule queues_inv_kept [OF inv getQueue_kept [OF E 1]])
  obtain r2 s2 where 2: "(if dst = [] then (Inr (), s1)
      else (case getQueue E ?x s1 of (Inl _, s2) \<Rightarrow> (Inl (errNoDestination ?x), s2) | (Inr _, s2) \<Rightarrow> (Inr (), s2))) = (r2, s2)"
    by fastforce
  have i2: "queues_inv L kview kinvar s2"
    using i1 queues_inv_kept [OF i1 getQueue_kept [OF E]] 2 by (auto split: if_split_asm prod.splits sum.splits)
  have i3: "queues_inv L kview kinvar s3" if "move_messages E now ?d ?x msgs [] s2 = (r3, s3)" for msgs r3 s3
    using move_messages_inv [OF E i2, of now ?d ?x msgs "[]"] that by simp
  have "queues_inv L kview kinvar (snd (draw_uuid E (emit evs s3)))" if "move_messages E now ?d ?x msgs [] s2 = (r3, s3)" for msgs r3 s3 evs
    by (rule same_kv_inv [OF i3 [OF that]]) simp
  note i = i1 i2 i3 inv this
  show ?thesis
  proof (cases r1)
    case (Inr q)
    show ?thesis
      unfolding startMessageMoveTaskTyped_def Let_def 1 Inr prod.case sum.case 2
      using i by (simp split: sum.split prod.split)
  qed (use i in \<open>simp add: startMessageMoveTaskTyped_def Let_def 1\<close>)
qed

lemma untag_clean: "clean_strings m \<Longrightarrow> clean_strings (fold map_del keys m)"
proof (induction keys arbitrary: m)
  case (Cons k keys)
  have "set (map_del k m) \<subseteq> set m" by (auto simp: map_del_def)
  then have "clean_strings (map_del k m)" using Cons.prems by (auto simp: clean_strings_def list_all_iff)
  then show ?case using Cons.IH by simp
qed simp

lemma run_inv:
  assumes "sqs_run L E s s'" "env_store E = kops" "queues_inv L kview kinvar s"
  shows "queues_inv L kview kinvar s'"
  using assms
proof (induction rule: sqs_run.induct)
  case (tag s t E' tags url)
  have "env_store E' = kops" "queues_inv L kview kinvar t" using tag by (simp_all add: client_def)
  then show ?case unfolding tagQueueTyped_def
    by (rule retag_inv) (rule clean_strings_copy, assumption, use tag.hyps(3) in \<open>simp add: clean_strings_def\<close>)
next
  case (untag s t E' url keys)
  have "env_store E' = kops" "queues_inv L kview kinvar t" using untag by (simp_all add: client_def)
  then show ?case unfolding untagQueueTyped_def by (rule retag_inv) (rule untag_clean)
next
  case (receive s t E' ticks now rinp)
  have "env_store E' = kops" "queues_inv L kview kinvar t" using receive by (simp_all add: client_def)
  then show ?case by (rule receiveMessage_inv) (use receive in blast)
next
  case (send s t E' now sinp)
  have E: "env_store E' = kops" and i: "queues_inv L kview kinvar t" using send by (simp_all add: client_def)
  show ?case by (rule queues_inv_kept [OF i sendMessage_kept [OF E]])
next
  case create
  show ?case by (rule createQueue_inv) (use create in \<open>simp_all add: client_def\<close>)
next
  case set_attributes
  show ?case by (rule setQueueAttributes_inv) (use set_attributes in \<open>simp_all add: client_def\<close>)
next
  case delete_queue
  show ?case by (rule deleteQueue_inv) (use delete_queue in \<open>simp_all add: client_def\<close>)
next
  case purge
  show ?case by (rule purgeQueue_inv) (use purge in \<open>simp_all add: client_def\<close>)
next
  case send_batch
  show ?case by (rule sendMessageBatch_inv) (use send_batch in \<open>simp_all add: client_def\<close>)
next
  case receive_esm
  show ?case by (rule ReceiveMessages_inv) (use receive_esm in \<open>simp_all add: client_def\<close>)
next
  case redrive
  show ?case by (rule redrive_inv) (use redrive in \<open>simp_all add: client_def\<close>)
next
  case enqueue
  show ?case by (rule same_kv_inv [OF enqueue.IH]) (use enqueue.prems in \<open>simp_all add: EnqueueRaw_kv\<close>)
next
  case delete
  show ?case by (rule same_kv_inv [OF delete.IH]) (use delete.prems in \<open>simp_all add: deleteMessageTyped_kv\<close>)
next
  case delete_batch
  show ?case by (rule same_kv_inv [OF delete_batch.IH]) (use delete_batch.prems in \<open>simp_all add: batches_kv(1)\<close>)
next
  case delete_esm
  show ?case by (rule same_kv_inv [OF delete_esm.IH]) (use delete_esm.prems in \<open>simp_all add: DeleteMessages_kv\<close>)
next
  case change_visibility
  show ?case by (rule same_kv_inv [OF change_visibility.IH]) (use change_visibility.prems in \<open>simp_all add: change_visibility_kv\<close>)
next
  case change_batch
  show ?case by (rule same_kv_inv [OF change_batch.IH]) (use change_batch.prems in \<open>simp_all add: batches_kv(2)\<close>)
qed

end

end
