(* ===== verification/Sqs_Lifecycle.thy ===== *)
theory Sqs_Lifecycle
  imports Sqs_Run
begin

text \<open>
  The properties of the queue operations for the service over the in-process stores:
  \<open>sqs_admin\<close> is interpreted on them, and each property is one of its lemmas or a few steps
  from them.
\<close>

section \<open>Creating twice\<close>

lemma map_of_copy: "wf_map src \<Longrightarrow> map_of (map_copy src dst) k = (case map_of src k of None \<Rightarrow> map_of dst k | Some v \<Rightarrow> Some v)"
  unfolding map_copy_def
proof (induction src arbitrary: dst)
  case (Cons p src)
  obtain k' v' where p: "p = (k', v')" by (cases p)
  have "wf_map src" "map_of src k' = None"
    using Cons.prems p by (auto simp: wf_map_def map_of_eq_None_iff)
  then show ?case using Cons.IH [of "map_put k' v' dst"] p by (auto split: option.split)
qed simp

text \<open>
  A request whose \<^verbatim>\<open>FifoQueue\<close> attribute does not contradict the suffix of its name: the
  created queue has every attribute of the request.
\<close>

definition fifo_consistent :: "createQueueRequest \<Rightarrow> bool" where
  "fifo_consistent inp \<longleftrightarrow>
     (HasSuffix (cq_QueueName inp) ''.fifo'' \<longrightarrow> map_of (cq_Attributes inp) ''FifoQueue'' \<in> {None, Some ''true''})"

lemma created_attributes_of_request:
  assumes "wf_map (cq_Attributes inp)" "fifo_consistent inp" "(k, v) \<in> set (cq_Attributes inp)"
  shows "map_str (created_attributes inp) k = v"
proof -
  have m: "map_of (cq_Attributes inp) k = Some v"
    using assms(1,3) by (intro map_of_is_SomeI wf_map_distinct)
  have c: "map_of (map_copy (cq_Attributes inp) defaultQueueAttributes) k = Some v"
    using map_of_copy [OF assms(1), of defaultQueueAttributes k] m by simp
  have f: "v = ''true''" if "k = ''FifoQueue''" "HasSuffix (cq_QueueName inp) ''.fifo'' \<or> map_str (cq_Attributes inp) ''FifoQueue'' = ''true''"
    using that m assms(2) by (auto simp: fifo_consistent_def map_str_def)
  have "map_of (created_attributes inp) k = Some v"
    using c f by (auto simp: created_attributes_def Let_def)
  then show ?thesis by (simp add: map_str_def)
qed

lemma only_readD:
  "only_read kview kinvar s t \<Longrightarrow> kinvar (sq_kv s) \<Longrightarrow> kinvar (sq_kv t) \<and> kview (sq_kv t) = kview (sq_kv s) \<and> sq_mb t = sq_mb s"
  by (cases s; cases t) (simp add: only_read_def)

lemma first_error_None: "first_error es = None \<longleftrightarrow> list_all (\<lambda>e. e = None) es"
  by (induction es rule: first_error.induct) simp_all

lemma integer_attribute_bounds:
  "validateQueueIntegerAttribute attrs name lo hi = None \<Longrightarrow> lo \<le> d \<Longrightarrow> d \<le> hi
    \<Longrightarrow> lo \<le> ParseIntDefault (map_str attrs name) d \<and> ParseIntDefault (map_str attrs name) d \<le> hi"
  by (auto simp: validateQueueIntegerAttribute_def ParseIntDefault_def map_str_def split: option.splits if_split_asm)

context sqs_admin
begin

lemma getQueue_stored:
  assumes "env_store E = kops" "kinvar (sq_kv s)" "clean_queue q"
    and "kview (sq_kv s) nsQueues (RegionKey (env_region E) name) = Some (marshal_queue q)"
  obtains kv where "getQueue E name s = (Inr q, s\<lparr>sq_kv := kv\<rparr>)" "kview kv = kview (sq_kv s)" "kinvar kv"
proof -
  have "get_spec (kview (sq_kv s)) nsQueues (RegionKey (env_region E) name) = (marshal_queue q, True)"
    by (simp add: get_spec_def assms(4))
  from getQueue_spec [OF assms(1,2) this unmarshal_marshal_queue [OF assms(3)]] that show thesis by blast
qed

lemma getQueue_absent:
  assumes "env_store E = kops" "kinvar (sq_kv s)" "kview (sq_kv s) nsQueues (RegionKey (env_region E) name) = None"
  shows "fst (getQueue E name s) = Inl (errQueueNotFound name)"
proof -
  obtain kv where "kv_call (\<lambda>kv. st_Get (env_store E) kv nsQueues (RegionKey (env_region E) name)) s
      = (Inr (get_spec (kview (sq_kv s)) nsQueues (RegionKey (env_region E) name)), s\<lparr>sq_kv := kv\<rparr>)"
    by (rule kv_get_spec [OF assms(1,2)])
  then show ?thesis by (simp add: getQueue_def get_spec_def assms(3))
qed

lemma createQueue_spec:
  assumes E: "env_store E = kops" "env_urls_ok E" and inv: "kinvar (sq_kv s)"
    and new: "fst (getQueue E (cq_QueueName inp) s) = Inl err0"
    and created: "createQueueTyped L E now inp s = (Inr url, s')"
  shows "check_create inp = None" "url = queueURL E (cq_QueueName inp)" "kinvar (sq_kv s')" "sq_mb s' = sq_mb s"
    "kview (sq_kv s') = set_spec (kview (sq_kv s)) nsQueues (RegionKey (env_region E) (cq_QueueName inp)) (marshal_queue (created_queue E now inp))"
proof -
  have chk: "check_create inp = None" using created by (auto simp: createQueueTyped_def split: option.splits)
  obtain s1 where 1: "getQueue E (cq_QueueName inp) s = (Inl err0, s1)" using new by (cases "getQueue E (cq_QueueName inp) s") auto
  have k1: "kinvar (sq_kv s1)" "kview (sq_kv s1) = kview (sq_kv s)" "sq_mb s1 = sq_mb s"
    using only_readD [OF getQueue_reads [OF E(1), of s "cq_QueueName inp"] inv] 1 by simp_all
  obtain r2 s2 where 2: "validateRedrivePolicyContext L E (created_attributes inp) s1 = (r2, s2)" by fastforce
  have k2: "kinvar (sq_kv s2)" "kview (sq_kv s2) = kview (sq_kv s)" "sq_mb s2 = sq_mb s"
    using only_readD [OF validateRedrivePolicyContext_reads [OF E(1), of s1 L "created_attributes inp"] k1(1)] 2 k1 by simp_all
  obtain kv where p: "putQueue E (created_queue E now inp) s2 = (Inr (), s2\<lparr>sq_kv := kv\<rparr>)" "kinvar kv"
      "kview kv = set_spec (kview (sq_kv s2)) nsQueues (RegionKey (env_region E) (q_Name (created_queue E now inp))) (marshal_queue (created_queue E now inp))"
    by (rule putQueue_spec [OF E(1) k2(1)])
  have "url = queueURL E (cq_QueueName inp) \<and> s' = emit [SQSQueueCreated (cq_QueueName inp)] (s2\<lparr>sq_kv := kv\<rparr>)"
    using created by (auto simp: createQueueTyped_def chk 1 2 p(1) split: option.splits)
  then show "check_create inp = None" "url = queueURL E (cq_QueueName inp)" "kinvar (sq_kv s')" "sq_mb s' = sq_mb s"
    "kview (sq_kv s') = set_spec (kview (sq_kv s)) nsQueues (RegionKey (env_region E) (cq_QueueName inp)) (marshal_queue (created_queue E now inp))"
    using chk p(2,3) k2(2,3) by (simp_all add: created_queue_def)
qed

lemma createQueue_again:
  assumes E: "env_store E = kops" "env_urls_ok E" and inv: "kinvar (sq_kv s)"
    and req: "clean_strings (cq_Attributes inp)" "clean_strings (cq_Tags inp)" "int64_ok (unix_seconds now)" "fifo_consistent inp"
    and perm: "\<And>m. set (gl_order L m) = set m"
    and new: "fst (getQueue E (cq_QueueName inp) s) = Inl err0"
    and created: "createQueueTyped L E now inp s = (Inr url, s')"
  shows "fst (getQueue E (cq_QueueName inp) s') = Inr (created_queue E now inp)
    \<and> (\<exists>s''. createQueueTyped L E now' inp s' = (Inr url, s'') \<and> kview (sq_kv s'') = kview (sq_kv s') \<and> sq_mb s'' = sq_mb s')"
proof -
  note c = createQueue_spec [OF E inv new created]
  have q: "clean_queue (created_queue E now inp)" by (rule created_queue_clean [OF E(2) c(1) req(1-3)])
  have st: "kview (sq_kv s') nsQueues (RegionKey (env_region E) (cq_QueueName inp)) = Some (marshal_queue (created_queue E now inp))"
    by (simp add: c(5) set_spec_def)
  obtain kv where g: "getQueue E (cq_QueueName inp) s' = (Inr (created_queue E now inp), s'\<lparr>sq_kv := kv\<rparr>)" "kview kv = kview (sq_kv s')"
    by (rule getQueue_stored [OF E(1) c(3) q st])
  have "filter (\<lambda>(k, v). map_str (q_Attributes (created_queue E now inp)) k \<noteq> v) (gl_order L (cq_Attributes inp)) = []"
    using created_attributes_of_request [OF _ req(4)] req(1) perm [of "cq_Attributes inp"]
    by (auto simp: filter_empty_conv created_queue_def clean_strings_def)
  then have "createQueueTyped L E now' inp s' = (Inr url, s'\<lparr>sq_kv := kv\<rparr>)"
    using c(2) by (simp add: createQueueTyped_def c(1) g(1) created_queue_def)
  with g show ?thesis by simp
qed

end

section \<open>The in-process service\<close>

interpretation sqs_mem_admin: sqs_admin "mem_ops alist_bt" "mem_view alist_bt" mem_invar
    memMessageBackend_ops mem_messages_view mem_messages_invar
  by unfold_locales (auto simp: mem_ops_def alist.mem_DeletePrefix_spec)

text \<open>
  C30. In every state a service can reach from an empty store, through any sequence of requests
  of any regions, every queue that can be looked up has its own name and attributes that pass
  validation, so that the visibility timeout and the waiting time a receive takes from it
  when the request names none are within 0 to 43200 and 0 to 20 seconds.
\<close>

theorem queues_stay_valid:
  assumes "sqs_run L E s0 s" "env_store E = mem_ops alist_bt" "sq_kv s0 = NewMemoryStore"
    and "env_store E' = env_store E" "fst (getQueue E' name s) = Inr q" "CHR ''/'' \<notin> set name"
  shows "q_Name q = name \<and> validateQueueAttributes L (q_Attributes q) = None
    \<and> (\<exists>vt wait. receiveVisibilityTimeout None q = Inr vt \<and> 0 \<le> vt \<and> vt \<le> 43200
        \<and> receiveWaitTimeSeconds None q = Inr wait \<and> 0 \<le> wait \<and> wait \<le> 20)"
proof -
  have "queues_inv L (mem_view alist_bt) mem_invar s0"
    by (simp add: queues_inv_def assms(3) records_valid_def mem_view_def mem_invar_def NewMemoryStore_def)
  then have inv: "queues_inv L (mem_view alist_bt) mem_invar s" by (rule sqs_mem_admin.run_inv [OF assms(1,2)])
  have E': "env_store E' = mem_ops alist_bt" using assms(2,4) by simp
  note v = sqs_mem_admin.getQueue_valid [OF E' inv assms(5)]
  have ok: "validateQueueAttributes L (q_Attributes q) = None" using v(1) by (simp add: queue_valid_def)
  then have b: "validateQueueIntegerAttribute (q_Attributes q) ''VisibilityTimeout'' 0 43200 = None"
    "validateQueueIntegerAttribute (q_Attributes q) ''ReceiveMessageWaitTimeSeconds'' 0 20 = None"
    by (simp_all add: validateQueueAttributes_def Let_def first_error_None)
  have "0 \<le> ParseIntDefault (map_str (q_Attributes q) ''VisibilityTimeout'') 30
      \<and> ParseIntDefault (map_str (q_Attributes q) ''VisibilityTimeout'') 30 \<le> 43200"
    "0 \<le> ParseIntDefault (map_str (q_Attributes q) ''ReceiveMessageWaitTimeSeconds'') 0
      \<and> ParseIntDefault (map_str (q_Attributes q) ''ReceiveMessageWaitTimeSeconds'') 0 \<le> 20"
    using integer_attribute_bounds [OF b(1), of 30] integer_attribute_bounds [OF b(2), of 0] by simp_all
  with v(2) ok after_last_RegionKey [OF assms(6)] show ?thesis
    by (auto simp: receiveVisibilityTimeout_def receiveWaitTimeSeconds_def)
qed

text \<open>An empty service and a request for a FIFO queue with a visibility timeout of one minute.\<close>

definition sample_lib :: go_lib where
  "sample_lib = \<lparr>gl_order = (\<lambda>m. m), gl_json_error = (\<lambda>_. ''invalid''), gl_float_ok = (\<lambda>_. True)\<rparr>"

definition empty_state :: "(KV list memory_store, memMessageBackend) sqs_state" where
  "empty_state = \<lparr>sq_kv = NewMemoryStore, sq_mb = newMemMessageBackend, sq_seq = 0, sq_uuid = 0, sq_out = []\<rparr>"

definition sample_create :: createQueueRequest where
  "sample_create = \<lparr>cq_QueueName = ''a.fifo'', cq_Attributes = [(''VisibilityTimeout'', ''60'')], cq_Tags = []\<rparr>"

definition created_state :: "(KV list memory_store, memMessageBackend) sqs_state" where
  "created_state = snd (createQueueTyped sample_lib sample_env day_ns sample_create empty_state)"

lemma sample_create_ok:
  "clean_strings (cq_Attributes sample_create)" "clean_strings (cq_Tags sample_create)" "int64_ok (unix_seconds day_ns)"
  "env_urls_ok sample_env" "fifo_consistent sample_create" "mem_invar (sq_kv empty_state)"
proof -
  show "clean_strings (cq_Attributes sample_create)" "clean_strings (cq_Tags sample_create)" "int64_ok (unix_seconds day_ns)"
    "fifo_consistent sample_create"
    by code_simp+
  have "valid_utf8 ''http://localhost:4566''" "valid_utf8 ''000000000000''" "valid_utf8 ''eu''" by code_simp+
  then show "env_urls_ok sample_env" by (simp add: env_urls_ok_def sample_env_def)
  show "mem_invar (sq_kv empty_state)" by (simp add: empty_state_def mem_invar_def NewMemoryStore_def)
qed

lemma sample_created:
  "fst (createQueueTyped sample_lib sample_env day_ns sample_create empty_state)
   = Inr ''http://localhost:4566/000000000000/a.fifo''"
  "fst (getQueue sample_env ''a.fifo'' empty_state) = Inl (errQueueNotFound ''a.fifo'')"
  by code_simp+

lemma created_is: "createQueueTyped sample_lib sample_env day_ns sample_create empty_state
    = (Inr ''http://localhost:4566/000000000000/a.fifo'', created_state)"
  by (rule prod_eqI) (simp_all only: fst_conv snd_conv sample_created(1) created_state_def)

lemma sample_missing: "fst (getQueue sample_env (cq_QueueName sample_create) empty_state) = Inl (errQueueNotFound ''a.fifo'')"
  using sample_created(2) by (simp add: sample_create_def)

lemma created_found: "fst (getQueue sample_env ''a.fifo'' created_state) = Inr (created_queue sample_env day_ns sample_create)"
proof -
  have "set (gl_order sample_lib m) = set m" for m by (simp add: sample_lib_def)
  from sqs_mem_admin.createQueue_again [OF sample_env_ok(3) sample_create_ok(4,6,1,2,3,5) this sample_missing created_is]
  show ?thesis by (simp add: sample_create_def)
qed

theorem queues_stay_valid_witness:
  "q_Name (created_queue sample_env day_ns sample_create) = ''a.fifo''
   \<and> validateQueueAttributes sample_lib (created_attributes sample_create) = None"
proof -
  have "sqs_run sample_lib sample_env empty_state created_state"
    unfolding created_state_def
    by (rule sqs_run.create [OF sqs_run.start _ sample_create_ok(1-3)]) (simp add: client_def sample_create_ok(4))
  from queues_stay_valid [OF this sample_env_ok(3) _ refl created_found] show ?thesis
    by (simp add: empty_state_def created_queue_def)
qed

text \<open>
  C31. Creating a queue that does not exist yet, by a request whose strings are valid UTF-8 and
  whose \<^verbatim>\<open>FifoQueue\<close> attribute agrees with the \<^verbatim>\<open>.fifo\<close> suffix of the name
  (\<open>fifo_consistent\<close>), stores it and is idempotent: the queue can be looked up with exactly
  the attributes and tags of the request over the defaults, and the same request again, at
  any later time, answers with the same URL and changes neither the queue records nor the
  messages.  For a name with the suffix and \<^verbatim>\<open>FifoQueue=false\<close> the code refuses the second
  request.
\<close>

theorem create_queue_idempotent:
  assumes "env_store E = mem_ops alist_bt" "env_urls_ok E" "mem_invar (sq_kv s)"
    and "clean_strings (cq_Attributes inp)" "clean_strings (cq_Tags inp)" "int64_ok (unix_seconds now)" "fifo_consistent inp"
    and "\<And>m. set (gl_order L m) = set m"
    and "fst (getQueue E (cq_QueueName inp) s) = Inl err0" "createQueueTyped L E now inp s = (Inr url, s')"
  shows "fst (getQueue E (cq_QueueName inp) s') = Inr (created_queue E now inp)
    \<and> (\<exists>s''. createQueueTyped L E now' inp s' = (Inr url, s'')
        \<and> mem_view alist_bt (sq_kv s'') = mem_view alist_bt (sq_kv s') \<and> sq_mb s'' = sq_mb s')"
  using assms by (rule sqs_mem_admin.createQueue_again)

theorem create_queue_idempotent_witness:
  "fst (createQueueTyped sample_lib sample_env (2 * day_ns) sample_create created_state) = Inr ''http://localhost:4566/000000000000/a.fifo''"
proof -
  have "set (gl_order sample_lib m) = set m" for m by (simp add: sample_lib_def)
  from create_queue_idempotent [OF sample_env_ok(3) sample_create_ok(4,6,1,2,3,5) this sample_missing created_is, of "2 * day_ns"]
  show ?thesis by auto
qed

text \<open>
  C32. A purge empties its queue and leaves every other queue alone, and no second purge of the
  queue succeeds within 60 seconds: whatever messages came and went meanwhile,
  as long as the queue exists and no purge record has changed, it is refused
  with \<^verbatim>\<open>PurgeQueueInProgress\<close> and removes nothing.
\<close>

theorem purge_once_a_minute:
  assumes E: "env_store E = mem_ops alist_bt" "env_backend E = memMessageBackend_ops"
    and inv: "mem_invar (sq_kv s)" "mem_messages_invar (sq_mb s)" and url: "url \<noteq> []" "queue_ok (queueNameFromURL url)"
    and purge: "purgeQueueTyped E now url s = (Inr (), s')"
    and t: "milli_ok (now + 60000000000)" "unix_milli now' < unix_milli (now + 60000000000)"
    and between: "mem_invar (sq_kv u)" "mem_messages_invar (sq_mb u)" "fst (getQueue E (queueNameFromURL url) u) = Inr q"
      "mem_view alist_bt (sq_kv u) nsPurge = mem_view alist_bt (sq_kv s') nsPurge"
  shows "mem_messages_view (sq_mb s') = (mem_messages_view (sq_mb s))((env_region E, queueNameFromURL url) := Map.empty)
    \<and> (\<exists>u'. purgeQueueTyped E now' url u = (Inl errPurgeQueueInProgress, u') \<and> sq_mb u' = sq_mb u)"
proof -
  let ?n = "queueNameFromURL url" and ?c = "mem_view alist_bt (sq_kv s)"
  let ?k = "RegionKey (env_region E) ?n" and ?v = "show_int (unix_milli (now + 60000000000))"
  obtain q0 where q0: "fst (getQueue E ?n s) = Inr q0"
    using purge url(1) by (auto simp: purgeQueueTyped_def purgeQueue_def split: prod.splits sum.splits)
  have p: "\<not> purging ?c ?k now" "mem_messages_view (sq_mb s') = (mem_messages_view (sq_mb s))((env_region E, ?n) := Map.empty)"
    "mem_view alist_bt (sq_kv s') = set_spec ?c nsPurge ?k ?v"
    by (rule sqs_mem_admin.purgeQueue_spec [OF E inv q0 url(2,1), of now]; use purge in \<open>simp split: if_split_asm\<close>)+
  have "mem_view alist_bt (sq_kv u) nsPurge ?k = Some ?v" using between(4) p(3) by (simp add: set_spec_def)
  moreover have "Atoi ?v = Some (unix_milli (now + 60000000000))"
    using t(1) by (intro Atoi_show_int) (simp_all add: milli_ok_def)
  ultimately have "purging (mem_view alist_bt (sq_kv u)) ?k now'" using t(2) by (simp add: purging_def)
  then have "\<exists>u'. purgeQueueTyped E now' url u = (Inl errPurgeQueueInProgress, u') \<and> sq_mb u' = sq_mb u"
    by (rule_tac sqs_mem_admin.purgeQueue_spec [OF E between(1-3) url(2,1), of now']) auto
  with p(2) show ?thesis by blast
qed

definition jobs_url :: string where
  "jobs_url = ''http://localhost:4566/000000000000/jobs''"

definition purged_state :: "(KV list memory_store, memMessageBackend) sqs_state" where
  "purged_state = snd (purgeQueueTyped sample_env day_ns jobs_url sample_state)"

lemma jobs_url_ok: "jobs_url \<noteq> []" "queue_ok (queueNameFromURL jobs_url)" "queueNameFromURL jobs_url = ''jobs''"
  by code_simp+

lemma sample_purge:
  "purgeQueueTyped sample_env day_ns jobs_url sample_state = (Inr (), purged_state)"
  "fst (getQueue sample_env (queueNameFromURL jobs_url) sample_state) = Inr std_queue"
  "fst (getQueue sample_env (queueNameFromURL jobs_url) purged_state) = Inr std_queue"
proof -
  have "fst (purgeQueueTyped sample_env day_ns jobs_url sample_state) = Inr ()" by code_simp
  then show "purgeQueueTyped sample_env day_ns jobs_url sample_state = (Inr (), purged_state)"
    by (intro prod_eqI) (simp_all only: fst_conv snd_conv purged_state_def)
  show "fst (getQueue sample_env (queueNameFromURL jobs_url) sample_state) = Inr std_queue"
    "fst (getQueue sample_env (queueNameFromURL jobs_url) purged_state) = Inr std_queue"
    by code_simp+
qed

lemma purged_ok: "mem_invar (sq_kv purged_state)" "mem_messages_invar (sq_mb purged_state)"
proof -
  obtain s' where "mem_invar (sq_kv s')" "mem_messages_invar (sq_mb s')" "snd (purgeQueueTyped sample_env day_ns jobs_url sample_state) = s'"
    by (rule sqs_mem_admin.purgeQueue_spec [OF sample_env_ok(3,2) sample_state_ok(2,1) sample_purge(2) jobs_url_ok(2,1), of day_ns]) simp
  then show "mem_invar (sq_kv purged_state)" "mem_messages_invar (sq_mb purged_state)" by (simp_all add: purged_state_def)
qed

theorem purge_once_a_minute_witness:
  "\<exists>u'. purgeQueueTyped sample_env (day_ns + 59000000000) jobs_url purged_state = (Inl errPurgeQueueInProgress, u')
     \<and> sq_mb u' = sq_mb purged_state"
proof -
  have "milli_ok (day_ns + 60000000000)" "unix_milli (day_ns + 59000000000) < unix_milli (day_ns + 60000000000)" by code_simp+
  from purge_once_a_minute [OF sample_env_ok(3,2) sample_state_ok(2,1) jobs_url_ok(1,2) sample_purge(1) this purged_ok sample_purge(3) refl]
  show ?thesis by (rule conjunct2)
qed

text \<open>
  C33. Deleting a queue removes it with everything it had: it cannot be looked up, it has no
  messages, no purge window and none of its deduplication identifiers is remembered, while
  the records of the other queues and their messages stay.
\<close>

theorem deleted_queue_is_gone:
  assumes E: "env_store E = mem_ops alist_bt" "env_backend E = memMessageBackend_ops"
    and inv: "mem_invar (sq_kv s)" "mem_messages_invar (sq_mb s)" and q: "queue_ok (queueNameFromURL url)"
  shows "\<exists>s'. deleteQueueTyped E url s = (Inr (), s')
    \<and> fst (getQueue E (queueNameFromURL url) s') = Inl (errQueueNotFound (queueNameFromURL url))
    \<and> \<not> fst (isDuplicate E now (queueNameFromURL url) d s')
    \<and> \<not> purging (mem_view alist_bt (sq_kv s')) (RegionKey (env_region E) (queueNameFromURL url)) now
    \<and> mem_messages_view (sq_mb s') = (mem_messages_view (sq_mb s))((env_region E, queueNameFromURL url) := Map.empty)
    \<and> mem_view alist_bt (sq_kv s') nsQueues
        = (mem_view alist_bt (sq_kv s) nsQueues)(RegionKey (env_region E) (queueNameFromURL url) := None)"
proof -
  let ?n = "queueNameFromURL url"
  obtain s' where d: "deleteQueueTyped E url s = (Inr (), s')" "mem_invar (sq_kv s')"
      "mem_view alist_bt (sq_kv s') = without_queue (mem_view alist_bt (sq_kv s)) (RegionKey (env_region E) ?n)"
      "mem_messages_view (sq_mb s') = (mem_messages_view (sq_mb s))((env_region E, ?n) := Map.empty)"
    by (rule sqs_mem_admin.deleteQueue_spec [OF E inv q])
  have "mem_view alist_bt (sq_kv s') nsQueues (RegionKey (env_region E) ?n) = None" by (simp add: d(3) without_queue_simps)
  then have g: "fst (getQueue E ?n s') = Inl (errQueueNotFound ?n)" by (rule sqs_mem_admin.getQueue_absent [OF E(1) d(2)])
  have "HasPrefix (RegionKey (env_region E) (dedupKey ?n d)) (RegionKey (env_region E) ?n @ ''/'')"
    by (simp add: RegionKey_def dedupKey_def HasPrefix_def)
  then have "mem_view alist_bt (sq_kv s') nsDedup (RegionKey (env_region E) (dedupKey ?n d)) = None"
    by (simp add: d(3) without_queue_simps)
  then have dup: "\<not> fst (isDuplicate E now ?n d s')"
    by (rule_tac sqs_mem.isDuplicate_spec [OF E(1) d(2), of now ?n d]) (simp add: get_spec_def)
  have "\<not> purging (mem_view alist_bt (sq_kv s')) (RegionKey (env_region E) ?n) now"
    by (simp add: purging_def d(3) without_queue_simps)
  with d g dup show ?thesis by (simp add: without_queue_simps)
qed

theorem deleted_queue_is_gone_witness:
  "\<exists>s'. deleteQueueTyped sample_env jobs_url sample_state = (Inr (), s')
     \<and> fst (getQueue sample_env ''jobs'' s') = Inl (errQueueNotFound ''jobs'')"
  using deleted_queue_is_gone [OF sample_env_ok(3,2) sample_state_ok(2,1) jobs_url_ok(2)] unfolding jobs_url_ok(3) by blast

end
