(* ===== verification/Spec2Isabelle.thy ===== *)
theory Spec2Isabelle
  imports Ddb_Run Namespaced_Store Wal_Store Iam_Policy Cron_Zone Sqs_Sending Sqs_Lifecycle
begin

text \<open>
  Overcast: the storage layer, IAM policies, cron schedules, SQS and DynamoDB.

  Overcast is an emulator of AWS services in one Go process.  A request comes in over HTTP,
  is authorized by the IAM evaluator (\<^verbatim>\<open>internal/iampolicy\<close>), and reaches the handler of its
  service, which reads and writes records through the \<^verbatim>\<open>Store\<close> interface of
  \<^verbatim>\<open>internal/state\<close>; the hot data of two services, the messages of SQS and the items of
  DynamoDB, sits in backends of their own.  Schedules are read by \<^verbatim>\<open>internal/awscron\<close>.  This
  development models these parts from the source, operation by operation, with their
  errors, and proves what makes them correct.  Paths below are relative to
  \<^verbatim>\<open>src/internal\<close>; a definition has the name of the Go function it models where Isabelle
  allows it.

  \<^bold>\<open>How the code is rendered.\<close>  A struct is a record, a tagged union a datatype, a Go string a
  list of bytes (\<^typ>\<open>string\<close>), a Go map an association list with distinct keys
  (\<^verbatim>\<open>gomap\<close>) or, in specifications, a partial function.  A method takes the state of its
  receiver and returns its results with the state afterwards; an error is the left side of
  a sum.  Mathematical integers stand for Go's \<^verbatim>\<open>int\<close> and \<^verbatim>\<open>int64\<close> where no value can leave
  64 bits; where one can, the wrap-around is written out (\<open>wrap64\<close>), and bit sets are
  \<^verbatim>\<open>64 word\<close>.  Everything that is evaluated in a witness is executable.

  \<^bold>\<open>Theories, from the bottom up.\<close>

  \<^item> \<open>Prelude\<close>: Go's \<^verbatim>\<open>strings\<close> package as far as it is used, and the shared lemmas on prefixes
    and sorted keys.  Case folding and \<^verbatim>\<open>TrimSpace\<close> are modelled on ASCII.
  \<^item> \<open>Go_Json\<close>, \<open>Go_Codec\<close>: Go's JSON quoting, UTF-8 repair and parser, \<^verbatim>\<open>strconv\<close>, base64,
    RFC 3339 instants and their round trips; \<open>Civil_Time\<close>: the Gregorian calendar.
  \<^item> \<open>Store_Iface\<close> (\<^verbatim>\<open>state/store.go\<close>): the interface \<^verbatim>\<open>Store\<close> as a record of operations, the
    meaning of each operation on the contents of a store, the locale \<open>kv_store\<close> of the laws,
    and the page walk proved once inside it.
  \<^item> \<open>Memory_Store\<close> (\<^verbatim>\<open>state/memory.go\<close>): the in-memory store over an ordered map, which is a
    third-party B-tree in the code and the locale \<open>ordered_map\<close> here, with an interpretation on
    sorted association lists; it is a \<open>kv_store\<close> by a sublocale.
  \<^item> \<open>Namespaced_Store\<close> (\<^verbatim>\<open>state/namespaced.go\<close>): the dispatcher from namespaces to backends, over
    a heap of backends (\<open>store_family\<close>); again a \<open>kv_store\<close>.
  \<^item> \<open>Wal_Store\<close> (\<^verbatim>\<open>state/wal.go\<close>): the write-ahead log to the byte.  System calls take their
    outcomes from arguments; \<open>line_log\<close> is what replay needs from the encoding of an entry and
    is interpreted on the JSON encoder; \<open>wal_reach\<close> are the stores reached from an empty
    directory; \<open>recover_cut\<close> and \<open>recover_last_call\<close> say what a cut log replays to.
  \<^item> \<open>Iam_Match\<close>, \<open>Iam_Condition\<close>, \<open>Iam_Evaluate\<close>, \<open>Iam_Policy\<close> (\<^verbatim>\<open>iampolicy\<close>): wildcards and policy
    variables, condition operators, the decision and its explanation, and the decoding and
    validation of documents.  \<open>applicable\<close> and \<open>authorized\<close> are the declarative reading.
  \<^item> \<open>Aws_Cron\<close>, \<open>Cron_Next\<close>, \<open>Cron_Zone\<close> (\<^verbatim>\<open>awscron/cron.go\<close>): the parser; the walk on a wall clock
    with the proof that every jump moves forward and skips no firing; and the walk as the
    code has it, in a location, reduced to the former for locations with one offset.
  \<^item> \<open>Pagination\<close> (\<^verbatim>\<open>serviceutil/pagination.go\<close>): pages of a listing and their tokens.
  \<^item> \<open>Sqs_Message\<close>: the records and the message backend (\<^verbatim>\<open>services/sqs/store.go\<close>,
    \<^verbatim>\<open>message_backend.go\<close>) with its contract \<open>message_backend\<close>, which leaves the order of a
    listing open as Go's map iteration does; \<open>Sqs_Store\<close>: the service's view of both stores;
    \<open>Sqs_Handler\<close>, \<open>Sqs_Queue\<close>: every message and every queue operation (\<^verbatim>\<open>handler_message.go\<close>,
    \<^verbatim>\<open>handler_dlq.go\<close>, \<^verbatim>\<open>handler_queue.go\<close>); \<open>Sqs_Receive\<close>, \<open>Sqs_Select\<close>, \<open>Sqs_Delivery\<close>, \<open>Sqs_Send\<close>:
    what receiving and sending do, proved for any backend of the contract; \<open>Sqs_Service\<close>:
    both contracts together (\<open>sqs_service\<close>) and the properties of receiving; \<open>Sqs_Sending\<close>,
    \<open>Sqs_Admin\<close>, \<open>Sqs_Run\<close>, \<open>Sqs_Lifecycle\<close>: those of sending, of queues and of whole request
    sequences (\<open>sqs_run\<close>, \<open>sqs_admin\<close>).
  \<^item> \<open>Ddb_Number\<close> (\<^verbatim>\<open>services/dynamodb/numeric_encoding.go\<close>): number keys against the rational
    numbers they denote; \<open>Ddb_Table\<close>: descriptors, key schema and index rows
    (\<^verbatim>\<open>key_schema.go\<close>, \<^verbatim>\<open>index_maintenance.go\<close>); \<open>Ddb_Items\<close>: the in-process item backend
    (\<^verbatim>\<open>item_store.go\<close>) over its tree (\<open>item_tree\<close>); \<open>Ddb_Index\<close>, \<open>Ddb_Read\<close>: writes with index
    maintenance and partitions; \<open>Ddb_Handler\<close>: the requests (\<^verbatim>\<open>handler.go\<close>, \<^verbatim>\<open>handler_update.go\<close>,
    \<^verbatim>\<open>handler_transact.go\<close>); \<open>Ddb_Writes\<close>, \<open>Ddb_Tx\<close>: what one request does to the items;
    \<open>Ddb_Run\<close>: request histories (\<open>ddb_run\<close>) and the properties.

  \<^bold>\<open>How the parts meet.\<close>  Each interface of the code is a locale, and each locale is interpreted
  on the model of the code that provides it: \<open>ordered_map\<close>, \<open>item_tree\<close> (the trees), \<open>kv_store\<close>
  (memory, log, dispatcher), \<open>line_log\<close> (JSON entries), \<open>message_backend\<close> (in-process backend),
  \<open>sqs_service\<close> and \<open>sqs_admin\<close> (the service over in-memory stores).  Client lemmas are proved
  inside the locale, so the SQS results that need only the contracts hold for every lawful
  pair of backends.
\<close>

text \<open>
  \<^bold>\<open>What is shown.\<close>  The stores keep the contract of their interface; a page walk returns the
  listing.  The log store survives a crash at any byte with a prefix of its mutations, and a
  compaction is atomic.  The IAM decision is the declarative one: an explicit deny wins,
  a boundary caps, an unreadable boundary denies, and the explanation names the policy that
  denied; the wildcard matcher decides the declarative matching relation.  The cron search
  returns the first firing.  A receive of SQS delivers what one pass over the queue would,
  never a message whose timeout is running, and everything in the end; a FIFO queue keeps
  order, group locks and its deduplication window; queue attributes stay valid.  In
  DynamoDB the order of number keys is numeric, every index is exactly the projection of
  its table in every state that admissible requests reach, and batches and transactions
  are the list of their writes or nothing.

  \<^bold>\<open>Conditions that matter.\<close>  The theorems name the conditions under which the code has the
  property; where the code accepts more, a lemma beside the theorem shows what goes wrong.
  Crash consistency assumes a fresh directory, strings in valid UTF-8, that the system
  calls before the last mutation succeed, and that a rename is durable although the code
  never syncs the directory (\<open>wal_torn_tail_loses_next_write\<close> shows a second crash after a
  torn line; \<open>wal_concurrent_sets_diverge\<close> two overlapping writes).  \<open>Next\<close> is correct in
  locations with one offset (\<open>dst_gap_never_returns\<close> shows the walk that never ends where the
  clock is put forward).  Receives are judged on queues of at most
  \<open>maxCandidateFetchLimit\<close> = 5000 messages.  The DynamoDB invariant is about requests that
  write no NUL byte into a key, change no primary key by an update, give new indexes new
  names and sweep no table with indexes for expired items (\<open>admissible\<close>;
  \<open>sweep_leaves_index_row\<close>, \<open>failed_update_leaves_writes\<close>).

  \<^bold>\<open>Bounds and fuel.\<close>  Loops whose end is not structural carry a termination proof, or fuel
  with a lemma that the fuel given is enough: \<open>glob_loop\<close> (\<open>glob_loop_terminates\<close>),
  \<open>page_walk\<close> and \<open>walk_pages\<close> (one page more than there are entries), the rounds of a receive
  \<open>select_rounds\<close> (the fetch limit doubles up to 5000, and each round that goes on has grown
  it), \<open>last_weekday\<close> (three days, \<open>lastWeekdayOfMonth_last\<close>).  The cron walk in a location may
  run forever and is a partial function, \<^term>\<open>None\<close> being a walk that never returns.

  \<^bold>\<open>Parameters.\<close>  Code that is not in the repository is an argument: the B-trees, the time zone
  lookup, MD5, random identifiers and their freshness, the iteration order of maps, the
  texts of JSON errors, the reading of floats, timestamps and IP addresses.  The
  expression compiler of DynamoDB is an argument too (\<open>expr_engine\<close>): it is in the repository
  and not modelled.  A request sees one instant of the clock, and its store calls are not
  interleaved with those of other requests, except in \<open>wal_conc_step\<close>.

  \<^bold>\<open>Not modelled.\<close>  The SQL and tiered backends and their flush goroutines; in SQS the debug
  listing, the visibility watcher, metrics and the query protocol; in DynamoDB expressions,
  the Query and Scan handlers with their paging, streams, tags, billing and the settings of
  time to live; HTTP routing, signatures and wire codecs; generated service models; the
  container runtimes; CloudFormation; the MCP server and the web interface; the remaining
  services; the command line.
\<close>

end
